(* ===== verification/Prelude.thy ===== *)
theory Prelude
  imports Main "HOL-Library.Word" "HOL-Library.Multiset"
begin

text \<open>
  What every component shares: results as sums, Go's 64-bit integer range, decimal rendering and
  parsing of integers (\<open>strconv.FormatInt\<close>, \<open>strconv.Itoa\<close>, \<open>strconv.ParseInt\<close> in base 10), and
  the collections of rewrite rules the component theories add to.
\<close>

named_theorems podium_simps \<open>rewrite rules of the component models\<close>
named_theorems time_simps \<open>rewrite rules of the calendar\<close>
named_theorems json_simps \<open>rewrite rules of the JSON decoders\<close>

section \<open>Results\<close>

text \<open>A Go function that returns \<open>(T, error)\<close> returns \<open>'e + 'a\<close>: \<open>Inl\<close> is a non-nil error.\<close>

definition and_then :: "'e + 'a \<Rightarrow> ('a \<Rightarrow> 'e + 'b) \<Rightarrow> 'e + 'b" where
  "and_then r f = (case r of Inl e \<Rightarrow> Inl e | Inr x \<Rightarrow> f x)"

lemma and_then_simps [simp]:
  "and_then (Inl e) f = Inl e"
  "and_then (Inr x) f = f x"
  by (simp_all add: and_then_def)

lemma and_then_Inr:
  "and_then r f = Inr y \<longleftrightarrow> (\<exists>x. r = Inr x \<and> f x = Inr y)"
  by (cases r) simp_all

lemma and_then_Inl:
  "and_then r f = Inl e \<longleftrightarrow> r = Inl e \<or> (\<exists>x. r = Inr x \<and> f x = Inl e)"
  by (cases r) simp_all

definition map_error :: "('e \<Rightarrow> 'f) \<Rightarrow> 'e + 'a \<Rightarrow> 'f + 'a" where
  "map_error g r = (case r of Inl e \<Rightarrow> Inl (g e) | Inr x \<Rightarrow> Inr x)"

lemma map_error_simps [simp]:
  "map_error g (Inl e) = Inl (g e)"
  "map_error g (Inr x) = Inr x"
  by (simp_all add: map_error_def)

lemma map_error_Inr [simp]: "map_error g r = Inr x \<longleftrightarrow> r = Inr x"
  by (cases r) simp_all

definition of_option :: "'e \<Rightarrow> 'a option \<Rightarrow> 'e + 'a" where
  "of_option e x = (case x of None \<Rightarrow> Inl e | Some y \<Rightarrow> Inr y)"

lemma of_option_simps [simp]:
  "of_option e None = Inl e"
  "of_option e (Some x) = Inr x"
  by (simp_all add: of_option_def)

lemma of_option_Inr [simp]: "of_option e x = Inr y \<longleftrightarrow> x = Some y"
  by (cases x) simp_all

section \<open>Go integers\<close>

text \<open>
  Go's \<open>int\<close> and \<open>int64\<close> are 64 bits wide. Counters of the models are \<open>int\<close>; \<open>fits_int64\<close> says
  that a value is one a Go program can hold.
\<close>

definition fits_int64 :: "int \<Rightarrow> bool" where
  "fits_int64 n \<longleftrightarrow> - (2 ^ 63) \<le> n \<and> n < 2 ^ 63"

lemma fits_int64_sint [simp]: "fits_int64 (sint (w :: 64 word))"
  using sint_range_size [of w] by (simp add: fits_int64_def word_size)

text \<open>Go's integer division and remainder truncate towards zero.\<close>

definition go_quot :: "int \<Rightarrow> int \<Rightarrow> int" where
  "go_quot a b = sgn a * sgn b * (\<bar>a\<bar> div \<bar>b\<bar>)"

lemma go_quot_nonneg: "0 \<le> a \<Longrightarrow> 0 < b \<Longrightarrow> go_quot a b = a div b"
  by (cases "a = 0") (simp_all add: go_quot_def)

lemma go_quot_neg_le: "a < 0 \<Longrightarrow> 0 < b \<Longrightarrow> go_quot a b \<le> 0"
  by (simp add: go_quot_def pos_imp_zdiv_nonneg_iff)

section \<open>Decimal text\<close>

definition digit_char :: "nat \<Rightarrow> char" where
  "digit_char n = char_of (48 + n)"

definition digit_val :: "char \<Rightarrow> nat option" where
  "digit_val c = (let n = of_char c in if 48 \<le> n \<and> n \<le> 57 then Some (n - 48) else None)"

lemma digit_val_digit_char [simp]: "n < 10 \<Longrightarrow> digit_val (digit_char n) = Some n"
  by (simp add: digit_val_def digit_char_def Let_def)

lemma digit_char_inj: "m < 10 \<Longrightarrow> n < 10 \<Longrightarrow> digit_char m = digit_char n \<longleftrightarrow> m = n"
  by (metis digit_val_digit_char option.inject)

fun nat_digits :: "nat \<Rightarrow> string" where
  "nat_digits n =
     (if n < 10 then [digit_char n] else nat_digits (n div 10) @ [digit_char (n mod 10)])"

declare nat_digits.simps [simp del]

lemma nat_digits_nonempty [simp]: "nat_digits n \<noteq> []"
  by (subst nat_digits.simps) simp

definition itoa :: "int \<Rightarrow> string" where
  "itoa n = (if n < 0 then CHR ''-'' # nat_digits (nat (- n)) else nat_digits (nat n))"

fun parse_digits :: "nat \<Rightarrow> string \<Rightarrow> nat option" where
  "parse_digits acc [] = Some acc"
| "parse_digits acc (c # cs) =
     (case digit_val c of None \<Rightarrow> None | Some d \<Rightarrow> parse_digits (10 * acc + d) cs)"

definition parse_nat :: "string \<Rightarrow> nat option" where
  "parse_nat s = (if s = [] then None else parse_digits 0 s)"

text \<open>\<open>strconv.ParseInt(s, 10, 64)\<close>: an optional sign, at least one digit, in range.\<close>

definition parse_int64 :: "string \<Rightarrow> int option" where
  "parse_int64 s =
     (let (neg, body) =
        (case s of
           c # cs \<Rightarrow> if c = CHR ''-'' then (True, cs) else if c = CHR ''+'' then (False, cs) else (False, s)
         | [] \<Rightarrow> (False, s))
      in case parse_nat body of
           None \<Rightarrow> None
         | Some n \<Rightarrow> (let v = (if neg then - int n else int n) in if fits_int64 v then Some v else None))"

lemma parse_digits_append:
  "parse_digits acc (xs @ ys) =
     (case parse_digits acc xs of None \<Rightarrow> None | Some a \<Rightarrow> parse_digits a ys)"
  by (induction xs arbitrary: acc) (auto split: option.splits)

lemma parse_digits_nat_digits: "parse_digits 0 (nat_digits n) = Some n"
proof (induction n rule: nat_digits.induct)
  case (1 n)
  show ?case
  proof (cases "n < 10")
    case True
    then show ?thesis by (subst nat_digits.simps) simp
  next
    case False
    with 1 show ?thesis by (subst nat_digits.simps) (simp add: parse_digits_append)
  qed
qed

lemma parse_nat_nat_digits [simp]: "parse_nat (nat_digits n) = Some n"
  by (simp add: parse_nat_def parse_digits_nat_digits)

lemma nat_digits_inj: "nat_digits m = nat_digits n \<longleftrightarrow> m = n"
  by (metis parse_nat_nat_digits option.inject)

lemma nat_digits_digits: "c \<in> set (nat_digits n) \<Longrightarrow> \<exists>d < 10. c = digit_char d"
proof (induction n rule: nat_digits.induct)
  case (1 n)
  show ?case
  proof (cases "n < 10")
    case True
    with "1.prems" show ?thesis by (subst (asm) nat_digits.simps) auto
  next
    case False
    with "1.prems" have "c \<in> set (nat_digits (n div 10)) \<or> c = digit_char (n mod 10)"
      by (subst (asm) nat_digits.simps) auto
    moreover have "n mod 10 < 10" by simp
    ultimately show ?thesis using "1.IH" False by blast
  qed
qed

lemma digit_char_not_sign:
  assumes "d < 10"
  shows "digit_char d \<noteq> CHR ''-''" and "digit_char d \<noteq> CHR ''+''" and "digit_char d \<noteq> CHR '':''"
proof -
  have "digit_val (CHR ''-'') = None" "digit_val (CHR ''+'') = None" "digit_val (CHR '':'') = None"
    by (simp_all add: digit_val_def Let_def)
  with assms show "digit_char d \<noteq> CHR ''-''" "digit_char d \<noteq> CHR ''+''" "digit_char d \<noteq> CHR '':''"
    by (metis digit_val_digit_char option.distinct(1))+
qed

lemma parse_int64_minus:
  "parse_int64 (CHR ''-'' # s) =
     (case parse_nat s of None \<Rightarrow> None | Some n \<Rightarrow> if fits_int64 (- int n) then Some (- int n) else None)"
  unfolding parse_int64_def Let_def by (simp split: option.split)

lemma parse_int64_unsigned:
  assumes "c \<noteq> CHR ''-''" and "c \<noteq> CHR ''+''"
  shows "parse_int64 (c # cs) =
     (case parse_nat (c # cs) of None \<Rightarrow> None | Some n \<Rightarrow> if fits_int64 (int n) then Some (int n) else None)"
  using assms unfolding parse_int64_def Let_def by (simp split: option.split)

lemma parse_int64_itoa [simp]:
  assumes fits: "fits_int64 n"
  shows "parse_int64 (itoa n) = Some n"
proof (cases "n < 0")
  case True
  with fits show ?thesis by (simp add: itoa_def parse_int64_minus)
next
  case False
  obtain c cs where c: "nat_digits (nat n) = c # cs" by (meson nat_digits_nonempty neq_Nil_conv)
  obtain d where "d < 10" "c = digit_char d" using nat_digits_digits [of c "nat n"] c by auto
  then have sign: "c \<noteq> CHR ''-''" "c \<noteq> CHR ''+''" by (simp_all add: digit_char_not_sign)
  have "parse_nat (c # cs) = Some (nat n)" unfolding c [symmetric] by (rule parse_nat_nat_digits)
  then show ?thesis using False sign fits by (simp add: itoa_def parse_int64_unsigned c)
qed

lemma itoa_inj: "itoa m = itoa n \<longleftrightarrow> m = n"
proof
  assume eq: "itoa m = itoa n"
  have minus: "nat_digits k \<noteq> CHR ''-'' # xs" for k xs
    using nat_digits_digits [of "CHR ''-''" k] digit_char_not_sign(1) by fastforce
  show "m = n"
  proof (cases "m < 0")
    case True
    then have "n < 0" using eq minus by (auto simp: itoa_def minus dest: sym split: if_splits)
    with True eq show ?thesis by (simp add: itoa_def nat_digits_inj)
  next
    case False
    then have "\<not> n < 0" using eq minus by (metis itoa_def)
    with False eq show ?thesis by (simp add: itoa_def nat_digits_inj)
  qed
qed simp

section \<open>ASCII case\<close>

definition ascii_upper :: "char \<Rightarrow> char" where
  "ascii_upper c = (let n = of_char c :: nat in if 97 \<le> n \<and> n \<le> 122 then char_of (n - 32) else c)"

definition ascii_lower :: "char \<Rightarrow> char" where
  "ascii_lower c = (let n = of_char c :: nat in if 65 \<le> n \<and> n \<le> 90 then char_of (n + 32) else c)"

section \<open>Fixed-width decimals and separators\<close>

definition zero_pad :: "nat \<Rightarrow> string \<Rightarrow> string" where
  "zero_pad w s = replicate (w - length s) (CHR ''0'') @ s"

lemma parse_digits_zeros: "parse_digits 0 (replicate k (CHR ''0'') @ s) = parse_digits 0 s"
  by (induction k) (simp_all add: digit_val_def)

lemma parse_nat_zero_pad: "parse_nat (zero_pad w (nat_digits n)) = Some n"
  by (simp add: parse_nat_def zero_pad_def parse_digits_zeros parse_digits_nat_digits)

lemma zero_pad_inj: "zero_pad w (nat_digits m) = zero_pad w (nat_digits n) \<longleftrightarrow> m = n"
  by (metis option.inject parse_nat_zero_pad)

lemma zero_pad_digits: "c \<in> set (zero_pad w (nat_digits n)) \<Longrightarrow> \<exists>d < 10. c = digit_char d"
proof -
  have "CHR ''0'' = digit_char 0" unfolding digit_char_def by (rule sym, simp only: char_of_eq_iff, simp)
  then show "c \<in> set (zero_pad w (nat_digits n)) \<Longrightarrow> ?thesis"
    by (auto simp: zero_pad_def dest: nat_digits_digits) (metis zero_less_numeral)
qed

lemma minus_not_in_zero_pad [simp]: "CHR ''-'' \<notin> set (zero_pad w (nat_digits n))"
  using zero_pad_digits digit_char_not_sign(1) by fastforce

lemma sep_append_inj:
  assumes "c \<notin> set xs" and "c \<notin> set xs'"
  shows "xs @ c # ys = xs' @ c # ys' \<longleftrightarrow> xs = xs' \<and> ys = ys'"
  using assms
proof (induction xs arbitrary: xs')
  case Nil
  then show ?case by (cases xs') auto
next
  case (Cons x xs)
  then show ?case by (cases xs') auto
qed

end
