(* ===== verification/Sha256.thy ===== *)
theory Sha256
  imports Prelude
begin

unbundle bit_operations_syntax

text \<open>
  Go's \<open>crypto/sha256\<close>, as FIPS 180-4 defines it, on lists of bytes: the hash every value a game
  draws is derived from, and the one refresh tokens are stored under. A block is 16 big-endian
  words; the schedule extends them to 64; a round updates the eight working variables.
\<close>

type_synonym byte = "8 word"
type_synonym u32 = "32 word"
type_synonym sha_state = "u32 \<times> u32 \<times> u32 \<times> u32 \<times> u32 \<times> u32 \<times> u32 \<times> u32"

section \<open>Bytes and words\<close>

fun be_bytes :: "nat \<Rightarrow> int \<Rightarrow> byte list" where
  "be_bytes 0 n = []"
| "be_bytes (Suc k) n = be_bytes k (n div 256) @ [word_of_int (n mod 256)]"

definition be_int :: "byte list \<Rightarrow> int" where
  "be_int bs = foldl (\<lambda>acc b. 256 * acc + uint b) 0 bs"

definition be_word32 :: "byte list \<Rightarrow> u32" where
  "be_word32 bs = word_of_int (be_int bs)"

fun words32 :: "byte list \<Rightarrow> u32 list" where
  "words32 (a # b # c # d # bs) = be_word32 [a, b, c, d] # words32 bs"
| "words32 bs = []"

lemma length_be_bytes [simp]: "length (be_bytes k n) = k"
  by (induction k arbitrary: n) simp_all

lemma be_int_append: "be_int (xs @ [b]) = 256 * be_int xs + uint b"
  by (simp add: be_int_def)

lemma be_int_be_bytes: "be_int (be_bytes k n) = n mod 256 ^ k"
proof (induction k arbitrary: n)
  case 0
  then show ?case by (simp add: be_int_def)
next
  case (Suc k)
  have "uint (word_of_int (n mod 256) :: byte) = n mod 256" by (simp add: uint_word_of_int)
  then have "be_int (be_bytes (Suc k) n) = 256 * ((n div 256) mod 256 ^ k) + n mod 256"
    by (simp add: be_int_append Suc)
  also have "\<dots> = n mod (256 * 256 ^ k)" by (simp only: zmod_zmult2_eq zero_le_power zero_le_numeral)
  finally show ?case by simp
qed

lemma be_bytes_inj:
  assumes "be_bytes k m = be_bytes k n"
  shows "m mod 256 ^ k = n mod 256 ^ k"
  using assms be_int_be_bytes [of k m] be_int_be_bytes [of k n] by simp

section \<open>The compression function\<close>

text \<open>The round constants and the initial state, in decimal.\<close>

definition sha_k :: "u32 list" where
  "sha_k =
    [1116352408, 1899447441, 3049323471, 3921009573,
     961987163, 1508970993, 2453635748, 2870763221,
     3624381080, 310598401, 607225278, 1426881987,
     1925078388, 2162078206, 2614888103, 3248222580,
     3835390401, 4022224774, 264347078, 604807628,
     770255983, 1249150122, 1555081692, 1996064986,
     2554220882, 2821834349, 2952996808, 3210313671,
     3336571891, 3584528711, 113926993, 338241895,
     666307205, 773529912, 1294757372, 1396182291,
     1695183700, 1986661051, 2177026350, 2456956037,
     2730485921, 2820302411, 3259730800, 3345764771,
     3516065817, 3600352804, 4094571909, 275423344,
     430227734, 506948616, 659060556, 883997877,
     958139571, 1322822218, 1537002063, 1747873779,
     1955562222, 2024104815, 2227730452, 2361852424,
     2428436474, 2756734187, 3204031479, 3329325298]"

definition sha_init :: sha_state where
  "sha_init =
    (1779033703, 3144134277, 1013904242, 2773480762,
     1359893119, 2600822924, 528734635, 1541459225)"

definition big_sigma0 :: "u32 \<Rightarrow> u32" where
  "big_sigma0 x = word_rotr 2 x XOR word_rotr 13 x XOR word_rotr 22 x"

definition big_sigma1 :: "u32 \<Rightarrow> u32" where
  "big_sigma1 x = word_rotr 6 x XOR word_rotr 11 x XOR word_rotr 25 x"

definition small_sigma0 :: "u32 \<Rightarrow> u32" where
  "small_sigma0 x = word_rotr 7 x XOR word_rotr 18 x XOR drop_bit 3 x"

definition small_sigma1 :: "u32 \<Rightarrow> u32" where
  "small_sigma1 x = word_rotr 17 x XOR word_rotr 19 x XOR drop_bit 10 x"

definition sha_choose :: "u32 \<Rightarrow> u32 \<Rightarrow> u32 \<Rightarrow> u32" where
  "sha_choose e f g = (e AND f) XOR (NOT e AND g)"

definition sha_majority :: "u32 \<Rightarrow> u32 \<Rightarrow> u32 \<Rightarrow> u32" where
  "sha_majority a b c = (a AND b) XOR (a AND c) XOR (b AND c)"

text \<open>The schedule, kept newest word first: \<open>ws ! 0\<close> is \<open>w[t-1]\<close>.\<close>

fun extend_schedule :: "nat \<Rightarrow> u32 list \<Rightarrow> u32 list" where
  "extend_schedule 0 ws = ws"
| "extend_schedule (Suc k) ws =
     extend_schedule k
       ((small_sigma1 (ws ! 1) + ws ! 6 + small_sigma0 (ws ! 14) + ws ! 15) # ws)"

definition schedule :: "u32 list \<Rightarrow> u32 list" where
  "schedule block = rev (extend_schedule 48 (rev block))"

fun sha_round :: "u32 \<times> u32 \<Rightarrow> sha_state \<Rightarrow> sha_state" where
  "sha_round (k, w) (a, b, c, d, e, f, g, h) =
     (let t1 = h + big_sigma1 e + sha_choose e f g + k + w;
          t2 = big_sigma0 a + sha_majority a b c
      in (t1 + t2, a, b, c, d + t1, e, f, g))"

fun sha_add :: "sha_state \<Rightarrow> sha_state \<Rightarrow> sha_state" where
  "sha_add (a, b, c, d, e, f, g, h) (a', b', c', d', e', f', g', h') =
     (a + a', b + b', c + c', d + d', e + e', f + f', g + g', h + h')"

definition sha_block :: "u32 list \<Rightarrow> sha_state \<Rightarrow> sha_state" where
  "sha_block block s = sha_add s (fold sha_round (zip sha_k (schedule block)) s)"

section \<open>Padding and the digest\<close>

definition sha_pad :: "byte list \<Rightarrow> byte list" where
  "sha_pad msg =
     msg @ [0x80] @ replicate (nat ((55 - int (length msg)) mod 64)) 0 @ be_bytes 8 (8 * int (length msg))"

fun sha_blocks :: "nat \<Rightarrow> u32 list \<Rightarrow> sha_state \<Rightarrow> sha_state" where
  "sha_blocks 0 ws s = s"
| "sha_blocks (Suc n) ws s = sha_blocks n (drop 16 ws) (sha_block (take 16 ws) s)"

fun digest_bytes :: "sha_state \<Rightarrow> byte list" where
  "digest_bytes (a, b, c, d, e, f, g, h) =
     concat (map (\<lambda>w. be_bytes 4 (uint w)) [a, b, c, d, e, f, g, h])"

definition sha256 :: "byte list \<Rightarrow> byte list" where
  "sha256 msg =
     (let padded = sha_pad msg
      in digest_bytes (sha_blocks (length padded div 64) (words32 padded) sha_init))"

lemma length_digest_bytes: "length (digest_bytes s) = 32"
  by (cases s rule: digest_bytes.cases) simp

lemma length_sha256 [simp]: "length (sha256 msg) = 32"
  by (simp add: sha256_def length_digest_bytes Let_def)

end
