(* ===== verification/Rng.thy ===== *)
theory Rng
  imports Sha256
begin

text \<open>
  \<open>internal/games/rng.go\<close>: the seed of a session and every value derived from it. \<open>derive\<close> hashes
  (seed, label, index), so a value depends on nothing but the triple; a reduction modulo \<open>n\<close> keeps
  it in \<open>[0, n)\<close>, and \<open>deriveRange\<close> in \<open>[low, high]\<close>.
\<close>

type_synonym seed = "64 word"

section \<open>Definitions\<close>

definition str_bytes :: "string \<Rightarrow> byte list" where
  "str_bytes s = map (\<lambda>c. word_of_int (of_char c)) s"

text \<open>\<open>NewSeed\<close>, given the eight bytes \<open>rand.Read\<close> filled the buffer with.\<close>

definition NewSeed :: "byte list \<Rightarrow> seed" where
  "NewSeed buf = drop_bit 1 (word_of_int (be_int buf))"

definition derive :: "seed \<Rightarrow> string \<Rightarrow> int \<Rightarrow> 64 word" where
  "derive seed label index =
     word_of_int (be_int (take 8 (sha256
       (be_bytes 8 (uint seed) @ str_bytes label @ be_bytes 8 (uint (word_of_int index :: 64 word))))))"

definition deriveIntn :: "seed \<Rightarrow> string \<Rightarrow> int \<Rightarrow> int \<Rightarrow> int" where
  "deriveIntn seed label index n =
     (if n \<le> 0 then 0 else sint (derive seed label index mod word_of_int n))"

definition deriveRange :: "seed \<Rightarrow> string \<Rightarrow> int \<Rightarrow> int \<Rightarrow> int \<Rightarrow> int" where
  "deriveRange seed label index low high =
     (if high \<le> low then low else low + deriveIntn seed label index (high - low + 1))"

section \<open>Bounds\<close>

lemma sint_eq_uint_small:
  fixes w :: "64 word"
  assumes "uint w < 2 ^ 63"
  shows "sint w = uint w"
proof -
  have "- (2 ^ 63) \<le> uint w" by (rule order_trans [OF _ uint_ge_0]) simp
  then show ?thesis using assms by (simp add: sint_uint signed_take_bit_int_eq_self_iff)
qed

lemma NewSeed_nonneg: "0 \<le> sint (NewSeed buf)"
proof -
  let ?w = "word_of_int (be_int buf) :: 64 word"
  have "uint (NewSeed buf) = uint ?w div 2"
    by (simp add: NewSeed_def drop_bit_eq_div uint_div_distrib)
  also have "\<dots> < 2 ^ 63" using uint_lt2p [of ?w] by simp
  finally have "uint (NewSeed buf) < 2 ^ 63" .
  then have "sint (NewSeed buf) = uint (NewSeed buf)" by (rule sint_eq_uint_small)
  then show ?thesis by simp
qed

lemma sint_mod_small:
  fixes w :: "64 word"
  assumes "0 < n" and "n < 2 ^ 63"
  shows "sint (w mod word_of_int n) = uint w mod n"
proof -
  have "uint (word_of_int n :: 64 word) = n" using assms by (simp add: uint_word_of_int)
  then have u: "uint (w mod word_of_int n) = uint w mod n" by (simp add: uint_mod)
  moreover have "uint w mod n < n" using assms(1) by simp
  ultimately have "uint (w mod word_of_int n) < 2 ^ 63" using assms(2) by linarith
  then show ?thesis using u by (simp add: sint_eq_uint_small)
qed

lemma deriveIntn_bounds:
  assumes "0 < n" and "n < 2 ^ 63"
  shows "0 \<le> deriveIntn seed label index n" and "deriveIntn seed label index n < n"
  using assms by (simp_all add: deriveIntn_def sint_mod_small)

lemma deriveRange_bounds:
  assumes "low \<le> high" and "high - low + 1 < 2 ^ 63"
  shows "low \<le> deriveRange seed label index low high"
    and "deriveRange seed label index low high \<le> high"
  using assms deriveIntn_bounds [of "high - low + 1" seed label index]
  by (auto simp: deriveRange_def)

end
