(* ===== verification/Go_Time.thy ===== *)
theory Go_Time
  imports Prelude
begin

text \<open>
  What Podium uses of Go's \<open>time\<close> package. An instant is a number of nanoseconds since the Unix
  epoch in UTC, a duration a number of nanoseconds. \<open>zero_time\<close> is the zero \<open>time.Time\<close>, the first
  of January of year 1. The calendar is the proleptic Gregorian one of the package: days are
  counted from the first of January of year 1, \<open>year_yday\<close> splits a day number into its year and
  its day of the year, \<open>date_days\<close> is \<open>time.Date\<close> at midnight with its normalisation of months and
  days that are out of range.
\<close>

type_synonym time = int
type_synonym duration = int

section \<open>Instants and durations\<close>

definition millisecond :: duration where "millisecond = 1000000"
definition second :: duration where "second = 1000000000"
definition minute :: duration where "minute = 60 * second"
definition hour :: duration where "hour = 60 * minute"
definition day_ns :: duration where "day_ns = 24 * hour"

lemmas duration_defs = millisecond_def second_def minute_def hour_def day_ns_def

definition epoch_days :: int where "epoch_days = 719162"

definition zero_time :: time where "zero_time = - (epoch_days * day_ns)"

definition is_zero :: "time \<Rightarrow> bool" where "is_zero t \<longleftrightarrow> t = zero_time"

definition time_add :: "time \<Rightarrow> duration \<Rightarrow> time" where "time_add t d = t + d"

text \<open>\<open>Time.Sub\<close> saturates at the ends of the 64-bit duration range.\<close>

definition time_sub :: "time \<Rightarrow> time \<Rightarrow> duration" where
  "time_sub t u = max (- (2 ^ 63)) (min (2 ^ 63 - 1) (t - u))"

definition time_after :: "time \<Rightarrow> time \<Rightarrow> bool" where "time_after t u \<longleftrightarrow> u < t"

definition milliseconds :: "duration \<Rightarrow> int" where "milliseconds d = go_quot d millisecond"

definition seconds_int :: "duration \<Rightarrow> int" where "seconds_int d = go_quot d second"

lemma milliseconds_nonneg: "0 \<le> d \<Longrightarrow> milliseconds d = d div 1000000"
  by (simp add: milliseconds_def go_quot_nonneg millisecond_def)

lemma milliseconds_neg: "d < 0 \<Longrightarrow> milliseconds d \<le> 0"
  by (simp add: milliseconds_def go_quot_neg_le millisecond_def)

lemma milliseconds_mono_nonneg: "0 \<le> d \<Longrightarrow> 0 \<le> milliseconds d"
  by (simp add: milliseconds_nonneg)

section \<open>Years and days\<close>

definition days_before_year :: "int \<Rightarrow> int" where
  "days_before_year y = 365 * (y - 1) + (y - 1) div 4 - (y - 1) div 100 + (y - 1) div 400"

definition is_leap :: "int \<Rightarrow> bool" where
  "is_leap y \<longleftrightarrow> y mod 4 = 0 \<and> (y mod 100 \<noteq> 0 \<or> y mod 400 = 0)"

definition year_len :: "int \<Rightarrow> int" where
  "year_len y = (if is_leap y then 366 else 365)"

text \<open>The package's descent through cycles of 400, 100, 4 and 1 years.\<close>

definition year_yday :: "int \<Rightarrow> int \<times> int" where
  "year_yday n =
     (let q400 = n div 146097; r400 = n mod 146097;
          q100 = min 3 (r400 div 36524); r100 = r400 - q100 * 36524;
          q4 = r100 div 1461; r4 = r100 mod 1461;
          q1 = min 3 (r4 div 365)
      in (400 * q400 + 100 * q100 + 4 * q4 + q1 + 1, r4 - 365 * q1))"

lemma div_pred:
  fixes y m :: int
  assumes "0 < m"
  shows "y div m = (y - 1) div m + (if y mod m = 0 then 1 else 0)"
proof (cases "y mod m = 0")
  case True
  then have "y - 1 = m * (y div m - 1) + (m - 1)" by (auto simp: algebra_simps mult_div_mod_eq)
  then have "(y - 1) div m = y div m - 1"
    by (rule int_div_pos_eq [of _ _ _ "m - 1"]) (use assms in simp_all)
  with True show ?thesis by simp
next
  case False
  have "0 \<le> y mod m" "y mod m < m" using assms by simp_all
  moreover have "y - 1 = m * (y div m) + (y mod m - 1)" by (simp add: mult_div_mod_eq)
  ultimately have "(y - 1) div m = y div m"
    using False by (intro int_div_pos_eq [of _ _ _ "y mod m - 1"]) auto
  with False show ?thesis by simp
qed

text \<open>Quotient and remainder as two linear facts, for \<open>linarith\<close>.\<close>

lemma div_mod_linear:
  fixes a m :: int
  assumes "0 < m"
  obtains q r where "a div m = q" "a mod m = r" "a = m * q + r" "0 \<le> r" "r < m"
  using assms mult_div_mod_eq [of m a] pos_mod_sign [of m a] pos_mod_bound [of m a] by metis

lemma leap_count:
  assumes "B \<longrightarrow> A" and "C \<longrightarrow> B"
  shows "(if A \<and> (\<not> B \<or> C) then 366 else 365 :: int)
    = 365 + (if A then 1 else 0) - (if B then 1 else 0) + (if C then 1 else 0)"
  using assms by (cases A; cases B; cases C) simp_all

lemma days_before_year_diff:
  fixes y q4 q100 q400 p4 p100 p400 i4 i100 i400 :: int
  assumes "q4 = p4 + i4" and "q100 = p100 + i100" and "q400 = p400 + i400"
  shows "365 * y + q4 - q100 + q400 = (365 * (y - 1) + p4 - p100 + p400) + (365 + i4 - i100 + i400)"
  unfolding assms by simp

lemma days_before_year_Suc: "days_before_year (y + 1) = days_before_year y + year_len y"
proof -
  have sub: "y mod 100 = 0 \<longrightarrow> y mod 4 = 0" "y mod 400 = 0 \<longrightarrow> y mod 100 = 0"
    unfolding mod_eq_0_iff_dvd by (intro impI, rule dvd_trans [rotated], assumption, simp)+
  have "days_before_year (y + 1) = 365 * y + y div 4 - y div 100 + y div 400"
    unfolding days_before_year_def by simp
  also have "\<dots> = days_before_year y + year_len y"
    unfolding days_before_year_def year_len_def is_leap_def leap_count [OF sub]
    by (rule days_before_year_diff; rule div_pred; simp)
  finally show ?thesis .
qed

lemma year_len_pos: "0 < year_len y"
  by (simp add: year_len_def)

lemma days_before_year_strict_mono: "y < z \<Longrightarrow> days_before_year y < days_before_year z"
proof (induction z rule: int_gr_induct)
  case base
  show ?case using days_before_year_Suc [of y] year_len_pos [of y] by simp
next
  case (step i)
  then show ?case using days_before_year_Suc [of i] year_len_pos [of i] by simp
qed

lemma days_before_year_mono: "y \<le> z \<Longrightarrow> days_before_year y \<le> days_before_year z"
  using days_before_year_strict_mono by (cases "y = z") (auto simp: less_le)

text \<open>The descent is right: the year's first day plus the day of the year is the day, in range.\<close>

lemma year_descent:
  fixes q400 q100 q4 q1 r :: int
  assumes "0 \<le> q100" "q100 \<le> 3" "0 \<le> q4" "q4 \<le> 24" "0 \<le> q1" "q1 \<le> 3"
  shows "days_before_year (400 * q400 + 100 * q100 + 4 * q4 + q1 + 1)
           = 146097 * q400 + 36524 * q100 + 1461 * q4 + 365 * q1"
proof -
  let ?z = "400 * q400 + 100 * q100 + 4 * q4 + q1"
  have "?z div 4 = 100 * q400 + 25 * q100 + q4"
    by (rule int_div_pos_eq [of _ _ _ q1]) (use assms in auto)
  moreover have "?z div 100 = 4 * q400 + q100"
    by (rule int_div_pos_eq [of _ _ _ "4 * q4 + q1"]) (use assms in auto)
  moreover have "?z div 400 = q400"
    by (rule int_div_pos_eq [of _ _ _ "100 * q100 + 4 * q4 + q1"]) (use assms in auto)
  ultimately show ?thesis by (simp add: days_before_year_def)
qed

lemma year_descent_leap:
  fixes q400 q100 q4 q1 :: int
  assumes "0 \<le> q100" "q100 \<le> 3" "0 \<le> q4" "q4 \<le> 24" "q1 = 3" "q4 = 24 \<longrightarrow> q100 = 3"
  shows "is_leap (400 * q400 + 100 * q100 + 4 * q4 + q1 + 1)"
proof -
  let ?y = "400 * q400 + 100 * q100 + 4 * q4 + q1 + 1"
  have "?y mod 4 = 0"
    by (rule int_mod_pos_eq [of _ _ "100 * q400 + 25 * q100 + q4 + 1"]) (use assms in auto)
  moreover have "?y mod 100 \<noteq> 0 \<or> ?y mod 400 = 0"
  proof (cases "q4 = 24")
    case True
    have "?y mod 400 = 0"
      by (rule int_mod_pos_eq [of _ _ "q400 + 1"]) (use assms True in auto)
    then show ?thesis ..
  next
    case False
    have "?y mod 100 = 4 * q4 + 4"
      by (rule int_mod_pos_eq [of _ _ "4 * q400 + q100"]) (use assms False in auto)
    then show ?thesis using assms by simp
  qed
  ultimately show ?thesis by (simp add: is_leap_def)
qed

lemma year_yday_correct:
  assumes "year_yday n = (y, d)"
  shows "days_before_year y + d = n" and "0 \<le> d" and "d < year_len y"
proof -
  define q400 where "q400 = n div 146097"
  define r400 where "r400 = n mod 146097"
  define q100 where "q100 = min 3 (r400 div 36524)"
  define r100 where "r100 = r400 - q100 * 36524"
  define q4 where "q4 = r100 div 1461"
  define r4 where "r4 = r100 mod 1461"
  define q1 where "q1 = min 3 (r4 div 365)"
  note defs = q400_def r400_def q100_def r100_def q4_def r4_def q1_def
  have y: "y = 400 * q400 + 100 * q100 + 4 * q4 + q1 + 1" and d: "d = r4 - 365 * q1"
    using assms unfolding year_yday_def Let_def prod.inject defs by (simp_all only:)
  have n: "n = 146097 * q400 + r400" and r400: "0 \<le> r400" "r400 < 146097"
    by (simp_all add: q400_def r400_def)
  obtain a b where ab: "r400 div 36524 = a" "r400 = 36524 * a + b" "0 \<le> b" "b < 36524"
    by (rule div_mod_linear [of 36524 r400]) auto
  have q100: "0 \<le> q100" "q100 \<le> 3" using r400 ab by (auto simp: q100_def)
  have r100: "0 \<le> r100" "r100 \<le> 36524" "q100 < 3 \<longrightarrow> r100 < 36524"
    using r400 ab by (auto simp: r100_def q100_def min_def)
  have r4: "0 \<le> r4" "r4 < 1461" and r100': "r100 = 1461 * q4 + r4"
    by (simp_all add: q4_def r4_def)
  have q4: "0 \<le> q4" "q4 \<le> 24" using r100 r100' r4 by linarith+
  obtain u v where uv: "r4 div 365 = u" "r4 = 365 * u + v" "0 \<le> v" "v < 365"
    by (rule div_mod_linear [of 365 r4]) auto
  have q1: "0 \<le> q1" "q1 \<le> 3" using r4 uv by (auto simp: q1_def)
  have d': "0 \<le> d" "d \<le> 365" "q1 < 3 \<longrightarrow> d < 365"
    using r4 uv by (auto simp: d q1_def min_def)
  show "days_before_year y + d = n"
    unfolding y year_descent [OF q100 q4 q1] using n r100' by (simp add: d r100_def)
  show "0 \<le> d" by (rule d'(1))
  show "d < year_len y"
  proof (cases "d = 365")
    case False
    with d'(2) show ?thesis by (simp add: year_len_def)
  next
    case True
    then have "q1 = 3" using d'(3) q1 by auto
    moreover have "q4 = 24 \<longrightarrow> q100 = 3"
      using True \<open>q1 = 3\<close> d r100' r100(2,3) q100 by linarith
    ultimately have "is_leap y" unfolding y by (intro year_descent_leap q100 q4) 
    with True show ?thesis by (simp add: year_len_def)
  qed
qed

lemma year_yday_unique:
  assumes "0 \<le> d" and "d < year_len y"
  shows "year_yday (days_before_year y + d) = (y, d)"
proof -
  obtain z e where ze: "year_yday (days_before_year y + d) = (z, e)" by fastforce
  note c = year_yday_correct [OF ze]
  have "\<not> y < z"
    using c assms days_before_year_mono [of "y + 1" z] by (auto simp: days_before_year_Suc)
  moreover have "\<not> z < y"
    using c assms days_before_year_mono [of "z + 1" y] by (auto simp: days_before_year_Suc)
  ultimately have "z = y" by simp
  with c(1) ze show ?thesis by simp
qed

section \<open>Months and dates\<close>

definition month_lengths :: "bool \<Rightarrow> int list" where
  "month_lengths leap = [31, if leap then 29 else 28, 31, 30, 31, 30, 31, 31, 30, 31, 30, 31]"

fun split_month :: "int list \<Rightarrow> int \<Rightarrow> int \<Rightarrow> int \<times> int" where
  "split_month [] m d = (m, d + 1)"
| "split_month (l # ls) m d = (if d < l then (m, d + 1) else split_month ls (m + 1) (d - l))"

text \<open>\<open>Time.Date\<close>: year, month (from 1) and day (from 1) of a day number.\<close>

definition civil :: "int \<Rightarrow> int \<times> int \<times> int" where
  "civil n =
     (let (y, yd) = year_yday n; (m, d) = split_month (month_lengths (is_leap y)) 1 yd in (y, m, d))"

definition days_before_month :: "bool \<Rightarrow> int \<Rightarrow> int" where
  "days_before_month leap m = sum_list (take (nat (m - 1)) (month_lengths leap))"

text \<open>The day number \<open>time.Date\<close> gives a year, month and day, normalising the month.\<close>

definition date_days :: "int \<Rightarrow> int \<Rightarrow> int \<Rightarrow> int" where
  "date_days y m d =
     (let y' = y + (m - 1) div 12; m' = (m - 1) mod 12 + 1
      in days_before_year y' + days_before_month (is_leap y') m' + d - 1)"

lemma length_month_lengths [simp]: "length (month_lengths leap) = 12"
  by (simp add: month_lengths_def)

lemma sum_month_lengths: "sum_list (month_lengths (is_leap y)) = year_len y"
  by (simp add: month_lengths_def year_len_def)

lemma split_month_correct:
  assumes "split_month ls m d = (m', d')" and "0 \<le> d" and "d < sum_list ls"
  shows "m \<le> m' \<and> m' < m + int (length ls) \<and> 1 \<le> d' \<and> d' \<le> ls ! nat (m' - m)
    \<and> d = sum_list (take (nat (m' - m)) ls) + d' - 1"
  using assms
proof (induction ls m d arbitrary: m' d' rule: split_month.induct)
  case (1 m d)
  then show ?case by simp
next
  case (2 l ls m d)
  show ?case
  proof (cases "d < l")
    case True
    with 2 show ?thesis by auto
  next
    case False
    with 2 have IH: "m + 1 \<le> m' \<and> m' < m + 1 + int (length ls) \<and> 1 \<le> d' \<and> d' \<le> ls ! nat (m' - (m + 1))
        \<and> d - l = sum_list (take (nat (m' - (m + 1))) ls) + d' - 1"
      by simp
    then have "nat (m' - m) = Suc (nat (m' - (m + 1)))" by auto
    with IH show ?thesis by auto
  qed
qed

lemma date_days_valid:
  "1 \<le> m \<Longrightarrow> m \<le> 12 \<Longrightarrow>
    date_days y m d = days_before_year y + days_before_month (is_leap y) m + d - 1"
  by (simp add: date_days_def)

text \<open>Splitting a day number into a date and composing it again gives the day number back.\<close>

lemma civil_correct:
  assumes "civil n = (y, m, d)"
  shows "date_days y m d = n" and "1 \<le> m" and "m \<le> 12" and "1 \<le> d"
    and "d \<le> month_lengths (is_leap y) ! nat (m - 1)"
proof -
  obtain yd where yd: "year_yday n = (y, yd)"
    and md: "split_month (month_lengths (is_leap y)) 1 yd = (m, d)"
    using assms by (auto simp: civil_def split: prod.splits)
  have c: "1 \<le> m \<and> m < 1 + 12 \<and> 1 \<le> d \<and> d \<le> month_lengths (is_leap y) ! nat (m - 1)
      \<and> yd = sum_list (take (nat (m - 1)) (month_lengths (is_leap y))) + d - 1"
    using split_month_correct [OF md] year_yday_correct [OF yd] by (simp add: sum_month_lengths)
  then show m: "1 \<le> m" "m \<le> 12" and "1 \<le> d" and "d \<le> month_lengths (is_leap y) ! nat (m - 1)"
    by simp_all
  show "date_days y m d = n"
    using c year_yday_correct [OF yd] m by (simp add: date_days_valid days_before_month_def)
qed

text \<open>Composing a valid date and splitting it gives the date back.\<close>

lemma split_month_unique:
  assumes "\<forall>l \<in> set ls. 1 \<le> l" and "k < length ls" and "1 \<le> d" and "d \<le> ls ! k"
  shows "split_month ls m (sum_list (take k ls) + d - 1) = (m + int k, d)"
  using assms
proof (induction ls arbitrary: m k)
  case Nil
  then show ?case by simp
next
  case (Cons l ls)
  show ?case
  proof (cases k)
    case 0
    then show ?thesis using Cons.prems by simp
  next
    case (Suc j)
    have "0 \<le> x" if "x \<in> set (take j ls)" for x
      using that Cons.prems(1) by (meson in_set_takeD list.set_intros(2) order_trans zero_le_one)
    then have "0 \<le> sum_list (take j ls)" by (rule sum_list_nonneg)
    then show ?thesis using Cons.IH [of j "m + 1"] Cons.prems Suc by (simp add: algebra_simps)
  qed
qed

lemma civil_date_days:
  assumes "1 \<le> m" and "m \<le> 12" and "1 \<le> d" and "d \<le> month_lengths (is_leap y) ! nat (m - 1)"
  shows "civil (date_days y m d) = (y, m, d)"
proof -
  let ?ls = "month_lengths (is_leap y)"
  define yd where "yd = sum_list (take (nat (m - 1)) ?ls) + d - 1"
  have pos: "\<forall>l \<in> set ?ls. 1 \<le> l" by (simp add: month_lengths_def)
  have k: "nat (m - 1) < length ?ls" using assms(1,2) by simp
  have sp: "split_month ?ls 1 yd = (m, d)"
    using split_month_unique [OF pos k assms(3,4), of 1] assms(1) by (simp add: yd_def)
  have nonneg: "0 \<le> sum_list (take i ?ls)" "0 \<le> sum_list (drop i ?ls)" for i
    using pos by (auto intro!: sum_list_nonneg dest!: in_set_takeD in_set_dropD intro: order_trans [OF zero_le_one])
  have "?ls = take (nat (m - 1)) ?ls @ ?ls ! nat (m - 1) # drop (Suc (nat (m - 1))) ?ls"
    using k by (rule id_take_nth_drop)
  then have "sum_list ?ls = sum_list (take (nat (m - 1)) ?ls) + ?ls ! nat (m - 1) + sum_list (drop (Suc (nat (m - 1))) ?ls)"
    by (metis add.assoc sum_list.Cons sum_list_append)
  then have "yd < year_len y"
    using assms(4) nonneg(2) [of "Suc (nat (m - 1))"] unfolding yd_def sum_month_lengths [symmetric] by linarith
  moreover have "0 \<le> yd" using assms(3) nonneg(1) [of "nat (m - 1)"] by (simp add: yd_def)
  ultimately have "year_yday (days_before_year y + yd) = (y, yd)" by (intro year_yday_unique)
  then show ?thesis
    using sp assms(1,2) by (simp add: civil_def date_days_valid days_before_month_def yd_def algebra_simps)
qed

text \<open>The first day of the following month, across the turn of the year too.\<close>

lemma date_days_next_month:
  assumes "1 \<le> m" and "m \<le> 12"
  shows "date_days y (m + 1) 1 = date_days y m 1 + month_lengths (is_leap y) ! nat (m - 1)"
proof (cases "m = 12")
  case True
  have "date_days y 13 1 = days_before_year (y + 1)"
    by (simp add: date_days_def days_before_month_def)
  moreover have "days_before_month b 12 + 31 = sum_list (month_lengths b)" for b
    by (simp add: days_before_month_def month_lengths_def)
  ultimately show ?thesis
    using True sum_month_lengths [of y]
    by (simp add: days_before_year_Suc date_days_valid month_lengths_def)
next
  case False
  then have "nat m = Suc (nat (m - 1))" and "nat (m - 1) < 12" using assms by auto
  then have "days_before_month b (m + 1) = days_before_month b m + month_lengths b ! nat (m - 1)" for b
    by (simp add: days_before_month_def take_Suc_conv_app_nth)
  with False assms show ?thesis by (simp add: date_days_valid)
qed

section \<open>Instants and days\<close>

definition day_number :: "time \<Rightarrow> int" where
  "day_number t = t div day_ns + epoch_days"

definition date_time :: "int \<Rightarrow> int \<Rightarrow> int \<Rightarrow> time" where
  "date_time y m d = (date_days y m d - epoch_days) * day_ns"

text \<open>\<open>Time.Weekday\<close>: Sunday is 0. Day 0, the first of January of year 1, was a Monday.\<close>

definition weekday :: "int \<Rightarrow> int" where
  "weekday n = (n + 1) mod 7"

text \<open>\<open>Time.ISOWeek\<close>: the year of the Thursday of the week, and which Thursday of it that is.\<close>

definition iso_thursday :: "int \<Rightarrow> int" where
  "iso_thursday n = n + (if weekday n = 0 then - 3 else 4 - weekday n)"

definition iso_week :: "time \<Rightarrow> int \<times> int" where
  "iso_week t = (let (y, yd) = year_yday (iso_thursday (day_number t)) in (y, yd div 7 + 1))"

lemma day_ns_pos [simp]: "0 < day_ns"
  by (simp add: duration_defs)

lemma day_number_le_iff: "date_time y m d \<le> t \<longleftrightarrow> date_days y m d \<le> day_number t"
proof -
  have "k * day_ns \<le> t \<longleftrightarrow> k \<le> t div day_ns" for k
  proof -
    have "day_ns \<noteq> 0" using day_ns_pos by linarith
    then have "(t - k * day_ns) div day_ns = t div day_ns - k"
      using div_mult_self1 [of day_ns t "- k"] by simp
    then show ?thesis using pos_imp_zdiv_nonneg_iff [of day_ns "t - k * day_ns"] by auto
  qed
  then show ?thesis unfolding date_time_def day_number_def by (simp only: diff_le_eq)
qed

end
