(* ===== verification/Json.thy ===== *)
theory Json
  imports Go_Time
begin

text \<open>
  What Podium uses of Go's \<open>encoding/json\<close>. A JSON text is modelled by its value; a number is an
  integer literal or some other literal (\<open>JFrac\<close>), which no integer field accepts. \<open>JTime\<close> is a
  JSON string holding an RFC 3339 timestamp, the form in which \<open>time.Time\<close> is encoded; the package
  refuses years outside 0 to 9999. Decoding into a struct goes member by member in the order of
  the text, finds the field by its exact name or else by its case-folded name, leaves a field alone
  for \<open>null\<close> where the field's type has no nil, and fails on a value of the wrong type.
\<close>

datatype json =
    JNull
  | JBool bool
  | JInt int
  | JFrac string
  | JStr string
  | JTime time
  | JArr "json list"
  | JObj "(string \<times> json) list"

text \<open>A \<open>json.RawMessage\<close> from a client: no bytes, bytes that are no JSON text, or a value.\<close>

datatype raw_message = NoBytes | Malformed | Text json

section \<open>Encoding\<close>

definition marshal_time :: "time \<Rightarrow> json option" where
  "marshal_time t = (if date_time 0 1 1 \<le> t \<and> t < date_time 10000 1 1 then Some (JTime t) else None)"

definition marshal_opt :: "('a \<Rightarrow> json) \<Rightarrow> 'a option \<Rightarrow> json" where
  "marshal_opt f x = (case x of None \<Rightarrow> JNull | Some y \<Rightarrow> f y)"

lemma marshal_time_Some [simp]: "marshal_time t = Some j \<longleftrightarrow>
    date_time 0 1 1 \<le> t \<and> t < date_time 10000 1 1 \<and> j = JTime t"
  by (auto simp: marshal_time_def)

section \<open>Decoding\<close>

text \<open>
  Names are folded as \<open>encoding/json\<close> folds them: ASCII letters to upper case, and the two
  non-ASCII code points whose simple folding is an ASCII letter, U+017F and U+212A.
\<close>

fun fold_name :: "string \<Rightarrow> string" where
  "fold_name [] = []"
| "fold_name (c # cs) =
     (case cs of
        d # ds \<Rightarrow>
          if of_char c = (0xC5::nat) \<and> of_char d = (0xBF::nat) then CHR ''S'' # fold_name ds
          else (case ds of
            e # es \<Rightarrow>
              if of_char c = (0xE2::nat) \<and> of_char d = (0x84::nat) \<and> of_char e = (0xAA::nat)
              then CHR ''K'' # fold_name es
              else ascii_upper c # fold_name cs
          | [] \<Rightarrow> ascii_upper c # fold_name cs)
      | [] \<Rightarrow> [ascii_upper c])"

text \<open>A decodable field: its name and the assignment a JSON value makes, or a type error.\<close>

type_synonym 's field = "string \<times> (json \<Rightarrow> 's \<Rightarrow> 's option)"

definition find_field :: "'s field list \<Rightarrow> string \<Rightarrow> (json \<Rightarrow> 's \<Rightarrow> 's option) option" where
  "find_field fs k =
     (case map_of fs k of
        Some f \<Rightarrow> Some f
      | None \<Rightarrow> map_of (map (\<lambda>(n, f). (fold_name n, f)) fs) (fold_name k))"

fun decode_members :: "bool \<Rightarrow> 's field list \<Rightarrow> (string \<times> json) list \<Rightarrow> 's \<Rightarrow> 's option" where
  "decode_members strict fs [] s = Some s"
| "decode_members strict fs ((k, v) # ms) s =
     (case find_field fs k of
        None \<Rightarrow> if strict then None else decode_members strict fs ms s
      | Some set_field \<Rightarrow>
          (case set_field v s of None \<Rightarrow> None | Some s' \<Rightarrow> decode_members strict fs ms s'))"

text \<open>\<open>strict\<close> is \<open>Decoder.DisallowUnknownFields\<close>.\<close>

definition decode_struct :: "bool \<Rightarrow> 's field list \<Rightarrow> json \<Rightarrow> 's \<Rightarrow> 's option" where
  "decode_struct strict fs j s =
     (case j of JObj ms \<Rightarrow> decode_members strict fs ms s | JNull \<Rightarrow> Some s | _ \<Rightarrow> None)"

fun json_int :: "json \<Rightarrow> int option" where
  "json_int (JInt n) = (if fits_int64 n then Some n else None)"
| "json_int _ = None"

definition int_field :: "(int \<Rightarrow> 's \<Rightarrow> 's) \<Rightarrow> json \<Rightarrow> 's \<Rightarrow> 's option" where
  "int_field upd j s = (if j = JNull then Some s else map_option (\<lambda>n. upd n s) (json_int j))"

text \<open>A field of type \<open>*int\<close>: \<open>null\<close> makes it nil.\<close>

definition int_ptr_field :: "(int option \<Rightarrow> 's \<Rightarrow> 's) \<Rightarrow> json \<Rightarrow> 's \<Rightarrow> 's option" where
  "int_ptr_field upd j s =
     (if j = JNull then Some (upd None s) else map_option (\<lambda>n. upd (Some n) s) (json_int j))"

definition bool_field :: "(bool \<Rightarrow> 's \<Rightarrow> 's) \<Rightarrow> json \<Rightarrow> 's \<Rightarrow> 's option" where
  "bool_field upd j s =
     (case j of JNull \<Rightarrow> Some s | JBool b \<Rightarrow> Some (upd b s) | _ \<Rightarrow> None)"

definition str_field :: "(string \<Rightarrow> 's \<Rightarrow> 's) \<Rightarrow> json \<Rightarrow> 's \<Rightarrow> 's option" where
  "str_field upd j s =
     (case j of JNull \<Rightarrow> Some s | JStr x \<Rightarrow> Some (upd x s) | _ \<Rightarrow> None)"

definition time_field :: "(time \<Rightarrow> 's \<Rightarrow> 's) \<Rightarrow> json \<Rightarrow> 's \<Rightarrow> 's option" where
  "time_field upd j s =
     (case j of JNull \<Rightarrow> Some s | JTime t \<Rightarrow> Some (upd t s) | _ \<Rightarrow> None)"

definition time_ptr_field :: "(time option \<Rightarrow> 's \<Rightarrow> 's) \<Rightarrow> json \<Rightarrow> 's \<Rightarrow> 's option" where
  "time_ptr_field upd j s =
     (case j of JNull \<Rightarrow> Some (upd None s) | JTime t \<Rightarrow> Some (upd (Some t) s) | _ \<Rightarrow> None)"

text \<open>A slice of integers: \<open>null\<close> makes it nil, a \<open>null\<close> element is the zero value.\<close>

fun json_ints :: "json list \<Rightarrow> int list option" where
  "json_ints [] = Some []"
| "json_ints (j # js) =
     (case (if j = JNull then Some 0 else json_int j) of
        None \<Rightarrow> None
      | Some n \<Rightarrow> map_option (\<lambda>ns. n # ns) (json_ints js))"

definition ints_field :: "(int list \<Rightarrow> 's \<Rightarrow> 's) \<Rightarrow> json \<Rightarrow> 's \<Rightarrow> 's option" where
  "ints_field upd j s =
     (case j of JNull \<Rightarrow> Some (upd [] s) | JArr js \<Rightarrow> map_option (\<lambda>ns. upd ns s) (json_ints js) | _ \<Rightarrow> None)"

text \<open>An \<open>int64\<close> seed, kept as a 64-bit word.\<close>

definition seed_field :: "(64 word \<Rightarrow> 's \<Rightarrow> 's) \<Rightarrow> json \<Rightarrow> 's \<Rightarrow> 's option" where
  "seed_field upd = int_field (\<lambda>n. upd (word_of_int n))"

section \<open>Rewrite rules\<close>

lemma field_simps_json [json_simps]:
  "fits_int64 n \<Longrightarrow> int_field upd (JInt n) s = Some (upd n s)"
  "fits_int64 n \<Longrightarrow> int_ptr_field updo (JInt n) s = Some (updo (Some n) s)"
  "bool_field updb (JBool b) s = Some (updb b s)"
  "str_field upds (JStr x) s = Some (upds x s)"
  "time_field updt (JTime t) s = Some (updt t s)"
  "time_ptr_field updp (JTime t) s = Some (updp (Some t) s)"
  "time_ptr_field updp JNull s = Some (updp None s)"
  "ints_field updl (JArr js) s = map_option (\<lambda>ns. updl ns s) (json_ints js)"
  by (simp_all add: int_field_def int_ptr_field_def bool_field_def str_field_def time_field_def
      time_ptr_field_def ints_field_def)

lemma seed_field_JInt [json_simps]: "seed_field upd (JInt (sint w)) s = Some (upd w s)"
  by (simp add: seed_field_def field_simps_json)

lemma json_ints_map_JInt [json_simps]:
  "(\<forall>n \<in> set ns. fits_int64 n) \<Longrightarrow> json_ints (map JInt ns) = Some ns"
  by (induction ns) simp_all

lemma find_field_exact: "map_of fs k = Some f \<Longrightarrow> find_field fs k = Some f"
  by (simp add: find_field_def)

lemma decode_members_known [json_simps]:
  "map_of fs k = Some f \<Longrightarrow> f v s = Some s' \<Longrightarrow>
    decode_members strict fs ((k, v) # ms) s = decode_members strict fs ms s'"
  by (simp add: find_field_exact)

declare decode_members.simps(2) [simp del]

lemma decode_struct_JObj [json_simps]: "decode_struct strict fs (JObj ms) s = decode_members strict fs ms s"
  by (simp add: decode_struct_def)

text \<open>A member no field answers to is refused by a strict decoder, whatever else the text holds.\<close>

lemma decode_members_unknown:
  assumes "(k, v) \<in> set ms" and "find_field fs k = None"
  shows "decode_members True fs ms s = None"
  using assms
proof (induction ms arbitrary: s)
  case Nil
  then show ?case by simp
next
  case (Cons m ms)
  then show ?case by (cases m) (auto simp: decode_members.simps(2) split: option.splits)
qed

end
