(* ===== verification/Float64.thy ===== *)
theory Float64
  imports Complex_Main Prelude "HOL-Library.Log_Nat"
begin

text \<open>
  Go's \<open>float64\<close>, as far as scoring uses it: a value is a rational, and an arithmetic operation is
  the exact operation followed by rounding to a 53-bit significand, ties to even. The magnitudes
  that occur lie far inside the normal range, so overflow, subnormals and NaN are left out.
\<close>

type_synonym f64 = rat

section \<open>Definitions\<close>

definition pow2 :: "int \<Rightarrow> rat" where
  "pow2 e = (if 0 \<le> e then 2 ^ nat e else 1 / 2 ^ nat (- e))"

definition round_half_even :: "rat \<Rightarrow> int" where
  "round_half_even x =
     (let f = \<lfloor>x\<rfloor>; d = x - of_int f
      in if d < 1 / 2 then f else if 1 / 2 < d then f + 1 else if even f then f else f + 1)"

text \<open>The exponent that leaves a positive rational between \<open>2 ^ 52\<close> and \<open>2 ^ 53\<close>.\<close>

definition f64_exp :: "rat \<Rightarrow> int" where
  "f64_exp x =
     (let (p, q) = quotient_of x; e = bitlen p - bitlen q - 53
      in if 2 ^ 53 \<le> x / pow2 e then e + 1 else e)"

definition f64_round :: "rat \<Rightarrow> f64" where
  "f64_round x =
     (if x = 0 then 0
      else let e = f64_exp \<bar>x\<bar> in sgn x * of_int (round_half_even (\<bar>x\<bar> / pow2 e)) * pow2 e)"

definition f64_of_int :: "int \<Rightarrow> f64" where "f64_of_int n = f64_round (of_int n)"
definition f64_sub :: "f64 \<Rightarrow> f64 \<Rightarrow> f64" where "f64_sub a b = f64_round (a - b)"
definition f64_mul :: "f64 \<Rightarrow> f64 \<Rightarrow> f64" where "f64_mul a b = f64_round (a * b)"
definition f64_div :: "f64 \<Rightarrow> f64 \<Rightarrow> f64" where "f64_div a b = f64_round (a / b)"

text \<open>Conversion to \<open>int\<close> drops the fraction.\<close>

definition f64_trunc :: "f64 \<Rightarrow> int" where
  "f64_trunc x = (if 0 \<le> x then \<lfloor>x\<rfloor> else \<lceil>x\<rceil>)"

section \<open>Powers and the exponent\<close>

lemma pow2_pos [simp]: "0 < pow2 e"
  by (simp add: pow2_def)

lemma pow2_neq_0 [simp]: "pow2 e \<noteq> 0"
  by (metis pow2_pos less_irrefl)

lemma pow2_nonneg [simp]: "0 \<le> pow2 e"
  by (rule less_imp_le) (rule pow2_pos)

lemma abs_pow2 [simp]: "\<bar>pow2 e\<bar> = pow2 e"
  by (rule abs_of_pos) (rule pow2_pos)

lemma pow2_Suc: "pow2 (e + 1) = 2 * pow2 e"
proof (cases "0 \<le> e")
  case True
  then show ?thesis by (simp add: pow2_def nat_add_distrib)
next
  case False
  then have "nat (- e) = Suc (nat (- e - 1))" by simp
  with False show ?thesis by (auto simp: pow2_def)
qed

lemma pow2_powi: "pow2 e = 2 powi e"
  by (simp add: pow2_def power_int_def field_simps)

lemma bitlen_powi:
  assumes "0 < p"
  shows "2 powi (bitlen p - 1) \<le> (rat_of_int p)" and "rat_of_int p < 2 powi bitlen p"
proof -
  have b: "1 \<le> bitlen p" using assms by (simp add: bitlen_ge_iff_power)
  have "2 ^ nat (bitlen p - 1) \<le> p" and "p < 2 ^ nat (bitlen p)"
    using bitlen_bounds [OF assms] by simp_all
  then have "rat_of_int (2 ^ nat (bitlen p - 1)) \<le> rat_of_int p"
    and "rat_of_int p < rat_of_int (2 ^ nat (bitlen p))"
    by (simp_all only: of_int_le_iff of_int_less_iff)
  with b show "2 powi (bitlen p - 1) \<le> rat_of_int p" and "rat_of_int p < 2 powi bitlen p"
    by (simp_all add: power_int_def)
qed

lemma f64_exp_bounds:
  assumes "0 < x"
  shows "2 ^ 52 \<le> x / pow2 (f64_exp x)" and "x / pow2 (f64_exp x) < 2 ^ 53"
proof -
  obtain p q where pq: "quotient_of x = (p, q)" by fastforce
  have q: "0 < q" using quotient_of_denom_pos [OF pq] .
  have x: "x = of_int p / of_int q" using quotient_of_div [OF pq] .
  have p: "0 < p" using assms q x by (simp add: zero_less_divide_iff)
  define e where "e = bitlen p - bitlen q - 53"
  have lo: "2 powi (bitlen p - 1 - bitlen q) < x"
  proof -
    have "2 powi (bitlen p - 1 - bitlen q) = 2 powi (bitlen p - 1) / (2 powi bitlen q :: rat)"
      by (simp add: power_int_diff)
    also have "\<dots> \<le> of_int p / 2 powi bitlen q"
      using bitlen_powi(1) [OF p] by (simp add: divide_right_mono)
    also have "\<dots> < of_int p / of_int q"
      using bitlen_powi(2) [OF q] p q by (intro divide_strict_left_mono) simp_all
    finally show ?thesis by (simp add: x)
  qed
  have hi: "x < 2 powi (bitlen p - (bitlen q - 1))"
  proof -
    have "x < 2 powi bitlen p / of_int q"
      using bitlen_powi(2) [OF p] q by (simp add: x divide_strict_right_mono)
    also have "\<dots> \<le> 2 powi bitlen p / 2 powi (bitlen q - 1)"
      using bitlen_powi(1) [OF q] q by (intro divide_left_mono) simp_all
    finally show ?thesis by (simp add: power_int_diff)
  qed
  have shift: "(2 :: rat) powi (k + e) = 2 powi k * pow2 e" for k
    by (simp add: pow2_powi power_int_add)
  have "2 powi 52 * pow2 e < x"
    using lo unfolding shift [symmetric] by (simp add: e_def algebra_simps)
  then have lo': "2 ^ 52 < x / pow2 e" by (simp add: pos_less_divide_eq)
  have "x < 2 powi 54 * pow2 e"
    using hi unfolding shift [symmetric] by (simp add: e_def algebra_simps)
  then have hi': "x / pow2 e < 2 ^ 54" by (simp add: pos_divide_less_eq)
  have half: "x / pow2 (e + 1) = x / pow2 e / 2" by (simp add: pow2_Suc)
  have "f64_exp x = (if 2 ^ 53 \<le> x / pow2 e then e + 1 else e)"
    by (simp add: f64_exp_def pq e_def)
  then show "2 ^ 52 \<le> x / pow2 (f64_exp x)" and "x / pow2 (f64_exp x) < 2 ^ 53"
    using lo' hi' half by auto
qed

section \<open>Rounding\<close>

lemma round_half_even_error: "\<bar>of_int (round_half_even x) - x\<bar> \<le> 1 / 2"
proof -
  define d where "d = x - of_int \<lfloor>x\<rfloor>"
  have d: "0 \<le> d" "d < 1" and x: "x = of_int \<lfloor>x\<rfloor> + d"
    unfolding d_def by linarith+
  have "of_int (round_half_even x) - x =
      (if d < 1 / 2 then - d else if 1 / 2 < d then 1 - d else if even \<lfloor>x\<rfloor> then - d else 1 - d)"
    by (simp add: round_half_even_def Let_def d_def)
  with d show ?thesis by (auto simp: abs_le_iff)
qed

lemma round_half_even_of_int [simp]: "round_half_even (of_int n) = n"
  by (simp add: round_half_even_def)

text \<open>The relative error of rounding is at most \<open>2 ^ -53\<close>.\<close>

lemma f64_round_error: "\<bar>f64_round x - x\<bar> \<le> \<bar>x\<bar> / 2 ^ 53"
proof (cases "x = 0")
  case False
  define e where "e = f64_exp \<bar>x\<bar>"
  define m where "m = \<bar>x\<bar> / pow2 e"
  have ax: "0 < \<bar>x\<bar>" using False by simp
  have m: "2 ^ 52 \<le> m" using f64_exp_bounds(1) [OF ax] by (simp add: m_def e_def)
  have x: "x = sgn x * m * pow2 e" by (simp add: m_def sgn_mult_abs)
  have r: "f64_round x = sgn x * of_int (round_half_even m) * pow2 e"
    using False by (simp add: f64_round_def e_def m_def Let_def)
  have "f64_round x - x = sgn x * (of_int (round_half_even m) - m) * pow2 e"
    using r x by (metis left_diff_distrib right_diff_distrib)
  then have "\<bar>f64_round x - x\<bar> = \<bar>of_int (round_half_even m) - m\<bar> * pow2 e"
    using False by (simp add: abs_mult abs_sgn_eq_1)
  also have "\<dots> \<le> 1 / 2 * pow2 e"
    using round_half_even_error [of m] by (intro mult_right_mono) simp_all
  also have "\<dots> \<le> m / 2 ^ 53 * pow2 e"
    using m by (intro mult_right_mono) simp_all
  also have "\<dots> = \<bar>x\<bar> / 2 ^ 53" by (simp add: m_def)
  finally show ?thesis .
qed (simp add: f64_round_def)

text \<open>An integer of at most 53 bits is a \<open>float64\<close>.\<close>

lemma f64_round_of_int:
  assumes "\<bar>n\<bar> < 2 ^ 53"
  shows "f64_round (of_int n) = of_int n"
proof (cases "n = 0")
  case False
  define x where "x = rat_of_int \<bar>n\<bar>"
  define e where "e = f64_exp x"
  have x: "0 < x" using False by (simp add: x_def)
  have "e \<le> 0"
  proof (rule ccontr)
    assume "\<not> e \<le> 0"
    then have "2 powi 1 \<le> (2 powi e :: rat)" by (intro power_int_increasing) simp_all
    then have "2 \<le> pow2 e" by (simp add: pow2_powi)
    then have "2 ^ 52 * 2 \<le> x / pow2 e * pow2 e"
      using f64_exp_bounds(1) [OF x] by (intro mult_mono) (simp_all add: e_def)
    then have "rat_of_int (2 ^ 53) \<le> rat_of_int \<bar>n\<bar>" by (simp add: x_def)
    then show False using assms by (simp only: of_int_le_iff)
  qed
  then have p: "pow2 e = 1 / 2 ^ nat (- e)" by (auto simp: pow2_def)
  have m: "x / pow2 e = rat_of_int (\<bar>n\<bar> * 2 ^ nat (- e))" by (simp add: p x_def)
  have "f64_round (of_int n) = sgn (of_int n) * of_int (round_half_even (x / pow2 e)) * pow2 e"
    using False by (simp add: f64_round_def e_def x_def Let_def)
  also have "\<dots> = sgn (of_int n) * x"
    unfolding m round_half_even_of_int using m by (simp add: field_simps)
  also have "\<dots> = of_int n" by (simp add: x_def sgn_mult_abs)
  finally show ?thesis .
qed (simp add: f64_round_def)

lemma f64_round_numeral [simp]:
  "f64_round 0 = 0"
  by (simp add: f64_round_def)

text \<open>Rounding a nonnegative value gives a nonnegative one, and so on by the error bound.\<close>

lemma f64_round_between:
  assumes "0 \<le> x"
  shows "x - x / 2 ^ 53 \<le> f64_round x" and "f64_round x \<le> x + x / 2 ^ 53"
  using f64_round_error [of x] abs_of_nonneg [OF assms] by linarith+

lemma f64_round_nonneg: "0 \<le> x \<Longrightarrow> 0 \<le> f64_round x"
  using f64_round_between(1) [of x] by (simp add: field_simps)

text \<open>
  A quotient with a small denominator keeps its integer part under rounding: a value that is not
  an integer stays away from the next one by more than rounding can move it.
\<close>

lemma floor_f64_round_quotient:
  fixes a b :: int
  assumes "0 \<le> a" and "0 < b" and "a < 2 ^ 53"
  shows "\<lfloor>f64_round (of_int a / of_int b)\<rfloor> = a div b"
proof -
  define q where "q = rat_of_int a / of_int b"
  have q: "0 \<le> q" using assms by (simp add: q_def)
  have fq: "\<lfloor>q\<rfloor> = a div b" by (simp add: q_def floor_divide_of_int_eq)
  have small: "q / 2 ^ 53 < 1 / of_int b"
  proof -
    have "rat_of_int a < rat_of_int (2 ^ 53)" using assms(3) by (simp only: of_int_less_iff)
    then show ?thesis using assms(2) by (simp add: q_def field_simps)
  qed
  show ?thesis
  proof (cases "a mod b = 0")
    case True
    then have "q = of_int (a div b)"
      using assms(2) mult_div_mod_eq [of b a] unfolding q_def
      by (metis add_0_right nonzero_mult_div_cancel_left of_int_eq_0_iff of_int_mult order_less_irrefl)
    moreover have "\<bar>a div b\<bar> < 2 ^ 53"
    proof -
      have "a div b \<le> a" using assms(1,2) zdiv_mono2 [of a 1 b] by simp
      then show ?thesis using assms pos_imp_zdiv_nonneg_iff [of b a] by simp
    qed
    ultimately show ?thesis using f64_round_of_int by (simp flip: q_def)
  next
    case False
    define r where "r = a mod b"
    have "r \<noteq> 0" "0 \<le> r" "r < b"
      using False assms(2) pos_mod_bound [of b a] pos_mod_sign [of b a] by (simp_all add: r_def)
    then have r: "1 \<le> r" "r \<le> b - 1" by linarith+
    have "rat_of_int a = of_int b * of_int (a div b) + of_int r"
      by (metis mult_div_mod_eq of_int_add of_int_mult r_def)
    then have qr: "q = of_int (a div b) + of_int r / of_int b"
      using assms(2) by (simp add: q_def field_simps)
    have lo: "1 / of_int b \<le> (of_int r / of_int b :: rat)"
      using r assms(2) by (intro divide_right_mono) simp_all
    have hi: "(of_int r / of_int b :: rat) \<le> 1 - 1 / of_int b"
    proof -
      have "(of_int r / of_int b :: rat) \<le> of_int (b - 1) / of_int b"
        using r assms(2) by (intro divide_right_mono iffD2 [OF of_int_le_iff]) simp_all
      then show ?thesis using assms(2) by (simp add: field_simps)
    qed
    have "of_int (a div b) \<le> f64_round q" and "f64_round q < of_int (a div b) + 1"
      using f64_round_between [OF q] small qr lo hi by linarith+
    then show ?thesis unfolding q_def by (rule floor_unique)
  qed
qed

section \<open>Rounding a concrete value\<close>

lemma pow2_mono: "e \<le> e' \<Longrightarrow> pow2 e \<le> pow2 e'"
  by (simp add: pow2_powi power_int_increasing)

lemma f64_exp_unique:
  assumes "0 < x" and "2 ^ 52 * pow2 e \<le> x" and "x < 2 ^ 53 * pow2 e"
  shows "f64_exp x = e"
proof (rule ccontr)
  define k where "k = f64_exp x"
  have k: "2 ^ 52 * pow2 k \<le> x" "x < 2 ^ 53 * pow2 k"
    using f64_exp_bounds [OF assms(1)] by (simp_all add: k_def pos_le_divide_eq pos_divide_less_eq)
  have clash: "2 ^ 53 * pow2 a \<le> 2 ^ 52 * pow2 b" if "a < b" for a b
    using pow2_mono [of "a + 1" b] that by (simp add: pow2_Suc)
  assume "f64_exp x \<noteq> e"
  then have "k < e \<or> e < k" by (auto simp: k_def)
  then show False
  proof
    assume "k < e"
    from clash [OF this] k(2) assms(2) show False by linarith
  next
    assume "e < k"
    from clash [OF this] k(1) assms(3) show False by linarith
  qed
qed

lemma f64_round_near:
  assumes "0 < x" and "2 ^ 52 * pow2 e \<le> x" and "x < 2 ^ 53 * pow2 e"
    and "\<bar>x - of_int n * pow2 e\<bar> < pow2 e / 2"
  shows "f64_round x = of_int n * pow2 e"
proof -
  define y where "y = x / pow2 e"
  have "x - of_int n * pow2 e = (y - of_int n) * pow2 e" by (simp add: y_def field_simps)
  then have near: "\<bar>y - of_int n\<bar> < 1 / 2" using assms(4) by (simp add: abs_mult)
  have "round_half_even y = n"
  proof (cases "of_int n \<le> y")
    case True
    then have "\<lfloor>y\<rfloor> = n" using near by (simp add: floor_eq_iff)
    moreover have "y - of_int n < 1 / 2" using near True by linarith
    ultimately show ?thesis by (simp only: round_half_even_def Let_def if_True)
  next
    case False
    then have "\<lfloor>y\<rfloor> = n - 1" using near by (simp add: floor_eq_iff)
    moreover have "1 / 2 < y - of_int (n - 1)" using near False by simp
    ultimately show ?thesis by (simp add: round_half_even_def Let_def)
  qed
  then show ?thesis
    using assms(1) f64_exp_unique [OF assms(1-3)] by (simp add: f64_round_def Let_def y_def)
qed

lemma f64_round_minus: "f64_round (- x) = - f64_round x"
  by (simp add: f64_round_def Let_def sgn_if)

end
