(* ===== verification/Game_Core.thy ===== *)
theory Game_Core
  imports Rng Json Float64
begin

text \<open>
  \<open>internal/games/games.go\<close>, the part every game shares: the errors an engine reports, the outcome
  of a move, the decoding of a move, and the adapter that turns logic over a typed state into an
  engine over stored JSON. \<open>typed_game\<close> is the contract between the two: a state survives being
  stored, so the engine does to the stored state what the logic does to the typed one.
\<close>

section \<open>Names and errors\<close>

type_synonym slug = string

definition Reaction :: slug where "Reaction = ''reaction''"
definition MathSprint :: slug where "MathSprint = ''math-sprint''"
definition Memory :: slug where "Memory = ''memory''"
definition WordScramble :: slug where "WordScramble = ''word-scramble''"
definition NumberGuess :: slug where "NumberGuess = ''number-guess''"

lemmas slug_defs = Reaction_def MathSprint_def Memory_def WordScramble_def NumberGuess_def

text \<open>The sentinel an error wraps, as \<open>errors.Is\<close> sees it, the coding failures of the adapter,
  and a run-time panic (an index out of range).\<close>

datatype game_error =
    ErrInvalidMove string
  | ErrNoSuchGame slug
  | ErrDeadlinePassed
  | ErrAlreadyDone
  | ErrDecodeState
  | ErrEncodeState
  | ErrEncodeView
  | ErrWordList string
  | GoPanic string

text \<open>\<open>HoldUntil\<close> is the zero time when nothing is held back.\<close>

record outcome =
  Correct :: bool
  Done :: bool
  HoldUntil :: time

definition no_outcome :: outcome where
  "no_outcome = \<lparr>Correct = False, Done = False, HoldUntil = zero_time\<rparr>"

section \<open>Logic and engine\<close>

record 's logic =
  l_start :: "seed \<Rightarrow> time \<Rightarrow> 's"
  l_deadline :: "'s \<Rightarrow> time"
  l_view :: "'s \<Rightarrow> json option"
  l_move :: "'s \<Rightarrow> raw_message \<Rightarrow> time \<Rightarrow> game_error + 's \<times> outcome"
  l_raw :: "'s \<Rightarrow> f64"
  l_marshal :: "'s \<Rightarrow> json option"
  l_unmarshal :: "json \<Rightarrow> 's option"

record engine =
  e_Start :: "seed \<Rightarrow> time \<Rightarrow> game_error + json \<times> json \<times> time"
  e_Move :: "json \<Rightarrow> raw_message \<Rightarrow> time \<Rightarrow> game_error + json \<times> json \<times> outcome"
  e_View :: "json \<Rightarrow> game_error + json"
  e_Raw :: "json \<Rightarrow> game_error + f64"

definition adapter_encode :: "'s logic \<Rightarrow> 's \<Rightarrow> game_error + json \<times> json" where
  "adapter_encode l s =
     and_then (of_option ErrEncodeState (l_marshal l s))
       (\<lambda>state. and_then (of_option ErrEncodeView (l_view l s)) (\<lambda>view. Inr (state, view)))"

definition adapter_decode :: "'s logic \<Rightarrow> json \<Rightarrow> game_error + 's" where
  "adapter_decode l state = of_option ErrDecodeState (l_unmarshal l state)"

definition adapter_Start :: "'s logic \<Rightarrow> seed \<Rightarrow> time \<Rightarrow> game_error + json \<times> json \<times> time" where
  "adapter_Start l seed now =
     (let s = l_start l seed now
      in and_then (adapter_encode l s) (\<lambda>(state, view). Inr (state, view, l_deadline l s)))"

definition adapter_Move ::
    "'s logic \<Rightarrow> json \<Rightarrow> raw_message \<Rightarrow> time \<Rightarrow> game_error + json \<times> json \<times> outcome" where
  "adapter_Move l state move now =
     and_then (adapter_decode l state) (\<lambda>current.
     and_then (l_move l current move now) (\<lambda>(next_state, outcome).
     and_then (adapter_encode l next_state) (\<lambda>(state', view). Inr (state', view, outcome))))"

definition adapter_View :: "'s logic \<Rightarrow> json \<Rightarrow> game_error + json" where
  "adapter_View l state =
     and_then (adapter_decode l state) (\<lambda>current. of_option ErrEncodeView (l_view l current))"

definition adapter_Raw :: "'s logic \<Rightarrow> json \<Rightarrow> game_error + f64" where
  "adapter_Raw l state = and_then (adapter_decode l state) (\<lambda>current. Inr (l_raw l current))"

definition engineFor :: "'s logic \<Rightarrow> engine" where
  "engineFor l =
     \<lparr>e_Start = adapter_Start l, e_Move = adapter_Move l, e_View = adapter_View l, e_Raw = adapter_Raw l\<rparr>"

text \<open>
  \<open>decodeMove\<close>: the bytes are required, unknown fields are refused, and every failure is an
  \<open>ErrInvalidMove\<close>. \<open>zero\<close> is the zero value of the move's type.
\<close>

definition decodeMove :: "'m field list \<Rightarrow> 'm \<Rightarrow> raw_message \<Rightarrow> game_error + 'm" where
  "decodeMove fs zero raw =
     (case raw of
        NoBytes \<Rightarrow> Inl (ErrInvalidMove ''a move is required'')
      | Malformed \<Rightarrow> Inl (ErrInvalidMove ''syntax error'')
      | Text j \<Rightarrow> of_option (ErrInvalidMove ''cannot decode'') (decode_struct True fs j zero))"

definition is_invalid_move :: "game_error \<Rightarrow> bool" where
  "is_invalid_move e \<longleftrightarrow> (\<exists>msg. e = ErrInvalidMove msg)"

lemma decodeMove_error: "decodeMove fs zero raw = Inl e \<Longrightarrow> is_invalid_move e"
  by (auto simp: decodeMove_def is_invalid_move_def of_option_def
      split: raw_message.splits option.splits)

section \<open>The contract of the adapter\<close>

locale typed_game =
  fixes l :: "'s logic" and ok :: "'s \<Rightarrow> bool"
  assumes stored: "ok s \<Longrightarrow> l_marshal l s = Some j \<Longrightarrow> l_unmarshal l j = Some s"
    and ok_start: "ok (l_start l seed now)"
begin

lemma decode_stored: "ok s \<Longrightarrow> l_marshal l s = Some j \<Longrightarrow> adapter_decode l j = Inr s"
  by (simp add: adapter_decode_def stored)

text \<open>The engine on a stored state is the logic on the state itself.\<close>

lemma engine_Move:
  assumes "ok s" and "l_marshal l s = Some j"
  shows "e_Move (engineFor l) j m now =
    and_then (l_move l s m now)
      (\<lambda>(s', out). and_then (adapter_encode l s') (\<lambda>(j', v). Inr (j', v, out)))"
  using decode_stored [OF assms] by (simp add: engineFor_def adapter_Move_def)

lemma engine_Raw: "ok s \<Longrightarrow> l_marshal l s = Some j \<Longrightarrow> e_Raw (engineFor l) j = Inr (l_raw l s)"
  by (simp add: engineFor_def adapter_Raw_def decode_stored)

lemma engine_View:
  "ok s \<Longrightarrow> l_marshal l s = Some j \<Longrightarrow>
    e_View (engineFor l) j = of_option ErrEncodeView (l_view l s)"
  by (simp add: engineFor_def adapter_View_def decode_stored)

lemma engine_Move_Inr:
  assumes "ok s" and "l_marshal l s = Some j"
    and "e_Move (engineFor l) j m now = Inr (j', v, out)"
  shows "\<exists>s'. l_move l s m now = Inr (s', out) \<and> l_marshal l s' = Some j' \<and> l_view l s' = Some v"
  using assms by (auto simp: engine_Move adapter_encode_def and_then_Inr)

lemma engine_Start_Inr:
  assumes "e_Start (engineFor l) sd now = Inr (j, v, d)"
  shows "ok (l_start l sd now) \<and> l_marshal l (l_start l sd now) = Some j
    \<and> l_view l (l_start l sd now) = Some v \<and> d = l_deadline l (l_start l sd now)"
  using assms
  by (auto simp: engineFor_def adapter_Start_def adapter_encode_def and_then_Inr Let_def ok_start)

end

text \<open>
  Where a move keeps the contract too, every stored state of a session is a state of the logic:
  \<open>plays\<close> runs a list of moves with the instants they arrive at, a refused move leaving the state.
\<close>

fun play :: "('s \<Rightarrow> raw_message \<Rightarrow> time \<Rightarrow> game_error + 's \<times> outcome) \<Rightarrow> 's
    \<Rightarrow> (raw_message \<times> time) list \<Rightarrow> 's" where
  "play mv s [] = s"
| "play mv s ((m, now) # ms) =
     (case mv s m now of Inl _ \<Rightarrow> play mv s ms | Inr (s', _) \<Rightarrow> play mv s' ms)"

lemma play_induct_invariant:
  assumes "I s" and "\<And>s m now s' out. I s \<Longrightarrow> mv s m now = Inr (s', out) \<Longrightarrow> I s'"
  shows "I (play mv s ms)"
  using assms(1)
proof (induction ms arbitrary: s)
  case Nil
  then show ?case by simp
next
  case (Cons a ms)
  then show ?case using assms(2) by (cases a) (auto split: sum.splits)
qed

locale bounded_game = typed_game +
  assumes ok_move: "ok s \<Longrightarrow> l_move l s m now = Inr (s', out) \<Longrightarrow> ok s'"
begin

lemma ok_play: "ok s \<Longrightarrow> ok (play (l_move l) s ms)"
  by (rule play_induct_invariant [where I = ok]) (auto dest: ok_move)

lemma ok_session: "ok (play (l_move l) (l_start l seed now) ms)"
  by (rule ok_play) (rule ok_start)

end

end
