(* ===== verification/Scoring.thy ===== *)
theory Scoring
  imports Game_Core
begin

text \<open>
  \<open>internal/games/games.go\<close>: the mapping of a game's raw metric onto 0 to 10,000 points, in
  \<open>float64\<close> arithmetic as the code computes it, and the metadata of a game.
\<close>

section \<open>Definitions\<close>

definition MaxPoints :: int where "MaxPoints = 10000"

definition scale :: "f64 \<Rightarrow> f64 \<Rightarrow> f64 \<Rightarrow> f64" where
  "scale raw worst best =
     (if worst = best then 0
      else f64_div (f64_mul (of_int MaxPoints) (f64_sub raw worst)) (f64_sub best worst))"

record game_definition =
  Slug :: slug
  Name :: string
  Metric :: string
  LowerIsBetter :: bool
  Duration :: duration
  d_engine :: engine
  d_points :: "f64 \<Rightarrow> f64"

definition Points :: "game_definition \<Rightarrow> f64 \<Rightarrow> int" where
  "Points d raw =
     (let points = d_points d raw
      in if points < 0 then 0
         else if of_int MaxPoints < points then MaxPoints
         else f64_trunc points)"

section \<open>Bounds and exact values\<close>

lemma Points_bounds: "0 \<le> Points d raw \<and> Points d raw \<le> MaxPoints"
proof -
  have "0 \<le> x \<Longrightarrow> x \<le> of_int MaxPoints \<Longrightarrow> 0 \<le> f64_trunc x \<and> f64_trunc x \<le> MaxPoints" for x
    by (simp add: f64_trunc_def floor_le_iff MaxPoints_def)
  then show ?thesis by (auto simp: Points_def Let_def MaxPoints_def not_less)
qed

text \<open>
  An integer metric between integer anchors: rounding never shows, and the points are the
  exact quotient rounded down, held between 0 and 10,000.
\<close>

lemma f64_sub_int: "\<bar>m - n\<bar> < 2 ^ 53 \<Longrightarrow> f64_sub (of_int m) (of_int n) = of_int (m - n)"
  unfolding f64_sub_def by (metis f64_round_of_int of_int_diff)

lemma scale_int:
  assumes "worst \<noteq> best" and "\<bar>best - worst\<bar> < 2 ^ 53" and "\<bar>MaxPoints * (k - worst)\<bar> < 2 ^ 53"
  shows "scale (of_int k) (of_int worst) (of_int best)
    = f64_round (of_int (MaxPoints * (k - worst)) / of_int (best - worst))"
proof -
  have "\<bar>k - worst\<bar> < 2 ^ 53" using assms(3) by (simp add: MaxPoints_def abs_mult)
  then have "f64_mul (of_int MaxPoints) (f64_sub (of_int k) (of_int worst)) = of_int (MaxPoints * (k - worst))"
    unfolding f64_mul_def f64_sub_int [OF \<open>\<bar>k - worst\<bar> < 2 ^ 53\<close>]
    using f64_round_of_int [OF assms(3)] by simp
  then show ?thesis
    using assms(1) f64_sub_int [OF assms(2)] by (simp add: scale_def f64_div_def)
qed

lemma f64_round_neg:
  assumes "x < 0"
  shows "f64_round x < 0"
proof -
  have "\<bar>f64_round x - x\<bar> \<le> \<bar>x\<bar> / 2 ^ 53" by (rule f64_round_error)
  then have "f64_round x \<le> x + (- x) / 2 ^ 53" using assms by (simp add: abs_if split: if_splits)
  also have "\<dots> < 0" using assms by simp
  finally show ?thesis .
qed

text \<open>The three cases of \<open>Points\<close> for a rounded quotient \<open>a / b\<close> with \<open>0 < b\<close>.\<close>

lemma Points_quotient:
  assumes pts: "d_points d raw = f64_round (of_int a / of_int b)"
    and b: "0 < b" "b < 2 ^ 20" and a: "\<bar>a\<bar> < 2 ^ 53"
  shows "Points d raw = max 0 (min MaxPoints (a div b))"
proof -
  define q where "q = rat_of_int a / of_int b"
  consider "a < 0" | "0 \<le> a" "a \<le> MaxPoints * b" | "MaxPoints * b < a" by linarith
  then show ?thesis
  proof cases
    case 1
    then have "q < 0" using b by (simp add: q_def divide_neg_pos)
    then have "d_points d raw < 0" using f64_round_neg pts by (simp add: q_def)
    moreover have "a div b < 0" using 1 b by (simp add: pos_imp_zdiv_neg_iff)
    ultimately show ?thesis by (simp add: Points_def)
  next
    case 2
    have nn: "0 \<le> f64_round q" using 2 b by (intro f64_round_nonneg) (simp add: q_def)
    have fl: "\<lfloor>f64_round q\<rfloor> = a div b"
      unfolding q_def using 2 a b by (intro floor_f64_round_quotient) auto
    have le: "a div b \<le> MaxPoints"
      using zdiv_mono1 [OF 2(2) b(1)] b by simp
    have nneg: "0 \<le> a div b" using 2 b by (simp add: pos_imp_zdiv_nonneg_iff)
    show ?thesis
    proof (cases "of_int MaxPoints < f64_round q")
      case True
      then have "MaxPoints \<le> a div b" using fl by (metis floor_mono floor_of_int less_imp_le)
      with True nn le pts show ?thesis by (simp add: Points_def q_def MaxPoints_def)
    next
      case False
      with nn fl le nneg pts show ?thesis by (simp add: Points_def q_def f64_trunc_def)
    qed
  next
    case 3
    have div: "MaxPoints \<le> a div b"
      using zdiv_mono1 [OF less_imp_le [OF 3] b(1)] b by simp
    have "rat_of_int (MaxPoints * b + 1) \<le> of_int a" using 3 by (simp only: of_int_le_iff)
    then have "rat_of_int (MaxPoints * b + 1) / of_int b \<le> q"
      unfolding q_def using b by (intro divide_right_mono) simp_all
    then have q: "of_int MaxPoints + 1 / of_int b \<le> q" using b by (simp add: add_divide_distrib)
    have "(0 :: rat) \<le> 1 / of_int b" using b by simp
    then have q0: "0 \<le> q" using order_trans [OF _ q] by (simp add: MaxPoints_def)
    show ?thesis
    proof (cases "q \<le> 2 * of_int MaxPoints")
      case True
      have "(1 :: rat) / 2 ^ 20 < 1 / of_int b"
      proof -
        have "rat_of_int b < rat_of_int (2 ^ 20)" using b by (simp only: of_int_less_iff)
        then show ?thesis using b by (simp add: field_simps)
      qed
      moreover have "q / 2 ^ 53 \<le> 2 * of_int MaxPoints / 2 ^ 53" using True by simp
      ultimately have "of_int MaxPoints < f64_round q"
        using q f64_round_between(1) [OF q0] by (simp add: MaxPoints_def)
      then show ?thesis using div pts by (simp add: Points_def q_def MaxPoints_def)
    next
      case False
      then have "of_int MaxPoints < f64_round q"
        using f64_round_between(1) [OF q0] by (simp add: MaxPoints_def)
      then show ?thesis using div pts by (simp add: Points_def q_def MaxPoints_def)
    qed
  qed
qed

text \<open>A higher-is-better count against a target, from zero.\<close>

lemma Points_count:
  assumes "d_points d = (\<lambda>raw. scale raw 0 (of_int target))" and "0 < target" "target < 2 ^ 20"
    and "0 \<le> k" "k < 2 ^ 32"
  shows "Points d (of_int k) = min MaxPoints ((MaxPoints * k) div target)"
proof -
  have "scale (of_int k) (of_int 0) (of_int target) = f64_round (of_int (MaxPoints * (k - 0)) / of_int (target - 0))"
    using assms by (intro scale_int) (auto simp: MaxPoints_def)
  then have "d_points d (of_int k) = f64_round (of_int (MaxPoints * k) / of_int target)"
    using assms(1) by simp
  then have "Points d (of_int k) = max 0 (min MaxPoints ((MaxPoints * k) div target))"
    by (rule Points_quotient) (use assms in \<open>auto simp: MaxPoints_def\<close>)
  moreover have "0 \<le> (MaxPoints * k) div target"
    using assms by (simp add: pos_imp_zdiv_nonneg_iff MaxPoints_def)
  ultimately show ?thesis by (simp add: MaxPoints_def)
qed

end
