(* ===== verification/NumberGuess.thy ===== *)
theory NumberGuess
  imports Scoring
begin

text \<open>
  \<open>internal/games/numberguess.go\<close>: three numbers between 1 and 100, seven guesses each. The state
  holds the secrets; a wrong guess narrows the range shown to the player, a right one or the
  seventh wrong one moves to the next round. The invariant ties the counters to the round and
  keeps the secret inside the range; the last section plays the game by halving the range.
\<close>

section \<open>State, view and move\<close>

definition numberGuessRounds :: int where "numberGuessRounds = 3"
definition numberGuessCeiling :: int where "numberGuessCeiling = 100"
definition numberGuessBudget :: int where "numberGuessBudget = 7"
definition numberGuessWorst :: int where "numberGuessWorst = numberGuessRounds * numberGuessBudget"
definition numberGuessBest :: int where "numberGuessBest = 9"

lemmas ng_consts =
  numberGuessRounds_def numberGuessCeiling_def numberGuessBudget_def numberGuessWorst_def numberGuessBest_def

record numberGuessState =
  Secrets :: "int list"
  Round :: int
  Low :: int
  High :: int
  Used :: int
  Total :: int
  Hint :: string
  NG_Done :: bool

record numberGuessView =
  v_Round :: int
  v_Rounds :: int
  v_Low :: int
  v_High :: int
  v_GuessesUsed :: int
  v_GuessesLeft :: int
  v_Hint :: string
  v_Solved :: int
  v_Done :: bool

record numberGuessMove =
  Guess :: "int option"

definition ng_start :: "seed \<Rightarrow> time \<Rightarrow> numberGuessState" where
  "ng_start seed now =
     \<lparr>Secrets = map (\<lambda>round. deriveRange seed ''number-guess'' round 1 numberGuessCeiling)
                  [0..numberGuessRounds - 1],
      Round = 0, Low = 1, High = numberGuessCeiling, Used = 0, Total = 0, Hint = '''', NG_Done = False\<rparr>"

definition ng_deadline :: "numberGuessState \<Rightarrow> time" where
  "ng_deadline s = zero_time"

definition ng_view :: "numberGuessState \<Rightarrow> numberGuessView" where
  "ng_view s =
     (let solved = (if NG_Done s then numberGuessRounds else Round s)
      in \<lparr>v_Round = min (Round s + 1) numberGuessRounds, v_Rounds = numberGuessRounds,
          v_Low = Low s, v_High = High s, v_GuessesUsed = Used s,
          v_GuessesLeft = numberGuessBudget - Used s, v_Hint = Hint s, v_Solved = solved,
          v_Done = NG_Done s\<rparr>)"

definition ng_move_fields :: "numberGuessMove field list" where
  "ng_move_fields = [(''guess'', int_ptr_field (\<lambda>g m. m\<lparr>Guess := g\<rparr>))]"

definition advanceNumberGuessRound :: "numberGuessState \<Rightarrow> numberGuessState" where
  "advanceNumberGuessRound s =
     (let s' = s\<lparr>Round := Round s + 1, Used := 0, Low := 1, High := numberGuessCeiling\<rparr>
      in if numberGuessRounds \<le> Round s' then s'\<lparr>NG_Done := True\<rparr> else s')"

text \<open>The body of \<open>move\<close> from the guess on, once it is known to be a number in range.\<close>

definition ng_guess :: "numberGuessState \<Rightarrow> int \<Rightarrow> game_error + numberGuessState \<times> outcome" where
  "ng_guess s guess =
     (if Round s < 0 \<or> int (length (Secrets s)) \<le> Round s then Inl (GoPanic ''index out of range'')
      else
        let secret = Secrets s ! nat (Round s);
            s = s\<lparr>Used := Used s + 1, Total := Total s + 1\<rparr>
        in if guess = secret then
             (let s = s\<lparr>Hint := ''correct''\<rparr>
              in Inr (advanceNumberGuessRound s,
                   \<lparr>Correct = True, Done = numberGuessRounds \<le> Round s + 1, HoldUntil = zero_time\<rparr>))
           else
             let s = (if guess < secret then s\<lparr>Hint := ''higher'', Low := max (Low s) (guess + 1)\<rparr>
                      else s\<lparr>Hint := ''lower'', High := min (High s) (guess - 1)\<rparr>)
             in if numberGuessBudget \<le> Used s then
                  (let s = s\<lparr>Hint := ''out of guesses''\<rparr>
                   in Inr (advanceNumberGuessRound s,
                        \<lparr>Correct = False, Done = numberGuessRounds \<le> Round s + 1, HoldUntil = zero_time\<rparr>))
                else Inr (s, no_outcome))"

definition ng_move ::
    "numberGuessState \<Rightarrow> raw_message \<Rightarrow> time \<Rightarrow> game_error + numberGuessState \<times> outcome" where
  "ng_move s raw now =
     (if NG_Done s then Inl ErrAlreadyDone
      else and_then (decodeMove ng_move_fields \<lparr>Guess = None\<rparr> raw) (\<lambda>move.
        case Guess move of
          None \<Rightarrow> Inl (ErrInvalidMove ''a guess is required'')
        | Some guess \<Rightarrow>
            if guess < 1 \<or> numberGuessCeiling < guess
            then Inl (ErrInvalidMove ''guess must be between 1 and 100'')
            else ng_guess s guess))"

definition ng_raw_int :: "numberGuessState \<Rightarrow> int" where
  "ng_raw_int s =
     (let total = Total s
      in if \<not> NG_Done s
         then total + ((numberGuessRounds - Round s) * numberGuessBudget - Used s)
         else total)"

definition ng_raw :: "numberGuessState \<Rightarrow> f64" where
  "ng_raw s = f64_of_int (ng_raw_int s)"

section \<open>Storage\<close>

definition ng_marshal :: "numberGuessState \<Rightarrow> json option" where
  "ng_marshal s = Some (JObj
     [(''secrets'', JArr (map JInt (Secrets s))), (''round'', JInt (Round s)), (''low'', JInt (Low s)),
      (''high'', JInt (High s)), (''used'', JInt (Used s)), (''total'', JInt (Total s)),
      (''hint'', JStr (Hint s)), (''done'', JBool (NG_Done s))])"

definition ng_fields :: "numberGuessState field list" where
  "ng_fields =
     [(''secrets'', ints_field (\<lambda>x s. s\<lparr>Secrets := x\<rparr>)), (''round'', int_field (\<lambda>x s. s\<lparr>Round := x\<rparr>)),
      (''low'', int_field (\<lambda>x s. s\<lparr>Low := x\<rparr>)), (''high'', int_field (\<lambda>x s. s\<lparr>High := x\<rparr>)),
      (''used'', int_field (\<lambda>x s. s\<lparr>Used := x\<rparr>)), (''total'', int_field (\<lambda>x s. s\<lparr>Total := x\<rparr>)),
      (''hint'', str_field (\<lambda>x s. s\<lparr>Hint := x\<rparr>)), (''done'', bool_field (\<lambda>x s. s\<lparr>NG_Done := x\<rparr>))]"

definition ng_unmarshal :: "json \<Rightarrow> numberGuessState option" where
  "ng_unmarshal j = decode_struct False ng_fields j
     \<lparr>Secrets = [], Round = 0, Low = 0, High = 0, Used = 0, Total = 0, Hint = '''', NG_Done = False\<rparr>"

definition ng_marshal_view :: "numberGuessView \<Rightarrow> json" where
  "ng_marshal_view v = JObj
     [(''round'', JInt (v_Round v)), (''rounds'', JInt (v_Rounds v)), (''low'', JInt (v_Low v)),
      (''high'', JInt (v_High v)), (''guesses_used'', JInt (v_GuessesUsed v)),
      (''guesses_left'', JInt (v_GuessesLeft v)), (''hint'', JStr (v_Hint v)),
      (''solved'', JInt (v_Solved v)), (''done'', JBool (v_Done v))]"

definition numberGuessLogic :: "numberGuessState logic" where
  "numberGuessLogic =
     \<lparr>l_start = ng_start, l_deadline = ng_deadline, l_view = (\<lambda>s. Some (ng_marshal_view (ng_view s))),
      l_move = ng_move, l_raw = ng_raw, l_marshal = ng_marshal, l_unmarshal = ng_unmarshal\<rparr>"

definition numberGuessDefinition :: game_definition where
  "numberGuessDefinition =
     \<lparr>Slug = NumberGuess, Name = ''Number Guess'', Metric = ''guesses'', LowerIsBetter = True, Duration = 0,
      d_engine = engineFor numberGuessLogic,
      d_points = (\<lambda>raw. scale raw (of_int numberGuessWorst) (of_int numberGuessBest))\<rparr>"

section \<open>The invariant\<close>

definition ng_inv :: "numberGuessState \<Rightarrow> bool" where
  "ng_inv s \<longleftrightarrow>
     length (Secrets s) = 3 \<and> (\<forall>x \<in> set (Secrets s). 1 \<le> x \<and> x \<le> 100) \<and>
     0 \<le> Round s \<and> Round s \<le> 3 \<and> (NG_Done s \<longleftrightarrow> Round s = 3) \<and>
     0 \<le> Used s \<and> Used s \<le> 6 \<and> (NG_Done s \<longrightarrow> Used s = 0) \<and>
     Round s \<le> Total s - Used s \<and> Total s - Used s \<le> 7 * Round s \<and>
     1 \<le> Low s \<and> High s \<le> 100 \<and> (NG_Done s \<longrightarrow> Low s = 1 \<and> High s = 100) \<and>
     (\<not> NG_Done s \<longrightarrow> Low s \<le> Secrets s ! nat (Round s) \<and> Secrets s ! nat (Round s) \<le> High s)"

lemma ng_secret_range:
  assumes "ng_inv s" and "\<not> NG_Done s"
  shows "1 \<le> Secrets s ! nat (Round s)" and "Secrets s ! nat (Round s) \<le> 100"
    and "nat (Round s) < length (Secrets s)"
proof -
  have "nat (Round s) < length (Secrets s)" using assms by (auto simp: ng_inv_def)
  then have "Secrets s ! nat (Round s) \<in> set (Secrets s)" by simp
  with assms show "1 \<le> Secrets s ! nat (Round s)" "Secrets s ! nat (Round s) \<le> 100"
    by (auto simp: ng_inv_def)
  show "nat (Round s) < length (Secrets s)" by fact
qed

lemma ng_start_inv: "ng_inv (ng_start seed now)"
proof -
  have "1 \<le> deriveRange seed l i 1 100 \<and> deriveRange seed l i 1 100 \<le> 100" for l i
    using deriveRange_bounds [of 1 100 seed l i] by simp
  then show ?thesis by (simp add: ng_inv_def ng_start_def ng_consts upto.simps)
qed

text \<open>Moving to the next round, with the guess just spent counted in.\<close>

lemma advance_inv:
  assumes "length (Secrets s) = 3" and "\<forall>x \<in> set (Secrets s). 1 \<le> x \<and> x \<le> 100"
    and "0 \<le> Round s" "Round s \<le> 2" "\<not> NG_Done s"
    and "Round s + 1 \<le> Total s" "Total s \<le> 7 * (Round s + 1)"
  shows "ng_inv (advanceNumberGuessRound s)"
proof -
  have "nat (Round s + 1) < 3 \<Longrightarrow> Secrets s ! nat (Round s + 1) \<in> set (Secrets s)"
    using assms(1) by simp
  then show ?thesis
    using assms by (auto simp: ng_inv_def advanceNumberGuessRound_def Let_def ng_consts)
qed

lemma ng_guess_inv:
  assumes inv: "ng_inv s" and nd: "\<not> NG_Done s" and g: "1 \<le> guess" "guess \<le> 100"
    and step: "ng_guess s guess = Inr (s', out)"
  shows "ng_inv s'"
proof -
  note sec = ng_secret_range [OF inv nd]
  define secret where "secret = Secrets s ! nat (Round s)"
  have base: "length (Secrets s) = 3" "\<forall>x \<in> set (Secrets s). 1 \<le> x \<and> x \<le> 100"
    "0 \<le> Round s" "Round s \<le> 2" "0 \<le> Used s" "Used s \<le> 6"
    "Round s \<le> Total s - Used s" "Total s - Used s \<le> 7 * Round s"
    "1 \<le> Low s" "High s \<le> 100" "Low s \<le> secret" "secret \<le> High s"
    using inv nd by (auto simp: ng_inv_def secret_def)
  consider (advance) t where "s' = advanceNumberGuessRound t" "Secrets t = Secrets s"
      "Round t = Round s" "Total t = Total s + 1" "\<not> NG_Done t" 
    | (stay) "Secrets s' = Secrets s" "Round s' = Round s" "Total s' = Total s + 1"
      "Used s' = Used s + 1" "\<not> NG_Done s'" "Used s' \<le> 6" "1 \<le> Low s'" "High s' \<le> 100"
      "Low s' \<le> secret" "secret \<le> High s'"
    using step base nd g sec
    by (auto simp: ng_guess_def Let_def secret_def [symmetric] ng_consts split: if_splits)
  then show ?thesis
  proof cases
    case advance
    then show ?thesis using base by (auto intro!: advance_inv)
  next
    case stay
    then show ?thesis using base by (auto simp: ng_inv_def secret_def)
  qed
qed

lemma ng_move_cases:
  assumes "ng_move s raw now = Inr (s', out)"
  obtains guess where "\<not> NG_Done s" "1 \<le> guess" "guess \<le> 100" "ng_guess s guess = Inr (s', out)"
proof -
  have nd: "\<not> NG_Done s" using assms by (auto simp: ng_move_def)
  with assms obtain move :: numberGuessMove where move: "(case Guess move of None \<Rightarrow> Inl (ErrInvalidMove ''a guess is required'')
      | Some guess \<Rightarrow> if guess < 1 \<or> numberGuessCeiling < guess
          then Inl (ErrInvalidMove ''guess must be between 1 and 100'') else ng_guess s guess) = Inr (s', out)"
    by (simp add: ng_move_def and_then_Inr) blast
  then obtain guess where "Guess move = Some guess" by (cases "Guess move") auto
  with move nd show ?thesis by (intro that [of guess]) (auto simp: ng_consts split: if_splits)
qed

lemma ng_move_inv: "ng_inv s \<Longrightarrow> ng_move s raw now = Inr (s', out) \<Longrightarrow> ng_inv s'"
  by (erule ng_move_cases) (rule ng_guess_inv)

lemma ng_inv_fits:
  assumes "ng_inv s"
  shows "\<forall>x \<in> set (Secrets s). fits_int64 x" and "fits_int64 (Round s)" and "fits_int64 (Low s)"
    and "fits_int64 (High s)" and "fits_int64 (Used s)" and "fits_int64 (Total s)"
proof -
  have small: "0 \<le> n \<Longrightarrow> n \<le> 1000 \<Longrightarrow> fits_int64 n" for n by (simp add: fits_int64_def)
  show "\<forall>x \<in> set (Secrets s). fits_int64 x" using assms by (force simp: ng_inv_def intro: small)
  show "fits_int64 (Round s)" "fits_int64 (Used s)" "fits_int64 (Total s)"
    using assms by (auto simp: ng_inv_def intro!: small)
  show "fits_int64 (Low s)" "fits_int64 (High s)"
    using assms ng_secret_range(1,2) [OF assms] by (cases "NG_Done s"; force simp: ng_inv_def intro!: small)+
qed

lemma ng_stored: "ng_inv s \<Longrightarrow> ng_marshal s = Some j \<Longrightarrow> ng_unmarshal j = Some s"
  using ng_inv_fits [of s]
  by (auto simp: ng_marshal_def ng_unmarshal_def ng_fields_def json_simps)

interpretation number_guess: bounded_game numberGuessLogic ng_inv
  by unfold_locales
    (auto simp: numberGuessLogic_def ng_start_inv intro: ng_stored ng_move_inv)

section \<open>Functional behaviour\<close>

lemma decode_guess: "fits_int64 g \<Longrightarrow>
    decodeMove ng_move_fields \<lparr>Guess = None\<rparr> (Text (JObj [(''guess'', JInt g)])) = Inr \<lparr>Guess = Some g\<rparr>"
  by (simp add: decodeMove_def ng_move_fields_def json_simps)

lemma ng_move_guess:
  assumes "\<not> NG_Done s" and "1 \<le> g" "g \<le> 100"
  shows "ng_move s (Text (JObj [(''guess'', JInt g)])) now = ng_guess s g"
proof -
  have "fits_int64 g" using assms by (simp add: fits_int64_def)
  with assms show ?thesis by (simp add: ng_move_def decode_guess ng_consts)
qed

text \<open>One guess, described: what it costs, and what it does to the round and to the range.\<close>

lemma ng_guess_step:
  assumes inv: "ng_inv s" and nd: "\<not> NG_Done s"
  obtains s' out where "ng_guess s g = Inr (s', out)" and "Total s' = Total s + 1"
    and "Secrets s' = Secrets s" and "HoldUntil out = zero_time" and "Done out = NG_Done s'"
    and "Correct out \<longleftrightarrow> g = Secrets s ! nat (Round s)"
    and "if Correct out \<or> Used s = 6
         then Round s' = Round s + 1 \<and> Used s' = 0 \<and> Low s' = 1 \<and> High s' = 100
         else Round s' = Round s \<and> Used s' = Used s + 1 \<and>
           Low s' = (if g < Secrets s ! nat (Round s) then max (Low s) (g + 1) else Low s) \<and>
           High s' = (if g < Secrets s ! nat (Round s) then High s else min (High s) (g - 1))"
    and "NG_Done s' \<longleftrightarrow> Round s' = 3"
proof -
  have "0 \<le> Round s" "Round s \<le> 2" "length (Secrets s) = 3" "Used s \<le> 6"
    using inv nd by (auto simp: ng_inv_def)
  then show thesis
    using nd by (intro that [of "fst (projr (ng_guess s g))" "snd (projr (ng_guess s g))"])
      (auto simp: ng_guess_def advanceNumberGuessRound_def Let_def ng_consts no_outcome_def)
qed

lemma ng_move_total_panic:
  assumes "ng_inv s"
  shows "ng_move s raw now \<noteq> Inl (GoPanic msg)"
proof
  assume panic: "ng_move s raw now = Inl (GoPanic msg)"
  then have nd: "\<not> NG_Done s" by (auto simp: ng_move_def)
  have "decodeMove ng_move_fields \<lparr>Guess = None\<rparr> raw \<noteq> Inl (GoPanic msg)"
    using decodeMove_error [of ng_move_fields "\<lparr>Guess = None\<rparr>" raw "GoPanic msg"]
    by (auto simp: is_invalid_move_def)
  with panic nd obtain g where "ng_guess s g = Inl (GoPanic msg)"
    by (auto simp: ng_move_def and_then_Inl split: option.splits if_splits)
  then show False by (rule_tac ng_guess_step [OF assms nd, of g]) simp
qed

lemma ng_move_raw:
  assumes inv: "ng_inv s" and step: "ng_move s raw now = Inr (s', out)"
  shows "ng_raw_int s' \<le> ng_raw_int s"
proof -
  obtain g where nd: "\<not> NG_Done s" and g: "ng_guess s g = Inr (s', out)"
    using step by (rule ng_move_cases)
  have "0 \<le> Used s" "Used s \<le> 6" "Round s \<le> 2" using inv nd by (auto simp: ng_inv_def)
  then show ?thesis
    using g nd by (rule_tac ng_guess_step [OF inv nd, of g])
      (auto simp: ng_raw_int_def Let_def ng_consts split: if_splits)
qed

lemma ng_play_raw:
  assumes "ng_inv s"
  shows "ng_raw_int (play ng_move s ms) \<le> ng_raw_int s"
proof -
  have "ng_inv (play ng_move s ms) \<and> ng_raw_int (play ng_move s ms) \<le> ng_raw_int s"
    by (rule play_induct_invariant [where I = "\<lambda>t. ng_inv t \<and> ng_raw_int t \<le> ng_raw_int s"])
      (use assms in \<open>auto dest: ng_move_inv ng_move_raw\<close>)
  then show ?thesis ..
qed

lemma ng_raw_bounds: "ng_inv s \<Longrightarrow> 3 \<le> ng_raw_int s \<and> ng_raw_int s \<le> 21"
  by (auto simp: ng_inv_def ng_raw_int_def Let_def ng_consts)

lemma ng_points:
  assumes "0 \<le> k" and "k \<le> 1000"
  shows "Points numberGuessDefinition (f64_of_int k) = max 0 (min MaxPoints ((MaxPoints * (21 - k)) div 12))"
proof -
  have "f64_of_int k = of_int k" using assms f64_round_of_int [of k] by (simp add: f64_of_int_def)
  moreover have "scale (of_int k) (of_int 21) (of_int 9)
      = f64_round (of_int (MaxPoints * (k - 21)) / of_int (9 - 21))"
    using assms by (intro scale_int) (auto simp: MaxPoints_def)
  moreover have "rat_of_int (MaxPoints * (k - 21)) / of_int (9 - 21) = of_int (MaxPoints * (21 - k)) / of_int 12"
    by (simp add: field_simps)
  moreover have "d_points numberGuessDefinition (of_int k) = scale (of_int k) (of_int 21) (of_int 9)"
    by (simp add: numberGuessDefinition_def ng_consts)
  ultimately have "d_points numberGuessDefinition (f64_of_int k)
      = f64_round (of_int (MaxPoints * (21 - k)) / of_int 12)"
    by (simp only:)
  then show ?thesis by (rule Points_quotient) (use assms in \<open>auto simp: MaxPoints_def\<close>)
qed

section \<open>Playing by halving\<close>

definition halving_guess :: "numberGuessState \<Rightarrow> int" where
  "halving_guess s = (Low s + High s) div 2"

text \<open>A player who always guesses the middle of the range shown, for at most \<open>n\<close> moves.\<close>

fun halve :: "nat \<Rightarrow> numberGuessState \<Rightarrow> numberGuessState \<times> outcome list" where
  "halve 0 s = (s, [])"
| "halve (Suc n) s =
     (case ng_move s (Text (JObj [(''guess'', JInt (halving_guess s))])) zero_time of
        Inl _ \<Rightarrow> (s, [])
      | Inr (s', out) \<Rightarrow> (let (t, outs) = halve n s' in (t, out # outs)))"

text \<open>The range left is smaller than two to the guesses left, so the last guess is certain.\<close>

definition halving_inv :: "numberGuessState \<Rightarrow> bool" where
  "halving_inv s \<longleftrightarrow> ng_inv s \<and> (\<not> NG_Done s \<longrightarrow> High s - Low s + 1 < 2 ^ nat (7 - Used s))"

definition halving_left :: "numberGuessState \<Rightarrow> nat" where
  "halving_left s = (if NG_Done s then 0 else nat ((3 - Round s) * 7 - Used s))"

lemma halving_step:
  assumes H: "halving_inv s" and nd: "\<not> NG_Done s"
  obtains s' out where
    "ng_move s (Text (JObj [(''guess'', JInt (halving_guess s))])) zero_time = Inr (s', out)"
    and "halving_inv s'" and "halving_left s' < halving_left s" and "Total s' = Total s + 1"
    and "Round s' = Round s + (if Correct out then 1 else 0)"
proof -
  define g where "g = halving_guess s"
  define secret where "secret = Secrets s ! nat (Round s)"
  have inv: "ng_inv s" and size: "High s - Low s + 1 < 2 ^ nat (7 - Used s)"
    using H nd by (auto simp: halving_inv_def)
  have b: "1 \<le> Low s" "High s \<le> 100" "Low s \<le> secret" "secret \<le> High s" "0 \<le> Used s" "Used s \<le> 6"
    "0 \<le> Round s" "Round s \<le> 2"
    using inv nd by (auto simp: ng_inv_def secret_def)
  have g: "Low s \<le> g" "g \<le> High s" "High s - g \<le> g - Low s + 1" "g - Low s \<le> High s - g"
    using b by (simp_all add: g_def halving_guess_def)
  have last: "Used s = 6 \<Longrightarrow> g = secret" using size b g by simp
  have move: "ng_move s (Text (JObj [(''guess'', JInt g)])) zero_time = ng_guess s g"
    using nd b g by (intro ng_move_guess) auto
  obtain s' out where st: "ng_guess s g = Inr (s', out)" "Total s' = Total s + 1"
    "Correct out \<longleftrightarrow> g = secret"
    "if Correct out \<or> Used s = 6
     then Round s' = Round s + 1 \<and> Used s' = 0 \<and> Low s' = 1 \<and> High s' = 100
     else Round s' = Round s \<and> Used s' = Used s + 1 \<and>
       Low s' = (if g < secret then max (Low s) (g + 1) else Low s) \<and>
       High s' = (if g < secret then High s else min (High s) (g - 1))"
    "NG_Done s' \<longleftrightarrow> Round s' = 3"
    unfolding secret_def by (rule ng_guess_step [OF inv nd, of g]) blast
  have inv': "ng_inv s'" using ng_move_inv [OF inv] move st(1) by simp
  have half: "\<not> Correct out \<Longrightarrow> High s' - Low s' + 1 < 2 ^ nat (7 - Used s')"
  proof -
    assume no: "\<not> Correct out"
    then have u: "Used s \<le> 5" using last st(3) b by fastforce
    then have "nat (7 - Used s) = Suc (nat (7 - Used s'))" using st(4) no by auto
    then have "High s - Low s + 1 < 2 * 2 ^ nat (7 - Used s')" using size by simp
    then show ?thesis using st(3,4) no u g by (auto split: if_splits)
  qed
  show thesis
  proof (rule that [of s' out])
    show "halving_inv s'"
      using inv' half st(4) by (cases "Correct out") (auto simp: halving_inv_def)
    show "halving_left s' < halving_left s"
      using st(3,4,5) last nd b by (auto simp: halving_left_def split: if_splits)
    show "Round s' = Round s + (if Correct out then 1 else 0)"
      using st(3,4) last by (auto split: if_splits)
    show "ng_move s (Text (JObj [(''guess'', JInt (halving_guess s))])) zero_time = Inr (s', out)"
      using move st(1) by (simp add: g_def)
  qed (rule st(2))
qed

lemma halve_wins:
  assumes "halving_inv s" and "halving_left s \<le> n" and "halve n s = (t, outs)"
  shows "NG_Done t \<and> int (length (filter Correct outs)) = 3 - Round s
    \<and> Total t = Total s + int (length outs) \<and> ng_inv t"
  using assms
proof (induction n arbitrary: s t outs)
  case 0
  then have "NG_Done s \<and> ng_inv s" by (auto simp: halving_left_def halving_inv_def ng_inv_def split: if_splits)
  with 0 show ?case by (auto simp: ng_inv_def)
next
  case (Suc n)
  show ?case
  proof (cases "NG_Done s")
    case True
    then have "halve (Suc n) s = (s, [])" by (simp add: ng_move_def)
    with True Suc.prems show ?thesis by (auto simp: halving_inv_def ng_inv_def)
  next
    case False
    obtain s' out where st:
      "ng_move s (Text (JObj [(''guess'', JInt (halving_guess s))])) zero_time = Inr (s', out)"
      "halving_inv s'" "halving_left s' < halving_left s" "Total s' = Total s + 1"
      "Round s' = Round s + (if Correct out then 1 else 0)"
      by (rule halving_step [OF Suc.prems(1) False])
    obtain t' outs' where rest: "halve n s' = (t', outs')" by fastforce
    have "t = t'" "outs = out # outs'" using Suc.prems(3) st(1) rest by simp_all
    moreover have "halving_left s' \<le> n" using st(3) Suc.prems(2) by simp
    ultimately show ?thesis using Suc.IH [OF st(2) _ rest] st(4,5) by auto
  qed
qed

lemma halving_start: "halving_inv (ng_start seed now) \<and> halving_left (ng_start seed now) = 21"
  using ng_start_inv [of seed now]
  by (auto simp: halving_inv_def halving_left_def ng_start_def ng_consts)

section \<open>Properties\<close>

text \<open>
  C38. Whatever a client sends, in whatever order, every state a number-guess session passes
  through satisfies the invariant (three secrets in 1..100, the current one inside the range
  shown, the counters consistent with the round), and the next move never runs off the secrets.
\<close>

theorem number_guess_invariant:
  "ng_inv (play ng_move (ng_start seed now) ms) \<and>
   ng_move (play ng_move (ng_start seed now) ms) raw t \<noteq> Inl (GoPanic msg)"
  using number_guess.ok_session [of seed now ms] ng_move_total_panic
  by (simp add: numberGuessLogic_def)

text \<open>
  Quitting never beats playing on: whatever further moves a player makes, the points the
  session would be settled for never go down, because rounds not played are charged in full.
\<close>

theorem number_guess_quitting_never_pays:
  "Points numberGuessDefinition (ng_raw (play ng_move (ng_start seed now) ms))
     \<le> Points numberGuessDefinition (ng_raw (play ng_move (play ng_move (ng_start seed now) ms) ms'))"
proof -
  let ?s = "play ng_move (ng_start seed now) ms" and ?t = "play ng_move (play ng_move (ng_start seed now) ms) ms'"
  have inv: "ng_inv ?s" using number_guess.ok_session [of seed now ms] by (simp add: numberGuessLogic_def)
  have inv': "ng_inv ?t" using number_guess.ok_play [OF inv] by (simp add: numberGuessLogic_def)
  have le: "ng_raw_int ?t \<le> ng_raw_int ?s" using inv by (rule ng_play_raw)
  have "(MaxPoints * (21 - ng_raw_int ?s)) div 12 \<le> (MaxPoints * (21 - ng_raw_int ?t)) div 12"
    using le by (intro zdiv_mono1) (simp_all add: MaxPoints_def)
  then show ?thesis
    using ng_raw_bounds [OF inv] ng_raw_bounds [OF inv'] by (simp add: ng_raw_def ng_points)
qed

text \<open>
  The rules promise that seven guesses are "exactly enough to always win by halving the
  range". A player who always guesses the middle finds all three numbers, within 21 guesses in
  all, whatever the seed.
\<close>

theorem number_guess_halving_wins:
  "case halve 21 (ng_start seed now) of (t, outs) \<Rightarrow>
     NG_Done t \<and> length (filter Correct outs) = 3 \<and> Total t = int (length outs) \<and> Total t \<le> 21"
proof -
  obtain t outs where h: "halve 21 (ng_start seed now) = (t, outs)" by fastforce
  have "NG_Done t \<and> int (length (filter Correct outs)) = 3 \<and> Total t = int (length outs) \<and> ng_inv t"
    using halve_wins [OF _ _ h] halving_start [of seed now] by (simp add: ng_start_def)
  then show ?thesis using h by (auto simp: ng_inv_def)
qed

end
