(* ===== verification/ReactionGame.thy ===== *)
theory ReactionGame
  imports Scoring
begin

text \<open>
  \<open>internal/games/reaction.go\<close>: five rounds of arming and tapping. Arming draws a delay and stores the
  instant the signal is due; the response to the move is held back until then. A tap is timed from
  that instant on the server's clock; one sooner than 80 ms after it is a foul charged 500 ms.
\<close>

section \<open>State, view and move\<close>

definition reactionRounds :: int where "reactionRounds = 5"
definition reactionMinDelayMs :: int where "reactionMinDelayMs = 1200"
definition reactionMaxDelayMs :: int where "reactionMaxDelayMs = 3000"
definition reactionFloorMs :: int where "reactionFloorMs = 80"
definition reactionFoulMs :: int where "reactionFoulMs = 500"
definition reactionWorstMs :: int where "reactionWorstMs = 500"
definition reactionBestMs :: int where "reactionBestMs = 180"

lemmas reaction_consts =
  reactionRounds_def reactionMinDelayMs_def reactionMaxDelayMs_def reactionFloorMs_def
  reactionFoulMs_def reactionWorstMs_def reactionBestMs_def

record reactionState =
  r_Seed :: seed
  r_Round :: int
  GoAt :: "time option"
  Results :: "int list"
  Fouls :: int
  r_Done :: bool

record reactionView =
  rv_Round :: int
  rv_Rounds :: int
  rv_Armed :: bool
  rv_Results :: "int list"
  rv_Fouls :: int
  rv_Next :: string
  rv_Done :: bool

record reactionMove =
  Action :: string

definition r_start :: "seed \<Rightarrow> time \<Rightarrow> reactionState" where
  "r_start seed now =
     \<lparr>r_Seed = seed, r_Round = 0, GoAt = None, Results = [], Fouls = 0, r_Done = False\<rparr>"

definition r_deadline :: "reactionState \<Rightarrow> time" where
  "r_deadline s = zero_time"

definition r_view :: "reactionState \<Rightarrow> reactionView" where
  "r_view s =
     (let nxt = (if r_Done s then ''finish'' else if GoAt s \<noteq> None then ''tap'' else ''arm'')
      in \<lparr>rv_Round = min (r_Round s + 1) reactionRounds, rv_Rounds = reactionRounds,
          rv_Armed = (GoAt s \<noteq> None), rv_Results = Results s, rv_Fouls = Fouls s,
          rv_Next = nxt, rv_Done = r_Done s\<rparr>)"

definition r_move_fields :: "reactionMove field list" where
  "r_move_fields = [(''action'', str_field (\<lambda>a m. m\<lparr>Action := a\<rparr>))]"

definition r_arm :: "reactionState \<Rightarrow> time \<Rightarrow> game_error + reactionState \<times> outcome" where
  "r_arm s now =
     (if GoAt s \<noteq> None then Inl (ErrInvalidMove ''this round is already armed'')
      else
        let delay = deriveRange (r_Seed s) ''reaction-delay'' (r_Round s) reactionMinDelayMs reactionMaxDelayMs;
            goAt = time_add now (delay * millisecond)
        in Inr (s\<lparr>GoAt := Some goAt\<rparr>, \<lparr>Correct = False, Done = False, HoldUntil = goAt\<rparr>))"

definition r_tap :: "reactionState \<Rightarrow> time \<Rightarrow> game_error + reactionState \<times> outcome" where
  "r_tap s now =
     (case GoAt s of
        None \<Rightarrow> Inl (ErrInvalidMove ''arm the round before tapping'')
      | Some goAt \<Rightarrow>
          let elapsed = milliseconds (time_sub now goAt);
              foul = elapsed < reactionFloorMs;
              s = (if foul then s\<lparr>Fouls := Fouls s + 1, Results := Results s @ [reactionFoulMs]\<rparr>
                   else s\<lparr>Results := Results s @ [elapsed]\<rparr>);
              s = s\<lparr>GoAt := None, r_Round := r_Round s + 1\<rparr>;
              s = s\<lparr>r_Done := reactionRounds \<le> r_Round s\<rparr>
          in Inr (s, \<lparr>Correct = \<not> foul, Done = r_Done s, HoldUntil = zero_time\<rparr>))"

definition r_move ::
    "reactionState \<Rightarrow> raw_message \<Rightarrow> time \<Rightarrow> game_error + reactionState \<times> outcome" where
  "r_move s raw now =
     (if r_Done s then Inl ErrAlreadyDone
      else and_then (decodeMove r_move_fields \<lparr>Action = ''''\<rparr> raw) (\<lambda>move.
        if Action move = ''arm'' then r_arm s now
        else if Action move = ''tap'' then r_tap s now
        else Inl (ErrInvalidMove ''action must be arm or tap'')))"

definition r_total :: "reactionState \<Rightarrow> int" where
  "r_total s =
     (let total = sum_list (Results s);
          missing = reactionRounds - int (length (Results s))
      in if 0 < missing then total + missing * reactionFoulMs else total)"

definition r_mean :: "int \<Rightarrow> f64" where
  "r_mean total_ms = f64_div (f64_of_int total_ms) (f64_of_int reactionRounds)"

definition r_raw :: "reactionState \<Rightarrow> f64" where
  "r_raw s = r_mean (r_total s)"

section \<open>Storage\<close>

definition r_marshal :: "reactionState \<Rightarrow> json option" where
  "r_marshal s =
     (case (case GoAt s of None \<Rightarrow> Some JNull | Some t \<Rightarrow> marshal_time t) of
        None \<Rightarrow> None
      | Some go_at \<Rightarrow> Some (JObj
          [(''seed'', JInt (sint (r_Seed s))), (''round'', JInt (r_Round s)), (''go_at'', go_at),
           (''results'', JArr (map JInt (Results s))), (''fouls'', JInt (Fouls s)),
           (''done'', JBool (r_Done s))]))"

definition r_fields :: "reactionState field list" where
  "r_fields =
     [(''seed'', seed_field (\<lambda>x s. s\<lparr>r_Seed := x\<rparr>)), (''round'', int_field (\<lambda>x s. s\<lparr>r_Round := x\<rparr>)),
      (''go_at'', time_ptr_field (\<lambda>x s. s\<lparr>GoAt := x\<rparr>)), (''results'', ints_field (\<lambda>x s. s\<lparr>Results := x\<rparr>)),
      (''fouls'', int_field (\<lambda>x s. s\<lparr>Fouls := x\<rparr>)), (''done'', bool_field (\<lambda>x s. s\<lparr>r_Done := x\<rparr>))]"

definition r_unmarshal :: "json \<Rightarrow> reactionState option" where
  "r_unmarshal j = decode_struct False r_fields j
     \<lparr>r_Seed = 0, r_Round = 0, GoAt = None, Results = [], Fouls = 0, r_Done = False\<rparr>"

definition r_marshal_view :: "reactionView \<Rightarrow> json" where
  "r_marshal_view v = JObj
     [(''round'', JInt (rv_Round v)), (''rounds'', JInt (rv_Rounds v)), (''armed'', JBool (rv_Armed v)),
      (''results'', JArr (map JInt (rv_Results v))), (''fouls'', JInt (rv_Fouls v)),
      (''next'', JStr (rv_Next v)), (''done'', JBool (rv_Done v))]"

definition reactionLogic :: "reactionState logic" where
  "reactionLogic =
     \<lparr>l_start = r_start, l_deadline = r_deadline, l_view = (\<lambda>s. Some (r_marshal_view (r_view s))),
      l_move = r_move, l_raw = r_raw, l_marshal = r_marshal, l_unmarshal = r_unmarshal\<rparr>"

definition reactionDefinition :: game_definition where
  "reactionDefinition =
     \<lparr>Slug = Reaction, Name = ''Reaction Time'', Metric = ''milliseconds'', LowerIsBetter = True, Duration = 0,
      d_engine = engineFor reactionLogic,
      d_points = (\<lambda>raw. scale raw (of_int reactionWorstMs) (of_int reactionBestMs))\<rparr>"

section \<open>The invariant\<close>

definition r_inv :: "reactionState \<Rightarrow> bool" where
  "r_inv s \<longleftrightarrow>
     r_Round s = int (length (Results s)) \<and> r_Round s \<le> 5 \<and> (r_Done s \<longleftrightarrow> r_Round s = 5) \<and>
     (GoAt s \<noteq> None \<longrightarrow> \<not> r_Done s) \<and> 0 \<le> Fouls s \<and> Fouls s \<le> r_Round s \<and>
     (\<forall>x \<in> set (Results s). 80 \<le> x \<and> x < 2 ^ 63)"

lemma milliseconds_bound:
  assumes "80 \<le> milliseconds (time_sub a b)"
  shows "milliseconds (time_sub a b) < 2 ^ 63"
proof (cases "0 \<le> time_sub a b")
  case True
  have "time_sub a b \<le> 2 ^ 63 - 1" by (simp add: time_sub_def)
  then have "time_sub a b div 1000000 \<le> (2 ^ 63 - 1) div 1000000" by (intro zdiv_mono1) simp_all
  with True show ?thesis by (simp add: milliseconds_nonneg)
next
  case False
  then have "milliseconds (time_sub a b) \<le> 0" by (intro milliseconds_neg) simp
  with assms show ?thesis by simp
qed

lemma r_move_cases:
  assumes "r_move s raw now = Inr (s', out)"
  shows "\<not> r_Done s \<and> (r_arm s now = Inr (s', out) \<or> r_tap s now = Inr (s', out))"
  using assms by (auto simp: r_move_def and_then_Inr split: if_splits)

lemma r_start_inv: "r_inv (r_start seed now)"
  by (simp add: r_inv_def r_start_def)

lemma r_arm_inv: "r_inv s \<Longrightarrow> \<not> r_Done s \<Longrightarrow> r_arm s now = Inr (s', out) \<Longrightarrow> r_inv s'"
  by (auto simp: r_arm_def r_inv_def Let_def split: if_splits)

lemma r_tap_inv:
  assumes inv: "r_inv s" and nd: "\<not> r_Done s" and step: "r_tap s now = Inr (s', out)"
  shows "r_inv s'"
proof -
  obtain g where "GoAt s = Some g" using step by (auto simp: r_tap_def split: option.splits)
  then show ?thesis
    using inv nd step milliseconds_bound [of now g]
    by (auto simp: r_tap_def r_inv_def Let_def reaction_consts split: if_splits)
qed

lemma r_move_inv: "r_inv s \<Longrightarrow> r_move s raw now = Inr (s', out) \<Longrightarrow> r_inv s'"
  using r_move_cases r_arm_inv r_tap_inv by blast

lemma r_stored: "r_inv s \<Longrightarrow> r_marshal s = Some j \<Longrightarrow> r_unmarshal j = Some s"
proof -
  assume inv: "r_inv s" and m: "r_marshal s = Some j"
  have fits: "fits_int64 (r_Round s)" "fits_int64 (Fouls s)" "\<forall>x \<in> set (Results s). fits_int64 x"
    using inv by (auto simp: r_inv_def fits_int64_def)
  then show ?thesis
    using m by (cases "GoAt s") (auto simp: r_marshal_def r_unmarshal_def r_fields_def json_simps
        split: option.splits)
qed

interpretation reaction_game: bounded_game reactionLogic r_inv
  by unfold_locales
    (auto simp: reactionLogic_def r_start_inv intro: r_stored r_move_inv)

section \<open>Moves\<close>

lemma decode_action: "decodeMove r_move_fields \<lparr>Action = ''''\<rparr> (Text (JObj [(''action'', JStr a)])) = Inr \<lparr>Action = a\<rparr>"
  by (simp add: decodeMove_def r_move_fields_def json_simps)

abbreviation arm_move :: raw_message where "arm_move \<equiv> Text (JObj [(''action'', JStr ''arm'')])"
abbreviation tap_move :: raw_message where "tap_move \<equiv> Text (JObj [(''action'', JStr ''tap'')])"

lemma r_move_arm: "\<not> r_Done s \<Longrightarrow> r_move s arm_move now = r_arm s now"
  by (simp add: r_move_def decode_action)

lemma r_move_tap: "\<not> r_Done s \<Longrightarrow> r_move s tap_move now = r_tap s now"
  by (simp add: r_move_def decode_action)

text \<open>The floor in nanoseconds: a tap is a foul exactly when it comes less than 80 ms after the signal.\<close>

lemma foul_iff: "milliseconds (time_sub now g) < 80 \<longleftrightarrow> now - g < 80 * millisecond"
proof (cases "now - g < 0")
  case True
  then have "time_sub now g < 0" by (simp add: time_sub_def)
  then show ?thesis using True milliseconds_neg [of "time_sub now g"] by (simp add: millisecond_def)
next
  case False
  then have "0 \<le> time_sub now g" and "time_sub now g = min (2 ^ 63 - 1) (now - g)"
    by (simp_all add: time_sub_def)
  moreover have "min (2 ^ 63 - 1) (now - g) div 1000000 < 80 \<longleftrightarrow> now - g < 80000000"
    using False by (auto simp: min_def)
  ultimately show ?thesis by (simp add: milliseconds_nonneg millisecond_def)
qed

lemma r_tap_spec:
  assumes "GoAt s = Some g" and "now - g < 2 ^ 63"
  shows "r_tap s now =
    (let foul = now - g < 80 * millisecond
     in Inr (s\<lparr>GoAt := None, r_Round := r_Round s + 1, r_Done := 5 \<le> r_Round s + 1,
            Fouls := Fouls s + (if foul then 1 else 0),
            Results := Results s @ [if foul then 500 else (now - g) div millisecond]\<rparr>,
          \<lparr>Correct = \<not> foul, Done = 5 \<le> r_Round s + 1, HoldUntil = zero_time\<rparr>))"
proof -
  have "\<not> now - g < 80 * millisecond \<Longrightarrow> milliseconds (time_sub now g) = (now - g) div millisecond"
    using assms(2) by (simp add: time_sub_def milliseconds_nonneg millisecond_def)
  then show ?thesis
    using assms(1) foul_iff [of now g] by (simp add: r_tap_def Let_def reaction_consts)
qed

lemma r_total_bounds:
  assumes "r_inv s"
  shows "400 \<le> r_total s"
proof -
  have "int (length xs) * 80 \<le> sum_list xs" if "\<forall>x \<in> set xs. 80 \<le> x" for xs :: "int list"
    using that by (induction xs) auto
  then have "int (length (Results s)) * 80 \<le> sum_list (Results s)"
    using assms by (auto simp: r_inv_def)
  then show ?thesis using assms by (auto simp: r_inv_def r_total_def Let_def reaction_consts)
qed

section \<open>Points\<close>

lemma reaction_scale_error:
  assumes "0 \<le> T" and "T \<le> 2500"
  shows "\<bar>d_points reactionDefinition (r_mean T) - of_int (25 * (2500 - T)) / 4\<bar> < 1 / 8"
proof -
  define t where "t = rat_of_int T"
  have t: "0 \<le> t" "t \<le> 2500" using assms by (simp_all add: t_def)
  have ints: "f64_of_int T = t" "f64_of_int 5 = 5"
    using assms f64_round_of_int [of T] f64_round_of_int [of 5] by (simp_all add: f64_of_int_def t_def)
  define raw where "raw = f64_round (t / 5)"
  define d where "d = f64_round (raw - 500)"
  define p where "p = f64_round (10000 * d)"
  define v where "v = f64_round (p / - 320)"
  have sub: "f64_sub 180 500 = - 320"
    using f64_sub_int [of 180 500] by simp
  have v: "d_points reactionDefinition (r_mean T) = v"
    using sub by (simp add: reactionDefinition_def r_mean_def ints reaction_consts scale_def
        f64_div_def f64_mul_def f64_sub_def MaxPoints_def v_def p_def d_def raw_def)
  have e1: "\<bar>raw - t / 5\<bar> \<le> 1 / 1000000"
    by (rule order_trans [OF f64_round_error [of "t / 5", folded raw_def]])
      (use t in \<open>simp add: abs_of_nonneg\<close>)
  have "0 \<le> t / 5" "t / 5 \<le> 500" using t by simp_all
  then have b1: "\<bar>raw - 500\<bar> \<le> 501" using e1 by linarith
  have e2: "\<bar>d - (raw - 500)\<bar> \<le> 1 / 1000000"
    by (rule order_trans [OF f64_round_error [of "raw - 500", folded d_def]]) (use b1 in simp)
  have b2: "\<bar>d\<bar> \<le> 502" using e2 b1 by linarith
  have e3: "\<bar>p - 10000 * d\<bar> \<le> 1 / 1000000"
    by (rule order_trans [OF f64_round_error [of "10000 * d", folded p_def]]) (use b2 in \<open>simp add: abs_mult\<close>)
  have b3: "\<bar>p\<bar> \<le> 5030000" using e3 b2 by linarith
  have "\<bar>p / - 320\<bar> \<le> 16000" using b3 by (simp add: abs_divide)
  then have e4: "\<bar>v - p / - 320\<bar> \<le> 1 / 1000000"
    by (intro order_trans [OF f64_round_error [of "p / - 320", folded v_def]]) simp
  then have e4': "\<bar>v + p / 320\<bar> \<le> 1 / 1000000" by simp
  have x: "of_int (25 * (2500 - T)) / 4 = 15625 - t * (25 / 4 :: rat)"
    by (simp add: t_def field_simps)
  show ?thesis
    unfolding v x abs_less_iff
    using e1 [unfolded abs_le_iff] e2 [unfolded abs_le_iff] e3 [unfolded abs_le_iff] e4' [unfolded abs_le_iff]
    by (intro conjI; linarith)
qed

lemma reaction_points_mean:
  assumes "0 \<le> T" and "T \<le> 2500"
  defines "exact \<equiv> min MaxPoints ((25 * (2500 - T)) div 4)"
  shows "exact - 1 \<le> Points reactionDefinition (r_mean T) \<and> Points reactionDefinition (r_mean T) \<le> exact"
proof -
  define v where "v = d_points reactionDefinition (r_mean T)"
  define n where "n = (25 * (2500 - T)) div 4"
  define r where "r = (25 * (2500 - T)) mod 4"
  have n0: "0 \<le> n" using assms by (simp add: n_def)
  have r: "0 \<le> r" "r \<le> 3" by (simp_all add: r_def)
  have "25 * (2500 - T) = 4 * n + r" by (simp add: n_def r_def)
  then have "rat_of_int (25 * (2500 - T)) = 4 * of_int n + of_int r"
    by (metis of_int_add of_int_mult of_int_numeral)
  then have err: "\<bar>v - (of_int n + of_int r / 4)\<bar> < 1 / 8"
    using reaction_scale_error [OF assms(1,2)] by (simp add: v_def add_divide_distrib)
  have r': "0 \<le> rat_of_int r" "rat_of_int r \<le> 3" using r by simp_all
  have hi: "v < of_int n + 1" and lo: "of_int n - 1 / 8 < v"
    using err [unfolded abs_less_iff] r' by linarith+
  have ex: "exact = min MaxPoints n" by (simp add: exact_def n_def)
  consider "v < 0" | "of_int MaxPoints < v" | "0 \<le> v" "v \<le> of_int MaxPoints" by linarith
  then show ?thesis
  proof cases
    case 1
    then have "rat_of_int n < 1" using lo by simp
    then have "n = 0" using n0 by simp
    with 1 show ?thesis by (simp add: Points_def ex MaxPoints_def flip: v_def)
  next
    case 2
    then have "rat_of_int MaxPoints < of_int (n + 1)" using hi by simp
    then have "MaxPoints \<le> n" by (simp only: of_int_less_iff)
    with 2 show ?thesis by (simp add: Points_def ex MaxPoints_def flip: v_def)
  next
    case 3
    have "rat_of_int n < of_int (MaxPoints + 1)" using lo 3 by simp
    then have "n \<le> MaxPoints" by (simp only: of_int_less_iff)
    moreover have "\<lfloor>v\<rfloor> \<le> n" using hi by (simp add: floor_le_iff)
    moreover have "n - 1 \<le> \<lfloor>v\<rfloor>" using lo by (simp add: le_floor_iff)
    ultimately show ?thesis using 3 by (simp add: Points_def ex f64_trunc_def flip: v_def)
  qed
qed

text \<open>
  The lower bound is met. A session of 1468 ms in all has the mean 293.6 ms, worth exactly 6450
  points, but 293.6 is no \<open>float64\<close> and the quotient comes out just below 6450.
\<close>

lemma reaction_points_1468: "Points reactionDefinition (r_mean 1468) = 6449"
proof -
  have raw: "f64_round (1468 / 5) = of_int 5165065822640538 * pow2 (- 44)"
    by (rule f64_round_near) (simp_all add: pow2_def)
  have d: "f64_sub (5165065822640538 * pow2 (- 44)) 500 = - (7262054399134924 * pow2 (- 45))"
    using f64_round_minus [of "500 - 5165065822640538 * pow2 (- 44)"]
      f64_round_near [of "500 - 5165065822640538 * pow2 (- 44)" "- 45" 7262054399134924]
    by (simp add: pow2_def f64_sub_def)
  have p: "f64_mul 10000 (- (7262054399134924 * pow2 (- 45))) = - (8864812498943999 * pow2 (- 32))"
    using f64_round_minus [of "10000 * (7262054399134924 * pow2 (- 45))"]
      f64_round_near [of "10000 * (7262054399134924 * pow2 (- 45))" "- 32" 8864812498943999]
    by (simp add: pow2_def f64_mul_def)
  have v: "f64_div (- (8864812498943999 * pow2 (- 32))) (- 320) = 7091849999155199 * pow2 (- 40)"
    using f64_round_near [of "8864812498943999 * pow2 (- 32) / 320" "- 40" 7091849999155199]
    by (simp add: pow2_def f64_div_def)
  have ints: "f64_of_int 1468 = 1468" "f64_of_int 5 = 5"
    using f64_round_of_int [of 1468] f64_round_of_int [of 5] by (simp_all add: f64_of_int_def)
  have sub: "f64_sub 180 500 = - 320" using f64_sub_int [of 180 500] by simp
  have mean: "r_mean 1468 = 5165065822640538 * pow2 (- 44)"
    using raw by (simp add: r_mean_def f64_div_def ints reaction_consts)
  have "d_points reactionDefinition (r_mean 1468) = 7091849999155199 * pow2 (- 40)"
    by (simp add: mean reactionDefinition_def scale_def sub reaction_consts MaxPoints_def d p v)
  then have pts: "d_points reactionDefinition (r_mean 1468) = 7091849999155199 / 1099511627776"
    by (simp only: pow2_def) simp
  show ?thesis unfolding Points_def Let_def pts by (simp add: f64_trunc_def MaxPoints_def floor_eq_iff)
qed

text \<open>A mean that is a whole number of milliseconds is scored exactly.\<close>

lemma reaction_points_whole:
  assumes "0 \<le> k" and "k < 2 ^ 31"
  shows "Points reactionDefinition (r_mean (5 * k)) = max 0 (min MaxPoints ((125 * (500 - k)) div 4))"
proof -
  have "f64_of_int (5 * k) = of_int (5 * k)" "f64_of_int 5 = of_int 5"
    using f64_round_of_int [of "5 * k"] f64_round_of_int [of 5] assms by (simp_all add: f64_of_int_def)
  then have mean: "r_mean (5 * k) = of_int k"
    using f64_round_of_int [of k] assms by (simp add: r_mean_def f64_div_def reaction_consts)
  have "d_points reactionDefinition (of_int k) = f64_round (of_int (10000 * (k - 500)) / of_int (- 320))"
    using scale_int [of 500 180 k] assms by (simp add: reactionDefinition_def reaction_consts MaxPoints_def)
  also have "\<dots> = f64_round (of_int (125 * (500 - k)) / of_int 4)"
    by (rule arg_cong [where f = f64_round]) (simp add: field_simps)
  finally have "Points reactionDefinition (of_int k) = max 0 (min MaxPoints ((125 * (500 - k)) div 4))"
    by (rule Points_quotient) (use assms in auto)
  then show ?thesis by (simp add: mean)
qed

text \<open>What one more round does to the total that a session would be settled for.\<close>

lemma r_total_tap:
  assumes "r_inv s" and "GoAt s = Some g" and "now - g < 2 ^ 63" and "r_tap s now = Inr (s', out)"
  shows "r_total s' = r_total s + (if now - g < 80 * millisecond then 0 else (now - g) div millisecond - 500)"
  using assms r_tap_spec [OF assms(2,3)]
  by (auto simp: r_inv_def r_total_def Let_def reaction_consts)

text \<open>Rounds played at given reaction times, each armed at the epoch.\<close>

fun rounds :: "seed \<Rightarrow> int \<Rightarrow> int list \<Rightarrow> (raw_message \<times> time) list" where
  "rounds seed n [] = []"
| "rounds seed n (ms # mss) =
     (let g = deriveRange seed ''reaction-delay'' n 1200 3000 * millisecond
      in (arm_move, 0) # (tap_move, g + ms * millisecond) # rounds seed (n + 1) mss)"

lemma play_round:
  assumes "\<not> r_Done s" and "GoAt s = None" and "80 \<le> ms" and "ms < 2 ^ 40"
  shows "play r_move s (rounds (r_Seed s) (r_Round s) (ms # mss)) =
    play r_move (s\<lparr>r_Round := r_Round s + 1, r_Done := 5 \<le> r_Round s + 1, Results := Results s @ [ms]\<rparr>)
      (rounds (r_Seed s) (r_Round s + 1) mss)"
proof -
  define g where "g = deriveRange (r_Seed s) ''reaction-delay'' (r_Round s) 1200 3000 * millisecond"
  have arm: "r_move s arm_move 0 = Inr (s\<lparr>GoAt := Some g\<rparr>, \<lparr>Correct = False, Done = False, HoldUntil = g\<rparr>)"
    using assms by (simp add: r_move_arm r_arm_def reaction_consts g_def time_add_def Let_def)
  have "r_move (s\<lparr>GoAt := Some g\<rparr>) tap_move (g + ms * millisecond) =
      r_tap (s\<lparr>GoAt := Some g\<rparr>) (g + ms * millisecond)"
    using assms by (simp add: r_move_tap)
  also have "\<dots> = Inr (s\<lparr>r_Round := r_Round s + 1, r_Done := 5 \<le> r_Round s + 1, Results := Results s @ [ms]\<rparr>,
      \<lparr>Correct = True, Done = 5 \<le> r_Round s + 1, HoldUntil = zero_time\<rparr>)"
    using assms r_tap_spec [of "s\<lparr>GoAt := Some g\<rparr>" g "g + ms * millisecond"]
    by (simp add: millisecond_def Let_def)
  finally show ?thesis by (simp add: arm Let_def flip: g_def)
qed

lemma play_rounds:
  assumes "\<forall>ms \<in> set mss. 80 \<le> ms \<and> ms < 2 ^ 40"
    and "GoAt s = None" and "r_Done s = (5 \<le> r_Round s)" and "r_Round s + int (length mss) \<le> 5"
  shows "play r_move s (rounds (r_Seed s) (r_Round s) mss) =
    s\<lparr>r_Round := r_Round s + int (length mss), r_Done := 5 \<le> r_Round s + int (length mss),
      Results := Results s @ mss\<rparr>"
  using assms
proof (induction mss arbitrary: s)
  case Nil
  then show ?case by (cases s) simp
next
  case (Cons ms mss)
  let ?s = "s\<lparr>r_Round := r_Round s + 1, r_Done := 5 \<le> r_Round s + 1, Results := Results s @ [ms]\<rparr>"
  have "play r_move s (rounds (r_Seed s) (r_Round s) (ms # mss)) =
      play r_move ?s (rounds (r_Seed ?s) (r_Round ?s) mss)"
    using Cons.prems by (subst play_round) auto
  then show ?case using Cons.prems Cons.IH [of ?s] by (simp add: add.assoc)
qed

lemma play_rounds_start:
  assumes "\<forall>ms \<in> set mss. 80 \<le> ms \<and> ms < 2 ^ 40" and "length mss \<le> 5"
  shows "play r_move (r_start seed now) (rounds seed 0 mss) =
    (r_start seed now)\<lparr>r_Round := int (length mss), r_Done := 5 \<le> length mss, Results := mss\<rparr>"
  using play_rounds [of mss "r_start seed now"] assms by (simp add: r_start_def)

section \<open>Properties\<close>

text \<open>
  C36. Every state a reaction session passes through has at most five rounds, is done exactly after
  the fifth, has at most one foul per round and no round faster than 80 ms, so no session is ever
  settled below a total of 400 ms.
\<close>

theorem reaction_invariant:
  "let s = play r_move (r_start seed now) ms
   in r_inv s \<and> 400 \<le> r_total s \<and> (r_Done s \<longleftrightarrow> length (Results s) = 5)"
proof -
  have "r_inv (play r_move (r_start seed now) ms)"
    using reaction_game.ok_session [of seed now ms] by (simp add: reactionLogic_def)
  then show ?thesis using r_total_bounds by (auto simp: Let_def r_inv_def)
qed

text \<open>
  Arming a round stores an instant 1.2 to 3 seconds ahead, the response is held back until
  exactly that instant, and what the player is shown does not depend on it.
\<close>

theorem reaction_arm:
  assumes "\<not> r_Done s" and "GoAt s = None"
  shows "\<exists>g. r_move s arm_move now = Inr (s\<lparr>GoAt := Some g\<rparr>, \<lparr>Correct = False, Done = False, HoldUntil = g\<rparr>)
    \<and> now + 1200 * millisecond \<le> g \<and> g \<le> now + 3000 * millisecond
    \<and> (\<forall>g'. r_view (s\<lparr>GoAt := Some g\<rparr>) = r_view (s\<lparr>GoAt := Some g'\<rparr>))"
proof -
  define g where "g = time_add now (deriveRange (r_Seed s) ''reaction-delay'' (r_Round s) 1200 3000 * millisecond)"
  have "1200 * millisecond \<le> g - now" "g - now \<le> 3000 * millisecond"
    using deriveRange_bounds [of 1200 3000 "r_Seed s" "''reaction-delay''" "r_Round s"]
    by (simp_all add: g_def time_add_def millisecond_def)
  then show ?thesis
    using assms by (intro exI [of _ g])
      (simp add: r_move_arm r_arm_def reaction_consts g_def r_view_def Let_def)
qed

lemma reaction_arm_witness:
  "\<exists>g. r_move (r_start 7 0) arm_move 0
      = Inr ((r_start 7 0)\<lparr>GoAt := Some g\<rparr>, \<lparr>Correct = False, Done = False, HoldUntil = g\<rparr>)
    \<and> 1200 * millisecond \<le> g"
  using reaction_arm [of "r_start 7 0" 0] by (auto simp: r_start_def)

text \<open>
  A tap on an armed round is a foul, charged 500 ms, exactly when it comes less than 80 ms after
  the signal on the server's clock (before the signal included); any other tap records the whole
  milliseconds since the signal. Either way the round is over, and the fifth one ends the session.
\<close>

theorem reaction_tap:
  assumes "\<not> r_Done s" and "GoAt s = Some g" and "now - g < 2 ^ 63"
  shows "r_move s tap_move now =
    (let foul = now - g < 80 * millisecond
     in Inr (s\<lparr>GoAt := None, r_Round := r_Round s + 1, r_Done := 5 \<le> r_Round s + 1,
            Fouls := Fouls s + (if foul then 1 else 0),
            Results := Results s @ [if foul then 500 else (now - g) div millisecond]\<rparr>,
          \<lparr>Correct = \<not> foul, Done = 5 \<le> r_Round s + 1, HoldUntil = zero_time\<rparr>))"
  unfolding r_move_tap [OF assms(1)] by (rule r_tap_spec [OF assms(2,3)])

lemma reaction_tap_witness:
  "\<exists>s' out. r_move ((r_start 7 0)\<lparr>GoAt := Some 0\<rparr>) tap_move (80 * millisecond) = Inr (s', out)
    \<and> Results s' = [80] \<and> Correct out"
  using reaction_tap [of "(r_start 7 0)\<lparr>GoAt := Some 0\<rparr>" 0 "80 * millisecond"]
  by (simp add: r_start_def millisecond_def)

text \<open>
  The points of a session of \<open>T\<close> milliseconds in all are the exact quotient rounded down and held
  between 0 and 10,000, or one point less: the mean of five rounds is rounded to a \<open>float64\<close>
  before it is scored, and the conversion to an integer drops the fraction.
\<close>

theorem reaction_points_within_one:
  assumes "0 \<le> T" and "T \<le> 2500"
  shows "min MaxPoints ((25 * (2500 - T)) div 4) - 1 \<le> Points reactionDefinition (r_mean T)
    \<and> Points reactionDefinition (r_mean T) \<le> min MaxPoints ((25 * (2500 - T)) div 4)"
  by (rule reaction_points_mean [OF assms])

lemma reaction_points_within_one_witness:
  "6449 \<le> Points reactionDefinition (r_mean 1468) \<and> Points reactionDefinition (r_mean 1468) \<le> 6450"
  using reaction_points_within_one [of 1468] by (simp add: MaxPoints_def)

text \<open>
  The point is really lost: a session of 1468 ms in all is worth exactly 6450 points on the
  scale from 500 ms to 180 ms and is given 6449.
\<close>

theorem reaction_points_lost:
  "(25 * (2500 - 1468)) mod 4 = (0 :: int) \<and> (25 * (2500 - 1468)) div 4 = (6450 :: int)
    \<and> Points reactionDefinition (r_mean 1468) = 6449"
  using reaction_points_1468 by simp

text \<open>
  Stopping after one fast round can beat completing the game: a round not played is charged 500 ms,
  a slow tap is charged what it took. For every seed, a first round of 180 ms settles for 2000
  points, and four more rounds of a second each settle for none.
\<close>

theorem reaction_quitting_can_pay:
  "\<exists>first rest.
     Points reactionDefinition (r_raw (play r_move (r_start seed now) first)) = 2000 \<and>
     Points reactionDefinition (r_raw (play r_move (r_start seed now) (first @ rest))) = 0 \<and>
     r_Done (play r_move (r_start seed now) (first @ rest))"
proof (intro exI conjI)
  let ?rest = "rounds seed 1 [1000, 1000, 1000, 1000]"
  have one: "play r_move (r_start seed now) (rounds seed 0 [180]) =
      (r_start seed now)\<lparr>r_Round := 1, r_Done := False, Results := [180]\<rparr>"
    by (subst play_rounds_start) simp_all
  have "rounds seed 0 [180] @ ?rest = rounds seed 0 [180, 1000, 1000, 1000, 1000]"
    by (simp add: Let_def)
  then have five: "play r_move (r_start seed now) (rounds seed 0 [180] @ ?rest) =
      (r_start seed now)\<lparr>r_Round := 5, r_Done := True, Results := [180, 1000, 1000, 1000, 1000]\<rparr>"
    by (simp only:) (subst play_rounds_start, simp_all)
  show "Points reactionDefinition (r_raw (play r_move (r_start seed now) (rounds seed 0 [180]))) = 2000"
    unfolding one using reaction_points_whole [of 436]
    by (simp add: r_raw_def r_total_def r_start_def reaction_consts MaxPoints_def)
  show "Points reactionDefinition (r_raw (play r_move (r_start seed now) (rounds seed 0 [180] @ ?rest))) = 0"
    unfolding five using reaction_points_whole [of 836]
    by (simp add: r_raw_def r_total_def r_start_def reaction_consts MaxPoints_def)
  show "r_Done (play r_move (r_start seed now) (rounds seed 0 [180] @ ?rest))"
    unfolding five by simp
qed

end
