(* ===== verification/MathSprintGame.thy ===== *)
theory MathSprintGame
  imports Scoring
begin

text \<open>
  \<open>internal/games/mathsprint.go\<close>: thirty seconds of arithmetic. The nth problem is a function of the
  seed and \<open>n\<close>; an answer is compared with it and the counters move; an answer after the stored
  deadline is refused. The answer to a problem is never in the view.
\<close>

section \<open>State, view and move\<close>

definition mathSprintDuration :: duration where "mathSprintDuration = 30 * second"
definition mathSprintTarget :: int where "mathSprintTarget = 30"

record mathSprintState =
  m_Seed :: seed
  m_Deadline :: time
  m_Index :: int
  m_Correct :: int
  m_Wrong :: int

record mathSprintView =
  mv_Question :: string
  mv_Index :: int
  mv_Correct :: int
  mv_Wrong :: int
  mv_Deadline :: time
  DurationSecs :: int

record mathSprintMove =
  m_Answer :: "int option"

record mathSprintProblem =
  Question :: string
  Answer :: int

definition mathSprintProblemAt :: "seed \<Rightarrow> int \<Rightarrow> mathSprintProblem" where
  "mathSprintProblemAt seed index =
     (let op = deriveIntn seed ''math-op'' index 3
      in if op = 0 then
           (let a = deriveRange seed ''math-a'' index 12 99; b = deriveRange seed ''math-b'' index 12 99
            in \<lparr>Question = itoa a @ '' + '' @ itoa b, Answer = a + b\<rparr>)
         else if op = 1 then
           (let a = deriveRange seed ''math-a'' index 30 99; b = deriveRange seed ''math-b'' index 2 29
            in \<lparr>Question = itoa a @ '' - '' @ itoa b, Answer = a - b\<rparr>)
         else
           (let a = deriveRange seed ''math-a'' index 2 12; b = deriveRange seed ''math-b'' index 2 12
            in \<lparr>Question = itoa a @ '' x '' @ itoa b, Answer = a * b\<rparr>))"

definition m_start :: "seed \<Rightarrow> time \<Rightarrow> mathSprintState" where
  "m_start seed now =
     \<lparr>m_Seed = seed, m_Deadline = time_add now mathSprintDuration, m_Index = 0, m_Correct = 0, m_Wrong = 0\<rparr>"

definition m_deadline :: "mathSprintState \<Rightarrow> time" where "m_deadline s = m_Deadline s"

definition m_view :: "mathSprintState \<Rightarrow> mathSprintView" where
  "m_view s =
     \<lparr>mv_Question = Question (mathSprintProblemAt (m_Seed s) (m_Index s)), mv_Index = m_Index s,
      mv_Correct = m_Correct s, mv_Wrong = m_Wrong s, mv_Deadline = m_Deadline s,
      DurationSecs = seconds_int mathSprintDuration\<rparr>"

definition m_move_fields :: "mathSprintMove field list" where
  "m_move_fields = [(''answer'', int_ptr_field (\<lambda>a m. m\<lparr>m_Answer := a\<rparr>))]"

definition m_move ::
    "mathSprintState \<Rightarrow> raw_message \<Rightarrow> time \<Rightarrow> game_error + mathSprintState \<times> outcome" where
  "m_move s raw now =
     (if time_after now (m_Deadline s) then Inl ErrDeadlinePassed
      else and_then (decodeMove m_move_fields \<lparr>m_Answer = None\<rparr> raw) (\<lambda>move.
        case m_Answer move of
          None \<Rightarrow> Inl (ErrInvalidMove ''an answer is required'')
        | Some a \<Rightarrow>
            let correct = (a = Answer (mathSprintProblemAt (m_Seed s) (m_Index s)));
                s = (if correct then s\<lparr>m_Correct := m_Correct s + 1\<rparr> else s\<lparr>m_Wrong := m_Wrong s + 1\<rparr>);
                s = s\<lparr>m_Index := m_Index s + 1\<rparr>
            in Inr (s, no_outcome\<lparr>Correct := correct\<rparr>)))"

definition m_raw :: "mathSprintState \<Rightarrow> f64" where "m_raw s = f64_of_int (m_Correct s)"

section \<open>Storage\<close>

definition m_marshal :: "mathSprintState \<Rightarrow> json option" where
  "m_marshal s = map_option (\<lambda>deadline. JObj
     [(''seed'', JInt (sint (m_Seed s))), (''deadline'', deadline), (''index'', JInt (m_Index s)),
      (''correct'', JInt (m_Correct s)), (''wrong'', JInt (m_Wrong s))]) (marshal_time (m_Deadline s))"

definition m_fields :: "mathSprintState field list" where
  "m_fields =
     [(''seed'', seed_field (\<lambda>x s. s\<lparr>m_Seed := x\<rparr>)), (''deadline'', time_field (\<lambda>x s. s\<lparr>m_Deadline := x\<rparr>)),
      (''index'', int_field (\<lambda>x s. s\<lparr>m_Index := x\<rparr>)), (''correct'', int_field (\<lambda>x s. s\<lparr>m_Correct := x\<rparr>)),
      (''wrong'', int_field (\<lambda>x s. s\<lparr>m_Wrong := x\<rparr>))]"

definition m_unmarshal :: "json \<Rightarrow> mathSprintState option" where
  "m_unmarshal j = decode_struct False m_fields j
     \<lparr>m_Seed = 0, m_Deadline = zero_time, m_Index = 0, m_Correct = 0, m_Wrong = 0\<rparr>"

definition m_marshal_view :: "mathSprintView \<Rightarrow> json option" where
  "m_marshal_view v = map_option (\<lambda>deadline. JObj
     [(''question'', JStr (mv_Question v)), (''index'', JInt (mv_Index v)), (''correct'', JInt (mv_Correct v)),
      (''wrong'', JInt (mv_Wrong v)), (''deadline'', deadline), (''duration_seconds'', JInt (DurationSecs v))])
     (marshal_time (mv_Deadline v))"

definition mathSprintLogic :: "mathSprintState logic" where
  "mathSprintLogic =
     \<lparr>l_start = m_start, l_deadline = m_deadline, l_view = (\<lambda>s. m_marshal_view (m_view s)),
      l_move = m_move, l_raw = m_raw, l_marshal = m_marshal, l_unmarshal = m_unmarshal\<rparr>"

definition mathSprintDefinition :: game_definition where
  "mathSprintDefinition =
     \<lparr>Slug = MathSprint, Name = ''Math Sprint'', Metric = ''correct answers'', LowerIsBetter = False,
      Duration = mathSprintDuration, d_engine = engineFor mathSprintLogic,
      d_points = (\<lambda>raw. scale raw 0 (of_int mathSprintTarget))\<rparr>"

section \<open>Storage keeps the state\<close>

definition m_ok :: "mathSprintState \<Rightarrow> bool" where
  "m_ok s \<longleftrightarrow> fits_int64 (m_Index s) \<and> fits_int64 (m_Correct s) \<and> fits_int64 (m_Wrong s)"

lemma m_stored: "m_ok s \<Longrightarrow> m_marshal s = Some j \<Longrightarrow> m_unmarshal j = Some s"
  by (auto simp: m_ok_def m_marshal_def m_unmarshal_def m_fields_def json_simps)

interpretation math_sprint: typed_game mathSprintLogic m_ok
  by unfold_locales
    (auto simp: mathSprintLogic_def m_start_def m_ok_def fits_int64_def m_stored)

section \<open>Sessions\<close>

text \<open>
  The counters against the start of the session: \<open>n\<close> bounds the answers accepted so far.
\<close>

definition m_inv :: "seed \<Rightarrow> time \<Rightarrow> int \<Rightarrow> mathSprintState \<Rightarrow> bool" where
  "m_inv seed now n s \<longleftrightarrow>
     m_Seed s = seed \<and> m_Deadline s = now + mathSprintDuration \<and> 0 \<le> m_Correct s \<and> 0 \<le> m_Wrong s \<and>
     m_Index s = m_Correct s + m_Wrong s \<and> m_Index s \<le> n"

lemma m_move_Inr:
  assumes "m_move s raw t = Inr (s', out)"
  shows "t \<le> m_Deadline s \<and> (\<exists>a. decodeMove m_move_fields \<lparr>m_Answer = None\<rparr> raw = Inr \<lparr>m_Answer = Some a\<rparr> \<and>
    (Correct out \<longleftrightarrow> a = Answer (mathSprintProblemAt (m_Seed s) (m_Index s)))) \<and>
    s' = s\<lparr>m_Index := m_Index s + 1, m_Correct := m_Correct s + (if Correct out then 1 else 0),
           m_Wrong := m_Wrong s + (if Correct out then 0 else 1)\<rparr>"
proof -
  obtain m :: mathSprintMove where m: "decodeMove m_move_fields \<lparr>m_Answer = None\<rparr> raw = Inr m"
    using assms by (auto simp: m_move_def and_then_Inr split: if_splits)
  moreover obtain a where "m_Answer m = Some a"
    using assms m by (cases "m_Answer m") (auto simp: m_move_def and_then_Inr split: if_splits)
  then have "m = \<lparr>m_Answer = Some a\<rparr>" by (cases m) simp
  ultimately show ?thesis
    using assms
    by (auto simp: m_move_def Let_def no_outcome_def time_after_def split: if_splits intro!: exI [of _ a])
qed

lemma m_play_inv:
  "m_inv seed now n s \<Longrightarrow> m_inv seed now (n + int (length ms)) (play m_move s ms)"
proof (induction ms arbitrary: s n)
  case Nil
  then show ?case by simp
next
  case (Cons a ms)
  obtain raw t where a: "a = (raw, t)" by (cases a)
  show ?case
  proof (cases "m_move s raw t")
    case (Inl e)
    have "m_inv seed now (n + 1) s" using Cons.prems by (auto simp: m_inv_def)
    from Cons.IH [OF this] show ?thesis by (simp add: a Inl add.assoc)
  next
    case (Inr r)
    obtain s' out where r: "r = (s', out)" by (cases r)
    have "m_inv seed now (n + 1) s'"
      using Cons.prems m_move_Inr [OF Inr [unfolded r]] by (auto simp: m_inv_def)
    from Cons.IH [OF this] show ?thesis by (simp add: a Inr r add.assoc)
  qed
qed

lemma m_start_inv: "m_inv seed now 0 (m_start seed now)"
  by (simp add: m_inv_def m_start_def time_add_def)

lemma problem_answer_bounds:
  "1 \<le> Answer (mathSprintProblemAt seed index) \<and> Answer (mathSprintProblemAt seed index) \<le> 198"
proof -
  have r: "lo \<le> hi \<Longrightarrow> hi \<le> 99 \<Longrightarrow> 0 \<le> lo \<Longrightarrow>
      lo \<le> deriveRange seed l index lo hi \<and> deriveRange seed l index lo hi \<le> hi" for l lo hi
    by (intro conjI deriveRange_bounds) auto
  define a b where "a = deriveRange seed ''math-a'' index 2 12" and "b = deriveRange seed ''math-b'' index 2 12"
  have "2 \<le> a" "a \<le> 12" "2 \<le> b" "b \<le> 12" using r [of 2 12] by (simp_all add: a_def b_def)
  then have "1 * 1 \<le> a * b" and "a * b \<le> 12 * 12" by (intro mult_mono; simp)+
  then show ?thesis
    using r [of 12 99 "''math-a''"] r [of 12 99 "''math-b''"] r [of 30 99 "''math-a''"] r [of 2 29 "''math-b''"]
    by (auto simp: mathSprintProblemAt_def Let_def a_def b_def)
qed

section \<open>Properties\<close>

text \<open>
  Every state of a session has one problem answered per accepted move, its counters stay
  below the number of moves sent, its deadline is thirty seconds after the start, and the answer
  of the problem it shows is positive and at most 198.
\<close>

theorem math_sprint_invariant:
  "let s = play m_move (m_start seed now) ms
   in m_Index s = m_Correct s + m_Wrong s \<and> 0 \<le> m_Correct s \<and> 0 \<le> m_Wrong s \<and> m_Index s \<le> int (length ms)
      \<and> m_Deadline s = now + 30 * second \<and> m_Seed s = seed
      \<and> 1 \<le> Answer (mathSprintProblemAt (m_Seed s) (m_Index s))
      \<and> Answer (mathSprintProblemAt (m_Seed s) (m_Index s)) \<le> 198"
  using m_play_inv [OF m_start_inv, of seed now ms] problem_answer_bounds
  by (simp add: m_inv_def Let_def mathSprintDuration_def)

text \<open>
  After the deadline nothing scores: a move that arrives later than thirty seconds after the
  start, whatever it holds and whatever was played before, is refused with the deadline error.
\<close>

theorem math_sprint_deadline:
  assumes "now + 30 * second < t"
  shows "m_move (play m_move (m_start seed now) ms) raw t = Inl ErrDeadlinePassed"
  using m_play_inv [OF m_start_inv, of seed now ms] assms
  by (simp add: m_inv_def m_move_def time_after_def mathSprintDuration_def)

lemma math_sprint_deadline_witness:
  "m_move (m_start 7 0) NoBytes (31 * second) = Inl ErrDeadlinePassed"
  using math_sprint_deadline [of 0 "31 * second" 7 "[]" NoBytes] by (simp add: second_def)

text \<open>
  A session is scored by its correct answers only: \<open>k\<close> of them are worth the whole part of
  \<open>10000 k / 30\<close> points, 10,000 from thirty on, however many answers were wrong.
\<close>

theorem math_sprint_points:
  assumes "length ms < 2 ^ 32" and "s = play m_move (m_start seed now) ms"
  shows "Points mathSprintDefinition (m_raw s) = min 10000 (10000 * m_Correct s div 30)"
proof -
  have inv: "m_inv seed now (int (length ms)) s"
    using m_play_inv [OF m_start_inv, of seed now ms] by (simp add: assms(2))
  then have k: "0 \<le> m_Correct s" "m_Correct s < 2 ^ 32" using assms(1) by (auto simp: m_inv_def)
  then have "m_raw s = of_int (m_Correct s)"
    using f64_round_of_int [of "m_Correct s"] by (simp add: m_raw_def f64_of_int_def)
  then show ?thesis
    using Points_count [of mathSprintDefinition 30 "m_Correct s"] k
    by (simp add: mathSprintDefinition_def mathSprintTarget_def MaxPoints_def)
qed

lemma math_sprint_points_witness:
  "Points mathSprintDefinition (m_raw (m_start 7 0)) = 0"
  using math_sprint_points [of "[]" "m_start 7 0" 7 0] by (simp add: m_start_def)

end
