(* ===== verification/MemoryGame.thy ===== *)
theory MemoryGame
  imports Scoring
begin

text \<open>
  \<open>internal/games/memory.go\<close>: repeat a growing sequence. The sequence of a level is derived from the
  seed, a right answer completes the level, a wrong one ends the run, and so does level twenty.
\<close>

section \<open>State, view and move\<close>

definition memorySymbols :: int where "memorySymbols = 4"
definition memoryMaxLevel :: int where "memoryMaxLevel = 20"
definition memoryTarget :: int where "memoryTarget = 12"

lemmas memory_consts = memorySymbols_def memoryMaxLevel_def memoryTarget_def

record memoryState =
  mem_Seed :: seed
  Level :: int
  Completed :: int
  mem_Done :: bool

text \<open>\<open>Sequence\<close> is a nil slice, encoded as \<open>null\<close>, once the run is over.\<close>

record memoryView =
  memv_Level :: int
  Sequence :: "int list option"
  Symbols :: int
  memv_Completed :: int
  memv_Done :: bool

record memoryMove =
  mem_Answer :: "int list"

definition mem_start :: "seed \<Rightarrow> time \<Rightarrow> memoryState" where
  "mem_start seed now = \<lparr>mem_Seed = seed, Level = 1, Completed = 0, mem_Done = False\<rparr>"

definition mem_deadline :: "memoryState \<Rightarrow> time" where "mem_deadline s = zero_time"

definition memorySequence :: "seed \<Rightarrow> int \<Rightarrow> int list" where
  "memorySequence seed level = map (\<lambda>i. deriveIntn seed ''memory'' i memorySymbols + 1) [0..level - 1]"

definition mem_view :: "memoryState \<Rightarrow> memoryView" where
  "mem_view s =
     \<lparr>memv_Level = Level s,
      Sequence = (if mem_Done s then None else Some (memorySequence (mem_Seed s) (Level s))),
      Symbols = memorySymbols, memv_Completed = Completed s, memv_Done = mem_Done s\<rparr>"

definition mem_move_fields :: "memoryMove field list" where
  "mem_move_fields = [(''answer'', ints_field (\<lambda>a m. m\<lparr>mem_Answer := a\<rparr>))]"

definition mem_move ::
    "memoryState \<Rightarrow> raw_message \<Rightarrow> time \<Rightarrow> game_error + memoryState \<times> outcome" where
  "mem_move s raw now =
     (if mem_Done s then Inl ErrAlreadyDone
      else and_then (decodeMove mem_move_fields \<lparr>mem_Answer = []\<rparr> raw) (\<lambda>move.
        if mem_Answer move = [] then Inl (ErrInvalidMove ''an answer sequence is required'')
        else if mem_Answer move \<noteq> memorySequence (mem_Seed s) (Level s)
        then Inr (s\<lparr>mem_Done := True\<rparr>, no_outcome\<lparr>Done := True\<rparr>)
        else
          let s = s\<lparr>Completed := Level s\<rparr>;
              s = s\<lparr>Level := Level s + 1\<rparr>
          in if memoryMaxLevel < Level s
             then Inr (s\<lparr>mem_Done := True\<rparr>, no_outcome\<lparr>Correct := True, Done := True\<rparr>)
             else Inr (s, no_outcome\<lparr>Correct := True\<rparr>)))"

definition mem_raw :: "memoryState \<Rightarrow> f64" where "mem_raw s = f64_of_int (Completed s)"

section \<open>Storage\<close>

definition mem_marshal :: "memoryState \<Rightarrow> json option" where
  "mem_marshal s = Some (JObj
     [(''seed'', JInt (sint (mem_Seed s))), (''level'', JInt (Level s)), (''completed'', JInt (Completed s)),
      (''done'', JBool (mem_Done s))])"

definition mem_fields :: "memoryState field list" where
  "mem_fields =
     [(''seed'', seed_field (\<lambda>x s. s\<lparr>mem_Seed := x\<rparr>)), (''level'', int_field (\<lambda>x s. s\<lparr>Level := x\<rparr>)),
      (''completed'', int_field (\<lambda>x s. s\<lparr>Completed := x\<rparr>)), (''done'', bool_field (\<lambda>x s. s\<lparr>mem_Done := x\<rparr>))]"

definition mem_unmarshal :: "json \<Rightarrow> memoryState option" where
  "mem_unmarshal j = decode_struct False mem_fields j
     \<lparr>mem_Seed = 0, Level = 0, Completed = 0, mem_Done = False\<rparr>"

definition mem_marshal_view :: "memoryView \<Rightarrow> json" where
  "mem_marshal_view v = JObj
     [(''level'', JInt (memv_Level v)), (''sequence'', marshal_opt (\<lambda>xs. JArr (map JInt xs)) (Sequence v)),
      (''symbols'', JInt (Symbols v)), (''completed'', JInt (memv_Completed v)), (''done'', JBool (memv_Done v))]"

definition memoryLogic :: "memoryState logic" where
  "memoryLogic =
     \<lparr>l_start = mem_start, l_deadline = mem_deadline, l_view = (\<lambda>s. Some (mem_marshal_view (mem_view s))),
      l_move = mem_move, l_raw = mem_raw, l_marshal = mem_marshal, l_unmarshal = mem_unmarshal\<rparr>"

definition memoryDefinition :: game_definition where
  "memoryDefinition =
     \<lparr>Slug = Memory, Name = ''Memory Sequence'', Metric = ''sequence length'', LowerIsBetter = False,
      Duration = 0, d_engine = engineFor memoryLogic,
      d_points = (\<lambda>raw. scale raw 0 (of_int memoryTarget))\<rparr>"

section \<open>The invariant\<close>

definition mem_inv :: "memoryState \<Rightarrow> bool" where
  "mem_inv s \<longleftrightarrow>
     Completed s = Level s - 1 \<and> 1 \<le> Level s \<and> Level s \<le> 21 \<and> (Level s = 21 \<longrightarrow> mem_Done s)"

lemma mem_start_inv: "mem_inv (mem_start seed now)"
  by (simp add: mem_inv_def mem_start_def)

lemma mem_move_inv: "mem_inv s \<Longrightarrow> mem_move s raw now = Inr (s', out) \<Longrightarrow> mem_inv s'"
  by (auto simp: mem_move_def mem_inv_def and_then_Inr Let_def memory_consts split: if_splits)

lemma mem_stored: "mem_inv s \<Longrightarrow> mem_marshal s = Some j \<Longrightarrow> mem_unmarshal j = Some s"
proof -
  assume inv: "mem_inv s" and m: "mem_marshal s = Some j"
  have "fits_int64 (Level s)" "fits_int64 (Completed s)" using inv by (auto simp: mem_inv_def fits_int64_def)
  then show ?thesis using m by (auto simp: mem_marshal_def mem_unmarshal_def mem_fields_def json_simps)
qed

interpretation memory_game: bounded_game memoryLogic mem_inv
  by unfold_locales (auto simp: memoryLogic_def mem_start_inv intro: mem_stored mem_move_inv)

section \<open>The sequence\<close>

lemma memorySequence_length: "0 \<le> level \<Longrightarrow> length (memorySequence seed level) = nat level"
  by (simp add: memorySequence_def)

lemma memorySequence_Suc:
  "0 \<le> level \<Longrightarrow> memorySequence seed (level + 1) =
    memorySequence seed level @ [deriveIntn seed ''memory'' level memorySymbols + 1]"
  by (simp add: memorySequence_def upto_rec2)

lemma memorySequence_symbols: "x \<in> set (memorySequence seed level) \<Longrightarrow> 1 \<le> x \<and> x \<le> 4"
proof -
  have "0 \<le> deriveIntn seed ''memory'' i 4 \<and> deriveIntn seed ''memory'' i 4 + 1 \<le> 4" for i
    using deriveIntn_bounds [of 4 seed "''memory''" i] by simp
  then show "x \<in> set (memorySequence seed level) \<Longrightarrow> ?thesis"
    by (auto simp: memorySequence_def memorySymbols_def)
qed

abbreviation answer_move :: "int list \<Rightarrow> raw_message" where
  "answer_move xs \<equiv> Text (JObj [(''answer'', JArr (map JInt xs))])"

lemma mem_move_answer:
  assumes "\<not> mem_Done s" and "xs \<noteq> []" and "\<forall>x \<in> set xs. fits_int64 x"
  shows "mem_move s (answer_move xs) now =
    (if xs \<noteq> memorySequence (mem_Seed s) (Level s)
     then Inr (s\<lparr>mem_Done := True\<rparr>, no_outcome\<lparr>Done := True\<rparr>)
     else if memoryMaxLevel < Level s + 1
     then Inr (s\<lparr>Completed := Level s, Level := Level s + 1, mem_Done := True\<rparr>,
               no_outcome\<lparr>Correct := True, Done := True\<rparr>)
     else Inr (s\<lparr>Completed := Level s, Level := Level s + 1\<rparr>, no_outcome\<lparr>Correct := True\<rparr>))"
  using assms by (simp add: mem_move_def decodeMove_def mem_move_fields_def json_simps Let_def)

text \<open>The player with a perfect memory: sends back what the view shows.\<close>

fun perfect :: "nat \<Rightarrow> memoryState \<Rightarrow> memoryState" where
  "perfect 0 s = s"
| "perfect (Suc n) s =
     (case Sequence (mem_view s) of
        None \<Rightarrow> s
      | Some xs \<Rightarrow>
          (case mem_move s (answer_move xs) zero_time of Inl _ \<Rightarrow> s | Inr (s', _) \<Rightarrow> perfect n s'))"

lemma perfect_step:
  assumes "mem_inv s" and "\<not> mem_Done s"
  shows "perfect (Suc n) s = perfect n (s\<lparr>Completed := Level s, Level := Level s + 1, mem_Done := Level s = 20\<rparr>)"
proof -
  let ?xs = "memorySequence (mem_Seed s) (Level s)"
  have lev: "1 \<le> Level s" "Level s \<le> 20" using assms by (auto simp: mem_inv_def)
  have "?xs \<noteq> []" using memorySequence_length [of "Level s" "mem_Seed s"] lev by auto
  moreover have "\<forall>x \<in> set ?xs. fits_int64 x" using memorySequence_symbols by (fastforce simp: fits_int64_def)
  ultimately show ?thesis
    using assms lev mem_move_answer [of s ?xs zero_time]
    by (cases s) (auto simp: mem_view_def memory_consts)
qed

lemma perfect_play:
  assumes "mem_inv s" and "mem_Done s \<longleftrightarrow> Level s = 21" and "int n = 21 - Level s"
  shows "Completed (perfect n s) = 20 \<and> mem_Done (perfect n s)"
  using assms
proof (induction n arbitrary: s)
  case 0
  then show ?case by (simp add: mem_inv_def)
next
  case (Suc n)
  let ?s = "s\<lparr>Completed := Level s, Level := Level s + 1, mem_Done := Level s = 20\<rparr>"
  have nd: "\<not> mem_Done s" using Suc.prems by auto
  have "mem_inv ?s" using Suc.prems nd by (auto simp: mem_inv_def)
  then have "Completed (perfect n ?s) = 20 \<and> mem_Done (perfect n ?s)"
    by (rule Suc.IH) (use Suc.prems in auto)
  then show ?case using perfect_step [OF Suc.prems(1) nd] by simp
qed

section \<open>Properties\<close>

text \<open>
  Every state of a memory session has completed exactly the levels below the current one, at
  most twenty, and once the run is over every further move is refused.
\<close>

theorem memory_invariant:
  "let s = play mem_move (mem_start seed now) ms
   in Completed s = Level s - 1 \<and> 0 \<le> Completed s \<and> Completed s \<le> 20
      \<and> (Completed s = 20 \<longrightarrow> mem_Done s) \<and> (mem_Done s \<longrightarrow> mem_move s raw t = Inl ErrAlreadyDone)"
  using memory_game.ok_session [of seed now ms]
  by (auto simp: memoryLogic_def mem_inv_def Let_def mem_move_def)

lemma memory_invariant_witness:
  "mem_move ((mem_start 7 0)\<lparr>mem_Done := True\<rparr>) NoBytes 0 = Inl ErrAlreadyDone \<and>
   Completed (play mem_move (mem_start 7 0) []) = 0"
  using memory_invariant [of 7 0 "[]" NoBytes 0] by (simp add: mem_move_def mem_start_def Let_def)

text \<open>
  The sequence of a level is the one before it with one more symbol: what a player has learned
  never changes, and every symbol is one of the four.
\<close>

theorem memory_sequence_grows:
  assumes "0 \<le> level"
  shows "\<exists>x. memorySequence seed (level + 1) = memorySequence seed level @ [x] \<and> 1 \<le> x \<and> x \<le> 4
    \<and> length (memorySequence seed level) = nat level"
  using assms deriveIntn_bounds [of 4 seed "''memory''" level]
  by (simp add: memorySequence_Suc memorySequence_length memorySymbols_def)

lemma memory_sequence_grows_witness:
  "\<exists>x. memorySequence 7 1 = [x] \<and> 1 \<le> x \<and> x \<le> 4"
  using memory_sequence_grows [of 0 7] by (auto simp: memorySequence_def)

text \<open>
  Sending back what is shown wins: twenty answers that repeat the view complete all twenty
  levels, whatever the seed, and a session is worth the whole part of \<open>10000 k / 12\<close> points for \<open>k\<close>
  levels, 10,000 from twelve on.
\<close>

theorem memory_perfect:
  "Completed (perfect 20 (mem_start seed now)) = 20 \<and> mem_Done (perfect 20 (mem_start seed now))
   \<and> Points memoryDefinition (mem_raw (play mem_move (mem_start seed now) ms))
     = min 10000 (10000 * Completed (play mem_move (mem_start seed now) ms) div 12)"
proof -
  let ?s = "play mem_move (mem_start seed now) ms"
  have "mem_inv ?s" using memory_game.ok_session [of seed now ms] by (simp add: memoryLogic_def)
  then have k: "0 \<le> Completed ?s" "Completed ?s \<le> 20" by (auto simp: mem_inv_def)
  then have "mem_raw ?s = of_int (Completed ?s)"
    using f64_round_of_int [of "Completed ?s"] by (simp add: mem_raw_def f64_of_int_def)
  then have "Points memoryDefinition (mem_raw ?s) = min 10000 (10000 * Completed ?s div 12)"
    using Points_count [of memoryDefinition 12 "Completed ?s"] k
    by (simp add: memoryDefinition_def memory_consts MaxPoints_def)
  then show ?thesis using perfect_play [of "mem_start seed now" 20] mem_start_inv by (simp add: mem_start_def)
qed

end
