(* ===== verification/Go_Strings.thy ===== *)
theory Go_Strings
  imports Prelude
begin

text \<open>
  What Podium uses of Go's \<open>strings\<close> package, on the UTF-8 bytes of a string: \<open>Lines\<close>, \<open>TrimSpace\<close>,
  \<open>ToLower\<close>, \<open>Split\<close> and \<open>Cut\<close> at one character. \<open>to_lower\<close> maps every character whose lower case is an
  ASCII letter (the capitals, U+212A and U+0130) and leaves the other non-ASCII letters as they are;
  Podium only ever compares the result with ASCII text or uses it as an opaque key.
\<close>

section \<open>Definitions\<close>

definition newline :: char where "newline = char_of (10 :: nat)"

text \<open>\<open>strings.Lines\<close>: the lines with their terminators, the last one perhaps without.\<close>

fun go_lines :: "string \<Rightarrow> string \<Rightarrow> string list" where
  "go_lines cur [] = (if cur = [] then [] else [cur])"
| "go_lines cur (c # cs) =
     (if c = newline then (cur @ [c]) # go_lines [] cs else go_lines (cur @ [c]) cs)"

text \<open>The white space of \<open>unicode.IsSpace\<close>, encoded.\<close>

definition utf8_spaces :: "string list" where
  "utf8_spaces = map (map (char_of :: nat \<Rightarrow> char))
     ([[0x20], [0x09], [0x0A], [0x0B], [0x0C], [0x0D], [0xC2, 0x85], [0xC2, 0xA0], [0xE1, 0x9A, 0x80],
       [0xE2, 0x80, 0xA8], [0xE2, 0x80, 0xA9], [0xE2, 0x80, 0xAF], [0xE2, 0x81, 0x9F], [0xE3, 0x80, 0x80]]
      @ map (\<lambda>n. [0xE2, 0x80, 0x80 + n]) [0, 1, 2, 3, 4, 5, 6, 7, 8, 9, 10])"

definition strip_one :: "string list \<Rightarrow> string \<Rightarrow> string" where
  "strip_one ps s =
     (case find (\<lambda>p. take (length p) s = p) ps of None \<Rightarrow> s | Some p \<Rightarrow> drop (length p) s)"

fun strip :: "string list \<Rightarrow> string \<Rightarrow> string" where
  "strip ps s = (let s' = strip_one ps s in if length s' < length s then strip ps s' else s)"

declare strip.simps [simp del]

definition trim_space :: "string \<Rightarrow> string" where
  "trim_space s = rev (strip (map rev utf8_spaces) (rev (strip utf8_spaces s)))"

fun to_lower :: "string \<Rightarrow> string" where
  "to_lower [] = []"
| "to_lower (c # cs) =
     (case cs of
        d # ds \<Rightarrow>
          if of_char c = (0xC4 :: nat) \<and> of_char d = (0xB0 :: nat) then CHR ''i'' # to_lower ds
          else (case ds of
            e # es \<Rightarrow>
              if of_char c = (0xE2 :: nat) \<and> of_char d = (0x84 :: nat) \<and> of_char e = (0xAA :: nat)
              then CHR ''k'' # to_lower es
              else ascii_lower c # to_lower cs
          | [] \<Rightarrow> ascii_lower c # to_lower cs)
      | [] \<Rightarrow> [ascii_lower c])"

text \<open>\<open>strings.Split\<close> and \<open>strings.Cut\<close> at a one-character separator.\<close>

fun split_at :: "char \<Rightarrow> string \<Rightarrow> string list" where
  "split_at sep [] = [[]]"
| "split_at sep (c # cs) =
     (if c = sep then [] # split_at sep cs
      else (case split_at sep cs of p # ps \<Rightarrow> (c # p) # ps | [] \<Rightarrow> [[c]]))"

fun cut_at :: "char \<Rightarrow> string \<Rightarrow> (string \<times> string) option" where
  "cut_at sep [] = None"
| "cut_at sep (c # cs) =
     (if c = sep then Some ([], cs) else map_option (\<lambda>(a, b). (c # a, b)) (cut_at sep cs))"

section \<open>Lower-case words\<close>

definition is_lower :: "char \<Rightarrow> bool" where
  "is_lower c \<longleftrightarrow> (let n = of_char c :: int in 97 \<le> n \<and> n \<le> 122)"

lemma is_lower_nat: "is_lower c \<longleftrightarrow> 97 \<le> (of_char c :: nat) \<and> (of_char c :: nat) \<le> 122"
proof -
  have "(of_char c :: int) = int (of_char c)" by (simp add: of_nat_of_char)
  then show ?thesis by (simp add: is_lower_def Let_def)
qed

lemma to_lower_Cons: "is_lower c \<Longrightarrow> to_lower (c # cs) = c # to_lower cs"
proof -
  assume "is_lower c"
  then have "ascii_lower c = c" "of_char c \<noteq> (0xC4 :: nat)" "of_char c \<noteq> (0xE2 :: nat)"
    by (simp_all add: is_lower_nat ascii_lower_def Let_def)
  then show ?thesis by (simp split: list.split)
qed

lemma to_lower_lower: "\<forall>c \<in> set w. is_lower c \<Longrightarrow> to_lower w = w"
  by (induction w) (simp_all add: to_lower_Cons del: to_lower.simps(2))

lemma spaces_not_lower:
  assumes "p \<in> set utf8_spaces"
  shows "p \<noteq> [] \<and> \<not> is_lower (hd p) \<and> \<not> is_lower (last p)"
  using assms by (auto simp: utf8_spaces_def is_lower_nat)

lemma strip_id:
  assumes "\<forall>p \<in> set ps. p \<noteq> [] \<and> \<not> is_lower (hd p)" and "is_lower c"
  shows "strip ps (c # cs) = c # cs"
proof -
  have "find (\<lambda>p. take (length p) (c # cs) = p) ps = None"
    unfolding find_None_iff
  proof
    assume "\<exists>p. p \<in> set ps \<and> take (length p) (c # cs) = p"
    then obtain p where p: "p \<in> set ps" "take (length p) (c # cs) = p" by blast
    then have "p \<noteq> []" "\<not> is_lower (hd p)" using assms(1) by auto
    then show False using p(2) assms(2) by (cases p) auto
  qed
  then have "strip_one ps (c # cs) = c # cs" by (simp add: strip_one_def)
  then show ?thesis by (subst strip.simps) simp
qed

lemma trim_space_lower:
  assumes "w \<noteq> []" and "\<forall>c \<in> set w. is_lower c"
  shows "trim_space w = w" and "trim_space (w @ [newline]) = w"
proof -
  have fwd: "\<forall>p \<in> set utf8_spaces. p \<noteq> [] \<and> \<not> is_lower (hd p)"
    and bwd: "\<forall>p \<in> set (map rev utf8_spaces). p \<noteq> [] \<and> \<not> is_lower (hd p)"
    using spaces_not_lower by (auto simp: hd_rev)
  obtain a as where a: "w = a # as" "is_lower a" using assms by (cases w) auto
  obtain b bs where b: "rev w = b # bs" "is_lower b"
    using assms by (metis list.set_intros(1) neq_Nil_conv rev_is_Nil_conv set_rev)
  have rw: "strip (map rev utf8_spaces) (rev w) = rev w" using strip_id [OF bwd b(2)] b(1) by simp
  show "trim_space w = w" using strip_id [OF fwd a(2)] a(1) rw by (simp add: trim_space_def)
  have "strip_one (map rev utf8_spaces) (newline # b # bs) = b # bs"
    by (simp add: strip_one_def utf8_spaces_def newline_def)
  then have "strip (map rev utf8_spaces) (newline # rev w) = rev w"
    using rw b(1) by (subst strip.simps) simp
  then show "trim_space (w @ [newline]) = w"
    using strip_id [OF fwd a(2), of "as @ [newline]"] a(1) by (simp add: trim_space_def)
qed

lemma go_lines_concat:
  assumes "\<forall>l \<in> set ls. newline \<notin> set l"
  shows "go_lines [] (concat (map (\<lambda>l. l @ [newline]) ls)) = map (\<lambda>l. l @ [newline]) ls"
proof -
  have "newline \<notin> set l \<Longrightarrow> go_lines cur (l @ newline # rest) = (cur @ l @ [newline]) # go_lines [] rest"
    for cur l rest
    by (induction l arbitrary: cur) auto
  with assms show ?thesis by (induction ls) simp_all
qed

section \<open>Splitting\<close>

lemma split_at_no_sep: "sep \<notin> set s \<Longrightarrow> split_at sep s = [s]"
  by (induction s) auto

lemma split_at_append: "sep \<notin> set s \<Longrightarrow> split_at sep (s @ sep # t) = s # split_at sep t"
  by (induction s) auto

lemma cut_at_append: "sep \<notin> set s \<Longrightarrow> cut_at sep (s @ sep # t) = Some (s, t)"
  by (induction s) auto

lemma cut_at_None: "cut_at sep s = None \<longleftrightarrow> sep \<notin> set s"
  by (induction s) auto

lemma cut_at_Some: "cut_at sep s = Some (a, b) \<longleftrightarrow> s = a @ sep # b \<and> sep \<notin> set a"
proof (induction s arbitrary: a)
  case Nil
  then show ?case by simp
next
  case (Cons c s)
  show ?case using Cons.IH by (cases a) auto
qed

end
