(* ===== verification/WordList.thy ===== *)
theory WordList
  imports Go_Strings
begin

text \<open>
  \<open>internal/games/words.txt\<close>, the file embedded in the binary: one word per line, each line ended by a
  newline. (The word that Isabelle's own grammar reserves is written as a concatenation.)
\<close>

definition word_lines :: "string list" where
  "word_lines = [
    ''anchor'', ''animal'', ''answer'', ''apple'', ''arrive'', ''artist'', ''autumn'', ''badge'', ''basket'',
    ''battle'', ''beacon'', ''belong'', ''bishop'', ''blanket'', ''bottle'', ''branch'', ''bridge'',
    ''bright'', ''bronze'', ''bucket'', ''buffalo'', ''builder'', ''button'', ''camera'', ''candle'',
    ''canvas'', ''carbon'', ''carpet'', ''castle'', ''cellar'', ''census'', ''chance'', ''change'',
    ''charm'', ''cheese'', ''cherry'', ''circle'', ''clever'', ''climb'', ''cloud'', ''cobalt'', ''coffee'',
    ''column'', ''comet'', ''copper'', ''corner'', ''cotton'', ''county'', ''crane'', ''crater'', ''credit'',
    ''cricket'', ''crown'', ''crystal'', ''custom'', ''damage'', ''danger'', ''decade'', ''degree'',
    ''desert'', ''design'', ''detail'', ''diamond'', ''dinner'', ''doctor'', ''dollar'', ''domain'',
    ''donkey'', ''double'', ''dragon'', ''drawer'', ''dream'', ''driver'', ''eagle'', ''early'', ''effort'',
    ''eight'', ''elbow'', ''empire'', ''energy'', ''engine'', ''escape'', ''estate'', ''event'', ''exact'',
    ''expert'', ''fabric'', ''factor'', ''falcon'', ''family'', ''famous'', ''farmer'', ''feather'',
    ''ferry'', ''fever'', ''fiber'', ''field'', ''figure'', ''filter'', ''finger'', ''finish'', ''flame'',
    ''flavor'', ''flight'', ''floral'', ''flower'', ''follow'', ''forest'', ''forget'', ''formal'',
    ''fortune'', ''forward'', ''fossil'', ''foster'', ''fountain'', ''fraction'', ''frame'', ''fresh'',
    ''friend'', ''frozen'', ''fruit'', ''funnel'', ''future'', ''gadget'', ''galaxy'', ''garden'',
    ''gather'', ''gentle'', ''ginger'', ''glacier'', ''glass'', ''global'', ''golden'', ''grain'',
    ''granite'', ''graph'', ''gravel'', ''green'', ''grocery'', ''guard'', ''guitar'', ''hammer'',
    ''handle'', ''harbor'', ''harvest'', ''hazel'', ''health'', ''hearth'', ''heavy'', ''helmet'',
    ''hidden'', ''history'', ''hollow'', ''honest'', ''honey'', ''horizon'', ''hostel'', ''humble'',
    ''hunter'', ''hybrid'', ''igloo'', ''impact'', ''import'', ''indigo'', ''insect'', ''inside'',
    ''invite'', ''iron'', ''island'', ''ivory'', ''jacket'', ''jungle'', ''kettle'', ''kitchen'', ''knight'',
    ''label'', ''ladder'', ''lantern'', ''laptop'', ''laser'', ''lately'', ''laughter'', ''lawyer'',
    ''layer'', ''leader'', ''league'', ''lemon'', ''length'', ''lesson'', ''letter'', ''level'', ''liberty'',
    ''library'', ''lichen'', ''lifted'', ''lighter'', ''lily'', ''linen'', ''liquid'', ''listen'',
    ''little'', ''lively'', ''lizard'', ''lobby'', ''locker'', ''logic'', ''lonely'', ''lotus'', ''lucky'',
    ''lumber'', ''lunar'', ''luxury'', ''magnet'', ''maize'', ''major'', ''mammal'', ''manner'', ''marble'',
    ''margin'', ''marine'', ''market'', ''marrow'', ''master'', ''matrix'', ''meadow'', ''medal'',
    ''median'', ''melody'', ''member'', ''memory'', ''mentor'', ''mercury'', ''merit'', ''metal'',
    ''meteor'', ''method'', ''middle'', ''mighty'', ''mineral'', ''minor'', ''minute'', ''mirror'',
    ''mobile'', ''modern'', ''moment'', ''monkey'', ''month'', ''morning'', ''mosaic'', ''motion'',
    ''motor'', ''mountain'', ''mouse'', ''movie'', ''muscle'', ''museum'', ''music'', ''mustard'',
    ''mystery'', ''narrow'', ''nation'', ''native'', ''nature'', ''needle'', ''nephew'', ''nickel'',
    ''noble'', ''nomad'', ''normal'', ''north'', ''notice'', ''novel'', ''number'', ''object'', ''ocean'',
    ''office'', ''olive'', ''onion'', ''opera'', ''orange'', ''orbit'', ''orchid'', ''order'', ''organ'',
    ''origin'', ''outer'', ''oxygen'', ''oyster'', ''pacific'', ''packet'', ''paddle'', ''palace'',
    ''panel'', ''paper'', ''parade'', ''parcel'', ''parent'', ''parrot'', ''pastel'', ''pastry'', ''patch'',
    ''patent'', ''patio'', ''pattern'', ''pearl'', ''pebble'', ''pencil'', ''people'', ''pepper'',
    ''period'', ''person'', ''phrase'', ''piano'', ''picture'', ''pigeon'', ''pillar'', ''pilot'',
    ''pioneer'', ''pirate'', ''pistol'', ''pixel'', ''planet'', ''plant'', ''plasma'', ''plaster'',
    ''plate'', ''player'', ''please'', ''plenty'', ''pocket'', ''poetry'', ''point'', ''polar'', ''police'',
    ''polish'', ''pollen'', ''portal'', ''porter'', ''potato'', ''powder'', ''power'', ''prairie'',
    ''praise'', ''prefer'', ''prince'', ''prism'', ''prize'', ''proper'', ''proud'', ''public'', ''pumpkin'',
    ''puzzle'', ''python'', ''quarry'', ''quartz'', ''queen'', ''quick'', ''quiet'', ''rabbit'', ''radar'',
    ''radio'', ''rainbow'', ''random'', ''ranger'', ''rapid'', ''rather'', ''ravine'', ''reason'', ''rebel'',
    ''recent'', ''record'', ''reduce'', ''reflect'', ''region'', ''regret'', ''relate'', ''remain'',
    ''remote'', ''render'', ''rescue'', ''resort'', ''result'', ''return'', ''reveal'', ''reward'',
    ''rhythm'', ''ribbon'', ''rider'', ''ridge'', ''rifle'', ''right'', ''rigid'', ''ripple'', ''rival'',
    ''river'', ''robin'', ''robot'', ''rocket'', ''roller'', ''roman'', ''roster'', ''rotate'', ''rough'',
    ''round'', ''router'', ''royal'', ''rubber'', ''rugby'', ''ruler'', ''rumor'', ''runner'', ''rustic'',
    ''saddle'', ''safety'', ''sailor'', ''salad'', ''salmon'', ''sample'', ''sandal'', ''satin'', ''sauce'',
    ''savage'', ''scale'', ''scarlet'', ''scatter'', ''scene'', ''scheme'', ''school'', ''science'',
    ''scope'', ''score'', ''scout'', ''screen'', ''script'', ''sculpt'', ''season'', ''second'', ''secret'',
    ''sector'', ''secure'', ''select'', ''senate'', ''senior'', ''sense'', ''serial'', ''series'',
    ''sermon'', ''settle'', ''seven'', ''shadow'', ''shallow'', ''shape'', ''share'', ''sharp'', ''shelf'',
    ''shell'', ''shield'', ''shift'', ''shine'', ''shirt'', ''shock'', ''short'', ''shoulder'', ''shovel'',
    ''shower'', ''shrimp'', ''shrine'', ''sight'', ''signal'', ''silent'', ''silver'', ''simple'',
    ''single'', ''sister'', ''sketch'', ''skill'', ''slate'', ''sleep'', ''slice'', ''slide'', ''slope'',
    ''small'', ''smart'', ''smile'', ''smoke'', ''snake'', ''social'', ''socket'', ''sodium'', ''solar'',
    ''solid'', ''solve'', ''sonic'', ''sor'' @ ''ry'', ''sound'', ''source'', ''south'', ''space'',
    ''spade'', ''spark'', ''speak'', ''speech'', ''speed'', ''spell'', ''spend'', ''sphere'', ''spice'',
    ''spider'', ''spine'', ''spiral'', ''spirit'', ''splash'', ''spoke'', ''sponge'', ''spoon'', ''sport'',
    ''spray'', ''spread'', ''spring'', ''sprint'', ''square'', ''squash'', ''stable'', ''stadium'',
    ''staff'', ''stage'', ''stair'', ''stamp'', ''stand'', ''staple'', ''starch'', ''start'', ''state'',
    ''station'', ''statue'', ''steady'', ''steam'', ''steel'', ''steep'', ''stellar'', ''stereo'', ''stick'',
    ''still'', ''stock'', ''stone'', ''stool'', ''store'', ''storm'', ''story'', ''stove'', ''strain'',
    ''strange'', ''stream'', ''street'', ''stress'', ''strict'', ''strike'', ''string'', ''strong'',
    ''studio'', ''study'', ''stuff'', ''style'', ''sudden'', ''suffer'', ''sugar'', ''suite'', ''summer'',
    ''summit'', ''sunset'', ''super'', ''supply'', ''surface'', ''surge'', ''survey'', ''sweater'',
    ''sweep'', ''sweet'', ''swift'', ''switch'', ''sword'', ''symbol'', ''system'', ''table'', ''tablet'',
    ''tackle'', ''tailor'', ''talent'', ''tangle'', ''target'', ''tavern'', ''teach'', ''teapot'',
    ''temple'', ''tender'', ''tennis'', ''tenor'', ''tense'', ''tent'', ''terrain'', ''thank'', ''theater'',
    ''theme'', ''theory'', ''thick'', ''thing'', ''think'', ''third'', ''thirst'', ''thread'', ''threat'',
    ''three'', ''thrive'', ''throat'', ''throne'', ''thumb'', ''thunder'', ''ticket'', ''tidal'', ''tiger'',
    ''tight'', ''timber'', ''timely'', ''tissue'', ''title'', ''toast'', ''today'', ''toffee'', ''toilet'',
    ''token'', ''tomato'', ''tongue'', ''tonic'', ''tooth'', ''topic'', ''torch'', ''total'', ''touch'',
    ''tower'', ''towel'', ''trace'', ''track'', ''trade'', ''traffic'', ''tragic'', ''trail'', ''train'',
    ''trait'', ''transit'', ''travel'', ''treat'', ''trend'', ''trial'', ''tribe'', ''trick'', ''trigger'',
    ''triple'', ''trophy'', ''tropic'', ''trouble'', ''truck'', ''truly'', ''trumpet'', ''trunk'', ''trust'',
    ''truth'', ''tulip'', ''tunnel'', ''turbine'', ''turkey'', ''turtle'', ''tutor'', ''twelve'', ''twenty'',
    ''twice'', ''twist'', ''ultra'', ''umbrella'', ''uncle'', ''under'', ''unique'', ''unite'', ''until'',
    ''upper'', ''upset'', ''urban'', ''usual'', ''utility'', ''vacuum'', ''valley'', ''value'', ''vapor'',
    ''various'', ''vault'', ''velvet'', ''vendor'', ''venture'', ''verbal'', ''verse'', ''vessel'',
    ''veteran'', ''victory'', ''video'', ''village'', ''vinegar'', ''violet'', ''violin'', ''virtue'',
    ''vision'', ''visit'', ''vital'', ''vivid'', ''vocal'', ''voice'', ''volume'', ''voyage'', ''wagon'',
    ''waist'', ''wallet'', ''walnut'', ''wander'', ''warden'', ''warmth'', ''waste'', ''watch'', ''water'',
    ''weapon'', ''weather'', ''weave'', ''wedge'', ''weekly'', ''weight'', ''welcome'', ''whale'', ''wheat'',
    ''wheel'', ''where'', ''which'', ''while'', ''whisper'', ''white'', ''whole'', ''widely'', ''willow'',
    ''window'', ''winner'', ''winter'', ''wisdom'', ''wonder'', ''wooden'', ''world'', ''worry'', ''worth'',
    ''wound'', ''wreath'', ''wrist'', ''write'', ''yacht'', ''yeast'', ''yellow'', ''yield'', ''young'',
    ''youth'', ''zebra'', ''zenith'', ''zephyr'']"

definition words_txt :: string where
  "words_txt = concat (map (\<lambda>w. w @ [newline]) word_lines)"

text \<open>Every line is a non-empty word of lower-case letters; a word of five letters or more never
  starts with the same letter twice. \<open>lower_bits\<close> reads \<open>is_lower\<close> off the bits of a character.\<close>

fun lower_bits :: "char \<Rightarrow> bool" where
  "lower_bits (Char b0 b1 b2 b3 b4 b5 b6 b7) \<longleftrightarrow>
     b6 \<and> b5 \<and> \<not> b7 \<and> (b0 \<or> b1 \<or> b2 \<or> b3 \<or> b4) \<and> \<not> (b4 \<and> b3 \<and> (b2 \<or> b1 \<and> b0))"

lemma lower_bits_is_lower: "lower_bits c = is_lower c"
proof (cases c)
  case (Char b0 b1 b2 b3 b4 b5 b6 b7)
  show ?thesis
    unfolding Char is_lower_def Let_def
    by (cases b0; cases b1; cases b2; cases b3; cases b4; cases b5; cases b6; cases b7) simp_all
qed

fun plain_word :: "string \<Rightarrow> bool" where
  "plain_word w \<longleftrightarrow> list_all lower_bits w \<and> w \<noteq> [] \<and>
     (case w of a # b # _ # _ # _ # _ \<Rightarrow> a \<noteq> b | _ \<Rightarrow> True)"

declare plain_word.simps [simp del]

lemma word_lines_plain: "list_all plain_word word_lines"
  by code_simp

lemma word_lines_some: "''anchor'' \<in> set word_lines"
  unfolding word_lines_def by (rule list.set_intros(1))

lemma word_lines_lower: "w \<in> set word_lines \<Longrightarrow> w \<noteq> [] \<and> (\<forall>c \<in> set w. is_lower c)"
  using word_lines_plain
  by (auto simp: list_all_iff plain_word.simps lower_bits_is_lower)

lemma word_lines_heads:
  assumes "w \<in> set word_lines" and "5 \<le> length w"
  shows "w ! 0 \<noteq> w ! 1"
proof -
  obtain a b c d e r where "w = a # b # c # d # e # r"
    using assms(2) by (auto simp: numeral_eq_Suc Suc_le_length_iff)
  then show ?thesis using assms(1) word_lines_plain by (auto simp: list_all_iff plain_word.simps)
qed

lemma word_lines_length: "length word_lines = 766"
  unfolding word_lines_def by simp

text \<open>No word is long enough for an index to leave Go's integers.\<close>

lemma word_lines_short: "list_all (\<lambda>w. int (length w) < 2 ^ 62) word_lines"
  unfolding word_lines_def by simp

end
