(* ===== verification/WordScrambleGame.thy ===== *)
theory WordScrambleGame
  imports Scoring WordList
begin

text \<open>
  \<open>internal/games/wordscramble.go\<close>: sixty seconds of shuffled words. The nth word and its shuffle are
  functions of the seed and \<open>n\<close>; an answer counts when it is a word of the list built from exactly
  the letters of the nth word. The words are ASCII, so a rune of a word is a byte of it.
\<close>

section \<open>The word list\<close>

definition wordScrambleDuration :: duration where "wordScrambleDuration = 60 * second"
definition wordScrambleTarget :: int where "wordScrambleTarget = 15"
definition wordScrambleMinLen :: nat where "wordScrambleMinLen = 5"

lemmas scramble_consts = wordScrambleDuration_def wordScrambleTarget_def wordScrambleMinLen_def

record wordList =
  words :: "string list"
  valid :: "string \<Rightarrow> bool option"

definition add_line :: "wordList \<Rightarrow> string \<Rightarrow> wordList" where
  "add_line list line =
     (let word = to_lower (trim_space line)
      in if length word < wordScrambleMinLen then list
         else list\<lparr>words := words list @ [word], valid := (valid list)(word \<mapsto> True)\<rparr>)"

text \<open>The body of \<open>loadWords\<close> on the bytes of the embedded file, and \<open>loadWords\<close> itself.\<close>

definition load_words_from :: "string \<Rightarrow> game_error + wordList" where
  "load_words_from raw =
     (let list = foldl add_line \<lparr>words = [], valid = \<lambda>_. None\<rparr> (go_lines [] raw)
      in if words list = [] then Inl (ErrWordList ''word list is empty'') else Inr list)"

definition loadWords :: "game_error + wordList" where
  "loadWords = load_words_from words_txt"

section \<open>State, view and move\<close>

record wordScrambleState =
  w_Seed :: seed
  w_Deadline :: time
  w_Index :: int
  Solved :: int
  w_Skipped :: int

record wordScrambleView =
  Scramble :: string
  wv_Index :: int
  wv_Solved :: int
  wv_Skipped :: int
  wv_Deadline :: time
  wv_DurationSecs :: int

record wordScrambleMove =
  w_Answer :: string
  Skip :: bool

definition wordScrambleWordAt :: "seed \<Rightarrow> int \<Rightarrow> string" where
  "wordScrambleWordAt seed index =
     (case loadWords of
        Inl _ \<Rightarrow> ''''
      | Inr list \<Rightarrow> words list ! nat (deriveIntn seed ''scramble-word'' index (int (length (words list)))))"

definition swap :: "nat \<Rightarrow> nat \<Rightarrow> 'a list \<Rightarrow> 'a list" where
  "swap i j xs = xs[i := xs ! j, j := xs ! i]"

text \<open>The loop of \<open>scrambleWord\<close>, from the last index down to one.\<close>

fun shuffle :: "seed \<Rightarrow> string \<Rightarrow> nat \<Rightarrow> string \<Rightarrow> string" where
  "shuffle seed label 0 letters = letters"
| "shuffle seed label (Suc i) letters =
     (let j = deriveIntn seed label (int (Suc i)) (int (Suc i) + 1)
      in shuffle seed label i (swap (Suc i) (nat j) letters))"

definition scrambleWord :: "string \<Rightarrow> seed \<Rightarrow> int \<Rightarrow> string" where
  "scrambleWord word seed index =
     (let letters = shuffle seed (''scramble:'' @ itoa index) (length word - 1) word
      in if letters = word \<and> 1 < length letters then swap 0 1 letters else letters)"

definition sortedLetters :: "string \<Rightarrow> string" where
  "sortedLetters word = sort_key (of_char :: char \<Rightarrow> nat) (to_lower word)"

definition w_start :: "seed \<Rightarrow> time \<Rightarrow> wordScrambleState" where
  "w_start seed now =
     \<lparr>w_Seed = seed, w_Deadline = time_add now wordScrambleDuration, w_Index = 0, Solved = 0, w_Skipped = 0\<rparr>"

definition w_deadline :: "wordScrambleState \<Rightarrow> time" where "w_deadline s = w_Deadline s"

definition w_view :: "wordScrambleState \<Rightarrow> wordScrambleView" where
  "w_view s =
     (let word = wordScrambleWordAt (w_Seed s) (w_Index s)
      in \<lparr>Scramble = scrambleWord word (w_Seed s) (w_Index s), wv_Index = w_Index s, wv_Solved = Solved s,
          wv_Skipped = w_Skipped s, wv_Deadline = w_Deadline s,
          wv_DurationSecs = seconds_int wordScrambleDuration\<rparr>)"

definition w_move_fields :: "wordScrambleMove field list" where
  "w_move_fields =
     [(''answer'', str_field (\<lambda>a m. m\<lparr>w_Answer := a\<rparr>)), (''skip'', bool_field (\<lambda>b m. m\<lparr>Skip := b\<rparr>))]"

definition w_move ::
    "wordScrambleState \<Rightarrow> raw_message \<Rightarrow> time \<Rightarrow> game_error + wordScrambleState \<times> outcome" where
  "w_move s raw now =
     (if time_after now (w_Deadline s) then Inl ErrDeadlinePassed
      else and_then (decodeMove w_move_fields \<lparr>w_Answer = '''', Skip = False\<rparr> raw) (\<lambda>move.
        if Skip move
        then Inr (s\<lparr>w_Skipped := w_Skipped s + 1, w_Index := w_Index s + 1\<rparr>, no_outcome)
        else
          let answer = to_lower (trim_space (w_Answer move))
          in if answer = '''' then Inl (ErrInvalidMove ''an answer or skip is required'')
             else and_then loadWords (\<lambda>list.
               let target = wordScrambleWordAt (w_Seed s) (w_Index s)
               in if valid list answer \<noteq> Some True \<or> sortedLetters answer \<noteq> sortedLetters target
                  then Inr (s, no_outcome)
                  else Inr (s\<lparr>Solved := Solved s + 1, w_Index := w_Index s + 1\<rparr>,
                            no_outcome\<lparr>Correct := True\<rparr>))))"

definition w_raw :: "wordScrambleState \<Rightarrow> f64" where "w_raw s = f64_of_int (Solved s)"

section \<open>Storage\<close>

definition w_marshal :: "wordScrambleState \<Rightarrow> json option" where
  "w_marshal s = map_option (\<lambda>deadline. JObj
     [(''seed'', JInt (sint (w_Seed s))), (''deadline'', deadline), (''index'', JInt (w_Index s)),
      (''solved'', JInt (Solved s)), (''skipped'', JInt (w_Skipped s))]) (marshal_time (w_Deadline s))"

definition w_fields :: "wordScrambleState field list" where
  "w_fields =
     [(''seed'', seed_field (\<lambda>x s. s\<lparr>w_Seed := x\<rparr>)), (''deadline'', time_field (\<lambda>x s. s\<lparr>w_Deadline := x\<rparr>)),
      (''index'', int_field (\<lambda>x s. s\<lparr>w_Index := x\<rparr>)), (''solved'', int_field (\<lambda>x s. s\<lparr>Solved := x\<rparr>)),
      (''skipped'', int_field (\<lambda>x s. s\<lparr>w_Skipped := x\<rparr>))]"

definition w_unmarshal :: "json \<Rightarrow> wordScrambleState option" where
  "w_unmarshal j = decode_struct False w_fields j
     \<lparr>w_Seed = 0, w_Deadline = zero_time, w_Index = 0, Solved = 0, w_Skipped = 0\<rparr>"

definition w_marshal_view :: "wordScrambleView \<Rightarrow> json option" where
  "w_marshal_view v = map_option (\<lambda>deadline. JObj
     [(''scramble'', JStr (Scramble v)), (''index'', JInt (wv_Index v)), (''solved'', JInt (wv_Solved v)),
      (''skipped'', JInt (wv_Skipped v)), (''deadline'', deadline), (''duration_seconds'', JInt (wv_DurationSecs v))])
     (marshal_time (wv_Deadline v))"

definition wordScrambleLogic :: "wordScrambleState logic" where
  "wordScrambleLogic =
     \<lparr>l_start = w_start, l_deadline = w_deadline, l_view = (\<lambda>s. w_marshal_view (w_view s)),
      l_move = w_move, l_raw = w_raw, l_marshal = w_marshal, l_unmarshal = w_unmarshal\<rparr>"

definition wordScrambleDefinition :: game_definition where
  "wordScrambleDefinition =
     \<lparr>Slug = WordScramble, Name = ''Word Scramble'', Metric = ''words solved'', LowerIsBetter = False,
      Duration = wordScrambleDuration, d_engine = engineFor wordScrambleLogic,
      d_points = (\<lambda>raw. scale raw 0 (of_int wordScrambleTarget))\<rparr>"

section \<open>Storage keeps the state\<close>

definition w_ok :: "wordScrambleState \<Rightarrow> bool" where
  "w_ok s \<longleftrightarrow> fits_int64 (w_Index s) \<and> fits_int64 (Solved s) \<and> fits_int64 (w_Skipped s)"

lemma w_stored: "w_ok s \<Longrightarrow> w_marshal s = Some j \<Longrightarrow> w_unmarshal j = Some s"
  by (auto simp: w_ok_def w_marshal_def w_unmarshal_def w_fields_def json_simps)

interpretation word_scramble: typed_game wordScrambleLogic w_ok
  by unfold_locales
    (auto simp: wordScrambleLogic_def w_start_def w_ok_def fits_int64_def w_stored)

section \<open>The words\<close>

definition game_words :: "string list" where
  "game_words = filter (\<lambda>w. 5 \<le> length w) word_lines"

lemma add_line_word:
  assumes "w \<noteq> []" and "\<forall>c \<in> set w. is_lower c"
  shows "add_line l (w @ [newline]) =
    (if length w < 5 then l else l\<lparr>words := words l @ [w], valid := (valid l)(w \<mapsto> True)\<rparr>)"
  using assms by (simp add: add_line_def trim_space_lower to_lower_lower scramble_consts)

lemma fold_add_line:
  assumes "\<forall>w \<in> set ws. w \<noteq> [] \<and> (\<forall>c \<in> set w. is_lower c)"
    and "\<forall>x. valid l x = Some True \<longleftrightarrow> x \<in> set (words l)"
  shows "words (foldl add_line l (map (\<lambda>w. w @ [newline]) ws)) = words l @ filter (\<lambda>w. 5 \<le> length w) ws"
    and "\<forall>x. valid (foldl add_line l (map (\<lambda>w. w @ [newline]) ws)) x = Some True \<longleftrightarrow>
      x \<in> set (words (foldl add_line l (map (\<lambda>w. w @ [newline]) ws)))"
  using assms by (induction ws arbitrary: l) (simp_all add: add_line_word not_less)

lemma newline_not_lower: "\<not> is_lower newline"
  by (simp add: is_lower_nat newline_def)

lemma game_words_some: "game_words \<noteq> []"
  using word_lines_some by (auto simp: game_words_def filter_empty_conv intro!: bexI [of _ "''anchor''"])

lemma loadWords_words:
  "\<exists>l. loadWords = Inr l \<and> words l = game_words \<and> (\<forall>x. valid l x = Some True \<longleftrightarrow> x \<in> set game_words)"
proof -
  have plain: "\<forall>w \<in> set word_lines. w \<noteq> [] \<and> (\<forall>c \<in> set w. is_lower c)" using word_lines_lower by blast
  then have "\<forall>w \<in> set word_lines. newline \<notin> set w" using newline_not_lower by blast
  then have lines: "go_lines [] words_txt = map (\<lambda>w. w @ [newline]) word_lines"
    unfolding words_txt_def by (rule go_lines_concat)
  define l where "l = foldl add_line \<lparr>words = [], valid = \<lambda>_. None\<rparr> (go_lines [] words_txt)"
  have "words l = game_words" and "\<forall>x. valid l x = Some True \<longleftrightarrow> x \<in> set (words l)"
    using fold_add_line [OF plain, of "\<lparr>words = [], valid = \<lambda>_. None\<rparr>"]
    by (simp_all add: l_def lines game_words_def)
  moreover from this have "loadWords = Inr l"
    using game_words_some by (simp add: loadWords_def load_words_from_def Let_def flip: l_def)
  ultimately show ?thesis by auto
qed

lemma word_at:
  shows "wordScrambleWordAt seed index \<in> set game_words"
proof -
  obtain l where l: "loadWords = Inr l" "words l = game_words" using loadWords_words by blast
  have "length game_words \<le> length word_lines" by (simp add: game_words_def)
  then have "int (length game_words) < 2 ^ 63" using word_lines_length by simp
  moreover have "0 < int (length game_words)" using game_words_some by simp
  ultimately have "nat (deriveIntn seed ''scramble-word'' index (int (length game_words))) < length game_words"
    using deriveIntn_bounds [of "int (length game_words)" seed "''scramble-word''" index] by linarith
  then show ?thesis by (simp add: wordScrambleWordAt_def l)
qed

lemma word_at_facts:
  shows "5 \<le> length (wordScrambleWordAt seed index)"
    and "\<forall>c \<in> set (wordScrambleWordAt seed index). is_lower c"
    and "wordScrambleWordAt seed index ! 0 \<noteq> wordScrambleWordAt seed index ! 1"
  using word_at [of seed index] word_lines_lower word_lines_heads by (auto simp: game_words_def)

section \<open>The shuffle\<close>

lemma mset_swap': "i < length xs \<Longrightarrow> j < length xs \<Longrightarrow> mset (swap i j xs) = mset xs"
  using mset_swap [of j xs i] by (simp add: swap_def)

lemma shuffle_mset: "i < length xs \<Longrightarrow> int (length xs) < 2 ^ 62 \<Longrightarrow> mset (shuffle seed label i xs) = mset xs"
proof (induction i arbitrary: xs)
  case 0
  then show ?case by simp
next
  case (Suc i)
  define j where "j = deriveIntn seed label (int (Suc i)) (int (Suc i) + 1)"
  have "0 \<le> j" "j < int (Suc i) + 1"
    unfolding j_def using Suc.prems by (intro deriveIntn_bounds; simp)+
  then have "nat j < length xs" using Suc.prems by simp
  then have "mset (swap (Suc i) (nat j) xs) = mset xs" using Suc.prems by (simp add: mset_swap')
  moreover have "length (swap (Suc i) (nat j) xs) = length xs" by (simp add: swap_def)
  moreover have "shuffle seed label (Suc i) xs = shuffle seed label i (swap (Suc i) (nat j) xs)"
    by (simp only: shuffle.simps Let_def j_def)
  ultimately show ?case using Suc.IH [of "swap (Suc i) (nat j) xs"] Suc.prems by (simp del: shuffle.simps)
qed

lemma scrambleWord_mset:
  assumes "int (length word) < 2 ^ 62"
  shows "mset (scrambleWord word seed index) = mset word"
proof (cases "word = []")
  case True
  then show ?thesis by (simp add: scrambleWord_def)
next
  case False
  define letters where "letters = shuffle seed (''scramble:'' @ itoa index) (length word - 1) word"
  have "mset letters = mset word"
    unfolding letters_def using assms False by (intro shuffle_mset) simp_all
  moreover have "1 < length word \<Longrightarrow> mset (swap 0 1 word) = mset word" by (rule mset_swap') linarith+
  ultimately show ?thesis
    unfolding scrambleWord_def Let_def letters_def [symmetric] by (auto simp del: One_nat_def)
qed

lemma scrambleWord_differs:
  assumes "1 < length word" and "word ! 0 \<noteq> word ! 1"
  shows "scrambleWord word seed index \<noteq> word"
proof -
  obtain a b r where "word = a # b # r" using assms(1) by (auto simp: Suc_le_length_iff less_eq_Suc_le)
  then have "swap 0 1 word \<noteq> word" using assms(2) by (simp add: swap_def)
  then show ?thesis using assms(1) by (auto simp: scrambleWord_def Let_def)
qed

lemma sortedLetters_eq:
  assumes "\<forall>c \<in> set v. is_lower c" and "\<forall>c \<in> set w. is_lower c"
  shows "sortedLetters v = sortedLetters w \<longleftrightarrow> mset v = mset w"
proof
  assume "sortedLetters v = sortedLetters w"
  then show "mset v = mset w" using assms by (metis mset_sort sortedLetters_def to_lower_lower)
next
  let ?f = "of_char :: char \<Rightarrow> nat"
  have "sort (map ?f x) = map ?f (sort_key ?f x)" for x
    by (rule properties_for_sort) (simp_all del: sort_key_simps)
  moreover assume "mset v = mset w"
  then have "sort (map ?f v) = sort (map ?f w)" by (metis mset_map sorted_list_of_multiset_mset)
  ultimately have "map ?f (sort_key ?f v) = map ?f (sort_key ?f w)" by simp
  moreover have "inj ?f" by (auto simp: inj_def)
  ultimately show "sortedLetters v = sortedLetters w"
    using assms by (simp add: sortedLetters_def to_lower_lower inj_map_eq_map)
qed

section \<open>Sessions\<close>

definition w_inv :: "seed \<Rightarrow> time \<Rightarrow> int \<Rightarrow> wordScrambleState \<Rightarrow> bool" where
  "w_inv seed now n s \<longleftrightarrow>
     w_Seed s = seed \<and> w_Deadline s = now + wordScrambleDuration \<and> 0 \<le> Solved s \<and> 0 \<le> w_Skipped s \<and>
     w_Index s = Solved s + w_Skipped s \<and> w_Index s \<le> n"

lemma w_move_step:
  assumes "w_move s raw t = Inr (s', out)" and "w_inv seed now n s"
  shows "w_inv seed now (n + 1) s'"
proof -
  obtain l where "loadWords = Inr l" using loadWords_words by blast
  then show ?thesis
    using assms by (auto simp: w_move_def w_inv_def and_then_Inr Let_def split: if_splits)
qed

lemma w_play_inv:
  "w_inv seed now n s \<Longrightarrow> w_inv seed now (n + int (length ms)) (play w_move s ms)"
proof (induction ms arbitrary: s n)
  case Nil
  then show ?case by simp
next
  case (Cons a ms)
  obtain raw t where a: "a = (raw, t)" by (cases a)
  show ?case
  proof (cases "w_move s raw t")
    case (Inl e)
    have "w_inv seed now (n + 1) s" using Cons.prems by (auto simp: w_inv_def)
    from Cons.IH [OF this] show ?thesis by (simp add: a Inl add.assoc)
  next
    case (Inr r)
    obtain s' out where r: "r = (s', out)" by (cases r)
    from Cons.IH [OF w_move_step [OF Inr [unfolded r] Cons.prems]] show ?thesis
      by (simp add: a Inr r add.assoc)
  qed
qed

lemma w_start_inv: "w_inv seed now 0 (w_start seed now)"
  by (simp add: w_inv_def w_start_def time_add_def)

lemma decode_answer:
  "decodeMove w_move_fields \<lparr>w_Answer = '''', Skip = False\<rparr> (Text (JObj [(''answer'', JStr a)]))
    = Inr \<lparr>w_Answer = a, Skip = False\<rparr>"
  by (simp add: decodeMove_def w_move_fields_def json_simps)

section \<open>Properties\<close>

text \<open>
  C37. Whatever the seed, the player is shown the letters of the word in another order, never the
  word itself: the word list has no word of five letters or more that begins with a double letter,
  so swapping the first two always changes it.
\<close>

theorem scramble_hides_word:
  "let word = wordScrambleWordAt seed index; shown = scrambleWord word seed index
   in word \<in> set game_words \<and> mset shown = mset word \<and> shown \<noteq> word"
proof -
  let ?w = "wordScrambleWordAt seed index"
  have "?w \<in> set word_lines" using word_at [of seed index] by (auto simp: game_words_def)
  then have "int (length ?w) < 2 ^ 62" using word_lines_short by (fastforce simp: list_all_iff)
  then show ?thesis
    using word_at [of seed index] word_at_facts [of seed index]
    by (simp add: scrambleWord_mset scrambleWord_differs)
qed

text \<open>
  An answer in time scores exactly when, trimmed and in lower case, it is a word of the list
  with the letters of the scrambled word, in any order; the word itself is among them. Anything
  else but the empty answer is counted wrong and leaves the puzzle as it is.
\<close>

theorem scramble_answer:
  assumes "t \<le> w_Deadline s" and "to_lower (trim_space a) \<noteq> ''''"
  shows "w_move s (Text (JObj [(''answer'', JStr a)])) t =
    (if to_lower (trim_space a) \<in> set game_words \<and>
        mset (to_lower (trim_space a)) = mset (wordScrambleWordAt (w_Seed s) (w_Index s))
     then Inr (s\<lparr>Solved := Solved s + 1, w_Index := w_Index s + 1\<rparr>, no_outcome\<lparr>Correct := True\<rparr>)
     else Inr (s, no_outcome))
   \<and> to_lower (trim_space (wordScrambleWordAt (w_Seed s) (w_Index s))) = wordScrambleWordAt (w_Seed s) (w_Index s)"
proof -
  let ?a = "to_lower (trim_space a)" and ?w = "wordScrambleWordAt (w_Seed s) (w_Index s)"
  obtain l where l: "loadWords = Inr l" "\<forall>x. valid l x = Some True \<longleftrightarrow> x \<in> set game_words"
    using loadWords_words by blast
  have w: "?w \<noteq> []" "\<forall>c \<in> set ?w. is_lower c" using word_at_facts(1,2) [of "w_Seed s" "w_Index s"] by auto
  have "?a \<in> set game_words \<Longrightarrow> \<forall>c \<in> set ?a. is_lower c" using word_lines_lower by (auto simp: game_words_def)
  then have "?a \<in> set game_words \<Longrightarrow> sortedLetters ?a = sortedLetters ?w \<longleftrightarrow> mset ?a = mset ?w"
    using w(2) by (rule sortedLetters_eq)
  then show ?thesis
    using assms l(2) w by (auto simp: w_move_def l(1) decode_answer time_after_def Let_def trim_space_lower to_lower_lower)
qed

lemma scramble_answer_witness:
  "w_move (w_start 7 0) (Text (JObj [(''answer'', JStr ''zzzz'')])) 1 = Inr (w_start 7 0, no_outcome)"
proof -
  have "to_lower (trim_space ''zzzz'') = ''zzzz''"
    using trim_space_lower(1) [of "''zzzz''"] to_lower_lower [of "''zzzz''"] by (simp add: is_lower_nat)
  moreover have "''zzzz'' \<notin> set game_words" by (simp add: game_words_def)
  ultimately show ?thesis
    using scramble_answer [of 1 "w_start 7 0" "''zzzz''"]
    by (simp add: w_start_def time_add_def scramble_consts second_def)
qed

text \<open>
  Every state of a session has moved on exactly once per word solved or skipped, its counters
  stay below the number of moves sent, and after the sixty seconds no move is accepted.
\<close>

theorem word_scramble_invariant:
  "let s = play w_move (w_start seed now) ms
   in w_Index s = Solved s + w_Skipped s \<and> 0 \<le> Solved s \<and> 0 \<le> w_Skipped s \<and> w_Index s \<le> int (length ms)
      \<and> w_Deadline s = now + 60 * second
      \<and> w_move s raw (now + 60 * second + 1) = Inl ErrDeadlinePassed"
  using w_play_inv [OF w_start_inv, of seed now ms]
  by (simp add: w_inv_def Let_def wordScrambleDuration_def w_move_def time_after_def)

end
