(* ===== verification/Effects.thy ===== *)
theory Effects
  imports Game_Core
begin

text \<open>
  How operations with effects are modelled. An action takes the state it works on and returns an
  error or a value together with the state it leaves; \<open>act_bind\<close> is Go's \<open>if err != nil\<close> chain. A call
  to a server can fail: each consumes one entry of a fault schedule, which says that the call
  works, fails without effect, or takes effect and is reported as failed (the connection is lost
  before the answer). Theorems quantify over the schedule, so they cover every failure of every
  call in every combination.
\<close>

section \<open>Errors\<close>

text \<open>The errors a caller can tell apart, and the failures it cannot.\<close>

datatype err =
    ErrNoRows
  | ErrUniqueViolation
  | ErrDB
  | ErrRedis
  | ErrScript
  | ErrGame game_error
  | ErrNotFound
  | ErrFinished
  | ErrUnranked
  | ErrBadMember
  | ErrBadSnapshot
  | ErrCancelled
  | ErrUniqueIn string
  | ErrInvalidCredentials
  | ErrUsernameTaken
  | ErrEmailTaken
  | ErrInvalidToken
  | ErrTokenExpired
  | ErrTokenReused
  | ErrUserNotFound
  | ErrInvalidHash
  | ErrTicketInvalid

section \<open>Actions\<close>

type_synonym ('s, 'a) act = "'s \<Rightarrow> (err + 'a) \<times> 's"

definition ret :: "'a \<Rightarrow> ('s, 'a) act" where
  "ret x s = (Inr x, s)"

definition fail :: "err \<Rightarrow> ('s, 'a) act" where
  "fail e s = (Inl e, s)"

definition act_bind :: "('s, 'a) act \<Rightarrow> ('a \<Rightarrow> ('s, 'b) act) \<Rightarrow> ('s, 'b) act" where
  "act_bind m f s = (case m s of (Inl e, s') \<Rightarrow> (Inl e, s') | (Inr x, s') \<Rightarrow> f x s')"

definition lift_result :: "err + 'a \<Rightarrow> ('s, 'a) act" where
  "lift_result r s = (r, s)"

text \<open>A handler for the error of a call, for the calls whose error the code inspects or swallows.\<close>

definition act_catch :: "('s, 'a) act \<Rightarrow> (err \<Rightarrow> ('s, 'a) act) \<Rightarrow> ('s, 'a) act" where
  "act_catch m h s = (case m s of (Inl e, s') \<Rightarrow> h e s' | (Inr x, s') \<Rightarrow> (Inr x, s'))"

lemma act_simps [simp]:
  "ret x s = (Inr x, s)"
  "fail e s = (Inl e, s)"
  "lift_result r s = (r, s)"
  by (simp_all add: ret_def fail_def lift_result_def)

lemma act_bind_Inr:
  "act_bind m f s = (Inr y, s'') \<longleftrightarrow> (\<exists>x s'. m s = (Inr x, s') \<and> f x s' = (Inr y, s''))"
  by (auto simp: act_bind_def split: prod.splits sum.splits)

lemma act_bind_Inl:
  "act_bind m f s = (Inl e, s'') \<longleftrightarrow>
    m s = (Inl e, s'') \<or> (\<exists>x s'. m s = (Inr x, s') \<and> f x s' = (Inl e, s''))"
  by (auto simp: act_bind_def split: prod.splits sum.splits)

lemma act_bind_cong_Inr: "m s = (Inr x, s') \<Longrightarrow> act_bind m f s = f x s'"
  by (simp add: act_bind_def)

lemma act_bind_cong_Inl: "m s = (Inl e, s') \<Longrightarrow> act_bind m f s = (Inl e, s')"
  by (simp add: act_bind_def)

lemma act_bind_cases:
  assumes "act_bind m f w = (r, w')"
  obtains (Stopped) e where "m w = (Inl e, w')" "r = Inl e"
  | (Ran) x w1 where "m w = (Inr x, w1)" "f x w1 = (r, w')"
  using assms by (auto simp: act_bind_def split: prod.splits sum.splits)

text \<open>
  A relation between the states before and after that every action of a chain keeps. Any preorder
  will do: \<open>frame\<close> has the rules for composed actions.
\<close>

definition keeps :: "('s \<Rightarrow> 's \<Rightarrow> bool) \<Rightarrow> ('s, 'a) act \<Rightarrow> bool" where
  "keeps R m \<longleftrightarrow> (\<forall>s. R s (snd (m s)))"

lemma keepsI: "(\<And>s. R s (snd (m s))) \<Longrightarrow> keeps R m"
  by (simp add: keeps_def)

lemma keepsD: "keeps R m \<Longrightarrow> m s = (r, s') \<Longrightarrow> R s s'"
  by (metis keeps_def snd_conv)

lemma keeps_if: "(b \<Longrightarrow> keeps R m) \<Longrightarrow> (\<not> b \<Longrightarrow> keeps R n) \<Longrightarrow> keeps R (if b then m else n)"
  by simp

lemma keeps_option:
  "(x = None \<Longrightarrow> keeps R m) \<Longrightarrow> (\<And>y. x = Some y \<Longrightarrow> keeps R (f y)) \<Longrightarrow>
    keeps R (case x of None \<Rightarrow> m | Some y \<Rightarrow> f y)"
  by (cases x) simp_all

lemma keeps_prod: "(\<And>a b. x = (a, b) \<Longrightarrow> keeps R (f a b)) \<Longrightarrow> keeps R (case x of (a, b) \<Rightarrow> f a b)"
  by (cases x) simp

lemmas keeps_cases = keeps_if keeps_option keeps_prod

locale frame =
  fixes R :: "'s \<Rightarrow> 's \<Rightarrow> bool"
  assumes refl: "R s s" and trans: "R s t \<Longrightarrow> R t u \<Longrightarrow> R s u"
begin

lemma keeps_pure: "keeps R (ret x)" "keeps R (fail e)" "keeps R (lift_result r)"
  by (simp_all add: keeps_def refl)

lemma keeps_bind: "keeps R m \<Longrightarrow> (\<And>x. keeps R (f x)) \<Longrightarrow> keeps R (act_bind m f)"
  unfolding keeps_def act_bind_def using trans
  by (auto split: prod.split sum.split) (metis snd_conv)+

lemma keeps_catch: "keeps R m \<Longrightarrow> (\<And>e. keeps R (h e)) \<Longrightarrow> keeps R (act_catch m h)"
  unfolding keeps_def act_catch_def using trans
  by (auto split: prod.split sum.split) (metis snd_conv)+

lemmas rules = keeps_pure keeps_bind keeps_catch keeps_cases

end

section \<open>Faults\<close>

datatype fault = NoFault | FailBefore | FailAfter

text \<open>The world of the service: the database, the state of Redis, and the faults to come.\<close>

record ('d, 'r) world =
  w_db :: 'd
  w_redis :: 'r
  w_faults :: "fault list"

definition next_fault :: "('d, 'r) world \<Rightarrow> fault \<times> ('d, 'r) world" where
  "next_fault w =
     (case w_faults w of [] \<Rightarrow> (NoFault, w) | f # fs \<Rightarrow> (f, w\<lparr>w_faults := fs\<rparr>))"

lemma next_fault_keeps [simp]:
  "w_db (snd (next_fault w)) = w_db w" "w_redis (snd (next_fault w)) = w_redis w"
  by (simp_all add: next_fault_def split: list.split)

lemma next_fault_same: "next_fault w = (ft, w') \<Longrightarrow> w_db w' = w_db w \<and> w_redis w' = w_redis w"
  using next_fault_keeps [of w] by simp

lemma next_fault_Nil [simp]: "w_faults w = [] \<Longrightarrow> next_fault w = (NoFault, w)"
  by (simp add: next_fault_def)

text \<open>One statement sent to Postgres, and one command sent to Redis.\<close>

definition exec :: "('d \<Rightarrow> (err + 'a) \<times> 'd) \<Rightarrow> (('d, 'r) world, 'a) act" where
  "exec q w =
     (let (ft, w) = next_fault w; (r, d) = q (w_db w)
      in case ft of
           NoFault \<Rightarrow> (r, w\<lparr>w_db := d\<rparr>)
         | FailBefore \<Rightarrow> (Inl ErrDB, w)
         | FailAfter \<Rightarrow> (Inl ErrDB, w\<lparr>w_db := d\<rparr>))"

definition redis_call :: "('r \<Rightarrow> 'a \<times> 'r) \<Rightarrow> (('d, 'r) world, 'a) act" where
  "redis_call c w =
     (let (ft, w) = next_fault w; (x, r) = c (w_redis w)
      in case ft of
           NoFault \<Rightarrow> (Inr x, w\<lparr>w_redis := r\<rparr>)
         | FailBefore \<Rightarrow> (Inl ErrRedis, w)
         | FailAfter \<Rightarrow> (Inl ErrRedis, w\<lparr>w_redis := r\<rparr>))"

text \<open>
  \<open>pool.Begin\<close>, a body, \<open>tx.Commit\<close>. The body works on the rows it has written itself; an error, or
  a body that returns without committing (\<open>False\<close>), rolls back to the rows before it. A commit that
  fails is rolled back, or has taken effect when only its answer was lost.
\<close>

definition in_tx :: "(('d, 'r) world, bool \<times> 'a) act \<Rightarrow> (('d, 'r) world, 'a) act" where
  "in_tx body w0 =
     (let (ft, w) = next_fault w0
      in if ft \<noteq> NoFault then (Inl ErrDB, w)
         else case body w of
             (Inl e, w') \<Rightarrow> (Inl e, w'\<lparr>w_db := w_db w0\<rparr>)
           | (Inr (False, x), w') \<Rightarrow> (Inr x, w'\<lparr>w_db := w_db w0\<rparr>)
           | (Inr (True, x), w') \<Rightarrow>
               (let (fc, w'') = next_fault w'
                in case fc of
                     NoFault \<Rightarrow> (Inr x, w'')
                   | FailBefore \<Rightarrow> (Inl ErrDB, w''\<lparr>w_db := w_db w0\<rparr>)
                   | FailAfter \<Rightarrow> (Inl ErrDB, w'')))"

lemma exec_NoFault: "w_faults w = [] \<Longrightarrow> exec q w = (fst (q (w_db w)), w\<lparr>w_db := snd (q (w_db w))\<rparr>)"
  by (simp add: exec_def split: prod.split)

lemma exec_db: "w_db (snd (exec q w)) = w_db w \<or> w_db (snd (exec q w)) = snd (q (w_db w))"
  by (auto simp: exec_def Let_def dest: next_fault_same split: prod.split fault.split)

text \<open>Statements leave Redis alone, commands leave the rows alone, and so does a statement that only reads.\<close>

definition same_db :: "('d, 'r) world \<Rightarrow> ('d, 'r) world \<Rightarrow> bool" where
  "same_db w w' \<longleftrightarrow> w_db w' = w_db w"

definition same_redis :: "('d, 'r) world \<Rightarrow> ('d, 'r) world \<Rightarrow> bool" where
  "same_redis w w' \<longleftrightarrow> w_redis w' = w_redis w"

interpretation same_db: frame same_db
  by unfold_locales (simp_all add: same_db_def)

interpretation same_redis: frame same_redis
  by unfold_locales (simp_all add: same_redis_def)

lemma exec_same_redis: "keeps same_redis (exec q)"
  by (auto simp: keeps_def same_redis_def exec_def Let_def dest: next_fault_same split: prod.split fault.split)

lemma redis_call_same_db: "keeps same_db (redis_call c)"
  by (auto simp: keeps_def same_db_def redis_call_def Let_def dest: next_fault_same split: prod.split fault.split)

lemma exec_same_db: "(\<And>d. snd (q d) = d) \<Longrightarrow> keeps same_db (exec q)"
  using exec_db by (metis keeps_def same_db_def)

lemmas same_db_rules = same_db.rules redis_call_same_db exec_same_db
lemmas same_redis_rules = same_redis.rules exec_same_redis

lemma same_dbD: "keeps same_db m \<Longrightarrow> w_db (snd (m w)) = w_db w"
  by (simp add: keeps_def same_db_def)

lemma same_redisD: "keeps same_redis m \<Longrightarrow> w_redis (snd (m w)) = w_redis w"
  by (simp add: keeps_def same_redis_def)

lemma exec_Inr:
  assumes "exec q w = (Inr x, w')"
  shows "q (w_db w) = (Inr x, w_db w') \<and> w_redis w' = w_redis w"
  using assms by (auto simp: exec_def Let_def dest: next_fault_same split: prod.splits fault.splits)

lemma redis_call_Inr:
  assumes "redis_call c w = (Inr x, w')"
  shows "c (w_redis w) = (x, w_redis w') \<and> w_db w' = w_db w"
  using assms by (auto simp: redis_call_def Let_def dest: next_fault_same split: prod.splits fault.splits)

text \<open>Whatever a call reports, Redis is as before it or as the command leaves it.\<close>

lemma redis_call_redis:
  "redis_call c w = (x, w') \<Longrightarrow> w_redis w' = w_redis w \<or> w_redis w' = snd (c (w_redis w))"
  by (auto simp: redis_call_def Let_def dest: next_fault_same split: prod.splits fault.splits)

lemma exec_Inl:
  assumes "exec q w = (Inl e, w')"
  shows "e = ErrDB \<or> fst (q (w_db w)) = Inl e"
  using assms by (auto simp: exec_def Let_def dest: next_fault_same split: prod.splits fault.splits)

text \<open>A transaction leaves the rows as they were, or as its body left them when it asked to commit.\<close>

lemma in_tx_cases:
  assumes "in_tx body w = (r, w')"
  obtains (Refused) "r = Inl ErrDB" "w_db w' = w_db w" "w_redis w' = w_redis w"
  | (Failed) w1 w2 e where "w_db w1 = w_db w" "w_redis w1 = w_redis w" "body w1 = (Inl e, w2)" "r = Inl e"
      "w_db w' = w_db w" "w_redis w' = w_redis w2"
  | (Dropped) w1 w2 x where "w_db w1 = w_db w" "w_redis w1 = w_redis w" "body w1 = (Inr (False, x), w2)"
      "r = Inr x" "w_db w' = w_db w" "w_redis w' = w_redis w2"
  | (Committed) w1 w2 x where "w_db w1 = w_db w" "w_redis w1 = w_redis w" "body w1 = (Inr (True, x), w2)"
      "r = Inr x" "w_db w' = w_db w2" "w_redis w' = w_redis w2"
  | (Unsure) w1 w2 x where "w_db w1 = w_db w" "w_redis w1 = w_redis w" "body w1 = (Inr (True, x), w2)"
      "r = Inl ErrDB" "w_db w' = w_db w \<or> w_db w' = w_db w2" "w_redis w' = w_redis w2"
proof -
  obtain ft w1 where nf: "next_fault w = (ft, w1)" by fastforce
  note same = next_fault_same [OF nf]
  show thesis
  proof (cases "ft = NoFault")
    case False
    then show thesis using assms nf same by (intro Refused) (auto simp: in_tx_def)
  next
    case True
    obtain b w2 where b: "body w1 = (b, w2)" by fastforce
    obtain fc w3 where nf2: "next_fault w2 = (fc, w3)" by fastforce
    note same2 = next_fault_same [OF nf2]
    note run = assms [unfolded in_tx_def nf Let_def prod.case True b]
    show thesis
    proof (cases b)
      case (Inl e)
      then show thesis using run same b by (intro Failed [of w1 e w2]) auto
    next
      case (Inr p)
      obtain c x where p: "p = (c, x)" by (cases p)
      show thesis
      proof (cases c)
        case False
        then show thesis using run same b Inr p by (intro Dropped [of w1 x w2]) auto
      next
        case True
        then show thesis
          using run same same2 nf2 b Inr p Committed [of w1 x w2] Unsure [of w1 x w2]
          by (cases fc) auto
      qed
    qed
  qed
qed

lemma in_tx_db:
  assumes "in_tx body w = (r, w')"
  shows "w_db w' = w_db w \<or>
    (\<exists>w1 x w2. w_db w1 = w_db w \<and> w_redis w1 = w_redis w \<and> body w1 = (Inr (True, x), w2) \<and> w_db w' = w_db w2)"
  using assms by (cases rule: in_tx_cases) blast+

lemma in_tx_Inr:
  assumes "in_tx body w = (Inr x, w')"
  shows "\<exists>w1 c w2. w_db w1 = w_db w \<and> w_redis w1 = w_redis w \<and> body w1 = (Inr (c, x), w2) \<and>
    w_db w' = (if c then w_db w2 else w_db w) \<and> w_redis w' = w_redis w2"
  using assms
proof (cases rule: in_tx_cases)
  case (Dropped w1 w2 y)
  then show ?thesis by (intro exI [of _ w1] exI [of _ False] exI [of _ w2]) simp
next
  case (Committed w1 w2 y)
  then show ?thesis by (intro exI [of _ w1] exI [of _ True] exI [of _ w2]) simp
qed simp_all

text \<open>
  How rows may evolve: an invariant \<open>I\<close>, and a relation \<open>L\<close> between earlier and later rows. A statement has
  to respect both, and so does a transaction that commits, whatever holds in between; the rules for
  composed actions are those of \<open>frame\<close>.
\<close>

locale evolution =
  fixes I :: "'d \<Rightarrow> bool" and L :: "'d \<Rightarrow> 'd \<Rightarrow> bool"
  assumes L_refl: "L d d" and L_trans: "L d e \<Longrightarrow> L e f \<Longrightarrow> L d f"
begin

definition evolves :: "('d, 'r) world \<Rightarrow> ('d, 'r) world \<Rightarrow> bool" where
  "evolves w w' \<longleftrightarrow> (I (w_db w) \<longrightarrow> I (w_db w') \<and> L (w_db w) (w_db w'))"

lemma evolves_refl: "evolves w w"
  by (simp add: evolves_def L_refl)

lemma evolves_trans: "evolves w w' \<Longrightarrow> evolves w' w'' \<Longrightarrow> evolves w w''"
  using L_trans by (auto simp: evolves_def)

lemma evolvesD:
  assumes "keeps evolves m" and "m w = (r, w')" and "I (w_db w)"
  shows "I (w_db w')" and "L (w_db w) (w_db w')"
  using keepsD [OF assms(1,2)] assms(3) by (auto simp: evolves_def)

lemma evolves_same_db: "keeps same_db m \<Longrightarrow> keeps evolves m"
  by (simp add: keeps_def same_db_def evolves_def L_refl)

lemma evolves_exec: "(\<And>d. I d \<Longrightarrow> I (snd (q d)) \<and> L d (snd (q d))) \<Longrightarrow> keeps evolves (exec q)"
  unfolding keeps_def evolves_def using exec_db L_refl by metis

lemma evolves_in_tx:
  assumes "\<And>w x w'. I (w_db w) \<Longrightarrow> body w = (Inr (True, x), w') \<Longrightarrow> I (w_db w') \<and> L (w_db w) (w_db w')"
  shows "keeps evolves (in_tx body)"
proof (rule keepsI, unfold evolves_def, rule impI)
  fix w :: "('d, 'a) world" assume I: "I (w_db w)"
  obtain r w' where run: "in_tx body w = (r, w')" by fastforce
  from in_tx_db [OF run] show "I (w_db (snd (in_tx body w))) \<and> L (w_db w) (w_db (snd (in_tx body w)))"
  proof
    assume "\<exists>w1 x w2. w_db w1 = w_db w \<and> w_redis w1 = w_redis w \<and> body w1 = (Inr (True, x), w2) \<and> w_db w' = w_db w2"
    then obtain w1 x w2 where w: "w_db w1 = w_db w" "body w1 = (Inr (True, x), w2)" "w_db w' = w_db w2" by blast
    have "I (w_db w1)" using I w(1) by simp
    then have "I (w_db w2) \<and> L (w_db w1) (w_db w2)" using w(2) by (rule assms)
    then show ?thesis using w(1,3) run by simp
  qed (use I run L_refl in simp)
qed

end

sublocale evolution \<subseteq> evolving: frame "evolves :: ('d, 'r) world \<Rightarrow> ('d, 'r) world \<Rightarrow> bool"
  by unfold_locales (rule evolves_refl, erule (1) evolves_trans)

context evolution
begin

lemmas evolution_rules =
  evolving.rules evolves_exec evolves_in_tx evolves_same_db [OF redis_call_same_db]

end

end
