(* ===== verification/Keys.thy ===== *)
theory Keys
  imports Registry Effects
begin

text \<open>
  \<open>internal/leaderboard/keys.go\<close>: the four periods, the window an instant falls in, and the name of the
  sorted set that holds the board of a scope and a window. \<open>first_day\<close> and \<open>past_day\<close> describe a window by
  its days; the lemmas show that windows are half-open intervals that tile time, that two instants
  share a bucket exactly when they share a window, and that a key determines scope and window.
\<close>

section \<open>Periods and scopes\<close>

datatype period = AllTime | Daily | Weekly | Monthly

fun period_str :: "period \<Rightarrow> string" where
  "period_str AllTime = ''all-time''"
| "period_str Daily = ''daily''"
| "period_str Weekly = ''weekly''"
| "period_str Monthly = ''monthly''"

definition Periods :: "period list" where
  "Periods = [AllTime, Daily, Weekly, Monthly]"

definition ParsePeriod :: "string \<Rightarrow> string + period" where
  "ParsePeriod raw =
     (if raw = '''' then Inr AllTime
      else of_option ''unknown period'' (find (\<lambda>p. period_str p = raw) Periods))"

fun TTL :: "period \<Rightarrow> duration" where
  "TTL Daily = 48 * hour"
| "TTL Weekly = 14 * 24 * hour"
| "TTL Monthly = 62 * 24 * hour"
| "TTL AllTime = 0"

text \<open>\<open>Time.AddDate\<close>, normalised by \<open>time.Date\<close>.\<close>

definition AddDate :: "time \<Rightarrow> int \<Rightarrow> int \<Rightarrow> int \<Rightarrow> time" where
  "AddDate t years months days =
     (let (y, m, d) = civil (day_number t)
      in date_time (y + years) (m + months) (d + days) + t mod day_ns)"

fun Window :: "period \<Rightarrow> time \<Rightarrow> time \<times> time" where
  "Window Daily at_time =
     (let (y, m, d) = civil (day_number at_time); from = date_time y m d in (from, AddDate from 0 0 1))"
| "Window Weekly at_time =
     (let offset = (weekday (day_number at_time) + 6) mod 7; (y, m, d) = civil (day_number at_time);
          from = date_time y m (d - offset)
      in (from, AddDate from 0 0 7))"
| "Window Monthly at_time =
     (let (y, m, d) = civil (day_number at_time); from = date_time y m 1 in (from, AddDate from 0 1 0))"
| "Window AllTime at_time = (zero_time, zero_time)"

text \<open>A number as Go's layouts print a year or a month: zero-padded, the sign in front.\<close>

definition padded :: "nat \<Rightarrow> int \<Rightarrow> string" where
  "padded w n = (if n < 0 then CHR ''-'' # zero_pad w (nat_digits (nat (- n))) else zero_pad w (nat_digits (nat n)))"

fun bucket :: "period \<Rightarrow> time \<Rightarrow> string" where
  "bucket Daily at_time =
     (let (y, m, d) = civil (day_number at_time)
      in ''d:'' @ padded 4 y @ ''-'' @ padded 2 m @ ''-'' @ padded 2 d)"
| "bucket Weekly at_time =
     (let (year, week) = iso_week at_time in ''w:'' @ itoa year @ ''-W'' @ padded 2 week)"
| "bucket Monthly at_time =
     (let (y, m, d) = civil (day_number at_time) in ''m:'' @ padded 4 y @ ''-'' @ padded 2 m)"
| "bucket AllTime at_time = ''all''"

record scope =
  sc_Game :: slug

definition Global :: scope where "Global = \<lparr>sc_Game = ''''\<rparr>"
definition Game :: "slug \<Rightarrow> scope" where "Game s = \<lparr>sc_Game = s\<rparr>"
definition IsGlobal :: "scope \<Rightarrow> bool" where "IsGlobal s \<longleftrightarrow> sc_Game s = ''''"

definition scope_Name :: "scope \<Rightarrow> string" where
  "scope_Name s = (if IsGlobal s then ''global'' else sc_Game s)"

definition Key :: "scope \<Rightarrow> period \<Rightarrow> time \<Rightarrow> string" where
  "Key s p at_time =
     (if IsGlobal s then ''lb:global:'' @ bucket p at_time
      else ''lb:g:'' @ sc_Game s @ '':'' @ bucket p at_time)"

definition member_of :: "int \<Rightarrow> string" where "member_of userID = itoa userID"

definition parseMember :: "string \<Rightarrow> err + int" where
  "parseMember raw = of_option ErrBadMember (parse_int64 raw)"

lemma parseMember_member [simp]: "fits_int64 u \<Longrightarrow> parseMember (member_of u) = Inr u"
  by (simp add: parseMember_def member_of_def)

lemma member_of_inj [simp]: "member_of u = member_of v \<longleftrightarrow> u = v"
  by (simp add: member_of_def itoa_inj)

lemma Periods_all: "p \<in> set Periods"
  by (cases p) (simp_all add: Periods_def)

lemma ParsePeriod_str [simp]: "ParsePeriod (period_str p) = Inr p"
  by (cases p) (simp_all add: ParsePeriod_def Periods_def)

section \<open>Windows by their days\<close>

definition midnight :: "int \<Rightarrow> time" where
  "midnight n = (n - epoch_days) * day_ns"

fun first_day :: "period \<Rightarrow> int \<Rightarrow> int" where
  "first_day Daily n = n"
| "first_day Weekly n = n - n mod 7"
| "first_day Monthly n = (let (y, m, d) = civil n in date_days y m 1)"
| "first_day AllTime n = 0"

fun past_day :: "period \<Rightarrow> int \<Rightarrow> int" where
  "past_day Daily n = n + 1"
| "past_day Weekly n = n - n mod 7 + 7"
| "past_day Monthly n = (let (y, m, d) = civil n in date_days y (m + 1) 1)"
| "past_day AllTime n = 0"

lemma date_days_shift: "date_days y m (d + k) = date_days y m d + k"
  by (simp add: date_days_def Let_def)

lemma date_time_midnight: "date_time y m d = midnight (date_days y m d)"
  by (simp add: date_time_def midnight_def)

lemma day_number_midnight [simp]: "day_number (midnight n) = n"
proof -
  have "day_ns \<noteq> 0" using day_ns_pos by linarith
  then have "(n - epoch_days) * day_ns div day_ns = n - epoch_days" by (rule nonzero_mult_div_cancel_right)
  then show ?thesis unfolding day_number_def midnight_def by linarith
qed

lemma midnight_mod [simp]: "midnight n mod day_ns = 0"
  unfolding midnight_def by (rule mod_mult_self2_is_0)

lemma midnight_le_iff: "midnight n \<le> t \<longleftrightarrow> n \<le> day_number t"
proof -
  have "date_time y m d \<le> t \<longleftrightarrow> date_days y m d \<le> day_number t" for y m d by (rule day_number_le_iff)
  moreover have "\<exists>y m d. date_days y m d = n"
    using civil_correct(1) by (metis prod_cases3)
  ultimately show ?thesis by (metis date_time_midnight)
qed

lemma midnight_inj [simp]: "midnight m = midnight n \<longleftrightarrow> m = n"
  by (metis day_number_midnight)

lemma midnight_less_iff: "t < midnight n \<longleftrightarrow> day_number t < n"
  using midnight_le_iff [of n t] by linarith

lemma AddDate_midnight:
  assumes "civil n = (y, m, d)"
  shows "AddDate (midnight n) 0 k j = midnight (date_days y (m + k) (d + j))"
  using assms by (simp add: AddDate_def date_time_midnight)

lemma AddDate_days: "AddDate (midnight n) 0 0 k = midnight (n + k)"
proof -
  obtain y m d where c: "civil n = (y, m, d)" by (metis prod_cases3)
  then show ?thesis using AddDate_midnight [OF c, of 0 k] civil_correct(1) [OF c] by (simp add: date_days_shift)
qed

lemma civil_month_start:
  assumes "civil n = (y, m, d)"
  shows "civil (date_days y m 1) = (y, m, 1)"
  using civil_correct [OF assms] by (intro civil_date_days) simp_all

lemma Window_days:
  assumes "p \<noteq> AllTime"
  shows "Window p t = (midnight (first_day p (day_number t)), midnight (past_day p (day_number t)))"
proof -
  obtain y m d where c: "civil (day_number t) = (y, m, d)" by (metis prod_cases3)
  note n = civil_correct(1) [OF c]
  show ?thesis
  proof (cases p)
    case Daily
    then show ?thesis using c n AddDate_days by (simp add: date_time_midnight)
  next
    case Weekly
    have off: "(weekday (day_number t) + 6) mod 7 = day_number t mod 7"
      by (simp add: weekday_def mod_simps)
    have "date_days y m (d - day_number t mod 7) = day_number t - day_number t mod 7"
      using date_days_shift [of y m d "- (day_number t mod 7)"] n by simp
    then show ?thesis using Weekly c AddDate_days by (simp add: date_time_midnight off Let_def)
  next
    case Monthly
    then show ?thesis
      using c AddDate_midnight [OF civil_month_start [OF c], of 1 0] by (simp add: date_time_midnight Let_def)
  qed (use assms in simp)
qed

lemma past_day_Monthly:
  assumes "civil n = (y, m, d)"
  shows "past_day Monthly n = date_days y m 1 + month_lengths (is_leap y) ! nat (m - 1)"
  using assms date_days_next_month civil_correct(2,3) [OF assms] by simp

lemma day_in_window:
  assumes "p \<noteq> AllTime"
  shows "first_day p n \<le> n \<and> n < past_day p n"
proof (cases p)
  case Monthly
  obtain y m d where c: "civil n = (y, m, d)" by (metis prod_cases3)
  have "n = date_days y m 1 + (d - 1)" using civil_correct(1) [OF c] date_days_shift [of y m 1 "d - 1"] by simp
  then show ?thesis
    using Monthly c past_day_Monthly [OF c] civil_correct(4,5) [OF c] by simp
next
  case Weekly
  have "0 \<le> n mod 7" "n mod 7 < 7" by simp_all
  then show ?thesis unfolding Weekly first_day.simps past_day.simps by linarith
qed (use assms in simp_all)

lemma same_window_days:
  assumes "p \<noteq> AllTime" and "first_day p n \<le> k" and "k < past_day p n"
  shows "first_day p k = first_day p n \<and> past_day p k = past_day p n"
proof (cases p)
  case Monthly
  obtain y m d where c: "civil n = (y, m, d)" by (metis prod_cases3)
  define d' where "d' = 1 + (k - date_days y m 1)"
  have k: "date_days y m d' = k" by (simp add: d'_def date_days_shift)
  have "civil (date_days y m d') = (y, m, d')"
    using assms Monthly c past_day_Monthly [OF c] civil_correct(2,3) [OF c]
    by (intro civil_date_days) (simp_all add: d'_def)
  then show ?thesis using Monthly c k by simp
next
  case Weekly
  obtain q r where n: "n = 7 * q + r" "0 \<le> r" "r < 7" "n mod 7 = r"
    by (metis mult_div_mod_eq pos_mod_bound pos_mod_sign zero_less_numeral)
  have lo: "7 * q \<le> k" "k < 7 * q + 7" using assms(2,3) n unfolding Weekly first_day.simps past_day.simps by linarith+
  then have "k mod 7 = k - 7 * q" by (intro int_mod_pos_eq [of _ _ q]) simp_all
  then have "k - k mod 7 = 7 * q" by simp
  moreover have "n - n mod 7 = 7 * q" using n by simp
  ultimately show ?thesis unfolding Weekly first_day.simps past_day.simps by simp
qed (use assms in simp_all)

lemma first_day_eq_iff:
  "p \<noteq> AllTime \<Longrightarrow> first_day p m = first_day p n \<longleftrightarrow> first_day p n \<le> m \<and> m < past_day p n"
proof
  assume p: "p \<noteq> AllTime" and eq: "first_day p m = first_day p n"
  have "past_day p m = past_day p n"
  proof (cases "m \<le> n")
    case True
    then show ?thesis
      using eq day_in_window [OF p, of m] day_in_window [OF p, of n] same_window_days [OF p, of n m] by linarith
  next
    case False
    then show ?thesis
      using eq day_in_window [OF p, of m] day_in_window [OF p, of n] same_window_days [OF p, of m n] by linarith
  qed
  then show "first_day p n \<le> m \<and> m < past_day p n" using eq day_in_window [OF p, of m] by linarith
qed (use same_window_days in blast)

lemma Window_eq_iff:
  "Window p t = Window p u \<longleftrightarrow> p = AllTime \<or> first_day p (day_number t) = first_day p (day_number u)"
proof (cases "p = AllTime")
  case False
  have "first_day p m = first_day p n \<Longrightarrow> past_day p m = past_day p n" for m n
    using first_day_eq_iff [OF False, of m n] same_window_days [OF False, of n m] by simp
  from this [of "day_number t" "day_number u"] False show ?thesis
    unfolding Window_days [OF False] prod.inject midnight_inj by blast
qed simp

lemma window_iff:
  assumes "p \<noteq> AllTime"
  shows "fst (Window p t) \<le> t \<and> t < snd (Window p t) \<and>
    (\<forall>u. Window p u = Window p t \<longleftrightarrow> fst (Window p t) \<le> u \<and> u < snd (Window p t))"
proof -
  let ?n = "day_number t"
  have "fst (Window p t) \<le> u \<and> u < snd (Window p t) \<longleftrightarrow> first_day p ?n \<le> day_number u \<and> day_number u < past_day p ?n" for u
    by (simp only: Window_days [OF assms] fst_conv snd_conv midnight_le_iff midnight_less_iff)
  moreover have "Window p u = Window p t \<longleftrightarrow> first_day p ?n \<le> day_number u \<and> day_number u < past_day p ?n" for u
    unfolding Window_eq_iff using assms first_day_eq_iff [OF assms, of "day_number u" ?n] by blast
  ultimately show ?thesis using day_in_window [OF assms, of ?n] by blast
qed

lemma window_days_le:
  assumes "p \<noteq> AllTime"
  shows "past_day p n - first_day p n \<le> (case p of Daily \<Rightarrow> 1 | Weekly \<Rightarrow> 7 | _ \<Rightarrow> 31)"
proof (cases p)
  case Monthly
  obtain y m d where c: "civil n = (y, m, d)" by (metis prod_cases3)
  have "nat (m - 1) < 12" using civil_correct(2,3) [OF c] by auto
  then have "month_lengths (is_leap y) ! nat (m - 1) \<in> set (month_lengths (is_leap y))" by simp
  then have "month_lengths (is_leap y) ! nat (m - 1) \<le> 31" by (auto simp: month_lengths_def split: if_splits)
  then show ?thesis using Monthly c past_day_Monthly [OF c] by simp
qed (use assms in simp_all)

text \<open>From February of the year 1 on, no window begins at the zero time.\<close>

lemma window_not_zero:
  assumes "p \<noteq> AllTime" and "31 \<le> day_number t"
  shows "\<not> is_zero (fst (Window p t))"
proof -
  have "past_day p (day_number t) - first_day p (day_number t) \<le> 31"
    using window_days_le [OF assms(1), of "day_number t"] by (cases p) simp_all
  then have "0 < first_day p (day_number t)" using day_in_window [OF assms(1), of "day_number t"] assms(2) by linarith
  moreover have "zero_time = midnight 0" by (simp add: zero_time_def midnight_def)
  ultimately show ?thesis using midnight_inj [of "first_day p (day_number t)" 0] Window_days [OF assms(1), of t]
    by (simp add: is_zero_def)
qed

section \<open>Buckets\<close>

lemma zero_pad_nonempty [simp]: "zero_pad w (nat_digits n) \<noteq> []"
  by (simp add: zero_pad_def)

lemma hd_zero_pad [simp]: "hd (zero_pad w (nat_digits n)) \<noteq> CHR ''-''"
  using minus_not_in_zero_pad [of w n] hd_in_set [OF zero_pad_nonempty, of w n] by metis

lemma padded_sep_inj:
  "padded w m @ CHR ''-'' # xs = padded w n @ CHR ''-'' # ys \<longleftrightarrow> m = n \<and> xs = ys"
proof -
  have hd: "hd (zero_pad w (nat_digits k) @ zs) \<noteq> CHR ''-''" for k zs by simp
  have mixed: "zero_pad w (nat_digits k) @ zs \<noteq> CHR ''-'' # us" for k zs us
    using hd [of k zs] by (metis list.sel(1))
  consider "m < 0" "n < 0" | "m < 0" "0 \<le> n" | "0 \<le> m" "n < 0" | "0 \<le> m" "0 \<le> n" by linarith
  then show ?thesis
  proof cases
    case 2
    then show ?thesis using mixed by (auto simp: padded_def dest: sym)
  qed (auto simp: padded_def sep_append_inj zero_pad_inj mixed)
qed

lemma padded_inj: "padded w m = padded w n \<longleftrightarrow> m = n"
  using padded_sep_inj [of w m "[]" n "[]"] by auto

lemma itoa_padded: "itoa n = padded 0 n"
  by (simp add: itoa_def padded_def zero_pad_def)

lemma iso_thursday: "iso_thursday n = first_day Weekly n + 3"
proof -
  obtain q r where n: "n = 7 * q + r" "0 \<le> r" "r < 7" "n mod 7 = r"
    by (metis mult_div_mod_eq pos_mod_bound pos_mod_sign zero_less_numeral)
  have "weekday n = (if r = 6 then 0 else r + 1)"
  proof -
    have "weekday n = (r + 1) mod 7" using n(4) by (simp add: weekday_def flip: mod_add_left_eq [of n])
    then show ?thesis using n by (cases "r = 6") simp_all
  qed
  then show ?thesis using n by (simp add: iso_thursday_def)
qed

lemma iso_week_eq_iff:
  "iso_week t = iso_week u \<longleftrightarrow> first_day Weekly (day_number t) = first_day Weekly (day_number u)"
proof
  assume eq: "iso_week t = iso_week u"
  define a b where "a = iso_thursday (day_number t)" and "b = iso_thursday (day_number u)"
  obtain y d where a: "year_yday a = (y, d)" by fastforce
  obtain z e where b: "year_yday b = (z, e)" by fastforce
  have "y = z" "d div 7 = e div 7"
    using eq a b by (simp_all add: iso_week_def flip: a_def b_def)
  then have "a - b = d - e" using year_yday_correct(1) [OF a] year_yday_correct(1) [OF b] by simp
  moreover have "\<bar>d - e\<bar> < 7"
    using \<open>d div 7 = e div 7\<close> mult_div_mod_eq [of 7 d] mult_div_mod_eq [of 7 e]
      pos_mod_bound [of 7 d] pos_mod_bound [of 7 e] pos_mod_sign [of 7 d] pos_mod_sign [of 7 e] by linarith
  moreover have "7 dvd a - b"
  proof -
    have "a - b = (day_number t - day_number t mod 7) - (day_number u - day_number u mod 7)"
      by (simp add: a_def b_def iso_thursday)
    then show ?thesis by (simp only: dvd_diff dvd_minus_mod)
  qed
  ultimately have "\<not> a - b \<noteq> 0" using dvd_imp_le_int [of "a - b" 7] by linarith
  then have "a = b" by simp
  then show "first_day Weekly (day_number t) = first_day Weekly (day_number u)"
    by (simp add: a_def b_def iso_thursday)
qed (simp add: iso_week_def iso_thursday)

lemma civil_eq_iff: "civil m = civil n \<longleftrightarrow> m = n"
  by (metis civil_correct(1) prod_cases3)

lemma civil_month_eq_iff:
  assumes "civil j = (y, m, d)" and "civil k = (z, n, e)"
  shows "y = z \<and> m = n \<longleftrightarrow> first_day Monthly j = first_day Monthly k"
proof
  assume "first_day Monthly j = first_day Monthly k"
  then have "civil (date_days y m 1) = civil (date_days z n 1)" using assms by simp
  then show "y = z \<and> m = n" using civil_month_start [OF assms(1)] civil_month_start [OF assms(2)] by simp
qed (use assms in simp)

lemma bucket_eq_iff: "bucket p t = bucket p u \<longleftrightarrow> Window p t = Window p u"
proof -
  obtain y m d where t: "civil (day_number t) = (y, m, d)" by (metis prod_cases3)
  obtain z n e where u: "civil (day_number u) = (z, n, e)" by (metis prod_cases3)
  show ?thesis
  proof (cases p)
    case Daily
    have "bucket Daily t = bucket Daily u \<longleftrightarrow> civil (day_number t) = civil (day_number u)"
      using t u by (simp add: padded_sep_inj padded_inj)
    then show ?thesis unfolding Daily Window_eq_iff by (simp add: civil_eq_iff)
  next
    case Weekly
    have "bucket Weekly t = bucket Weekly u \<longleftrightarrow> iso_week t = iso_week u"
      by (cases "iso_week t"; cases "iso_week u") (simp add: itoa_padded padded_sep_inj padded_inj)
    then show ?thesis unfolding Weekly Window_eq_iff iso_week_eq_iff by simp
  next
    case Monthly
    have "bucket Monthly t = bucket Monthly u \<longleftrightarrow> y = z \<and> m = n"
      using t u by (simp add: padded_sep_inj padded_inj)
    then show ?thesis unfolding Monthly Window_eq_iff civil_month_eq_iff [OF t u] by simp
  qed simp
qed

lemma bucket_period: "bucket p t = bucket q u \<Longrightarrow> p = q"
  by (cases p; cases q) (auto split: prod.splits)

section \<open>Keys\<close>

definition scope_ok :: "scope \<Rightarrow> bool" where
  "scope_ok s \<longleftrightarrow> IsGlobal s \<or> sc_Game s \<in> set (registry_Slugs NewRegistry)"

lemma Key_eq_iff:
  assumes "scope_ok s" and "scope_ok s'"
  shows "Key s p t = Key s' q u \<longleftrightarrow> s = s' \<and> p = q \<and> Window p t = Window p u"
proof -
  have b: "bucket p t = bucket q u \<longleftrightarrow> p = q \<and> Window p t = Window p u"
    using bucket_period bucket_eq_iff by metis
  show ?thesis
  proof (cases "IsGlobal s \<or> IsGlobal s'")
    case True
    then show ?thesis using b by (cases s; cases s') (auto simp: Key_def IsGlobal_def)
  next
    case False
    then have "CHR '':'' \<notin> set (sc_Game s)" "CHR '':'' \<notin> set (sc_Game s')"
      using assms registry_slug_nonempty by (auto simp: scope_ok_def)
    then show ?thesis using False b by (cases s; cases s') (simp add: Key_def IsGlobal_def sep_append_inj)
  qed
qed

lemma last_zero_pad: "last (zero_pad w (nat_digits n)) \<noteq> CHR ''g''"
proof -
  obtain d where d: "d < 10" "last (zero_pad w (nat_digits n)) = digit_char d"
    using zero_pad_digits [OF last_in_set [OF zero_pad_nonempty]] by metis
  have "digit_val (CHR ''g'') = None" by (simp add: digit_val_def Let_def)
  then show ?thesis using d digit_val_digit_char [OF d(1)] by (metis option.distinct(1))
qed

lemma last_padded [simp]: "last (xs @ padded w n) \<noteq> CHR ''g''"
  using last_zero_pad by (simp add: padded_def)

lemma last_bucket: "last (xs @ bucket p t) \<noteq> CHR ''g''"
proof (cases p)
  case Daily
  then show ?thesis
    using last_padded [of "xs @ ''d:'' @ padded 4 (fst (civil (day_number t))) @ ''-'' @ padded 2 (fst (snd (civil (day_number t)))) @ ''-''"]
    by (simp add: split_beta)
next
  case Weekly
  then show ?thesis
    using last_padded [of "xs @ ''w:'' @ itoa (fst (iso_week t)) @ ''-W''"] by (simp add: split_beta)
next
  case Monthly
  then show ?thesis
    using last_padded [of "xs @ ''m:'' @ padded 4 (fst (civil (day_number t))) @ ''-''"] by (simp add: split_beta)
qed simp

text \<open>The name a rebuild stages a board under is the name of no board.\<close>

lemma staging_not_Key: "Key s p t @ '':rebuilding'' \<noteq> Key s' q u"
proof -
  have "last (Key s' q u) \<noteq> CHR ''g''"
    using last_bucket [of "''lb:global:''" q u] last_bucket [of "''lb:g:'' @ sc_Game s' @ '':''" q u]
    by (simp add: Key_def)
  moreover have "last (Key s p t @ '':rebuilding'') = CHR ''g''" by simp
  ultimately show ?thesis by metis
qed

section \<open>Properties\<close>

text \<open>
  A window is half-open, contains the instant it was asked for, and is the window of exactly the
  instants it contains, so the windows of a period tile time without gap or overlap.
\<close>

theorem window_tiles:
  assumes "p \<noteq> AllTime"
  shows "fst (Window p t) \<le> t \<and> t < snd (Window p t) \<and>
    (\<forall>u. Window p u = Window p t \<longleftrightarrow> fst (Window p t) \<le> u \<and> u < snd (Window p t))"
  by (rule window_iff [OF assms])

lemma window_tiles_witness: "fst (Window Weekly 0) \<le> 0 \<and> 0 < snd (Window Weekly 0)"
  using window_tiles [of Weekly 0] by simp

text \<open>
  Among the cross-game board and the boards of the registered games, two keys are equal exactly
  when scope, period and window are, and the name a rebuild stages a board under is never the key
  of a board.
\<close>

theorem key_identity:
  assumes "scope_ok s" and "scope_ok s'"
  shows "(Key s p t = Key s' q u \<longleftrightarrow> s = s' \<and> p = q \<and> Window p t = Window p u)
    \<and> Key s p t @ '':rebuilding'' \<noteq> Key s' q u"
  using Key_eq_iff [OF assms] staging_not_Key by blast

lemma key_identity_witness: "Key Global Daily 0 \<noteq> Key (Game Memory) Daily 0"
proof -
  have "scope_ok Global" "scope_ok (Game Memory)"
    by (simp_all add: scope_ok_def Global_def Game_def IsGlobal_def registry_Slugs_new)
  then show ?thesis
    using key_identity [of Global "Game Memory" Daily 0 Daily 0] by (simp add: Global_def Game_def slug_defs)
qed

text \<open>
  A board outlives its window: the key expires no sooner than the period's \<open>TTL\<close> after its first
  score, and the \<open>TTL\<close> is longer than the window. The instant before a window belongs to the
  window that ends where this one begins, which is the one the housekeeper freezes.
\<close>

theorem window_ttl_previous:
  assumes "p \<noteq> AllTime"
  shows "snd (Window p t) - fst (Window p t) < TTL p
    \<and> snd (Window p (fst (Window p t) - 1)) = fst (Window p t)"
proof
  let ?n = "day_number t"
  have "past_day p ?n - first_day p ?n \<le> (case p of Daily \<Rightarrow> 1 | Weekly \<Rightarrow> 7 | _ \<Rightarrow> 31)"
    by (rule window_days_le [OF assms])
  then have "(past_day p ?n - first_day p ?n) * day_ns \<le> (case p of Daily \<Rightarrow> 1 | Weekly \<Rightarrow> 7 | _ \<Rightarrow> 31) * day_ns"
    by (rule mult_right_mono) (simp add: less_imp_le)
  moreover have "snd (Window p t) - fst (Window p t) = (past_day p ?n - first_day p ?n) * day_ns"
    by (simp add: Window_days [OF assms] midnight_def left_diff_distrib)
  ultimately show "snd (Window p t) - fst (Window p t) < TTL p"
    using assms by (cases p) (simp_all add: duration_defs)
  define k where "k = first_day p ?n - 1"
  have idem: "first_day p (first_day p ?n) = first_day p ?n"
    using same_window_days [OF assms, of ?n "first_day p ?n"] day_in_window [OF assms, of ?n] by simp
  have "day_number (midnight (first_day p ?n) - 1) = k"
  proof -
    have "midnight k \<le> midnight (first_day p ?n) - 1"
      using midnight_less_iff [of "midnight k" "first_day p ?n"] by (simp add: k_def)
    then show ?thesis
      using midnight_le_iff [of k "midnight (first_day p ?n) - 1"]
        midnight_less_iff [of "midnight (first_day p ?n) - 1" "first_day p ?n"] by (simp add: k_def)
  qed
  moreover have "past_day p k = first_day p ?n"
  proof (rule ccontr)
    assume ne: "past_day p k \<noteq> first_day p ?n"
    then have "first_day p ?n < past_day p k" "first_day p k \<le> k" using day_in_window [OF assms, of k] by (auto simp: k_def)
    then have "first_day p (first_day p ?n) = first_day p k"
      using same_window_days [OF assms, of k "first_day p ?n"] by (simp add: k_def)
    with \<open>first_day p k \<le> k\<close> idem show False by (simp add: k_def)
  qed
  ultimately show "snd (Window p (fst (Window p t) - 1)) = fst (Window p t)"
    by (simp add: Window_days [OF assms])
qed

lemma window_ttl_previous_witness: "snd (Window Monthly 0) - fst (Window Monthly 0) < 62 * 24 * hour"
  using window_ttl_previous [of Monthly 0] by simp

end
