(* ===== verification/Store.thy ===== *)
theory Store
  imports Effects Go_Strings "HOL-Library.List_Lexorder"
begin

text \<open>
  \<open>internal/store\<close>: the rows of Postgres and the statements of \<open>internal/store/queries\<close> as
  \<open>internal/store/db\<close> runs them. A table is a list of rows in the order of insertion; a statement is a
  function of the rows, of its parameters, and of what Postgres supplies (\<open>now()\<close>, fixed for a
  transaction, and \<open>gen_random_uuid()\<close>). Constraints of the migrations are the errors of an insert.
  Where SQL leaves an order open (ties of an \<open>ORDER BY\<close>, groups), the model takes one of the allowed
  orders. The lemmas are the laws of the tables the services rest on.
\<close>

section \<open>Rows\<close>

type_synonym uuid = "128 word"

record game_session =
  gs_ID :: uuid
  gs_UserID :: int
  gs_Game :: slug
  gs_Seed :: seed
  gs_State :: json
  gs_Status :: string
  gs_Moves :: int
  gs_StartedAt :: time
  gs_DeadlineAt :: "time option"
  gs_FinishedAt :: "time option"

record score_event =
  ev_ID :: int
  ev_UserID :: int
  ev_SessionID :: uuid
  ev_Game :: slug
  ev_Raw :: f64
  ev_Points :: int
  ev_AchievedAt :: time
  ev_ProjectedAt :: "time option"

record refresh_token =
  rt_ID :: int
  rt_UserID :: int
  rt_FamilyID :: uuid
  rt_TokenHash :: "byte list"
  rt_IssuedAt :: time
  rt_ExpiresAt :: time
  rt_UsedAt :: "time option"
  rt_RevokedAt :: "time option"

record leaderboard_snapshot =
  sn_ID :: int
  sn_Scope :: string
  sn_Period :: string
  sn_WindowFrom :: time
  sn_WindowUntil :: time
  sn_PlayerCount :: int
  sn_Entries :: json
  sn_CreatedAt :: time

record user_row =
  us_ID :: int
  us_Username :: string
  us_Email :: string
  us_PasswordHash :: string
  us_CreatedAt :: time
  us_UpdatedAt :: time

record database =
  users :: "user_row list"
  tokens :: "refresh_token list"
  sessions :: "game_session list"
  events :: "score_event list"
  snapshots :: "leaderboard_snapshot list"

definition empty_db :: database where
  "empty_db = \<lparr>users = [], tokens = [], sessions = [], events = [], snapshots = []\<rparr>"

text \<open>A \<open>timestamptz\<close> holds whole microseconds; an identity column is above every id before it.\<close>

definition pg_time :: "time \<Rightarrow> time" where
  "pg_time t = t div 1000 * 1000"

definition next_id :: "int list \<Rightarrow> int" where
  "next_id ids = foldr max ids 0 + 1"

definition row_of :: "'a option \<Rightarrow> err + 'a" where
  "row_of r = of_option ErrNoRows r"

definition sql_lower :: "string \<Rightarrow> string" where
  "sql_lower s = map ascii_lower s"

definition sql_limit :: "int \<Rightarrow> 'a list \<Rightarrow> err + 'a list" where
  "sql_limit n rows = (if n < 0 then Inl ErrDB else Inr (take (nat n) rows))"

definition count_of :: "'a list \<Rightarrow> int" where
  "count_of rows = int (length rows)"

section \<open>game\_sessions\<close>

definition is_active :: "game_session \<Rightarrow> bool" where
  "is_active s \<longleftrightarrow> gs_Status s = ''active''"

definition abandon :: "time \<Rightarrow> game_session \<Rightarrow> game_session" where
  "abandon now s = s\<lparr>gs_Status := ''abandoned'', gs_FinishedAt := Some now\<rparr>"

definition AbandonActiveSessions :: "time \<Rightarrow> int \<Rightarrow> slug \<Rightarrow> database \<Rightarrow> (err + int) \<times> database" where
  "AbandonActiveSessions now user game d =
     (let hit = (\<lambda>s. gs_UserID s = user \<and> gs_Game s = game \<and> is_active s)
      in (Inr (count_of (filter hit (sessions d))),
          d\<lparr>sessions := map (\<lambda>s. if hit s then abandon now s else s) (sessions d)\<rparr>))"

definition AbandonStaleSessions :: "time \<Rightarrow> time \<Rightarrow> database \<Rightarrow> (err + int) \<times> database" where
  "AbandonStaleSessions now started d =
     (let hit = (\<lambda>s. is_active s \<and> gs_StartedAt s < started)
      in (Inr (count_of (filter hit (sessions d))),
          d\<lparr>sessions := map (\<lambda>s. if hit s then abandon now s else s) (sessions d)\<rparr>))"

definition CountActiveGameSessions :: "int \<Rightarrow> database \<Rightarrow> (err + int) \<times> database" where
  "CountActiveGameSessions user d =
     (Inr (count_of (filter (\<lambda>s. gs_UserID s = user \<and> is_active s) (sessions d))), d)"

definition CreateGameSession ::
    "time \<Rightarrow> uuid \<Rightarrow> int \<Rightarrow> slug \<Rightarrow> seed \<Rightarrow> json \<Rightarrow> time option \<Rightarrow> database \<Rightarrow> (err + game_session) \<times> database" where
  "CreateGameSession now uuid user game seed state deadline d =
     (let row = \<lparr>gs_ID = uuid, gs_UserID = user, gs_Game = game, gs_Seed = seed, gs_State = state,
                 gs_Status = ''active'', gs_Moves = 0, gs_StartedAt = now,
                 gs_DeadlineAt = map_option pg_time deadline, gs_FinishedAt = None\<rparr>
      in if uuid \<in> set (map gs_ID (sessions d)) then (Inl ErrUniqueViolation, d)
         else if user \<notin> set (map us_ID (users d)) then (Inl ErrDB, d)
         else (Inr row, d\<lparr>sessions := sessions d @ [row]\<rparr>))"

definition find_session :: "uuid \<Rightarrow> database \<Rightarrow> game_session option" where
  "find_session ident d = find (\<lambda>s. gs_ID s = ident) (sessions d)"

definition GetGameSession :: "uuid \<Rightarrow> database \<Rightarrow> (err + game_session) \<times> database" where
  "GetGameSession ident d = (row_of (find_session ident d), d)"

text \<open>\<open>FOR UPDATE\<close>: the row is the transaction's own until it ends, so a transaction of the model, which
  nothing interrupts, reads the row like \<open>GetGameSession\<close>.\<close>

definition LockGameSession :: "uuid \<Rightarrow> database \<Rightarrow> (err + game_session) \<times> database" where
  "LockGameSession ident d = (row_of (find_session ident d), d)"

definition put_session :: "game_session \<Rightarrow> database \<Rightarrow> database" where
  "put_session row d =
     d\<lparr>sessions := map (\<lambda>s. if gs_ID s = gs_ID row then row else s) (sessions d)\<rparr>"

definition SaveGameSessionState :: "uuid \<Rightarrow> json \<Rightarrow> database \<Rightarrow> (err + game_session) \<times> database" where
  "SaveGameSessionState ident state d =
     (case find_session ident d of
        None \<Rightarrow> (Inl ErrNoRows, d)
      | Some s \<Rightarrow>
          let row = s\<lparr>gs_State := state, gs_Moves := gs_Moves s + 1\<rparr> in (Inr row, put_session row d))"

definition FinishGameSession :: "time \<Rightarrow> uuid \<Rightarrow> database \<Rightarrow> (err + game_session) \<times> database" where
  "FinishGameSession now ident d =
     (case find_session ident d of
        None \<Rightarrow> (Inl ErrNoRows, d)
      | Some s \<Rightarrow>
          if is_active s then
            (let row = s\<lparr>gs_Status := ''finished'', gs_FinishedAt := Some now\<rparr> in (Inr row, put_session row d))
          else (Inl ErrNoRows, d))"

section \<open>score\_events\<close>

definition CreateScoreEvent ::
    "time \<Rightarrow> int \<Rightarrow> uuid \<Rightarrow> slug \<Rightarrow> f64 \<Rightarrow> int \<Rightarrow> database \<Rightarrow> (err + score_event) \<times> database" where
  "CreateScoreEvent now user session game raw points d =
     (let row = \<lparr>ev_ID = next_id (map ev_ID (events d)), ev_UserID = user, ev_SessionID = session,
                 ev_Game = game, ev_Raw = raw, ev_Points = points, ev_AchievedAt = now, ev_ProjectedAt = None\<rparr>
      in if \<not> (0 \<le> points \<and> points \<le> 10000) then (Inl ErrDB, d)
         else if session \<in> set (map ev_SessionID (events d)) then (Inl ErrUniqueViolation, d)
         else if user \<notin> set (map us_ID (users d)) \<or> session \<notin> set (map gs_ID (sessions d)) then (Inl ErrDB, d)
         else (Inr row, d\<lparr>events := events d @ [row]\<rparr>))"

definition GetScoreEventBySession :: "uuid \<Rightarrow> database \<Rightarrow> (err + score_event) \<times> database" where
  "GetScoreEventBySession session d = (row_of (find (\<lambda>e. ev_SessionID e = session) (events d)), d)"

definition ListRecentScoreEventsForUser ::
    "int \<Rightarrow> int \<Rightarrow> database \<Rightarrow> (err + score_event list) \<times> database" where
  "ListRecentScoreEventsForUser user limit d =
     (sql_limit limit (sort_key (\<lambda>e. - ev_AchievedAt e) (filter (\<lambda>e. ev_UserID e = user) (events d))), d)"

definition MarkScoreEventProjected :: "time \<Rightarrow> int \<Rightarrow> database \<Rightarrow> (err + unit) \<times> database" where
  "MarkScoreEventProjected now ident d =
     (Inr (), d\<lparr>events := map (\<lambda>e. if ev_ID e = ident then e\<lparr>ev_ProjectedAt := Some now\<rparr> else e) (events d)\<rparr>)"

definition ListUnprojectedScoreEvents :: "int \<Rightarrow> database \<Rightarrow> (err + score_event list) \<times> database" where
  "ListUnprojectedScoreEvents limit d =
     (sql_limit limit (sort_key ev_ID (filter (\<lambda>e. ev_ProjectedAt e = None) (events d))), d)"

definition CountUnprojectedScoreEvents :: "database \<Rightarrow> (err + int) \<times> database" where
  "CountUnprojectedScoreEvents d = (Inr (count_of (filter (\<lambda>e. ev_ProjectedAt e = None) (events d))), d)"

definition pg_Now :: "time \<Rightarrow> database \<Rightarrow> (err + time) \<times> database" where
  "pg_Now now d = (Inr now, d)"

section \<open>Aggregates\<close>

definition max_of :: "int list \<Rightarrow> int" where
  "max_of xs = foldr max (tl xs) (hd xs)"

definition min_of :: "int list \<Rightarrow> int" where
  "min_of xs = foldr min (tl xs) (hd xs)"

definition in_window :: "time option \<Rightarrow> time option \<Rightarrow> score_event \<Rightarrow> bool" where
  "in_window from until e \<longleftrightarrow>
     (case from of None \<Rightarrow> True | Some t \<Rightarrow> t \<le> ev_AchievedAt e) \<and>
     (case until of None \<Rightarrow> True | Some t \<Rightarrow> ev_AchievedAt e < t)"

definition of_game_user :: "slug \<Rightarrow> int \<Rightarrow> score_event \<Rightarrow> bool" where
  "of_game_user g u e \<longleftrightarrow> ev_Game e = g \<and> ev_UserID e = u"

text \<open>One row per group, in the order in which the groups first appear.\<close>

definition best_rows :: "score_event list \<Rightarrow> (slug \<times> int \<times> int) list" where
  "best_rows es =
     map (\<lambda>(g, u). (g, u, max_of (map ev_Points (filter (of_game_user g u) es))))
       (remdups (map (\<lambda>e. (ev_Game e, ev_UserID e)) es))"

definition BestPointsPerUserAndGame ::
    "time option \<Rightarrow> time option \<Rightarrow> database \<Rightarrow> (err + (slug \<times> int \<times> int) list) \<times> database" where
  "BestPointsPerUserAndGame from until d = (Inr (best_rows (filter (in_window from until) (events d))), d)"

text \<open>The rows of a top-players query, best first, ties by the earliest score: (user, points).\<close>

definition game_totals :: "score_event list \<Rightarrow> (int \<times> int \<times> time) list" where
  "game_totals es =
     map (\<lambda>u. let mine = filter (\<lambda>e. ev_UserID e = u) es
              in (u, max_of (map ev_Points mine), min_of (map ev_AchievedAt mine)))
       (remdups (map ev_UserID es))"

definition global_totals :: "score_event list \<Rightarrow> (int \<times> int \<times> time) list" where
  "global_totals es =
     map (\<lambda>u. let mine = filter (\<lambda>e. ev_UserID e = u) es
              in (u, sum_list (map (\<lambda>(g, _, best). best) (best_rows mine)), min_of (map ev_AchievedAt mine)))
       (remdups (map ev_UserID es))"

definition top_rows :: "int \<Rightarrow> (int \<times> int \<times> time) list \<Rightarrow> err + (int \<times> int) list" where
  "top_rows limit rows =
     map_sum id (map (\<lambda>(u, p, _). (u, p))) (sql_limit limit (sort_key (\<lambda>(u, p, t). - p) (sort_key (\<lambda>(u, p, t). t) rows)))"

definition TopPlayersForGameAllTime :: "slug \<Rightarrow> int \<Rightarrow> database \<Rightarrow> (err + (int \<times> int) list) \<times> database" where
  "TopPlayersForGameAllTime game limit d =
     (top_rows limit (game_totals (filter (\<lambda>e. ev_Game e = game) (events d))), d)"

definition TopPlayersForGameInWindow ::
    "slug \<Rightarrow> time \<Rightarrow> time \<Rightarrow> int \<Rightarrow> database \<Rightarrow> (err + (int \<times> int) list) \<times> database" where
  "TopPlayersForGameInWindow game from until limit d =
     (top_rows limit (game_totals (filter (\<lambda>e. ev_Game e = game \<and> in_window (Some from) (Some until) e) (events d))), d)"

definition TopPlayersGlobalAllTime :: "int \<Rightarrow> database \<Rightarrow> (err + (int \<times> int) list) \<times> database" where
  "TopPlayersGlobalAllTime limit d = (top_rows limit (global_totals (events d)), d)"

definition TopPlayersGlobalInWindow ::
    "time \<Rightarrow> time \<Rightarrow> int \<Rightarrow> database \<Rightarrow> (err + (int \<times> int) list) \<times> database" where
  "TopPlayersGlobalInWindow from until limit d =
     (top_rows limit (global_totals (filter (in_window (Some from) (Some until)) (events d))), d)"

section \<open>leaderboard\_snapshots\<close>

definition CountLeaderboardSnapshots :: "database \<Rightarrow> (err + int) \<times> database" where
  "CountLeaderboardSnapshots d = (Inr (count_of (snapshots d)), d)"

definition same_window :: "string \<Rightarrow> string \<Rightarrow> time \<Rightarrow> leaderboard_snapshot \<Rightarrow> bool" where
  "same_window scope period from s \<longleftrightarrow> sn_Scope s = scope \<and> sn_Period s = period \<and> sn_WindowFrom s = from"

definition GetLeaderboardSnapshot ::
    "string \<Rightarrow> string \<Rightarrow> time \<Rightarrow> database \<Rightarrow> (err + leaderboard_snapshot) \<times> database" where
  "GetLeaderboardSnapshot scope period from d = (row_of (find (same_window scope period from) (snapshots d)), d)"

definition UpsertLeaderboardSnapshot ::
    "time \<Rightarrow> string \<Rightarrow> string \<Rightarrow> time \<Rightarrow> time \<Rightarrow> int \<Rightarrow> json \<Rightarrow> database
      \<Rightarrow> (err + leaderboard_snapshot) \<times> database" where
  "UpsertLeaderboardSnapshot now scope period from until players entries d =
     (case find (same_window scope period from) (snapshots d) of
        None \<Rightarrow>
          (let row = \<lparr>sn_ID = next_id (map sn_ID (snapshots d)), sn_Scope = scope, sn_Period = period,
                      sn_WindowFrom = from, sn_WindowUntil = until, sn_PlayerCount = players,
                      sn_Entries = entries, sn_CreatedAt = now\<rparr>
           in (Inr row, d\<lparr>snapshots := snapshots d @ [row]\<rparr>))
      | Some old \<Rightarrow>
          (let row = old\<lparr>sn_WindowUntil := until, sn_PlayerCount := players, sn_Entries := entries,
                         sn_CreatedAt := now\<rparr>
           in (Inr row, d\<lparr>snapshots := map (\<lambda>s. if same_window scope period from s then row else s) (snapshots d)\<rparr>)))"

section \<open>refresh\_tokens\<close>

definition CreateRefreshToken ::
    "time \<Rightarrow> int \<Rightarrow> uuid \<Rightarrow> byte list \<Rightarrow> time \<Rightarrow> database \<Rightarrow> (err + refresh_token) \<times> database" where
  "CreateRefreshToken now user family hash expires d =
     (let row = \<lparr>rt_ID = next_id (map rt_ID (tokens d)), rt_UserID = user, rt_FamilyID = family, rt_TokenHash = hash,
                 rt_IssuedAt = now, rt_ExpiresAt = pg_time expires, rt_UsedAt = None, rt_RevokedAt = None\<rparr>
      in if hash \<in> set (map rt_TokenHash (tokens d)) then (Inl ErrUniqueViolation, d)
         else if user \<notin> set (map us_ID (users d)) then (Inl ErrDB, d)
         else (Inr row, d\<lparr>tokens := tokens d @ [row]\<rparr>))"

definition claimable :: "time \<Rightarrow> byte list \<Rightarrow> refresh_token \<Rightarrow> bool" where
  "claimable now hash t \<longleftrightarrow>
     rt_TokenHash t = hash \<and> rt_UsedAt t = None \<and> rt_RevokedAt t = None \<and> now < rt_ExpiresAt t"

definition ClaimRefreshToken :: "time \<Rightarrow> byte list \<Rightarrow> database \<Rightarrow> (err + refresh_token) \<times> database" where
  "ClaimRefreshToken now hash d =
     (let use = (\<lambda>t. t\<lparr>rt_UsedAt := Some now\<rparr>)
      in (row_of (map_option use (find (claimable now hash) (tokens d))),
          d\<lparr>tokens := map (\<lambda>t. if claimable now hash t then use t else t) (tokens d)\<rparr>))"

definition GetRefreshTokenByHash :: "byte list \<Rightarrow> database \<Rightarrow> (err + refresh_token) \<times> database" where
  "GetRefreshTokenByHash hash d = (row_of (find (\<lambda>t. rt_TokenHash t = hash) (tokens d)), d)"

definition RevokeRefreshTokenFamily :: "time \<Rightarrow> uuid \<Rightarrow> database \<Rightarrow> (err + int) \<times> database" where
  "RevokeRefreshTokenFamily now family d =
     (let hit = (\<lambda>t. rt_FamilyID t = family \<and> rt_RevokedAt t = None)
      in (Inr (count_of (filter hit (tokens d))),
          d\<lparr>tokens := map (\<lambda>t. if hit t then t\<lparr>rt_RevokedAt := Some now\<rparr> else t) (tokens d)\<rparr>))"

definition CountActiveRefreshTokensInFamily :: "time \<Rightarrow> uuid \<Rightarrow> database \<Rightarrow> (err + int) \<times> database" where
  "CountActiveRefreshTokensInFamily now family d =
     (Inr (count_of (filter (\<lambda>t. rt_FamilyID t = family \<and> rt_RevokedAt t = None \<and> rt_UsedAt t = None
        \<and> now < rt_ExpiresAt t) (tokens d))), d)"

definition DeleteExpiredRefreshTokens :: "time \<Rightarrow> database \<Rightarrow> (err + int) \<times> database" where
  "DeleteExpiredRefreshTokens now d =
     (Inr (count_of (filter (\<lambda>t. rt_ExpiresAt t < now) (tokens d))),
      d\<lparr>tokens := filter (\<lambda>t. \<not> rt_ExpiresAt t < now) (tokens d)\<rparr>)"

section \<open>users\<close>

text \<open>A violated unique index is named by the error; the indexes are checked in the order of their creation.\<close>

definition CreateUser :: "time \<Rightarrow> string \<Rightarrow> string \<Rightarrow> string \<Rightarrow> database \<Rightarrow> (err + user_row) \<times> database" where
  "CreateUser now username email hash d =
     (let row = \<lparr>us_ID = next_id (map us_ID (users d)), us_Username = username, us_Email = email,
                 us_PasswordHash = hash, us_CreatedAt = now, us_UpdatedAt = now\<rparr>
      in if sql_lower username \<in> set (map (\<lambda>u. sql_lower (us_Username u)) (users d))
         then (Inl (ErrUniqueIn ''users_username_key''), d)
         else if sql_lower email \<in> set (map (\<lambda>u. sql_lower (us_Email u)) (users d))
         then (Inl (ErrUniqueIn ''users_email_key''), d)
         else (Inr row, d\<lparr>users := users d @ [row]\<rparr>))"

definition GetUserByID :: "int \<Rightarrow> database \<Rightarrow> (err + user_row) \<times> database" where
  "GetUserByID ident d = (row_of (find (\<lambda>u. us_ID u = ident) (users d)), d)"

definition GetUserByUsername :: "string \<Rightarrow> database \<Rightarrow> (err + user_row) \<times> database" where
  "GetUserByUsername name d = (row_of (find (\<lambda>u. sql_lower (us_Username u) = sql_lower name) (users d)), d)"

definition GetUserByEmail :: "string \<Rightarrow> database \<Rightarrow> (err + user_row) \<times> database" where
  "GetUserByEmail email d = (row_of (find (\<lambda>u. sql_lower (us_Email u) = sql_lower email) (users d)), d)"

definition GetUserByLogin :: "string \<Rightarrow> database \<Rightarrow> (err + user_row) \<times> database" where
  "GetUserByLogin login d =
     (row_of (find (\<lambda>u. sql_lower (us_Username u) = sql_lower login \<or> sql_lower (us_Email u) = sql_lower login)
        (users d)), d)"

definition UpdateUserPasswordHash :: "time \<Rightarrow> int \<Rightarrow> string \<Rightarrow> database \<Rightarrow> (err + unit) \<times> database" where
  "UpdateUserPasswordHash now ident hash d =
     (Inr (), d\<lparr>users := map (\<lambda>u. if us_ID u = ident then u\<lparr>us_PasswordHash := hash, us_UpdatedAt := now\<rparr> else u) (users d)\<rparr>)"

definition ListUsersByID :: "int list \<Rightarrow> database \<Rightarrow> (err + user_row list) \<times> database" where
  "ListUsersByID ids d = (Inr (filter (\<lambda>u. us_ID u \<in> set ids) (users d)), d)"

definition CountUsers :: "database \<Rightarrow> (err + int) \<times> database" where
  "CountUsers d = (Inr (count_of (users d)), d)"

end
