(* ===== verification/Redis.thy ===== *)
theory Redis
  imports "HOL-Library.Multiset" "HOL-Library.List_Lexorder" "HOL-Library.Char_ord" "HOL-Library.AList"
    "HOL-Library.Product_Lexorder"
begin

text \<open>
  Redis, as the leaderboard uses it. The server is not part of the repository, so its commands are a
  parameter: \<open>redis_ops\<close> names them over a state of any type, and the locale \<open>redis_server\<close> states the
  documented behaviour the code relies on. A sorted set is read through \<open>zscore\<close>; every other law is
  about it. Scores are integers (the code stores nothing else, far below \<open>2 ^ 53\<close>). \<open>mem_redis\<close> is a
  server in memory that satisfies the laws.
\<close>

section \<open>The commands\<close>

record 'r redis_ops =
  zscore :: "'r \<Rightarrow> string \<Rightarrow> string \<Rightarrow> int option"
  zadd :: "string \<Rightarrow> int \<Rightarrow> string \<Rightarrow> 'r \<Rightarrow> 'r"
  zincrby :: "string \<Rightarrow> int \<Rightarrow> string \<Rightarrow> 'r \<Rightarrow> 'r"
  zcard :: "'r \<Rightarrow> string \<Rightarrow> int"
  zcount_above :: "'r \<Rightarrow> string \<Rightarrow> int \<Rightarrow> int"
  zrevrange :: "'r \<Rightarrow> string \<Rightarrow> int \<Rightarrow> int \<Rightarrow> (string \<times> int) list"
  zrevrank :: "'r \<Rightarrow> string \<Rightarrow> string \<Rightarrow> int option"
  ttl :: "'r \<Rightarrow> string \<Rightarrow> int"
  expire :: "string \<Rightarrow> int \<Rightarrow> 'r \<Rightarrow> 'r"
  exists_key :: "'r \<Rightarrow> string \<Rightarrow> bool"
  del :: "string \<Rightarrow> 'r \<Rightarrow> 'r"
  rename :: "string \<Rightarrow> string \<Rightarrow> 'r \<Rightarrow> 'r option"
  get_str :: "'r \<Rightarrow> string \<Rightarrow> string option"
  set_ex :: "string \<Rightarrow> string \<Rightarrow> int \<Rightarrow> 'r \<Rightarrow> 'r"

text \<open>The order of \<open>ZREVRANGE\<close>: higher scores first, equal scores by member, the greater first.\<close>

definition ranks_before :: "string \<times> int \<Rightarrow> string \<times> int \<Rightarrow> bool" where
  "ranks_before a b \<longleftrightarrow> snd b < snd a \<or> (snd a = snd b \<and> fst b < fst a)"

definition members_above :: "(string \<Rightarrow> int option) \<Rightarrow> int \<Rightarrow> string set" where
  "members_above z s = {m. \<exists>x. z m = Some x \<and> s < x}"

section \<open>The laws\<close>

locale redis_server =
  fixes R :: "'r redis_ops"
  assumes zscore_zadd: "zscore R (zadd R k p m r) k' m' = (if k' = k \<and> m' = m then Some p else zscore R r k' m')"
    and zscore_zincrby: "zscore R (zincrby R k p m r) k' m' =
      (if k' = k \<and> m' = m then Some ((case zscore R r k m of None \<Rightarrow> 0 | Some x \<Rightarrow> x) + p) else zscore R r k' m')"
    and zscore_expire: "0 < s \<Longrightarrow> zscore R (expire R k s r) = zscore R r"
    and zscore_set_ex: "zscore R r k m \<noteq> None \<Longrightarrow> k \<noteq> k' \<Longrightarrow> zscore R (set_ex R k' v s r) k = zscore R r k"
    and zscore_del: "zscore R (del R k r) k' = (if k' = k then (\<lambda>m. None) else zscore R r k')"
    and rename_ok: "zscore R r a m \<noteq> None \<Longrightarrow> a \<noteq> b \<Longrightarrow>
      (\<exists>r'. rename R a b r = Some r' \<and> (\<forall>k. zscore R r' k =
        (if k = b then zscore R r a else if k = a then (\<lambda>m. None) else zscore R r k)))"
    and finite_zset: "finite (dom (zscore R r k))"
    and zcard_card: "zcard R r k = int (card (dom (zscore R r k)))"
    and zcount_card: "zcount_above R r k s = int (card (members_above (zscore R r k) s))"
    and zrev_distinct: "distinct (map fst (zrevrange R r k 0 (zcard R r k - 1)))"
    and zrev_set: "set (zrevrange R r k 0 (zcard R r k - 1)) = {(m, x). zscore R r k m = Some x}"
    and zrev_sorted: "sorted_wrt ranks_before (zrevrange R r k 0 (zcard R r k - 1))"
    and zrev_slice: "0 \<le> i \<Longrightarrow> 0 \<le> j \<Longrightarrow> zrevrange R r k i j =
      take (nat (j - i + 1)) (drop (nat i) (zrevrange R r k 0 (zcard R r k - 1)))"
    and zrevrank_index: "zrevrank R r k m = Some i \<longleftrightarrow>
      0 \<le> i \<and> i < zcard R r k \<and> fst (zrevrange R r k 0 (zcard R r k - 1) ! nat i) = m"
    and exists_zset: "zscore R r k m \<noteq> None \<Longrightarrow> exists_key R r k"
    and exists_zadd: "exists_key R r k' \<Longrightarrow> exists_key R (zadd R k p m r) k'"
    and exists_zincrby: "exists_key R r k' \<Longrightarrow> exists_key R (zincrby R k p m r) k'"
    and exists_expire: "0 < s \<Longrightarrow> exists_key R r k' \<Longrightarrow> exists_key R (expire R k s r) k'"
    and ttl_expire: "0 < s \<Longrightarrow> exists_key R r k' \<Longrightarrow>
      ttl R (expire R k s r) k' = (if k' = k then s else ttl R r k')"
    and ttl_zadd: "exists_key R r k' \<Longrightarrow> ttl R (zadd R k p m r) k' = ttl R r k'"
    and ttl_zincrby: "exists_key R r k' \<Longrightarrow> ttl R (zincrby R k p m r) k' = ttl R r k'"
begin

abbreviation ranking :: "'r \<Rightarrow> string \<Rightarrow> (string \<times> int) list" where
  "ranking r k \<equiv> zrevrange R r k 0 (zcard R r k - 1)"

lemma ranking_iff: "(m, x) \<in> set (ranking r k) \<longleftrightarrow> zscore R r k m = Some x"
  by (simp add: zrev_set)

lemma length_ranking: "int (length (ranking r k)) = zcard R r k"
proof -
  have "fst ` set (ranking r k) = dom (zscore R r k)" by (force simp: zrev_set)
  then have "length (ranking r k) = card (dom (zscore R r k))"
    using distinct_card [OF zrev_distinct [of r k]] by simp
  then show ?thesis by (simp add: zcard_card)
qed

lemma zcount_ranking: "zcount_above R r k s = int (length (filter (\<lambda>e. s < snd e) (ranking r k)))"
proof -
  have "members_above (zscore R r k) s = fst ` set (filter (\<lambda>e. s < snd e) (ranking r k))"
    by (force simp: members_above_def zrev_set)
  moreover have "distinct (map fst (filter (\<lambda>e. s < snd e) (ranking r k)))"
    using zrev_distinct by (rule distinct_map_filter)
  ultimately show ?thesis by (metis distinct_card length_map list.set_map zcount_card)
qed

lemma ranking_descending: "sorted_wrt (\<ge>) (map snd (ranking r k))"
  unfolding sorted_wrt_map using zrev_sorted by (rule sorted_wrt_mono_rel [rotated]) (auto simp: ranks_before_def)

end

section \<open>A server in memory\<close>

record mem_redis =
  mem_zsets :: "string \<Rightarrow> (string \<times> int) list"
  mem_strings :: "string \<Rightarrow> string option"
  mem_ttls :: "string \<Rightarrow> int option"

definition mem_empty :: mem_redis where
  "mem_empty = \<lparr>mem_zsets = \<lambda>_. [], mem_strings = \<lambda>_. None, mem_ttls = \<lambda>_. None\<rparr>"

definition mem_score :: "mem_redis \<Rightarrow> string \<Rightarrow> string \<Rightarrow> int option" where
  "mem_score r k = map_of (mem_zsets r k)"

definition mem_zadd :: "string \<Rightarrow> int \<Rightarrow> string \<Rightarrow> mem_redis \<Rightarrow> mem_redis" where
  "mem_zadd k p m r = r\<lparr>mem_zsets := (mem_zsets r)(k := AList.update m p (mem_zsets r k))\<rparr>"

definition mem_zincrby :: "string \<Rightarrow> int \<Rightarrow> string \<Rightarrow> mem_redis \<Rightarrow> mem_redis" where
  "mem_zincrby k p m r = mem_zadd k ((case mem_score r k m of None \<Rightarrow> 0 | Some x \<Rightarrow> x) + p) m r"

definition mem_exists :: "mem_redis \<Rightarrow> string \<Rightarrow> bool" where
  "mem_exists r k \<longleftrightarrow> mem_zsets r k \<noteq> [] \<or> mem_strings r k \<noteq> None"

text \<open>The entries in the order of \<open>ZREVRANGE\<close>, the first occurrence of a member counting.\<close>

definition mem_ranking :: "mem_redis \<Rightarrow> string \<Rightarrow> (string \<times> int) list" where
  "mem_ranking r k = rev (sort_key (\<lambda>(m, x). (x, m)) (AList.clearjunk (mem_zsets r k)))"

definition mem_index :: "string \<Rightarrow> (string \<times> int) list \<Rightarrow> int option" where
  "mem_index m xs = (if m \<in> fst ` set xs then Some (int (length (takeWhile (\<lambda>e. fst e \<noteq> m) xs))) else None)"

definition mem_ops :: "mem_redis redis_ops" where
  "mem_ops =
     \<lparr>zscore = mem_score, zadd = mem_zadd, zincrby = mem_zincrby,
      zcard = (\<lambda>r k. int (length (mem_ranking r k))),
      zcount_above = (\<lambda>r k s. int (length (filter (\<lambda>e. s < snd e) (mem_ranking r k)))),
      zrevrange = (\<lambda>r k i j. take (nat (j - i + 1)) (drop (nat i) (mem_ranking r k))),
      zrevrank = (\<lambda>r k m. mem_index m (mem_ranking r k)),
      ttl = (\<lambda>r k. if mem_exists r k then (case mem_ttls r k of None \<Rightarrow> - 1 | Some s \<Rightarrow> s) else - 2),
      expire = (\<lambda>k s r. if mem_exists r k then r\<lparr>mem_ttls := (mem_ttls r)(k \<mapsto> s)\<rparr> else r),
      exists_key = mem_exists,
      del = (\<lambda>k r. r\<lparr>mem_zsets := (mem_zsets r)(k := []), mem_strings := (mem_strings r)(k := None),
               mem_ttls := (mem_ttls r)(k := None)\<rparr>),
      rename = (\<lambda>a b r. if mem_exists r a
               then Some (r\<lparr>mem_zsets := (mem_zsets r)(b := mem_zsets r a, a := []),
                            mem_strings := (mem_strings r)(b := mem_strings r a, a := None),
                            mem_ttls := (mem_ttls r)(b := mem_ttls r a, a := None)\<rparr>)
               else None),
      get_str = mem_strings,
      set_ex = (\<lambda>k v s r. r\<lparr>mem_zsets := (mem_zsets r)(k := []), mem_strings := (mem_strings r)(k \<mapsto> v),
                  mem_ttls := (mem_ttls r)(k \<mapsto> s)\<rparr>)\<rparr>"

lemma set_mem_ranking: "set (mem_ranking r k) = {(m, x). mem_score r k m = Some x}"
proof -
  have "set (mem_ranking r k) = set (AList.clearjunk (mem_zsets r k))" by (simp add: mem_ranking_def)
  moreover have "(m, x) \<in> set (AList.clearjunk al) \<longleftrightarrow> map_of al m = Some x" for m x and al :: "(string \<times> int) list"
    by (metis AList.distinct_clearjunk AList.map_of_clearjunk map_of_eq_Some_iff)
  ultimately show ?thesis by (auto simp: mem_score_def)
qed

lemma distinct_mem_ranking: "distinct (map fst (mem_ranking r k))"
proof -
  have "mset (map fst (mem_ranking r k)) = mset (map fst (AList.clearjunk (mem_zsets r k)))"
    by (simp only: mem_ranking_def mset_map mset_rev mset_sort)
  then show ?thesis using AList.distinct_clearjunk mset_eq_imp_distinct_iff by blast
qed

lemma card_above: "card (members_above (mem_score r k) s) = length (filter (\<lambda>e. s < snd e) (mem_ranking r k))"
proof -
  have "members_above (mem_score r k) s = fst ` set (filter (\<lambda>e. s < snd e) (mem_ranking r k))"
    by (force simp: members_above_def set_mem_ranking)
  moreover have "distinct (map fst (filter (\<lambda>e. s < snd e) (mem_ranking r k)))"
    using distinct_mem_ranking by (rule distinct_map_filter)
  ultimately show ?thesis by (metis distinct_card length_map list.set_map)
qed

lemma card_dom: "card (dom (mem_score r k)) = length (mem_ranking r k)"
proof -
  have "dom (mem_score r k) = fst ` set (mem_ranking r k)" by (force simp: set_mem_ranking)
  then show ?thesis using distinct_card [OF distinct_mem_ranking [of r k]] by simp
qed

lemma sorted_mem_ranking: "sorted_wrt ranks_before (mem_ranking r k)"
proof -
  let ?key = "\<lambda>(m :: string, x :: int). (x, m)"
  let ?asc = "sort_key ?key (AList.clearjunk (mem_zsets r k))"
  have "sorted_wrt (\<lambda>a b. ?key a \<le> ?key b) ?asc" using sorted_sort_key [of ?key] by (simp only: sorted_map)
  then have desc: "sorted_wrt (\<lambda>a b. ?key b \<le> ?key a) (mem_ranking r k)" by (simp add: mem_ranking_def sorted_wrt_rev)
  have "distinct (mem_ranking r k)" using distinct_mem_ranking [of r k] by (simp add: distinct_map)
  show ?thesis
    unfolding sorted_wrt_iff_nth_less
  proof (intro allI impI)
    fix i j
    assume ij: "i < j" "j < length (mem_ranking r k)"
    then have "?key (mem_ranking r k ! j) \<le> ?key (mem_ranking r k ! i)" by (rule sorted_wrt_nth_less [OF desc])
    moreover have "mem_ranking r k ! i \<noteq> mem_ranking r k ! j"
      using ij nth_eq_iff_index_eq [OF \<open>distinct (mem_ranking r k)\<close>] by simp
    ultimately show "ranks_before (mem_ranking r k ! i) (mem_ranking r k ! j)"
      by (cases "mem_ranking r k ! i"; cases "mem_ranking r k ! j") (auto simp: ranks_before_def)
  qed
qed

lemma mem_index_iff:
  assumes "distinct (map fst xs)"
  shows "mem_index m xs = Some i \<longleftrightarrow> 0 \<le> i \<and> i < int (length xs) \<and> fst (xs ! nat i) = m"
proof -
  let ?n = "length (takeWhile (\<lambda>e. fst e \<noteq> m) xs)"
  show ?thesis
  proof (cases "m \<in> fst ` set xs")
    case True
    then have "\<exists>x \<in> set xs. \<not> fst x \<noteq> m" by auto
    then have "dropWhile (\<lambda>e. fst e \<noteq> m) xs \<noteq> []" by (simp add: dropWhile_eq_Nil_conv)
    then have n: "?n < length xs"
      by (metis length_append length_greater_0_conv less_add_same_cancel1 takeWhile_dropWhile_id)
    then have "fst (xs ! ?n) = m" using nth_length_takeWhile by blast
    moreover have "j = ?n" if "j < length xs" "fst (xs ! j) = m" for j
      using that n \<open>fst (xs ! ?n) = m\<close> nth_eq_iff_index_eq [OF assms, of j ?n] by simp
    ultimately have "0 \<le> i \<and> i < int (length xs) \<and> fst (xs ! nat i) = m \<longleftrightarrow> i = int ?n"
      using n by (metis int_nat_eq nat_int of_nat_0_le_iff of_nat_less_iff)
    moreover have "mem_index m xs = Some i \<longleftrightarrow> i = int ?n" using True by (auto simp: mem_index_def)
    ultimately show ?thesis by simp
  next
    case False
    then show ?thesis by (auto simp: mem_index_def nat_less_iff)
  qed
qed

interpretation mem: redis_server mem_ops
proof
  fix r k m i
  show "zrevrank mem_ops r k m = Some i \<longleftrightarrow>
      0 \<le> i \<and> i < zcard mem_ops r k \<and> fst (zrevrange mem_ops r k 0 (zcard mem_ops r k - 1) ! nat i) = m"
    by (simp add: mem_ops_def mem_index_iff distinct_mem_ranking)
qed (auto simp: mem_ops_def mem_score_def mem_zadd_def mem_zincrby_def mem_exists_def
    distinct_mem_ranking set_mem_ranking [unfolded mem_score_def] sorted_mem_ranking
    card_above [unfolded mem_score_def] card_dom [unfolded mem_score_def] finite_dom_map_of
    AList.update_conv' fun_eq_iff split: if_splits)

end
