(* ===== verification/Names.thy ===== *)
theory Names
  imports Store Redis
begin

text \<open>
  \<open>internal/user\<close> and \<open>internal/leaderboard/names.go\<close>: usernames by id, from Postgres and through the
  cache in Redis. A board stores ids; a page resolves the names of its ids in one lookup.
\<close>

type_synonym 'r service_world = "(database, 'r) world"

definition Usernames :: "int list \<Rightarrow> ('r service_world, int \<Rightarrow> string option) act" where
  "Usernames ids =
     (if ids = [] then ret (\<lambda>_. None)
      else act_bind (exec (ListUsersByID ids)) (\<lambda>rows.
        ret (foldl (\<lambda>names row. names(us_ID row \<mapsto> us_Username row)) (\<lambda>_. None) rows)))"

definition nameCacheTTL :: duration where "nameCacheTTL = hour"

definition nameKey :: "int \<Rightarrow> string" where "nameKey userID = ''user:name:'' @ itoa userID"

text \<open>The ids without repetition, in the order in which they first appear.\<close>

definition unique_ids :: "int list \<Rightarrow> int list" where
  "unique_ids ids = foldl (\<lambda>us i. if i \<in> set us then us else us @ [i]) [] ids"

definition cached_name :: "string option \<Rightarrow> string option" where
  "cached_name v = (case v of None \<Rightarrow> None | Some s \<Rightarrow> if s = '''' then None else Some s)"

text \<open>The cache write is one pipeline, whose failure is ignored.\<close>

definition cache_names :: "'r redis_ops \<Rightarrow> int list \<Rightarrow> (int \<Rightarrow> string option) \<Rightarrow> ('r service_world, unit) act" where
  "cache_names R ids names =
     act_catch
       (redis_call (\<lambda>r. ((), foldl (\<lambda>r u. case names u of None \<Rightarrow> r
          | Some n \<Rightarrow> set_ex R (nameKey u) n (seconds_int nameCacheTTL) r) r ids)))
       (\<lambda>_. ret ())"

definition resolve :: "'r redis_ops \<Rightarrow> int list \<Rightarrow> ('r service_world, int \<Rightarrow> string option) act" where
  "resolve R ids =
     (if ids = [] then ret (\<lambda>_. None)
      else
        let us = unique_ids ids in
        act_bind (redis_call (\<lambda>r. (map (\<lambda>u. get_str R r (nameKey u)) us, r))) (\<lambda>values.
        let cached = (\<lambda>u. case map_of (zip us values) u of None \<Rightarrow> None | Some v \<Rightarrow> cached_name v);
            missing = filter (\<lambda>u. cached u = None) us
        in if missing = [] then ret cached
           else act_bind (Usernames missing) (\<lambda>fetched.
             act_bind (cache_names R missing fetched) (\<lambda>_. ret (cached ++ fetched)))))"

definition Forget :: "'r redis_ops \<Rightarrow> int \<Rightarrow> ('r service_world, unit) act" where
  "Forget R userID = redis_call (\<lambda>r. ((), del R (nameKey userID) r))"

text \<open>Looking names up changes no row; without the cache, nothing at all.\<close>

lemma ListUsersByID_read [simp]: "snd (ListUsersByID ids d) = d"
  by (simp add: ListUsersByID_def)

lemma Usernames_same_db: "keeps same_db (Usernames ids)"
  unfolding Usernames_def by (intro same_db_rules) simp

lemma Usernames_same_redis: "keeps same_redis (Usernames ids)"
  unfolding Usernames_def by (intro same_redis_rules)

lemma cache_names_same_db: "keeps same_db (cache_names R ids names)"
  unfolding cache_names_def by (intro same_db_rules)

lemma resolve_same_db: "keeps same_db (resolve R ids)"
  unfolding resolve_def Let_def by (intro same_db_rules Usernames_same_db cache_names_same_db)

lemma set_unique_ids [simp]: "set (unique_ids ids) = set ids"
  and distinct_unique_ids [simp]: "distinct (unique_ids ids)"
proof -
  have "set (foldl (\<lambda>us i. if i \<in> set us then us else us @ [i]) us ids) = set us \<union> set ids
      \<and> (distinct us \<longrightarrow> distinct (foldl (\<lambda>us i. if i \<in> set us then us else us @ [i]) us ids))" for us
    by (induction ids arbitrary: us) auto
  from this [of "[]"] show "set (unique_ids ids) = set ids" "distinct (unique_ids ids)"
    by (simp_all add: unique_ids_def)
qed

end
