(* ===== verification/Leaderboard.thy ===== *)
theory Leaderboard
  imports Keys Names
begin

text \<open>
  \<open>internal/leaderboard/leaderboard.go\<close> and \<open>lua/submit.lua\<close>: recording a score in the sorted sets of its
  game and of the cross-game board over the four periods, and reading a page or a standing back.
  The script runs in Redis without interruption, so it is a function of the state of Redis.
\<close>

section \<open>The script\<close>

text \<open>One iteration of the loop of \<open>submit.lua\<close>: the comparison with the previous score, the expiry of
  keys that have none yet, and the five numbers appended to the result.\<close>

definition submit_improve ::
    "'r redis_ops \<Rightarrow> string \<Rightarrow> string \<Rightarrow> string \<Rightarrow> int \<Rightarrow> 'r \<Rightarrow> int \<times> 'r" where
  "submit_improve R game_key global_key member points r =
     (case zscore R r game_key member of
        None \<Rightarrow> (1, zincrby R global_key points member (zadd R game_key points member r))
      | Some previous \<Rightarrow>
          if previous < points
          then (1, zincrby R global_key (points - previous) member (zadd R game_key points member r))
          else (0, r))"

definition submit_expire :: "'r redis_ops \<Rightarrow> string \<Rightarrow> string \<Rightarrow> int \<Rightarrow> 'r \<Rightarrow> 'r" where
  "submit_expire R game_key global_key ttl_seconds r =
     (if 0 < ttl_seconds then
        let r = (if ttl R r game_key < 0 then expire R game_key ttl_seconds r else r)
        in if ttl R r global_key < 0 then expire R global_key ttl_seconds r else r
      else r)"

definition submit_period ::
    "'r redis_ops \<Rightarrow> string \<Rightarrow> string \<Rightarrow> int \<Rightarrow> string \<Rightarrow> int \<Rightarrow> 'r \<Rightarrow> int list \<times> 'r" where
  "submit_period R game_key global_key ttl_seconds member points r =
     (let (improved, r) = submit_improve R game_key global_key member points r;
          r = submit_expire R game_key global_key ttl_seconds r;
          game_score = (case zscore R r game_key member of None \<Rightarrow> 0 | Some x \<Rightarrow> x);
          global_score = (case zscore R r global_key member of None \<Rightarrow> 0 | Some x \<Rightarrow> x)
      in ([improved, game_score, zcount_above R r game_key game_score + 1,
           global_score, zcount_above R r global_key global_score + 1], r))"

fun submit_loop ::
    "'r redis_ops \<Rightarrow> (string \<times> string \<times> int) list \<Rightarrow> string \<Rightarrow> int \<Rightarrow> 'r \<Rightarrow> int list \<times> 'r" where
  "submit_loop R [] member points r = ([], r)"
| "submit_loop R ((game_key, global_key, ttl_seconds) # more_keys) member points r =
     (let (five, r) = submit_period R game_key global_key ttl_seconds member points r;
          (rest, r) = submit_loop R more_keys member points r
      in (five @ rest, r))"

text \<open>\<open>KEYS[1..8]\<close>, \<open>ARGV[1]\<close>, \<open>ARGV[2]\<close> and \<open>ARGV[3..6]\<close>.\<close>

definition submit_script ::
    "'r redis_ops \<Rightarrow> string list \<Rightarrow> string \<Rightarrow> int \<Rightarrow> int list \<Rightarrow> 'r \<Rightarrow> int list \<times> 'r" where
  "submit_script R keys member points ttls r =
     submit_loop R (zip (take 4 keys) (zip (drop 4 keys) ttls)) member points r"

section \<open>The board\<close>

record standing =
  st_Points :: int
  st_Rank :: int

record placement =
  Improved :: "period \<Rightarrow> bool"
  pl_Game :: "period \<Rightarrow> standing"
  pl_Global :: "period \<Rightarrow> standing"

record entry =
  en_Rank :: int
  en_UserID :: int
  en_Username :: string
  en_Points :: int

record page =
  pg_Scope :: string
  pg_Period :: period
  pg_Total :: int
  pg_Offset :: int
  pg_Entries :: "entry list"

definition MaxPageSize :: int where "MaxPageSize = 100"

record 'r board =
  b_redis :: "'r redis_ops"
  b_now :: time
  b_announcer :: "(string \<Rightarrow> period \<Rightarrow> ('r service_world, unit) act) option"

text \<open>The two channels of a period that improved are told, the error of either ignored.\<close>

definition announce_scope ::
    "(string \<Rightarrow> period \<Rightarrow> ('r service_world, unit) act) \<Rightarrow> period \<Rightarrow> string \<Rightarrow> ('r service_world, unit) act" where
  "announce_scope publish p s = act_catch (publish s p) (\<lambda>_. ret ())"

fun announce_periods ::
    "(string \<Rightarrow> period \<Rightarrow> ('r service_world, unit) act) \<Rightarrow> slug \<Rightarrow> (period \<Rightarrow> bool) \<Rightarrow> period list
      \<Rightarrow> ('r service_world, unit) act" where
  "announce_periods publish game improved [] = ret ()"
| "announce_periods publish game improved (p # ps) =
     (if improved p
      then act_bind (announce_scope publish p game) (\<lambda>_.
           act_bind (announce_scope publish p (scope_Name Global)) (\<lambda>_.
           announce_periods publish game improved ps))
      else announce_periods publish game improved ps)"

definition announce :: "'r board \<Rightarrow> slug \<Rightarrow> placement \<Rightarrow> ('r service_world, unit) act" where
  "announce b game pl =
     (case b_announcer b of
        None \<Rightarrow> ret ()
      | Some publish \<Rightarrow> announce_periods publish game (Improved pl) Periods)"

fun period_index :: "period \<Rightarrow> nat" where
  "period_index AllTime = 0"
| "period_index Daily = 1"
| "period_index Weekly = 2"
| "period_index Monthly = 3"

definition fieldsPerPeriod :: nat where "fieldsPerPeriod = 5"

definition placement_of :: "int list \<Rightarrow> placement" where
  "placement_of raw =
     (let v = (\<lambda>p j. raw ! (period_index p * fieldsPerPeriod + j))
      in \<lparr>Improved = (\<lambda>p. v p 0 = 1), pl_Game = (\<lambda>p. \<lparr>st_Points = v p 1, st_Rank = v p 2\<rparr>),
          pl_Global = (\<lambda>p. \<lparr>st_Points = v p 3, st_Rank = v p 4\<rparr>)\<rparr>)"

definition submit_call :: "'r redis_ops \<Rightarrow> int \<Rightarrow> slug \<Rightarrow> int \<Rightarrow> time \<Rightarrow> 'r \<Rightarrow> int list \<times> 'r" where
  "submit_call R userID game points at_time =
     (let keys = map (\<lambda>p. Key (Game game) p at_time) Periods @ map (\<lambda>p. Key Global p at_time) Periods;
          ttls = map (\<lambda>p. seconds_int (TTL p)) Periods
      in submit_script R keys (member_of userID) points ttls)"

definition Submit ::
    "'r board \<Rightarrow> int \<Rightarrow> slug \<Rightarrow> int \<Rightarrow> time \<Rightarrow> ('r service_world, placement) act" where
  "Submit b userID game points at_time =
     (let at_time = (if is_zero at_time then b_now b else at_time)
      in act_bind (redis_call (submit_call (b_redis b) userID game points at_time)) (\<lambda>raw.
         if length raw \<noteq> length Periods * fieldsPerPeriod then fail ErrScript
         else act_bind (announce b game (placement_of raw)) (\<lambda>_. ret (placement_of raw))))"

definition Size :: "'r board \<Rightarrow> scope \<Rightarrow> period \<Rightarrow> ('r service_world, int) act" where
  "Size b s p = redis_call (\<lambda>r. (zcard (b_redis b) r (Key s p (b_now b)), r))"

definition Exists :: "'r board \<Rightarrow> scope \<Rightarrow> period \<Rightarrow> time \<Rightarrow> ('r service_world, bool) act" where
  "Exists b s p at_time = redis_call (\<lambda>r. (exists_key (b_redis b) r (Key s p at_time), r))"

definition countAbove :: "'r board \<Rightarrow> string \<Rightarrow> int \<Rightarrow> ('r service_world, int) act" where
  "countAbove b key score = redis_call (\<lambda>r. (zcount_above (b_redis b) r key score, r))"

fun parse_members :: "(string \<times> int) list \<Rightarrow> err + int list" where
  "parse_members [] = Inr []"
| "parse_members ((m, _) # rows) =
     and_then (parseMember m) (\<lambda>i. and_then (parse_members rows) (\<lambda>is. Inr (i # is)))"

text \<open>The loop over the rows of a page: \<open>i\<close> is the index of the row, \<open>prev\<close> the score before it.\<close>

fun page_rows ::
    "(int \<Rightarrow> string option) \<Rightarrow> int \<Rightarrow> int \<Rightarrow> int \<Rightarrow> int option \<Rightarrow> (int \<times> int) list \<Rightarrow> entry list" where
  "page_rows names offset i rank prev [] = []"
| "page_rows names offset i rank prev ((u, score) # rows) =
     (let rank = (case prev of None \<Rightarrow> rank | Some s \<Rightarrow> if score \<noteq> s then offset + i + 1 else rank)
      in \<lparr>en_Rank = rank, en_UserID = u,
          en_Username = (case names u of None \<Rightarrow> '''' | Some n \<Rightarrow> n), en_Points = score\<rparr>
         # page_rows names offset (i + 1) rank (Some score) rows)"

definition page_limit :: "int \<Rightarrow> int" where
  "page_limit limit = (if limit \<le> 0 \<or> MaxPageSize < limit then 20 else limit)"

definition PageAt ::
    "'r board \<Rightarrow> scope \<Rightarrow> period \<Rightarrow> time \<Rightarrow> int \<Rightarrow> int \<Rightarrow> ('r service_world, page) act" where
  "PageAt b s p at_time offset limit =
     (let R = b_redis b; limit = page_limit limit; offset = max 0 offset; key = Key s p at_time
      in act_bind (redis_call (\<lambda>r. (zcard R r key, r))) (\<lambda>total.
         act_bind (redis_call (\<lambda>r. (zrevrange R r key offset (offset + limit - 1), r))) (\<lambda>rows.
         let page = \<lparr>pg_Scope = scope_Name s, pg_Period = p, pg_Total = total, pg_Offset = offset, pg_Entries = []\<rparr>
         in if rows = [] then ret page
            else act_bind (countAbove b key (snd (hd rows))) (\<lambda>above.
                 act_bind (lift_result (parse_members rows)) (\<lambda>ids.
                 act_bind (resolve R ids) (\<lambda>usernames.
                 ret (page\<lparr>pg_Entries := page_rows usernames offset 0 (above + 1) None (zip ids (map snd rows))\<rparr>)))))))"

definition Page :: "'r board \<Rightarrow> scope \<Rightarrow> period \<Rightarrow> int \<Rightarrow> int \<Rightarrow> ('r service_world, page) act" where
  "Page b s p offset limit = PageAt b s p (b_now b) offset limit"

text \<open>\<open>Standing\<close> returns the neighbours too, none when they were not asked for.\<close>

definition Standing ::
    "'r board \<Rightarrow> scope \<Rightarrow> period \<Rightarrow> int \<Rightarrow> int \<Rightarrow> ('r service_world, standing \<times> entry list option) act" where
  "Standing b s p userID neighbours =
     (let R = b_redis b; key = Key s p (b_now b)
      in act_bind (redis_call (\<lambda>r. (zscore R r key (member_of userID), r))) (\<lambda>score.
         case score of
           None \<Rightarrow> fail ErrUnranked
         | Some score \<Rightarrow>
             act_bind (countAbove b key score) (\<lambda>above.
             let standing = \<lparr>st_Points = score, st_Rank = above + 1\<rparr>
             in if neighbours \<le> 0 then ret (standing, None)
                else act_bind (redis_call (\<lambda>r. (zrevrank R r key (member_of userID), r))) (\<lambda>index.
                  case index of
                    None \<Rightarrow> fail ErrRedis
                  | Some index \<Rightarrow>
                      let from = max (index - neighbours) 0
                      in act_bind (Page b s p from (2 * neighbours + 1)) (\<lambda>page.
                           ret (standing, Some (pg_Entries page)))))))"

section \<open>What the boards mean\<close>

text \<open>
  A recorded score is a user, a game, points and an instant. The specification of the boards is a
  function of the scores alone: a game's board holds each user's best in the window, the cross-game
  board the sum of those bests.
\<close>

type_synonym scored_event = "int \<times> slug \<times> int \<times> time"

definition points_in :: "period \<Rightarrow> time \<Rightarrow> slug \<Rightarrow> int \<Rightarrow> scored_event list \<Rightarrow> int list" where
  "points_in p t g u evs =
     map (\<lambda>(_, _, points, _). points)
       (filter (\<lambda>(u', g', _, t'). u' = u \<and> g' = g \<and> Window p t' = Window p t) evs)"

definition best :: "period \<Rightarrow> time \<Rightarrow> slug \<Rightarrow> int \<Rightarrow> scored_event list \<Rightarrow> int option" where
  "best p t g u evs = (let xs = points_in p t g u evs in if xs = [] then None else Some (Max (set xs)))"

definition or_zero :: "int option \<Rightarrow> int" where
  "or_zero x = (case x of None \<Rightarrow> 0 | Some y \<Rightarrow> y)"

lemma or_zero_simps [simp]: "or_zero None = 0" "or_zero (Some y) = y"
  by (simp_all add: or_zero_def)

abbreviation game_slugs :: "slug list" where
  "game_slugs \<equiv> registry_Slugs NewRegistry"

definition global_best :: "period \<Rightarrow> time \<Rightarrow> int \<Rightarrow> scored_event list \<Rightarrow> int option" where
  "global_best p t u evs =
     (if \<forall>g \<in> set game_slugs. best p t g u evs = None then None
      else Some (\<Sum>g \<leftarrow> game_slugs. or_zero (best p t g u evs)))"

definition boards_match :: "'r redis_ops \<Rightarrow> 'r \<Rightarrow> scored_event list \<Rightarrow> bool" where
  "boards_match R r evs \<longleftrightarrow>
     (\<forall>p t u. (\<forall>g \<in> set game_slugs. zscore R r (Key (Game g) p t) (member_of u) = best p t g u evs)
       \<and> zscore R r (Key Global p t) (member_of u) = global_best p t u evs)"

definition valid_event :: "scored_event \<Rightarrow> bool" where
  "valid_event e = (case e of (u, g, points, t) \<Rightarrow> g \<in> set game_slugs \<and> 0 \<le> points)"

definition raise_to :: "int \<Rightarrow> int option \<Rightarrow> int option" where
  "raise_to points old = Some (case old of None \<Rightarrow> points | Some x \<Rightarrow> max x points)"

lemma points_in_append:
  "points_in p t g u (evs @ [(u', g', points, t')]) =
    points_in p t g u evs @ (if u' = u \<and> g' = g \<and> Window p t' = Window p t then [points] else [])"
  by (simp add: points_in_def)

lemma best_append:
  "best p t g u (evs @ [(u', g', points, t')]) =
    (if u' = u \<and> g' = g \<and> Window p t' = Window p t then raise_to points (best p t g u evs)
     else best p t g u evs)"
proof -
  have "xs \<noteq> [] \<Longrightarrow> Max (insert points (set xs)) = max (Max (set xs)) points" for xs
    by (simp add: max.commute)
  then show ?thesis
    by (cases "points_in p t g u evs = []") (auto simp: best_def points_in_append raise_to_def Let_def)
qed

lemma best_set: "set evs = set evs' \<Longrightarrow> best p t g u evs = best p t g u evs'"
proof -
  assume eq: "set evs = set evs'"
  have s: "set (points_in p t g u evs) = set (points_in p t g u evs')"
    unfolding points_in_def set_map set_filter eq by (rule refl)
  then have e: "points_in p t g u evs = [] \<longleftrightarrow> points_in p t g u evs' = []"
    using set_empty [of "points_in p t g u evs"] set_empty [of "points_in p t g u evs'"] by simp
  show ?thesis unfolding best_def Let_def s e by (rule refl)
qed

lemma global_best_set: "set evs = set evs' \<Longrightarrow> global_best p t u evs = global_best p t u evs'"
proof -
  assume eq: "set evs = set evs'"
  have b: "best p t g u evs = best p t g u evs'" for g by (rule best_set [OF eq])
  show ?thesis by (simp only: global_best_def b)
qed

lemma distinct_game_slugs: "distinct game_slugs"
  using slugs_distinct by (simp add: registry_Slugs_new)

lemma sum_update:
  assumes "distinct gs" and "g \<in> set gs" and "\<And>h. h \<noteq> g \<Longrightarrow> f' h = f h"
  shows "(\<Sum>h \<leftarrow> gs. f' h) = (\<Sum>h \<leftarrow> gs. f h) + (f' g - f g :: int)"
  using assms(1,2)
proof (induction gs)
  case Nil
  then show ?case by simp
next
  case (Cons a gs)
  show ?case
  proof (cases "a = g")
    case True
    have "f' h = f h" if "h \<in> set gs" for h
      using that Cons.prems True assms(3) [of h] by (cases "h = g") auto
    then have "map f' gs = map f gs" by (rule map_cong [OF refl])
    then have "sum_list (map f' gs) = sum_list (map f gs)" by (rule arg_cong)
    then show ?thesis using True by simp
  next
    case False
    then show ?thesis using Cons assms(3) [of a] by simp
  qed
qed

lemma or_zero_global_best: "or_zero (global_best p t u evs) = (\<Sum>g \<leftarrow> game_slugs. or_zero (best p t g u evs))"
proof (cases "\<forall>g \<in> set game_slugs. best p t g u evs = None")
  case True
  moreover have "(\<Sum>g \<leftarrow> gs. f g) = 0" if "\<forall>g \<in> set gs. f g = 0" for gs and f :: "slug \<Rightarrow> int"
    using that by (induction gs) simp_all
  ultimately show ?thesis by (simp add: global_best_def)
next
  case False
  then show ?thesis by (simp only: global_best_def if_False or_zero_simps)
qed

text \<open>What a new score does to the cross-game entry of its user in its window.\<close>

lemma global_best_append:
  assumes "g \<in> set game_slugs"
  shows "global_best p t u (evs @ [(u, g, points, t)]) =
    (case best p t g u evs of
       Some x \<Rightarrow> if points \<le> x then global_best p t u evs
                 else Some (or_zero (global_best p t u evs) + (points - x))
     | None \<Rightarrow> Some (or_zero (global_best p t u evs) + points))"
proof -
  define old where "old = best p t g u evs"
  let ?f = "\<lambda>h. or_zero (best p t h u evs)" and ?f' = "\<lambda>h. or_zero (best p t h u (evs @ [(u, g, points, t)]))"
  have new: "best p t g u (evs @ [(u, g, points, t)]) = raise_to points old" by (simp add: best_append old_def)
  have other: "h \<noteq> g \<Longrightarrow> best p t h u (evs @ [(u, g, points, t)]) = best p t h u evs" for h
    by (simp add: best_append)
  have "\<not> (\<forall>h \<in> set game_slugs. best p t h u (evs @ [(u, g, points, t)]) = None)"
    using assms(1) new by (auto simp: raise_to_def)
  then have lhs: "global_best p t u (evs @ [(u, g, points, t)]) = Some ((\<Sum>h \<leftarrow> game_slugs. ?f h) + (?f' g - ?f g))"
    using sum_update [OF distinct_game_slugs assms(1), of ?f' ?f] other by (simp add: global_best_def)
  show ?thesis
  proof (cases old)
    case None
    then show ?thesis using lhs new by (simp add: or_zero_global_best raise_to_def flip: old_def)
  next
    case (Some x)
    then have "global_best p t u evs = Some (\<Sum>h \<leftarrow> game_slugs. ?f h)"
      using assms(1) by (auto simp: global_best_def old_def)
    then show ?thesis using lhs new Some by (auto simp: raise_to_def max_def simp flip: old_def)
  qed
qed

section \<open>The script keeps the meaning\<close>

context redis_server
begin

lemma zscore_submit_period:
  assumes "gk \<noteq> lk"
  shows "zscore R (snd (submit_period R gk lk s m points r)) k n =
    (if n = m \<and> k = gk then raise_to points (zscore R r gk m)
     else if n = m \<and> k = lk then
       (case zscore R r gk m of
          None \<Rightarrow> Some (or_zero (zscore R r lk m) + points)
        | Some x \<Rightarrow> if points \<le> x then zscore R r lk m else Some (or_zero (zscore R r lk m) + (points - x)))
     else zscore R r k n)"
proof -
  have expire: "zscore R (submit_expire R gk lk s r') = zscore R r'" for r'
    by (simp add: submit_expire_def zscore_expire Let_def)
  have "snd (submit_period R gk lk s m points r) = submit_expire R gk lk s (snd (submit_improve R gk lk m points r))"
    by (simp add: submit_period_def Let_def split_beta)
  then have state: "zscore R (snd (submit_period R gk lk s m points r)) = zscore R (snd (submit_improve R gk lk m points r))"
    by (simp add: expire)
  show ?thesis
    unfolding state using assms
    by (cases "zscore R r gk m")
      (auto simp: submit_improve_def zscore_zadd zscore_zincrby raise_to_def or_zero_def)
qed

lemma zscore_submit_period_other:
  "gk \<noteq> lk \<Longrightarrow> k \<noteq> gk \<Longrightarrow> k \<noteq> lk \<Longrightarrow> zscore R (snd (submit_period R gk lk s m points r)) k = zscore R r k"
  by (rule ext) (simp add: zscore_submit_period)

lemma submit_loop_Cons:
  "snd (submit_loop R ((gk, lk, s) # ks) m points r) =
    snd (submit_loop R ks m points (snd (submit_period R gk lk s m points r)))"
  by (simp add: Let_def split_beta)

lemma zscore_submit_loop:
  assumes "distinct (map fst ks @ map (\<lambda>x. fst (snd x)) ks)"
  shows "(k \<notin> set (map fst ks @ map (\<lambda>x. fst (snd x)) ks) \<longrightarrow>
      zscore R (snd (submit_loop R ks m points r)) k = zscore R r k)
    \<and> ((gk, lk, s) \<in> set ks \<longrightarrow> k = gk \<or> k = lk \<longrightarrow>
      zscore R (snd (submit_loop R ks m points r)) k = zscore R (snd (submit_period R gk lk s m points r)) k)"
  using assms
proof (induction ks arbitrary: r)
  case Nil
  then show ?case by simp
next
  case (Cons a ks)
  obtain gk' lk' s' where a: "a = (gk', lk', s')" by (cases a)
  let ?r = "snd (submit_period R gk' lk' s' m points r)"
  have d: "gk' \<noteq> lk'" "distinct (map fst ks @ map (\<lambda>x. fst (snd x)) ks)"
    "gk' \<notin> set (map fst ks @ map (\<lambda>x. fst (snd x)) ks)" "lk' \<notin> set (map fst ks @ map (\<lambda>x. fst (snd x)) ks)"
    using Cons.prems a by auto
  note IH = Cons.IH [OF d(2), of ?r]
  have step: "zscore R (snd (submit_loop R (a # ks) m points r)) = zscore R (snd (submit_loop R ks m points ?r))"
    unfolding a submit_loop_Cons by (rule refl)
  show ?case
  proof (intro conjI impI)
    assume "k \<notin> set (map fst (a # ks) @ map (\<lambda>x. fst (snd x)) (a # ks))"
    then have "k \<noteq> gk'" "k \<noteq> lk'" "k \<notin> set (map fst ks @ map (\<lambda>x. fst (snd x)) ks)" by (auto simp: a)
    then show "zscore R (snd (submit_loop R (a # ks) m points r)) k = zscore R r k"
      using IH zscore_submit_period_other [OF d(1)] unfolding step by simp
  next
    assume mem: "(gk, lk, s) \<in> set (a # ks)" and k: "k = gk \<or> k = lk"
    show "zscore R (snd (submit_loop R (a # ks) m points r)) k = zscore R (snd (submit_period R gk lk s m points r)) k"
    proof (cases "(gk, lk, s) \<in> set ks")
      case True
      then have in_ks: "gk \<in> set (map fst ks)" "lk \<in> set (map (\<lambda>x. fst (snd x)) ks)" by force+
      then have ne: "gk \<noteq> gk'" "gk \<noteq> lk'" "lk \<noteq> gk'" "lk \<noteq> lk'" using d(3,4) by auto
      have "gk \<noteq> lk" using d(2) in_ks by auto
      have same: "zscore R ?r gk = zscore R r gk" "zscore R ?r lk = zscore R r lk"
        using zscore_submit_period_other [OF d(1)] ne by simp_all
      have "zscore R (snd (submit_period R gk lk s m points ?r)) k = zscore R (snd (submit_period R gk lk s m points r)) k"
        using k same by (intro ext) (auto simp: zscore_submit_period [OF \<open>gk \<noteq> lk\<close>] split: option.split)
      then show ?thesis using IH True k unfolding step by simp
    next
      case False
      then have eq: "gk = gk'" "lk = lk'" "s = s'" using mem a by auto
      then have "k \<notin> set (map fst ks @ map (\<lambda>x. fst (snd x)) ks)" using k d(3,4) by auto
      then show ?thesis using IH eq unfolding step by simp
    qed
  qed
qed

end

text \<open>Any number of submissions, one after the other.\<close>

fun submit_all :: "'r redis_ops \<Rightarrow> 'r \<Rightarrow> scored_event list \<Rightarrow> 'r" where
  "submit_all R r [] = r"
| "submit_all R r ((u, g, points, t) # evs) = submit_all R (snd (submit_call R u g points t r)) evs"

text \<open>The eight keys of a submission, and the ones of them that are the key of a board.\<close>

definition submit_keys :: "slug \<Rightarrow> time \<Rightarrow> (string \<times> string \<times> int) list" where
  "submit_keys game t = map (\<lambda>p. (Key (Game game) p t, Key Global p t, seconds_int (TTL p))) Periods"

lemma submit_call_loop:
  "submit_call R u game points t = submit_loop R (submit_keys game t) (member_of u) points"
  by (rule ext) (simp add: submit_call_def submit_script_def submit_keys_def Periods_def)

lemma scope_ok_Game: "g \<in> set game_slugs \<Longrightarrow> scope_ok (Game g)"
  by (simp add: scope_ok_def Game_def)

lemma scope_ok_Global: "scope_ok Global"
  by (simp add: scope_ok_def Global_def IsGlobal_def)

lemma Game_not_Global: "g \<in> set game_slugs \<Longrightarrow> Game g \<noteq> Global"
  using registry_slug_nonempty [of g] by (auto simp: Game_def Global_def)

lemma Game_inj [simp]: "Game g = Game h \<longleftrightarrow> g = h"
  by (simp add: Game_def)

lemma submit_keys_distinct:
  assumes "g \<in> set game_slugs"
  shows "distinct (map fst (submit_keys g t) @ map (\<lambda>x. fst (snd x)) (submit_keys g t))"
  using Game_not_Global [OF assms]
  by (simp add: submit_keys_def Periods_def Key_eq_iff scope_ok_Game [OF assms] scope_ok_Global)

context redis_server
begin

lemma zscore_submit_game:
  assumes g: "g \<in> set game_slugs" and h: "h \<in> set game_slugs"
  shows "zscore R (snd (submit_call R u g points t r)) (Key (Game h) p t') n =
    (if n = member_of u \<and> h = g \<and> Window p t' = Window p t
     then raise_to points (zscore R r (Key (Game h) p t') n) else zscore R r (Key (Game h) p t') n)"
proof (cases "h = g \<and> Window p t' = Window p t")
  case True
  then have k: "Key (Game h) p t' = Key (Game g) p t" by (simp add: Key_eq_iff scope_ok_Game g)
  have "(Key (Game g) p t, Key Global p t, seconds_int (TTL p)) \<in> set (submit_keys g t)"
    using Periods_all [of p] by (auto simp: submit_keys_def)
  then have "zscore R (snd (submit_call R u g points t r)) (Key (Game g) p t) =
      zscore R (snd (submit_period R (Key (Game g) p t) (Key Global p t) (seconds_int (TTL p)) (member_of u) points r)) (Key (Game g) p t)"
    using zscore_submit_loop [OF submit_keys_distinct [OF g]] unfolding submit_call_loop by blast
  moreover have "Key (Game g) p t \<noteq> Key Global p t"
    by (simp add: Key_eq_iff scope_ok_Game g scope_ok_Global Game_not_Global)
  ultimately show ?thesis using True k by (simp add: zscore_submit_period)
next
  case False
  then have "Key (Game h) p t' \<notin> set (map fst (submit_keys g t) @ map (\<lambda>x. fst (snd x)) (submit_keys g t))"
    by (auto simp: submit_keys_def Key_eq_iff scope_ok_Game g h scope_ok_Global Game_not_Global)
  then have "zscore R (snd (submit_call R u g points t r)) (Key (Game h) p t') = zscore R r (Key (Game h) p t')"
    using zscore_submit_loop [OF submit_keys_distinct [OF g]] unfolding submit_call_loop by blast
  then show ?thesis using False by auto
qed

lemma zscore_submit_global:
  assumes g: "g \<in> set game_slugs"
  shows "zscore R (snd (submit_call R u g points t r)) (Key Global p t') n =
    (if n = member_of u \<and> Window p t' = Window p t then
       (case zscore R r (Key (Game g) p t') n of
          None \<Rightarrow> Some (or_zero (zscore R r (Key Global p t') n) + points)
        | Some x \<Rightarrow> if points \<le> x then zscore R r (Key Global p t') n
                    else Some (or_zero (zscore R r (Key Global p t') n) + (points - x)))
     else zscore R r (Key Global p t') n)"
proof (cases "Window p t' = Window p t")
  case True
  then have k: "Key (Game g) p t' = Key (Game g) p t" "Key Global p t' = Key Global p t"
    by (simp_all add: Key_eq_iff scope_ok_Game g scope_ok_Global)
  have "(Key (Game g) p t, Key Global p t, seconds_int (TTL p)) \<in> set (submit_keys g t)"
    using Periods_all [of p] by (auto simp: submit_keys_def)
  then have "zscore R (snd (submit_call R u g points t r)) (Key Global p t) =
      zscore R (snd (submit_period R (Key (Game g) p t) (Key Global p t) (seconds_int (TTL p)) (member_of u) points r)) (Key Global p t)"
    using zscore_submit_loop [OF submit_keys_distinct [OF g]] unfolding submit_call_loop by blast
  moreover have "Key (Game g) p t \<noteq> Key Global p t"
    by (simp add: Key_eq_iff scope_ok_Game g scope_ok_Global Game_not_Global)
  ultimately show ?thesis using True k by (simp add: zscore_submit_period split: option.split)
next
  case False
  then have "Key Global p t' \<notin> set (map fst (submit_keys g t) @ map (\<lambda>x. fst (snd x)) (submit_keys g t))"
    using Game_not_Global by (auto simp: submit_keys_def Key_eq_iff scope_ok_Game g scope_ok_Global)
  then have "zscore R (snd (submit_call R u g points t r)) (Key Global p t') = zscore R r (Key Global p t')"
    using zscore_submit_loop [OF submit_keys_distinct [OF g]] unfolding submit_call_loop by blast
  then show ?thesis using False by auto
qed

text \<open>One submission adds one score to what the boards mean.\<close>

lemma boards_match_submit:
  assumes m: "boards_match R r evs" and g: "g \<in> set game_slugs"
  shows "boards_match R (snd (submit_call R u g points t r)) (evs @ [(u, g, points, t)])"
  unfolding boards_match_def
proof (intro allI conjI ballI)
  fix p t' v h
  assume h: "h \<in> set game_slugs"
  have "zscore R r (Key (Game h) p t') (member_of v) = best p t' h v evs"
    using m h by (simp add: boards_match_def)
  then show "zscore R (snd (submit_call R u g points t r)) (Key (Game h) p t') (member_of v)
      = best p t' h v (evs @ [(u, g, points, t)])"
    by (auto simp: zscore_submit_game [OF g h] best_append)
next
  fix p t' v
  have old: "zscore R r (Key (Game g) p t') (member_of v) = best p t' g v evs"
    "zscore R r (Key Global p t') (member_of v) = global_best p t' v evs"
    using m g by (simp_all add: boards_match_def)
  show "zscore R (snd (submit_call R u g points t r)) (Key Global p t') (member_of v)
      = global_best p t' v (evs @ [(u, g, points, t)])"
  proof (cases "v = u \<and> Window p t' = Window p t")
    case True
    then have "best p t' h u evs' = best p t h u evs'" "global_best p t' u evs' = global_best p t u evs'" for h evs'
      by (simp_all add: best_def points_in_def global_best_def)
    then show ?thesis using True old global_best_append [OF g, of p t u evs points]
      by (simp add: zscore_submit_global [OF g] split: option.split)
  next
    case False
    then have "best p t' h v (evs @ [(u, g, points, t)]) = best p t' h v evs" for h
      by (auto simp: best_append)
    then have "global_best p t' v (evs @ [(u, g, points, t)]) = global_best p t' v evs"
      by (simp only: global_best_def)
    then show ?thesis using False old by (auto simp: zscore_submit_global [OF g])
  qed
qed

lemma boards_match_submit_all:
  "boards_match R r old \<Longrightarrow> list_all valid_event evs \<Longrightarrow> boards_match R (submit_all R r evs) (old @ evs)"
proof (induction evs arbitrary: r old)
  case Nil
  then show ?case by simp
next
  case (Cons e evs)
  obtain u g points t where e: "e = (u, g, points, t)" by (cases e)
  have "boards_match R (snd (submit_call R u g points t r)) (old @ [e])"
    using Cons.prems e by (simp add: boards_match_submit valid_event_def)
  then show ?case using Cons.IH Cons.prems(2) e by fastforce
qed

end

section \<open>Pages\<close>

definition count_above :: "int list \<Rightarrow> int \<Rightarrow> int" where
  "count_above xs s = int (length (filter (\<lambda>x. s < x) xs))"

lemma count_above_split:
  assumes "sorted_wrt (\<ge>) (ys @ s # zs)" and "ys = [] \<or> last ys \<noteq> s"
  shows "count_above (ys @ s # zs) s = int (length ys)"
proof -
  have "s < y" if "y \<in> set ys" for y
  proof -
    have "ys \<noteq> []" using that by auto
    then have "s \<le> last ys" "last ys \<noteq> s" using assms by (auto simp: sorted_wrt_append)
    moreover have "last ys \<le> y"
    proof -
      obtain us where us: "ys = us @ [last ys]" using \<open>ys \<noteq> []\<close> by (metis append_butlast_last_id)
      then show ?thesis using that assms(1) by (metis (no_types, lifting) in_set_conv_decomp order_refl rotate1.simps(2)
          set_ConsD set_rotate1 sorted_wrt_append list.set_intros(1))
    qed
    ultimately show ?thesis by linarith
  qed
  then have "filter (\<lambda>x. s < x) ys = ys" by simp
  moreover have "filter (\<lambda>x. s < x) (s # zs) = []" using assms(1) by (auto simp: sorted_wrt_append filter_empty_conv)
  ultimately show ?thesis by (simp add: count_above_def)
qed

text \<open>
  The loop of a page gives every row its competition rank: \<open>ys\<close> are the scores of the board before the
  row, so \<open>offset + i\<close> of them.
\<close>

lemma page_rows_ranks:
  assumes "sorted_wrt (\<ge>) (ys @ map snd rows @ zs)" and "int (length ys) = offset + i"
    and "case prev of
           None \<Rightarrow> rows \<noteq> [] \<longrightarrow> rank = count_above (ys @ map snd rows @ zs) (snd (hd rows)) + 1
         | Some s \<Rightarrow> ys \<noteq> [] \<and> last ys = s \<and> rank = count_above (ys @ map snd rows @ zs) s + 1"
  shows "\<forall>e \<in> set (page_rows names offset i rank prev rows).
    en_Rank e = count_above (ys @ map snd rows @ zs) (en_Points e) + 1"
  using assms
proof (induction rows arbitrary: ys i rank prev)
  case Nil
  then show ?case by simp
next
  case (Cons row rows)
  obtain u s where row: "row = (u, s)" by (cases row)
  let ?all = "ys @ map snd (row # rows) @ zs"
  define rank' where "rank' = (case prev of None \<Rightarrow> rank | Some x \<Rightarrow> if s \<noteq> x then offset + i + 1 else rank)"
  have rank': "rank' = count_above ?all s + 1"
  proof (cases prev)
    case None
    then show ?thesis using Cons.prems(3) row by (simp add: rank'_def)
  next
    case (Some x)
    then have x: "ys \<noteq> []" "last ys = x" "rank = count_above ?all x + 1" using Cons.prems(3) by simp_all
    show ?thesis
    proof (cases "s = x")
      case True
      then show ?thesis using x Some by (simp add: rank'_def)
    next
      case False
      then have "count_above ?all s = int (length ys)"
        using count_above_split [of ys s "map snd rows @ zs"] Cons.prems(1) x row by simp
      then show ?thesis using False Some Cons.prems(2) by (simp add: rank'_def)
    qed
  qed
  have all: "(ys @ [s]) @ map snd rows @ zs = ?all" by (simp add: row)
  have "\<forall>e \<in> set (page_rows names offset (i + 1) rank' (Some s) rows).
      en_Rank e = count_above ((ys @ [s]) @ map snd rows @ zs) (en_Points e) + 1"
    by (rule Cons.IH) (use Cons.prems rank' all in simp_all)
  then show ?case
    using rank' by (simp add: row Let_def flip: rank'_def)
qed

lemma page_rows_rows:
  "map (\<lambda>e. (en_UserID e, en_Points e)) (page_rows names offset i rank prev rows) = rows"
  by (induction rows arbitrary: i rank prev) (auto simp: Let_def)

lemma parse_members_Inr:
  "parse_members rows = Inr ids \<Longrightarrow>
    length ids = length rows \<and> list_all2 (\<lambda>i row. parseMember (fst row) = Inr i) ids rows"
proof (induction rows arbitrary: ids)
  case Nil
  then show ?case by simp
next
  case (Cons a rows)
  then show ?case by (cases a) (auto simp: and_then_Inr)
qed

lemma take_drop_slices: "xs = take a xs @ take b (drop a xs) @ drop (a + b) xs"
proof -
  have "drop (a + b) xs = drop b (drop a xs)" by (simp add: add.commute)
  then show ?thesis by (simp only: append_take_drop_id)
qed

context redis_server
begin

lemma PageAt_Inr:
  assumes "PageAt b s p t offset limit w = (Inr page, w')" and "b_redis b = R"
  defines "L \<equiv> ranking (w_redis w) (Key s p t)"
  shows "pg_Total page = int (length L)
    \<and> map en_Points (pg_Entries page) = map snd (take (nat (page_limit limit)) (drop (nat offset) L))
    \<and> list_all2 (\<lambda>e row. parseMember (fst row) = Inr (en_UserID e)) (pg_Entries page)
        (take (nat (page_limit limit)) (drop (nat offset) L))
    \<and> (\<forall>e \<in> set (pg_Entries page).
        en_Rank e = zcount_above R (w_redis w) (Key s p t) (en_Points e) + 1)"
proof -
  let ?r = "w_redis w" and ?key = "Key s p t" and ?o = "max 0 offset" and ?l = "page_limit limit"
  have l: "1 \<le> ?l" by (simp add: page_limit_def)
  define rows where "rows = take (nat ?l) (drop (nat offset) L)"
  have o: "nat ?o = nat offset" by (simp add: max_def)
  have slice: "zrevrange R ?r ?key ?o (?o + ?l - 1) = rows"
    using zrev_slice [of ?o "?o + ?l - 1" ?r ?key] l by (simp add: rows_def L_def o)
  let ?page = "\<lambda>total. \<lparr>pg_Scope = scope_Name s, pg_Period = p, pg_Total = total, pg_Offset = ?o, pg_Entries = []\<rparr>"
  obtain total w1 rows0 w2 where c1: "redis_call (\<lambda>r. (zcard R r ?key, r)) w = (Inr total, w1)"
    and c2: "redis_call (\<lambda>r. (zrevrange R r ?key ?o (?o + ?l - 1), r)) w1 = (Inr rows0, w2)"
    and rest: "(if rows0 = [] then ret (?page total)
      else act_bind (countAbove b ?key (snd (hd rows0))) (\<lambda>above.
           act_bind (lift_result (parse_members rows0)) (\<lambda>ids.
           act_bind (resolve R ids) (\<lambda>usernames.
           ret ((?page total)\<lparr>pg_Entries := page_rows usernames ?o 0 (above + 1) None (zip ids (map snd rows0))\<rparr>))))) w2
       = (Inr page, w')"
    using assms(1) unfolding PageAt_def Let_def act_bind_Inr assms(2) by blast
  note r1 = redis_call_Inr [OF c1] and r2 = redis_call_Inr [OF c2]
  have total: "total = int (length L)" using r1 length_ranking [of ?r ?key] by (auto simp: L_def)
  have rows0: "rows0 = rows" using r1 r2 slice by auto
  show ?thesis
  proof (cases "rows = []")
    case True
    then have "page = ?page total" using rest by (simp add: rows0)
    then show ?thesis using True total by (simp flip: rows_def)
  next
    case False
    obtain above w3 ids names w4 w5 where c3: "countAbove b ?key (snd (hd rows)) w2 = (Inr above, w3)"
      and ids: "parse_members rows = Inr ids"
      and page: "pg_Total page = total"
        "pg_Entries page = page_rows names ?o 0 (above + 1) None (zip ids (map snd rows))"
      using rest False unfolding rows0 by (auto simp: act_bind_Inr)
    note p = parse_members_Inr [OF ids]
    have above: "above = zcount_above R ?r ?key (snd (hd rows))"
      using redis_call_Inr [OF c3 [unfolded countAbove_def assms(2)]] r1 r2 by auto
    have snds: "map snd (zip ids (map snd rows)) = map snd rows" using p by simp
    have pairs: "map (\<lambda>e. (en_UserID e, en_Points e)) (pg_Entries page) = zip ids (map snd rows)"
      unfolding page by (rule page_rows_rows)
    have pts: "map en_Points (pg_Entries page) = map snd rows"
      using arg_cong [OF pairs, of "map snd"] snds by (simp add: comp_def)
    have us: "map en_UserID (pg_Entries page) = ids"
      using arg_cong [OF pairs, of "map fst"] p by (simp add: comp_def)
    have split: "map snd L = take (nat offset) (map snd L) @ map snd rows @ drop (nat offset + nat ?l) (map snd L)"
      unfolding rows_def take_map [symmetric] drop_map [symmetric] by (rule take_drop_slices)
    have count: "zcount_above R ?r ?key x = count_above (map snd L) x" for x
      by (simp add: zcount_ranking count_above_def L_def filter_map comp_def)
    have len: "int (length (take (nat offset) (map snd L))) = ?o + 0"
      using False by (auto simp: rows_def)
    have hd: "snd (hd (zip ids (map snd rows))) = snd (hd rows)"
      using False snds by (metis hd_map map_is_Nil_conv)
    have "\<forall>e \<in> set (page_rows names ?o 0 (above + 1) None (zip ids (map snd rows))).
        en_Rank e = count_above (take (nat offset) (map snd L) @ map snd (zip ids (map snd rows)) @ drop (nat offset + nat ?l) (map snd L)) (en_Points e) + 1"
      using ranking_descending [of ?r ?key] len hd above
      by (intro page_rows_ranks) (simp_all add: snds count flip: split L_def)
    then have "\<forall>e \<in> set (pg_Entries page). en_Rank e = zcount_above R ?r ?key (en_Points e) + 1"
      unfolding page(2) snds split [symmetric] count .
    moreover have "list_all2 (\<lambda>e row. parseMember (fst row) = Inr (en_UserID e)) (pg_Entries page) rows"
      using p unfolding us [symmetric] by (simp add: list_all2_map1)
    ultimately show ?thesis using page(1) total pts by (simp add: rows_def)
  qed
qed

end

context redis_server
begin

lemma PageAt_facts:
  assumes "PageAt b s p t offset limit w = (Inr pg, w')" and "b_redis b = R"
    and z: "z = zscore R (w_redis w) (Key s p t)"
  shows "pg_Total pg = int (card (dom z))
    \<and> int (length (pg_Entries pg)) = min (page_limit limit) (max 0 (pg_Total pg - max 0 offset))
    \<and> sorted_wrt (\<ge>) (map en_Points (pg_Entries pg))
    \<and> (\<forall>e \<in> set (pg_Entries pg).
        (\<exists>m. parseMember m = Inr (en_UserID e) \<and> z m = Some (en_Points e))
        \<and> en_Rank e = int (card (members_above z (en_Points e))) + 1)"
proof -
  define L where "L = ranking (w_redis w) (Key s p t)"
  define rows where "rows = take (nat (page_limit limit)) (drop (nat offset) L)"
  note pg = PageAt_Inr [OF assms(1,2), folded L_def, folded rows_def]
  have "map en_Points (pg_Entries pg) = map snd rows" using pg by blast
  then have len: "length (pg_Entries pg) = length rows" by (metis length_map)
  have l: "1 \<le> page_limit limit" by (simp add: page_limit_def)
  have "int (length rows) = min (page_limit limit) (max 0 (int (length L) - max 0 offset))"
    using l by (simp add: rows_def)
  then have "int (length (pg_Entries pg)) = min (page_limit limit) (max 0 (pg_Total pg - max 0 offset))"
    using len pg by simp
  moreover have "sorted_wrt (\<ge>) (map en_Points (pg_Entries pg))"
  proof -
    have "sorted_wrt (\<ge>) (take (nat (page_limit limit)) (drop (nat offset) (map snd L)))"
      unfolding L_def by (intro sorted_wrt_take sorted_wrt_drop ranking_descending)
    then show ?thesis using pg by (simp add: rows_def take_map drop_map)
  qed
  moreover have "\<exists>m. parseMember m = Inr (en_UserID e) \<and> z m = Some (en_Points e)" if e: "e \<in> set (pg_Entries pg)" for e
  proof -
    obtain i where i: "i < length rows" "pg_Entries pg ! i = e" 
      using e unfolding in_set_conv_nth len by blast
    have "list_all2 (\<lambda>e row. parseMember (fst row) = Inr (en_UserID e)) (pg_Entries pg) rows" using pg by blast
    then have "parseMember (fst (rows ! i)) = Inr (en_UserID e)" using i by (auto simp: list_all2_conv_all_nth)
    moreover have "en_Points e = snd (rows ! i)"
      using i len \<open>map en_Points (pg_Entries pg) = map snd rows\<close> by (metis nth_map)
    moreover have "rows ! i \<in> set L"
      using i nth_mem [of i rows] by (auto simp: rows_def dest: in_set_takeD in_set_dropD)
    then have "zscore R (w_redis w) (Key s p t) (fst (rows ! i)) = Some (snd (rows ! i))"
      using ranking_iff [of "fst (rows ! i)" "snd (rows ! i)"] by (simp add: L_def)
    ultimately show ?thesis unfolding z by auto
  qed
  moreover have "pg_Total pg = int (card (dom z))"
    using pg length_ranking [of "w_redis w" "Key s p t"] by (simp add: z zcard_card L_def)
  moreover have "\<forall>e \<in> set (pg_Entries pg). en_Rank e = int (card (members_above z (en_Points e))) + 1"
    using pg by (simp add: z zcount_card)
  ultimately show ?thesis by blast
qed

end

section \<open>The numbers the script returns\<close>

definition five_of :: "'r redis_ops \<Rightarrow> 'r \<Rightarrow> 'r \<Rightarrow> string \<Rightarrow> int \<Rightarrow> string \<times> string \<times> int \<Rightarrow> int list" where
  "five_of R r r' m points ks =
     (case ks of (gk, lk, _) \<Rightarrow>
       [if zscore R r gk m = None \<or> or_zero (zscore R r gk m) < points then 1 else 0,
        or_zero (zscore R r' gk m), zcount_above R r' gk (or_zero (zscore R r' gk m)) + 1,
        or_zero (zscore R r' lk m), zcount_above R r' lk (or_zero (zscore R r' lk m)) + 1])"

context redis_server
begin

lemma fst_submit_period:
  "fst (submit_period R gk lk s m points r) = five_of R r (snd (submit_period R gk lk s m points r)) m points (gk, lk, s)"
  by (cases "zscore R r gk m")
    (simp_all add: submit_period_def five_of_def submit_improve_def or_zero_def Let_def split_beta)

lemma five_of_cong:
  assumes "zscore R r gk = zscore R q gk" and "zscore R r' gk = zscore R q' gk" and "zscore R r' lk = zscore R q' lk"
  shows "five_of R r r' m points (gk, lk, s) = five_of R q q' m points (gk, lk, s)"
  using assms by (simp add: five_of_def zcount_card)

lemma fst_submit_loop:
  assumes "distinct (map fst ks @ map (\<lambda>x. fst (snd x)) ks)"
  shows "fst (submit_loop R ks m points r) = concat (map (five_of R r (snd (submit_loop R ks m points r)) m points) ks)"
  using assms
proof (induction ks arbitrary: r)
  case Nil
  then show ?case by simp
next
  case (Cons a ks)
  obtain gk lk s where a: "a = (gk, lk, s)" by (cases a)
  let ?r = "snd (submit_period R gk lk s m points r)" and ?rf = "snd (submit_loop R (a # ks) m points r)"
  have d: "gk \<noteq> lk" "distinct (map fst ks @ map (\<lambda>x. fst (snd x)) ks)"
    "gk \<notin> set (map fst ks @ map (\<lambda>x. fst (snd x)) ks)" "lk \<notin> set (map fst ks @ map (\<lambda>x. fst (snd x)) ks)"
    using Cons.prems a by auto
  have rf: "?rf = snd (submit_loop R ks m points ?r)" unfolding a by (rule submit_loop_Cons)
  have keep: "zscore R ?rf gk = zscore R ?r gk" "zscore R ?rf lk = zscore R ?r lk"
    using zscore_submit_loop [OF d(2), of gk m points ?r] zscore_submit_loop [OF d(2), of lk m points ?r] d(3,4)
    unfolding rf by blast+
  have head: "fst (submit_period R gk lk s m points r) = five_of R r ?rf m points a"
    unfolding fst_submit_period a
    by (rule five_of_cong [OF _ keep(1) [symmetric, unfolded a] keep(2) [symmetric, unfolded a]]) simp
  have tail: "map (five_of R ?r ?rf m points) ks = map (five_of R r ?rf m points) ks"
  proof (rule map_cong [OF HOL.refl])
    fix x assume x: "x \<in> set ks"
    obtain gk' lk' s' where x': "x = (gk', lk', s')" by (cases x)
    then have "gk' \<noteq> gk" "gk' \<noteq> lk" using x d(3,4) by force+
    then have "zscore R ?r gk' = zscore R r gk'" by (rule zscore_submit_period_other [OF d(1)])
    then show "five_of R ?r ?rf m points x = five_of R r ?rf m points x"
      unfolding x' by (rule five_of_cong) simp_all
  qed
  have "fst (submit_loop R (a # ks) m points r) = fst (submit_period R gk lk s m points r) @ fst (submit_loop R ks m points ?r)"
    by (simp add: a Let_def split_beta)
  then show ?case
    using Cons.IH [OF d(2), of ?r, folded rf] head tail by (simp only: list.map concat.simps)
qed

lemma submit_call_placement:
  assumes g: "g \<in> set game_slugs"
    and r'_def: "r' = snd (submit_call R u g points t r)"
  shows "length (fst (submit_call R u g points t r)) = 20" and
    "placement_of (fst (submit_call R u g points t r)) =
      \<lparr>Improved = (\<lambda>p. zscore R r (Key (Game g) p t) (member_of u) = None
          \<or> or_zero (zscore R r (Key (Game g) p t) (member_of u)) < points),
       pl_Game = (\<lambda>p. let x = or_zero (zscore R r' (Key (Game g) p t) (member_of u))
          in \<lparr>st_Points = x, st_Rank = zcount_above R r' (Key (Game g) p t) x + 1\<rparr>),
       pl_Global = (\<lambda>p. let x = or_zero (zscore R r' (Key Global p t) (member_of u))
          in \<lparr>st_Points = x, st_Rank = zcount_above R r' (Key Global p t) x + 1\<rparr>)\<rparr>"
proof -
  have raw: "fst (submit_call R u g points t r) =
      concat (map (five_of R r r' (member_of u) points) (submit_keys g t))"
    unfolding r'_def submit_call_loop by (rule fst_submit_loop [OF submit_keys_distinct [OF g]])
  have keys: "submit_keys g t = map (\<lambda>p. (Key (Game g) p t, Key Global p t, seconds_int (TTL p))) [AllTime, Daily, Weekly, Monthly]"
    by (simp add: submit_keys_def Periods_def)
  show "length (fst (submit_call R u g points t r)) = 20" by (simp add: raw keys five_of_def)
  have idx: "placement_of raw = \<lparr>Improved = (\<lambda>p. f p ! 0 = 1), pl_Game = (\<lambda>p. \<lparr>st_Points = f p ! 1, st_Rank = f p ! 2\<rparr>),
      pl_Global = (\<lambda>p. \<lparr>st_Points = f p ! 3, st_Rank = f p ! 4\<rparr>)\<rparr>"
    if "raw = f AllTime @ f Daily @ f Weekly @ f Monthly" and "\<And>p. length (f p) = 5" for raw f
  proof -
    have at: "raw ! (period_index p * 5 + j) = f p ! j" if "j < 5" for p j
      using that by (cases p) (simp_all add: \<open>raw = _\<close> nth_append \<open>\<And>p. length (f p) = 5\<close>)
    show ?thesis
      using at [of 0] at [of 1] at [of 2] at [of 3] at [of 4]
      by (simp add: placement_of_def fieldsPerPeriod_def Let_def)
  qed
  show "placement_of (fst (submit_call R u g points t r)) =
      \<lparr>Improved = (\<lambda>p. zscore R r (Key (Game g) p t) (member_of u) = None
          \<or> or_zero (zscore R r (Key (Game g) p t) (member_of u)) < points),
       pl_Game = (\<lambda>p. let x = or_zero (zscore R r' (Key (Game g) p t) (member_of u))
          in \<lparr>st_Points = x, st_Rank = zcount_above R r' (Key (Game g) p t) x + 1\<rparr>),
       pl_Global = (\<lambda>p. let x = or_zero (zscore R r' (Key Global p t) (member_of u))
          in \<lparr>st_Points = x, st_Rank = zcount_above R r' (Key Global p t) x + 1\<rparr>)\<rparr>"
    unfolding raw keys
    by (subst idx [where f = "\<lambda>p. five_of R r r' (member_of u) points (Key (Game g) p t, Key Global p t, seconds_int (TTL p))"])
      (simp_all add: five_of_def Let_def)
qed

end

section \<open>Expiry\<close>

context redis_server
begin

definition living :: "'r \<Rightarrow> string \<Rightarrow> int \<Rightarrow> bool" where
  "living r k s \<longleftrightarrow> exists_key R r k \<and> ttl R r k = s"

lemma living_improve: "living r k s \<Longrightarrow> living (snd (submit_improve R gk lk m points r)) k s"
  by (auto simp: living_def submit_improve_def ttl_zadd ttl_zincrby exists_zadd exists_zincrby split: option.split)

lemma living_expire:
  assumes "living r k s" and "0 \<le> s"
  shows "living (submit_expire R gk lk secs r) k s"
proof -
  have "0 < secs \<Longrightarrow> ttl R r' key < 0 \<Longrightarrow> living r' k s \<Longrightarrow> living (expire R key secs r') k s" for r' key
    using assms(2) by (auto simp: living_def ttl_expire exists_expire)
  then show ?thesis using assms(1) by (auto simp: submit_expire_def Let_def)
qed

lemma living_period:
  "living r k s \<Longrightarrow> 0 \<le> s \<Longrightarrow> living (snd (submit_period R gk lk secs m points r)) k s"
  using living_expire living_improve by (simp add: submit_period_def Let_def split_beta)

lemma living_loop: "living r k s \<Longrightarrow> 0 \<le> s \<Longrightarrow> living (snd (submit_loop R ks m points r)) k s"
proof (induction ks arbitrary: r)
  case Nil
  then show ?case by simp
next
  case (Cons a ks)
  then show ?case by (cases a) (simp add: living_period split_beta Let_def)
qed

end

section \<open>Properties\<close>

lemma mem_boards_empty: "boards_match mem_ops mem_empty []"
  by (simp add: boards_match_def mem_ops_def mem_score_def mem_empty_def best_def points_in_def
      global_best_def)

text \<open>
  C5. After any number of submissions, the board of every registered game holds each user's best
  score of every window, and the cross-game board the sum of those bests. What the boards hold
  depends on the set of scores only: not on the order in which they arrive, nor on how often the
  same score is submitted.
\<close>

theorem submissions_order_free:
  assumes "redis_server R" and "boards_match R r []" and "list_all valid_event evs" and "list_all valid_event evs'"
    and "set evs' = set evs"
  shows "boards_match R (submit_all R r evs) evs \<and> boards_match R (submit_all R r evs') evs"
proof -
  have "boards_match R (submit_all R r evs) evs" "boards_match R (submit_all R r evs') evs'"
    using redis_server.boards_match_submit_all [OF assms(1,2)] assms(3,4) by fastforce+
  then show ?thesis
    using best_set [OF assms(5)] global_best_set [OF assms(5)] by (simp add: boards_match_def)
qed

lemma submissions_order_free_witness:
  "boards_match mem_ops (submit_all mem_ops mem_empty [(1, Memory, 50, 0), (1, Memory, 30, 0), (1, Memory, 50, 0)])
    [(1, Memory, 30, 0), (1, Memory, 50, 0)]"
  using submissions_order_free [OF mem.redis_server_axioms mem_boards_empty,
      of "[(1, Memory, 30, 0), (1, Memory, 50, 0)]" "[(1, Memory, 50, 0), (1, Memory, 30, 0), (1, Memory, 50, 0)]"]
  by (simp add: valid_event_def registry_Slugs_new insert_commute)

text \<open>
  C29. The placement a submission returns is where the user stands on the boards it leaves: for every
  period, the score on the board and one more than the number of members strictly above it; a
  board has improved exactly when the user had no score on it or a lower one.
\<close>

theorem submit_placement:
  assumes "redis_server R" and "g \<in> set game_slugs" and "submit_call R u g points t r = (raw, r')"
  shows "length raw = 20 \<and>
    (\<forall>p. let key = Key (Game g) p t; gkey = Key Global p t; m = member_of u; pl = placement_of raw;
           x = or_zero (zscore R r' key m); y = or_zero (zscore R r' gkey m)
      in pl_Game pl p = \<lparr>st_Points = x, st_Rank = int (card (members_above (zscore R r' key) x)) + 1\<rparr>
       \<and> pl_Global pl p = \<lparr>st_Points = y, st_Rank = int (card (members_above (zscore R r' gkey) y)) + 1\<rparr>
       \<and> (Improved pl p \<longleftrightarrow> zscore R r key m = None \<or> or_zero (zscore R r key m) < points))"
  using redis_server.submit_call_placement [OF assms(1,2), of r' u points t r] assms(1,3)
  by (simp add: redis_server.zcount_card Let_def)

lemma submit_placement_witness:
  "length (fst (submit_call mem_ops 1 Memory 50 0 mem_empty)) = 20"
  using submit_placement [OF mem.redis_server_axioms, of Memory 1 50 0 mem_empty]
  by (cases "submit_call mem_ops 1 Memory 50 0 mem_empty") (simp add: registry_Slugs_new)

text \<open>
  Submitting never extends the life of a key that has an expiry: its remaining seconds are what
  they were, whatever is submitted.
\<close>

theorem submit_keeps_expiry:
  assumes "redis_server R" and "exists_key R r k" and "0 \<le> ttl R r k"
  shows "ttl R (snd (submit_call R u g points t r)) k = ttl R r k"
  using redis_server.living_loop [OF assms(1), of r k "ttl R r k"] assms
  by (simp add: submit_call_loop redis_server.living_def [OF assms(1)])

lemma submit_keeps_expiry_witness:
  "ttl mem_ops (snd (submit_call mem_ops 1 Memory 50 0 (expire mem_ops ''k'' 7 (zadd mem_ops ''k'' 3 ''1'' mem_empty)))) ''k'' = 7"
  using submit_keeps_expiry [OF mem.redis_server_axioms, of "expire mem_ops ''k'' 7 (zadd mem_ops ''k'' 3 ''1'' mem_empty)" "''k''"]
  by (simp add: mem_ops_def mem_zadd_def mem_exists_def mem_empty_def)

text \<open>
  A page that is returned, under whatever faults, shows the slice of the board that was asked for,
  highest first: every row is a member of the board with its score, its rank is one more than the
  number of members with a strictly higher score, so ties share a rank, and the total is the
  number of members.
\<close>

theorem page_ranks:
  assumes "redis_server (b_redis b)" and "PageAt b s p t offset limit w = (Inr pg, w')"
    and "z = zscore (b_redis b) (w_redis w) (Key s p t)"
  shows "pg_Total pg = int (card (dom z))
    \<and> int (length (pg_Entries pg)) = min (page_limit limit) (max 0 (pg_Total pg - max 0 offset))
    \<and> sorted_wrt (\<ge>) (map en_Points (pg_Entries pg))
    \<and> (\<forall>e \<in> set (pg_Entries pg).
        (\<exists>m. parseMember m = Inr (en_UserID e) \<and> z m = Some (en_Points e))
        \<and> en_Rank e = int (card (members_above z (en_Points e))) + 1)"
  by (rule redis_server.PageAt_facts [OF assms(1,2) HOL.refl assms(3)])

definition demo_board :: "mem_redis board" where
  "demo_board = \<lparr>b_redis = mem_ops, b_now = 0, b_announcer = None\<rparr>"

definition demo_world :: "mem_redis service_world" where
  "demo_world = \<lparr>w_db = empty_db,
     w_redis = zadd mem_ops ''lb:global:all'' 70 ''2'' (zadd mem_ops ''lb:global:all'' 70 ''1'' mem_empty), w_faults = []\<rparr>"

lemma page_ranks_witness:
  "\<exists>pg w'. PageAt demo_board Global AllTime 0 0 10 demo_world = (Inr pg, w') \<and> pg_Total pg = 2
    \<and> int (length (pg_Entries pg)) = 2"
proof -
  have "case PageAt demo_board Global AllTime 0 0 10 demo_world of (Inr _, _) \<Rightarrow> True | (Inl _, _) \<Rightarrow> False"
    by code_simp
  then obtain pg w' where run: "PageAt demo_board Global AllTime 0 0 10 demo_world = (Inr pg, w')"
    by (auto split: prod.splits sum.splits)
  have board: "b_redis demo_board = mem_ops" by (simp add: demo_board_def)
  define z where "z = zscore mem_ops (w_redis demo_world) (Key Global AllTime 0)"
  have "z = [''1'' \<mapsto> 70, ''2'' \<mapsto> 70]"
    by (auto simp: z_def demo_world_def mem_ops_def mem_score_def mem_zadd_def mem_empty_def Key_def Global_def IsGlobal_def)
  then have "dom z = {''1'', ''2''}" by auto
  then show ?thesis
    using page_ranks [of demo_board, unfolded board, OF mem.redis_server_axioms run z_def] run
    by (intro exI [of _ pg] exI [of _ w']) (simp add: page_limit_def MaxPageSize_def)
qed

end
