(* ===== verification/Session.thy ===== *)
theory Session
  imports Leaderboard
begin

text \<open>
  \<open>internal/session/session.go\<close>: the life of a session from \<open>Start\<close> over \<open>Move\<close> to \<open>Finish\<close>, and the
  only code that writes a score. What a call gets from outside is its \<open>call\<close>: the clock of the
  process, \<open>now()\<close> of its transaction, the id Postgres would generate, the bytes of the random
  source, and whether the client goes away while a response is held back. Metrics and logging are
  left out.
\<close>

section \<open>Values\<close>

definition StatusActive :: string where "StatusActive = ''active''"
definition StatusFinished :: string where "StatusFinished = ''finished''"
definition StatusAbandoned :: string where "StatusAbandoned = ''abandoned''"

lemmas status_defs = StatusActive_def StatusFinished_def StatusAbandoned_def

record score =
  so_EventID :: int
  so_Game :: slug
  so_Metric :: string
  so_Raw :: f64
  so_Points :: int
  so_AchievedAt :: time

record session =
  se_ID :: uuid
  se_Game :: slug
  se_Status :: string
  se_View :: json
  se_Moves :: int
  se_StartedAt :: time
  se_DeadlineAt :: "time option"
  se_Score :: "score option"
  se_Placement :: "placement option"

record 'r session_service =
  ss_registry :: registry
  ss_projector :: "(int \<Rightarrow> slug \<Rightarrow> int \<Rightarrow> time \<Rightarrow> ('r service_world, placement) act) option"

record call =
  c_now :: time
  c_pg_now :: time
  c_uuid :: uuid
  c_entropy :: "byte list option"
  c_gone :: bool

definition scoreFrom :: "score_event \<Rightarrow> game_definition \<Rightarrow> score" where
  "scoreFrom event d =
     \<lparr>so_EventID = ev_ID event, so_Game = ev_Game event, so_Metric = Metric d, so_Raw = ev_Raw event,
      so_Points = ev_Points event, so_AchievedAt = ev_AchievedAt event\<rparr>"

definition sessionFrom :: "game_session \<Rightarrow> json \<Rightarrow> score option \<Rightarrow> session" where
  "sessionFrom row view score =
     \<lparr>se_ID = gs_ID row, se_Game = gs_Game row, se_Status = gs_Status row, se_View = view,
      se_Moves = gs_Moves row, se_StartedAt = gs_StartedAt row, se_DeadlineAt = gs_DeadlineAt row,
      se_Score = score, se_Placement = None\<rparr>"

definition game_call :: "game_error + 'a \<Rightarrow> ('s, 'a) act" where
  "game_call r = lift_result (map_error ErrGame r)"

text \<open>An \<open>ErrNoRows\<close> becomes the given error, any other failure is passed on.\<close>

definition no_rows_as :: "err \<Rightarrow> ('s, 'a) act \<Rightarrow> ('s, 'a) act" where
  "no_rows_as e m = act_catch m (\<lambda>e'. fail (if e' = ErrNoRows then e else e'))"

definition unique_as :: "err \<Rightarrow> ('s, 'a) act \<Rightarrow> ('s, 'a) act" where
  "unique_as e m = act_catch m (\<lambda>e'. fail (if e' = ErrUniqueViolation then e else e'))"

section \<open>Operations\<close>

definition new_seed :: "call \<Rightarrow> ('s, seed) act" where
  "new_seed c = (case c_entropy c of None \<Rightarrow> fail ErrDB | Some buf \<Rightarrow> ret (NewSeed buf))"

definition Start :: "'r session_service \<Rightarrow> call \<Rightarrow> int \<Rightarrow> slug \<Rightarrow> ('r service_world, session) act" where
  "Start svc c userID s =
     act_bind (game_call (registry_Get (ss_registry svc) s)) (\<lambda>d.
     act_bind (new_seed c) (\<lambda>seed.
     act_bind (game_call (e_Start (d_engine d) seed (c_now c))) (\<lambda>(state, view, deadline).
     act_bind
       (in_tx
         (act_bind (exec (AbandonActiveSessions (c_pg_now c) userID s)) (\<lambda>_.
          let deadlineAt = (if is_zero deadline then None else Some deadline)
          in act_bind (exec (CreateGameSession (c_pg_now c) (c_uuid c) userID s seed state deadlineAt)) (\<lambda>row.
             ret (True, row)))))
       (\<lambda>row. ret (sessionFrom row view None)))))"

definition scoreFor :: "'r session_service \<Rightarrow> game_session \<Rightarrow> ('r service_world, score option) act" where
  "scoreFor svc row =
     (if gs_Status row = StatusActive then ret None
      else
        act_bind
          (act_catch (act_bind (exec (GetScoreEventBySession (gs_ID row))) (\<lambda>event. ret (Some event)))
             (\<lambda>e. if e = ErrNoRows then ret None else fail e))
          (\<lambda>found. case found of
             None \<Rightarrow> ret None
           | Some event \<Rightarrow>
               act_bind (game_call (registry_Get (ss_registry svc) (gs_Game row))) (\<lambda>d.
               ret (Some (scoreFrom event d)))))"

definition session_Get :: "'r session_service \<Rightarrow> int \<Rightarrow> uuid \<Rightarrow> ('r service_world, session) act" where
  "session_Get svc userID ident =
     act_bind (no_rows_as ErrNotFound (exec (GetGameSession ident))) (\<lambda>row.
     if gs_UserID row \<noteq> userID then fail ErrNotFound
     else act_bind (game_call (registry_Get (ss_registry svc) (gs_Game row))) (\<lambda>d.
          act_bind (game_call (e_View (d_engine d) (gs_State row))) (\<lambda>view.
          act_bind (scoreFor svc row) (\<lambda>score.
          ret (sessionFrom row view score)))))"

definition settle ::
    "call \<Rightarrow> game_session \<Rightarrow> game_definition \<Rightarrow> ('r service_world, game_session \<times> score) act" where
  "settle c row d =
     act_bind (game_call (e_Raw (d_engine d) (gs_State row))) (\<lambda>raw.
     act_bind (no_rows_as ErrFinished (exec (FinishGameSession (c_pg_now c) (gs_ID row)))) (\<lambda>finished.
     act_bind (unique_as ErrFinished
        (exec (CreateScoreEvent (c_pg_now c) (gs_UserID row) (gs_ID row) (gs_Game row) raw (Points d raw)))) (\<lambda>event.
     ret (finished, scoreFrom event d))))"

text \<open>\<open>project\<close>: a failure to publish is swallowed, and so is a failure to mark.\<close>

definition project ::
    "'r session_service \<Rightarrow> call \<Rightarrow> int \<Rightarrow> score option \<Rightarrow> ('r service_world, placement option) act" where
  "project svc c userID score =
     (case ss_projector svc of
        None \<Rightarrow> ret None
      | Some submit \<Rightarrow>
          (case score of
             None \<Rightarrow> ret None
           | Some sc \<Rightarrow>
               act_bind
                 (act_catch (act_bind (submit userID (so_Game sc) (so_Points sc) (so_AchievedAt sc)) (\<lambda>pl. ret (Some pl)))
                    (\<lambda>_. ret None))
                 (\<lambda>placement. case placement of
                    None \<Rightarrow> ret None
                  | Some pl \<Rightarrow>
                      act_bind (act_catch (exec (MarkScoreEventProjected (c_pg_now c) (so_EventID sc))) (\<lambda>_. ret ()))
                        (\<lambda>_. ret (Some pl)))))"

text \<open>The delay of a held response, cut short when the client goes away.\<close>

definition hold :: "call \<Rightarrow> time \<Rightarrow> ('s, unit) act" where
  "hold c until = (if is_zero until then ret () else if c_gone c \<and> c_now c < until then fail ErrCancelled else ret ())"

definition move_tx ::
    "'r session_service \<Rightarrow> call \<Rightarrow> int \<Rightarrow> uuid \<Rightarrow> raw_message
      \<Rightarrow> ('r service_world, bool \<times> game_session \<times> json \<times> outcome \<times> score option) act" where
  "move_tx svc c userID ident move =
     act_bind (no_rows_as ErrNotFound (exec (LockGameSession ident))) (\<lambda>row.
     if gs_UserID row \<noteq> userID then fail ErrNotFound
     else if gs_Status row \<noteq> StatusActive then fail ErrFinished
     else
       act_bind (game_call (registry_Get (ss_registry svc) (gs_Game row))) (\<lambda>d.
       act_bind (game_call (e_Move (d_engine d) (gs_State row) move (c_now c))) (\<lambda>(nextState, view, outcome).
       act_bind (exec (SaveGameSessionState ident nextState)) (\<lambda>updated.
       if Done outcome
       then act_bind (settle c updated d) (\<lambda>(finished, recorded). ret (True, finished, view, outcome, Some recorded))
       else ret (True, updated, view, outcome, None)))))"

definition session_Move ::
    "'r session_service \<Rightarrow> call \<Rightarrow> int \<Rightarrow> uuid \<Rightarrow> raw_message \<Rightarrow> ('r service_world, session) act" where
  "session_Move svc c userID ident move =
     act_bind (in_tx (move_tx svc c userID ident move)) (\<lambda>(updated, view, outcome, score).
     act_bind (hold c (HoldUntil outcome)) (\<lambda>_.
     act_bind (project svc c (gs_UserID updated) score) (\<lambda>placement.
     ret ((sessionFrom updated view score)\<lparr>se_Placement := placement\<rparr>))))"

text \<open>\<open>False\<close> is the return without a commit: the session had ended before.\<close>

definition finish_tx ::
    "'r session_service \<Rightarrow> call \<Rightarrow> int \<Rightarrow> uuid
      \<Rightarrow> ('r service_world, bool \<times> bool \<times> game_session \<times> json \<times> score) act" where
  "finish_tx svc c userID ident =
     act_bind (no_rows_as ErrNotFound (exec (LockGameSession ident))) (\<lambda>row.
     if gs_UserID row \<noteq> userID then fail ErrNotFound
     else
       act_bind (game_call (registry_Get (ss_registry svc) (gs_Game row))) (\<lambda>d.
       act_bind (game_call (e_View (d_engine d) (gs_State row))) (\<lambda>view.
       if gs_Status row \<noteq> StatusActive
       then act_bind (scoreFor svc row) (\<lambda>score.
              case score of None \<Rightarrow> fail ErrFinished | Some sc \<Rightarrow> ret (False, False, row, view, sc))
       else act_bind (settle c row d) (\<lambda>(finished, recorded). ret (True, True, finished, view, recorded)))))"

definition Finish :: "'r session_service \<Rightarrow> call \<Rightarrow> int \<Rightarrow> uuid \<Rightarrow> ('r service_world, session) act" where
  "Finish svc c userID ident =
     act_bind (in_tx (finish_tx svc c userID ident)) (\<lambda>(fresh, row, view, score).
     if fresh
     then act_bind (project svc c (gs_UserID row) (Some score)) (\<lambda>placement.
            ret ((sessionFrom row view (Some score))\<lparr>se_Placement := placement\<rparr>))
     else ret (sessionFrom row view (Some score)))"

end
