(* ===== verification/Session_Rules.thy ===== *)
theory Session_Rules
  imports Session
begin

text \<open>
  What the rows of sessions and scores promise, and that every operation of \<open>session.go\<close> keeps the
  promise whatever calls fail. \<open>store_ok\<close> is the invariant; the lemmas before it describe a
  transaction that commits as a function of the rows, since every statement of such a transaction
  has succeeded.
\<close>

section \<open>The invariant\<close>

text \<open>The score of a session is what its game makes of the state that is stored for it.\<close>

definition scored_from :: "registry \<Rightarrow> game_session \<Rightarrow> score_event \<Rightarrow> bool" where
  "scored_from reg s e \<longleftrightarrow>
     ev_SessionID e = gs_ID s \<and> ev_UserID e = gs_UserID s \<and> ev_Game e = gs_Game s \<and>
     (case registry_Get reg (gs_Game s) of
        Inl _ \<Rightarrow> False
      | Inr d \<Rightarrow>
          (case e_Raw (d_engine d) (gs_State s) of
             Inl _ \<Rightarrow> False
           | Inr raw \<Rightarrow> ev_Raw e = raw \<and> ev_Points e = Points d raw))"

definition session_ok :: "score_event list \<Rightarrow> game_session \<Rightarrow> bool" where
  "session_ok evs s \<longleftrightarrow>
     gs_Status s \<in> {StatusActive, StatusFinished, StatusAbandoned} \<and>
     (gs_FinishedAt s = None \<longleftrightarrow> gs_Status s = StatusActive) \<and> 0 \<le> gs_Moves s \<and>
     (gs_Status s = StatusFinished \<longleftrightarrow> gs_ID s \<in> ev_SessionID ` set evs)"

definition event_ok :: "registry \<Rightarrow> game_session list \<Rightarrow> score_event \<Rightarrow> bool" where
  "event_ok reg ss e \<longleftrightarrow> 0 \<le> ev_Points e \<and> ev_Points e \<le> 10000 \<and> (\<exists>s \<in> set ss. scored_from reg s e)"

definition rivals :: "game_session \<Rightarrow> game_session \<Rightarrow> bool" where
  "rivals s s' \<longleftrightarrow> is_active s \<and> is_active s' \<and> gs_UserID s = gs_UserID s' \<and> gs_Game s = gs_Game s'"

definition store_ok :: "registry \<Rightarrow> database \<Rightarrow> bool" where
  "store_ok reg d \<longleftrightarrow>
     distinct (map gs_ID (sessions d)) \<and> distinct (map ev_ID (events d)) \<and>
     distinct (map ev_SessionID (events d)) \<and>
     (\<forall>s \<in> set (sessions d). session_ok (events d) s) \<and>
     (\<forall>e \<in> set (events d). event_ok reg (sessions d) e) \<and>
     (\<forall>s \<in> set (sessions d). \<forall>s' \<in> set (sessions d). rivals s s' \<longrightarrow> s = s')"

text \<open>
  What lasts: a recorded score keeps everything but the mark of its projection, and a session that has
  ended keeps its row.
\<close>

definition same_score :: "score_event \<Rightarrow> score_event \<Rightarrow> bool" where
  "same_score e e' \<longleftrightarrow> e'\<lparr>ev_ProjectedAt := ev_ProjectedAt e\<rparr> = e"

definition lasts :: "database \<Rightarrow> database \<Rightarrow> bool" where
  "lasts d d' \<longleftrightarrow>
     (\<forall>e \<in> set (events d). \<exists>e' \<in> set (events d'). same_score e e') \<and>
     (\<forall>s \<in> set (sessions d). \<not> is_active s \<longrightarrow> s \<in> set (sessions d'))"

lemma same_score_refl [simp]: "same_score e e"
  by (simp add: same_score_def)

lemma same_score_trans: "same_score e e' \<Longrightarrow> same_score e' e'' \<Longrightarrow> same_score e e''"
  unfolding same_score_def by (metis score_event.surjective score_event.update_convs(8))

interpretation rows: evolution "store_ok NewRegistry" lasts
proof
  show "lasts d d" for d unfolding lasts_def using same_score_refl by blast
  show "lasts d f" if "lasts d e" "lasts e f" for d e f
    using that unfolding lasts_def by (meson same_score_trans)
qed

lemma is_active_iff: "is_active s \<longleftrightarrow> gs_Status s = StatusActive"
  by (simp add: is_active_def status_defs)

lemma status_distinct [simp]:
  "StatusActive \<noteq> StatusFinished" "StatusFinished \<noteq> StatusActive" "StatusAbandoned \<noteq> StatusActive"
  "StatusActive \<noteq> StatusAbandoned" "StatusAbandoned \<noteq> StatusFinished" "StatusFinished \<noteq> StatusAbandoned"
  by (simp_all add: status_defs)

section \<open>Laws of the tables\<close>

lemma find_session_Some: "find_session i d = Some s \<Longrightarrow> s \<in> set (sessions d) \<and> gs_ID s = i"
  by (auto simp: find_session_def find_Some_iff)

lemma find_session_None: "find_session i d = None \<longleftrightarrow> i \<notin> gs_ID ` set (sessions d)"
  by (auto simp: find_session_def find_None_iff)

lemma distinct_key_eq:
  assumes "distinct (map f xs)" and "x \<in> set xs" and "y \<in> set xs" and "f x = f y"
  shows "x = y"
  using assms by (metis distinct_map inj_onD)

lemma find_session_eq:
  assumes "distinct (map gs_ID (sessions d))" and "s \<in> set (sessions d)"
  shows "find_session (gs_ID s) d = Some s"
proof (cases "find_session (gs_ID s) d")
  case None
  then show ?thesis using assms(2) by (simp add: find_session_None)
next
  case (Some s')
  then show ?thesis using find_session_Some [OF Some] distinct_key_eq [OF assms(1)] assms(2) by metis
qed

text \<open>Rows by their key: replacing the row of a key changes no other.\<close>

lemma set_replace:
  assumes "distinct (map f xs)" and "x \<in> set xs" and "f y = f x"
  shows "set (map (\<lambda>z. if f z = f y then y else z) xs) = insert y (set xs - {x})"
proof -
  have "f z = f y \<longleftrightarrow> z = x" if "z \<in> set xs" for z
    using that assms(2,3) distinct_key_eq [OF assms(1)] by metis
  then have "(\<lambda>z. if f z = f y then y else z) ` set xs = (\<lambda>z. if z = x then y else z) ` set xs"
    by (intro image_cong) simp_all
  also have "\<dots> = insert y (set xs - {x})" using assms(2) by auto
  finally show ?thesis by simp
qed

lemma map_replace: "map f (map (\<lambda>z. if f z = f y then y else z) xs) = map f xs"
  by simp

lemma put_session_events [simp]: "events (put_session row d) = events d"
  by (simp add: put_session_def)

lemma put_session_users [simp]: "users (put_session row d) = users d"
  by (simp add: put_session_def)

lemma put_session_ids [simp]: "map gs_ID (sessions (put_session row d)) = map gs_ID (sessions d)"
  by (simp add: put_session_def)

lemma put_session_id_set [simp]: "gs_ID ` set (sessions (put_session row d)) = gs_ID ` set (sessions d)"
  by (metis list.set_map put_session_ids)

lemma set_put_session:
  assumes "distinct (map gs_ID (sessions d))" and "s \<in> set (sessions d)" and "gs_ID row = gs_ID s"
  shows "set (sessions (put_session row d)) = insert row (set (sessions d) - {s})"
  using set_replace [OF assms(1,2,3)] by (simp add: put_session_def)

lemma find_put_session:
  assumes "distinct (map gs_ID (sessions d))" and "s \<in> set (sessions d)" and "gs_ID row = gs_ID s"
  shows "find_session i (put_session row d) = (if i = gs_ID row then Some row else find_session i d)"
proof -
  have "find (\<lambda>x. gs_ID x = i) (map (\<lambda>z. if gs_ID z = gs_ID row then row else z) xs) =
      (if i = gs_ID row \<and> i \<in> gs_ID ` set xs then Some row else find (\<lambda>x. gs_ID x = i) xs)" for xs
    by (induction xs) auto
  then show ?thesis using assms by (auto simp: find_session_def put_session_def)
qed

lemma next_id_fresh: "next_id ids \<notin> set ids"
proof -
  have "x \<in> set ids \<Longrightarrow> x \<le> foldr max ids 0" for x
    by (induction ids) auto
  then show ?thesis unfolding next_id_def by force
qed

lemma FinishGameSession_Inr:
  "FinishGameSession now i d = (Inr row, d') \<longleftrightarrow>
    (\<exists>s. find_session i d = Some s \<and> is_active s \<and>
      row = s\<lparr>gs_Status := StatusFinished, gs_FinishedAt := Some now\<rparr> \<and> d' = put_session row d)"
  by (auto simp: FinishGameSession_def Let_def StatusFinished_def split: option.splits)

lemma SaveGameSessionState_Inr:
  "SaveGameSessionState i j d = (Inr row, d') \<longleftrightarrow>
    (\<exists>s. find_session i d = Some s \<and> row = s\<lparr>gs_State := j, gs_Moves := gs_Moves s + 1\<rparr> \<and> d' = put_session row d)"
  by (auto simp: SaveGameSessionState_def Let_def split: option.splits)

lemma LockGameSession_Inr: "LockGameSession i d = (Inr row, d') \<longleftrightarrow> find_session i d = Some row \<and> d' = d"
  by (auto simp: LockGameSession_def row_of_def of_option_def split: option.splits)

lemma CreateScoreEvent_Inr:
  "CreateScoreEvent now u i g raw pts d = (Inr ev, d') \<longleftrightarrow>
    0 \<le> pts \<and> pts \<le> 10000 \<and> i \<notin> ev_SessionID ` set (events d) \<and> u \<in> us_ID ` set (users d) \<and>
    i \<in> gs_ID ` set (sessions d) \<and>
    ev = \<lparr>ev_ID = next_id (map ev_ID (events d)), ev_UserID = u, ev_SessionID = i, ev_Game = g, ev_Raw = raw,
          ev_Points = pts, ev_AchievedAt = now, ev_ProjectedAt = None\<rparr> \<and>
    d' = d\<lparr>events := events d @ [ev]\<rparr>"
  by (auto simp: CreateScoreEvent_def Let_def)

lemma CreateGameSession_Inr:
  "CreateGameSession now i u g sd j dl d = (Inr row, d') \<longleftrightarrow>
    i \<notin> gs_ID ` set (sessions d) \<and> u \<in> us_ID ` set (users d) \<and>
    row = \<lparr>gs_ID = i, gs_UserID = u, gs_Game = g, gs_Seed = sd, gs_State = j, gs_Status = StatusActive, gs_Moves = 0,
           gs_StartedAt = now, gs_DeadlineAt = map_option pg_time dl, gs_FinishedAt = None\<rparr> \<and>
    d' = d\<lparr>sessions := sessions d @ [row]\<rparr>"
  by (auto simp: CreateGameSession_def Let_def StatusActive_def)

lemma GetGameSession_read [simp]: "snd (GetGameSession i d) = d"
  and LockGameSession_read [simp]: "snd (LockGameSession i d) = d"
  and GetScoreEventBySession_read [simp]: "snd (GetScoreEventBySession i d) = d"
  by (simp_all add: GetGameSession_def LockGameSession_def GetScoreEventBySession_def)

section \<open>The invariant is kept by the statements\<close>

lemma store_okI:
  assumes "distinct (map gs_ID (sessions d))" and "distinct (map ev_ID (events d))"
    and "distinct (map ev_SessionID (events d))"
    and "\<And>s. s \<in> set (sessions d) \<Longrightarrow> session_ok (events d) s"
    and "\<And>e. e \<in> set (events d) \<Longrightarrow> event_ok reg (sessions d) e"
    and "\<And>s s'. s \<in> set (sessions d) \<Longrightarrow> s' \<in> set (sessions d) \<Longrightarrow> rivals s s' \<Longrightarrow> s = s'"
  shows "store_ok reg d"
  using assms by (simp add: store_ok_def)

lemma store_okD:
  assumes "store_ok reg d"
  shows "distinct (map gs_ID (sessions d))" and "distinct (map ev_ID (events d))"
    and "distinct (map ev_SessionID (events d))"
    and "s \<in> set (sessions d) \<Longrightarrow> session_ok (events d) s"
    and "e \<in> set (events d) \<Longrightarrow> event_ok reg (sessions d) e"
    and "s \<in> set (sessions d) \<Longrightarrow> s' \<in> set (sessions d) \<Longrightarrow> rivals s s' \<Longrightarrow> s = s'"
  using assms unfolding store_ok_def by blast+

lemma event_okE:
  assumes "event_ok reg ss e"
  obtains s where "s \<in> set ss" "scored_from reg s e" "0 \<le> ev_Points e" "ev_Points e \<le> 10000"
  using assms by (auto simp: event_ok_def)

lemma store_ok_ids: "store_ok reg d \<Longrightarrow> distinct (map gs_ID (sessions d))"
  by (simp add: store_ok_def)

lemma no_event_of_active:
  assumes "store_ok reg d" and "s \<in> set (sessions d)" and "is_active s"
  shows "gs_ID s \<notin> ev_SessionID ` set (events d)"
  using assms unfolding store_ok_def session_ok_def is_active_iff by force

text \<open>Replacing an active session by one that is active still, of the same user and game.\<close>

lemma store_ok_put_active:
  assumes ok: "store_ok reg d" and s: "s \<in> set (sessions d)" "is_active s"
    and row: "gs_ID row = gs_ID s" "gs_UserID row = gs_UserID s" "gs_Game row = gs_Game s"
      "gs_Status row = gs_Status s" "gs_FinishedAt row = gs_FinishedAt s" "0 \<le> gs_Moves row"
  shows "store_ok reg (put_session row d)"
proof -
  let ?S = "insert row (set (sessions d) - {s})"
  note ids = store_ok_ids [OF ok]
  have set: "set (sessions (put_session row d)) = ?S" by (rule set_put_session [OF ids s(1) row(1)])
  have act: "is_active row" using s(2) row(4) by (simp add: is_active_def)
  have one: "\<And>t. session_ok (events d) t \<Longrightarrow> t = s \<Longrightarrow> session_ok (events d) row"
    using row by (auto simp: session_ok_def)
  have sess: "\<forall>t \<in> ?S. session_ok (events d) t"
    using store_okD(4) [OF ok] s(1) one by blast
  have evs: "\<forall>e \<in> set (events d). event_ok reg (sessions (put_session row d)) e"
  proof
    fix e assume e: "e \<in> set (events d)"
    obtain t where t: "t \<in> set (sessions d)" "scored_from reg t e"
      and b: "0 \<le> ev_Points e" "ev_Points e \<le> 10000"
      by (rule event_okE [OF store_okD(5) [OF ok e]])
    have "t \<noteq> s" using no_event_of_active [OF ok s] e t(2) by (force simp: scored_from_def)
    then show "event_ok reg (sessions (put_session row d)) e" unfolding event_ok_def set using t b by blast
  qed
  have r: "rivals row t = rivals s t" "rivals t row = rivals t s" for t
    using row s(2) act by (auto simp: rivals_def)
  have riv: "t = t'" if t: "t \<in> ?S" "t' \<in> ?S" "rivals t t'" for t t'
  proof (cases "t = row")
    case True
    then have "t' \<in> set (sessions d) \<Longrightarrow> s = t'" using store_okD(6) [OF ok s(1)] t(3) r(1) by blast
    then show ?thesis using True t(2) by blast
  next
    case False
    then have m: "t \<in> set (sessions d)" "t \<noteq> s" using t(1) by blast+
    have "t' \<noteq> row"
    proof
      assume "t' = row"
      then have "t = s" using store_okD(6) [OF ok m(1) s(1)] t(3) r(2) by blast
      then show False using m(2) by contradiction
    qed
    then show ?thesis using store_okD(6) [OF ok m(1)] t(2,3) by blast
  qed
  show ?thesis
  proof (rule store_okI)
    show "distinct (map gs_ID (sessions (put_session row d)))" using ids by simp
    show "distinct (map ev_ID (events (put_session row d)))" "distinct (map ev_SessionID (events (put_session row d)))"
      using store_okD(2,3) [OF ok] by simp_all
    show "session_ok (events (put_session row d)) t" if "t \<in> set (sessions (put_session row d))" for t
      using that sess unfolding set put_session_events by blast
    show "event_ok reg (sessions (put_session row d)) e" if "e \<in> set (events (put_session row d))" for e
      using that evs by simp
    show "t = t'" if "t \<in> set (sessions (put_session row d))" "t' \<in> set (sessions (put_session row d))" "rivals t t'" for t t'
      using riv that unfolding set by blast
  qed
qed

text \<open>Ending a session and recording its score, in one transaction.\<close>

lemma store_ok_settle:
  assumes ok: "store_ok reg d" and s: "s \<in> set (sessions d)" "is_active s"
    and g: "registry_Get reg (gs_Game s) = Inr df" and raw: "e_Raw (d_engine df) (gs_State s) = Inr raw"
    and fin: "fin = s\<lparr>gs_Status := StatusFinished, gs_FinishedAt := Some now\<rparr>"
    and ev: "CreateScoreEvent now' (gs_UserID s) (gs_ID s) (gs_Game s) raw (Points df raw) (put_session fin d) = (Inr ev, d')"
  shows "store_ok reg d'"
proof -
  note ids = store_ok_ids [OF ok]
  let ?S = "insert fin (set (sessions d) - {s})"
  have set: "set (sessions (put_session fin d)) = ?S"
    using set_put_session [OF ids s(1)] by (simp add: fin)
  note new = ev [unfolded CreateScoreEvent_Inr]
  have d': "sessions d' = sessions (put_session fin d)" "events d' = events d @ [ev]"
    using new by (elim conjE, simp)+
  have evid: "ev_SessionID ev = gs_ID s" using new by (elim conjE) simp
  have fresh: "gs_ID s \<notin> ev_SessionID ` set (events d)" by (rule no_event_of_active [OF ok s])
  have freshid: "ev_ID ev \<notin> ev_ID ` set (events d)"
    using new next_id_fresh [of "map ev_ID (events d)"] by (elim conjE) simp
  have scored: "scored_from reg fin ev" using new g raw by (elim conjE) (simp add: scored_from_def fin)
  have others: "t = s" if "t \<in> set (sessions d)" "gs_ID t = gs_ID s" for t
    using distinct_key_eq [OF ids that(1) s(1) that(2)] .
  have okd: "\<forall>t \<in> set (sessions d). session_ok (events d) t" using ok by (simp add: store_ok_def)
  have sess: "\<forall>t \<in> ?S. session_ok (events d @ [ev]) t"
  proof
    fix t assume "t \<in> ?S"
    then consider "t = fin" | "t \<in> set (sessions d)" "t \<noteq> s" by blast
    then show "session_ok (events d @ [ev]) t"
    proof cases
      case 1
      have "0 \<le> gs_Moves s" using okd s(1) by (auto simp: session_ok_def)
      then show ?thesis using 1 evid by (simp add: session_ok_def fin)
    next
      case 2
      then have "gs_ID t \<noteq> gs_ID s" using others by blast
      then show ?thesis using bspec [OF okd 2(1)] evid by (auto simp: session_ok_def)
    qed
  qed
  have evs: "\<forall>e \<in> set (events d @ [ev]). event_ok reg (sessions (put_session fin d)) e"
  proof
    fix e assume "e \<in> set (events d @ [ev])"
    then consider "e = ev" | "e \<in> set (events d)" by auto
    then show "event_ok reg (sessions (put_session fin d)) e"
    proof cases
      case 1
      have "0 \<le> ev_Points ev \<and> ev_Points ev \<le> 10000" using new by (elim conjE) simp
      then show ?thesis using 1 scored unfolding event_ok_def set by blast
    next
      case 2
      obtain t where t: "t \<in> set (sessions d)" "scored_from reg t e"
        and b: "0 \<le> ev_Points e" "ev_Points e \<le> 10000"
        by (rule event_okE [OF store_okD(5) [OF ok 2]])
      have "t \<noteq> s" using fresh 2 t(2) by (force simp: scored_from_def)
      then show ?thesis unfolding event_ok_def set using t b by blast
    qed
  qed
  have "\<not> is_active fin" by (simp add: fin is_active_iff)
  then have nr: "\<not> rivals fin t \<and> \<not> rivals t fin" for t by (simp add: rivals_def)
  show ?thesis
  proof (rule store_okI, unfold d' set)
    show "distinct (map gs_ID (sessions (put_session fin d)))" using ids by simp
    show "distinct (map ev_ID (events d @ [ev]))" using store_okD(2) [OF ok] freshid by simp
    show "distinct (map ev_SessionID (events d @ [ev]))" using store_okD(3) [OF ok] fresh evid by simp
    show "session_ok (events d @ [ev]) t" if "t \<in> ?S" for t using that sess by blast
    show "event_ok reg (sessions (put_session fin d)) e" if "e \<in> set (events d @ [ev])" for e using that evs by blast
    show "t = t'" if "t \<in> ?S" "t' \<in> ?S" "rivals t t'" for t t'
      using that nr store_okD(6) [OF ok] by blast
  qed
qed

text \<open>Ending sessions without a score, and a new session.\<close>

lemma store_ok_abandon:
  assumes ok: "store_ok reg d" and hit: "\<And>s. hit s \<Longrightarrow> is_active s"
  shows "store_ok reg (d\<lparr>sessions := map (\<lambda>s. if hit s then abandon now s else s) (sessions d)\<rparr>)"
proof -
  define f :: "game_session \<Rightarrow> game_session" where "f = (\<lambda>s. if hit s then abandon now s else s)"
  have id_f: "gs_ID (f s) = gs_ID s" and from_f: "scored_from reg (f s) e = scored_from reg s e" for s e
    by (simp_all add: f_def abandon_def scored_from_def split: sum.split)
  have active_f: "f s = s" if "is_active (f s)" for s
    using that by (simp add: f_def abandon_def is_active_def split: if_splits)
  have ok_f: "session_ok (events d) (f s)" if s: "s \<in> set (sessions d)" for s
  proof (cases "hit s")
    case True
    then have "gs_ID s \<notin> ev_SessionID ` set (events d)" using no_event_of_active [OF ok s] hit by blast
    then show ?thesis using True store_okD(4) [OF ok s]
      by (simp add: f_def session_ok_def abandon_def StatusAbandoned_def [symmetric])
  qed (use store_okD(4) [OF ok s] in \<open>simp add: f_def\<close>)
  have "store_ok reg (d\<lparr>sessions := map f (sessions d)\<rparr>)"
  proof (rule store_okI)
    have "map gs_ID (map f (sessions d)) = map gs_ID (sessions d)" by (simp add: id_f)
    then show "distinct (map gs_ID (sessions (d\<lparr>sessions := map f (sessions d)\<rparr>)))"
      using store_okD(1) [OF ok] by (simp del: map_map)
    show "session_ok (events (d\<lparr>sessions := map f (sessions d)\<rparr>)) s"
      if "s \<in> set (sessions (d\<lparr>sessions := map f (sessions d)\<rparr>))" for s
      using that ok_f by auto
    show "event_ok reg (sessions (d\<lparr>sessions := map f (sessions d)\<rparr>)) e"
      if "e \<in> set (events (d\<lparr>sessions := map f (sessions d)\<rparr>))" for e
      using store_okD(5) [OF ok, of e] that by (auto simp: event_ok_def from_f)
    show "s = s'" if s: "s \<in> set (sessions (d\<lparr>sessions := map f (sessions d)\<rparr>))"
      "s' \<in> set (sessions (d\<lparr>sessions := map f (sessions d)\<rparr>))" "rivals s s'" for s s'
    proof -
      obtain t t' where t: "t \<in> set (sessions d)" "s = f t" "t' \<in> set (sessions d)" "s' = f t'" using s(1,2) by auto
      then show ?thesis using active_f [of t] active_f [of t'] store_okD(6) [OF ok t(1,3)] s(3)
        by (simp add: rivals_def)
    qed
  qed (use store_okD(2,3) [OF ok] in simp_all)
  then show ?thesis by (simp add: f_def)
qed

lemma store_ok_create:
  assumes ok: "store_ok reg d" and new: "CreateGameSession now i u g sd j dl d = (Inr row, d')"
    and free: "\<And>s. s \<in> set (sessions d) \<Longrightarrow> is_active s \<Longrightarrow> gs_UserID s = u \<Longrightarrow> gs_Game s \<noteq> g"
  shows "store_ok reg d'"
proof -
  note new = new [unfolded CreateGameSession_Inr]
  have d': "sessions d' = sessions d @ [row]" "events d' = events d" using new by (elim conjE, simp)+
  have i: "gs_ID row = i" "i \<notin> gs_ID ` set (sessions d)" using new by (elim conjE, simp)+
  have "i \<notin> ev_SessionID ` set (events d)"
    using ok i(2) by (force simp: store_ok_def event_ok_def scored_from_def)
  then have sess: "\<forall>s \<in> set (sessions d @ [row]). session_ok (events d) s"
    using ok new by (auto simp: store_ok_def session_ok_def)
  have evs: "\<forall>e \<in> set (events d). event_ok reg (sessions d @ [row]) e"
    using ok by (auto simp: store_ok_def event_ok_def)
  have "\<not> rivals row s \<and> \<not> rivals s row" if "s \<in> set (sessions d)" for s
    using free [OF that] new by (auto simp: rivals_def)
  then have riv: "\<forall>s \<in> set (sessions d @ [row]). \<forall>s' \<in> set (sessions d @ [row]). rivals s s' \<longrightarrow> s = s'"
    using ok by (auto simp: store_ok_def)
  show ?thesis using ok sess evs riv i unfolding store_ok_def d' by simp
qed

lemma store_ok_cong:
  "sessions d' = sessions d \<Longrightarrow> events d' = events d \<Longrightarrow> store_ok reg d \<Longrightarrow> store_ok reg d'"
  by (simp add: store_ok_def)

lemma store_ok_mark:
  assumes ok: "store_ok reg d"
  shows "store_ok reg (snd (MarkScoreEventProjected now i d))"
proof -
  define f :: "score_event \<Rightarrow> score_event" where "f = (\<lambda>e. if ev_ID e = i then e\<lparr>ev_ProjectedAt := Some now\<rparr> else e)"
  have f: "ev_ID (f e) = ev_ID e" "ev_SessionID (f e) = ev_SessionID e" "ev_Points (f e) = ev_Points e"
    "scored_from reg s (f e) = scored_from reg s e" for s e
    by (simp_all add: f_def scored_from_def split: sum.split)
  have maps: "map ev_ID (map f (events d)) = map ev_ID (events d)"
    "map ev_SessionID (map f (events d)) = map ev_SessionID (events d)"
    by (simp_all add: f)
  have ids: "ev_SessionID ` set (map f (events d)) = ev_SessionID ` set (events d)"
    by (metis maps(2) list.set_map)
  have "store_ok reg (d\<lparr>events := map f (events d)\<rparr>)"
  proof (rule store_okI)
    show "session_ok (events (d\<lparr>events := map f (events d)\<rparr>)) s"
      if "s \<in> set (sessions (d\<lparr>events := map f (events d)\<rparr>))" for s
      using store_okD(4) [OF ok, of s] that ids by (auto simp: session_ok_def simp del: set_map)
    show "event_ok reg (sessions (d\<lparr>events := map f (events d)\<rparr>)) e"
      if "e \<in> set (events (d\<lparr>events := map f (events d)\<rparr>))" for e
      using store_okD(5) [OF ok] that by (auto simp: event_ok_def f)
    show "s = s'" if s: "s \<in> set (sessions (d\<lparr>events := map f (events d)\<rparr>))"
      "s' \<in> set (sessions (d\<lparr>events := map f (events d)\<rparr>))" "rivals s s'" for s s'
      using store_okD(6) [OF ok, of s s'] s by simp
  qed (use maps store_okD(1-3) [OF ok] in \<open>simp_all del: map_map\<close>)
  then show ?thesis by (simp add: MarkScoreEventProjected_def f_def)
qed

section \<open>Transactions that commit\<close>

lemma game_call_Inr: "game_call r w = (Inr x, w') \<longleftrightarrow> r = Inr x \<and> w' = w"
  by (cases r) (auto simp: game_call_def map_error_def)

lemma game_call_Inl: "game_call r w = (Inl e, w') \<longleftrightarrow> (\<exists>g. r = Inl g \<and> e = ErrGame g) \<and> w' = w"
  by (cases r) (auto simp: game_call_def map_error_def)

lemma act_catch_Inr:
  "act_catch m h w = (Inr x, w') \<longleftrightarrow>
    m w = (Inr x, w') \<or> (\<exists>e w1. m w = (Inl e, w1) \<and> h e w1 = (Inr x, w'))"
  by (auto simp: act_catch_def split: prod.splits sum.splits)

lemma act_catch_Inl:
  "act_catch m h w = (Inl e, w') \<longleftrightarrow> (\<exists>e1 w1. m w = (Inl e1, w1) \<and> h e1 w1 = (Inl e, w'))"
  by (auto simp: act_catch_def split: prod.splits sum.splits)

lemma no_rows_as_Inr: "no_rows_as e m w = (Inr x, w') \<longleftrightarrow> m w = (Inr x, w')"
  by (simp add: no_rows_as_def act_catch_Inr)

lemma unique_as_Inr: "unique_as e m w = (Inr x, w') \<longleftrightarrow> m w = (Inr x, w')"
  by (simp add: unique_as_def act_catch_Inr)

lemmas committed = act_bind_Inr game_call_Inr no_rows_as_Inr unique_as_Inr

text \<open>What \<open>settle\<close> has written when it returns a score: the row it was given is finished.\<close>

lemma settle_Inr:
  assumes "settle c row df w = (Inr (fin, sc), w')"
  shows "\<exists>s raw ev. find_session (gs_ID row) (w_db w) = Some s \<and> is_active s
    \<and> e_Raw (d_engine df) (gs_State row) = Inr raw
    \<and> fin = s\<lparr>gs_Status := StatusFinished, gs_FinishedAt := Some (c_pg_now c)\<rparr>
    \<and> CreateScoreEvent (c_pg_now c) (gs_UserID row) (gs_ID row) (gs_Game row) raw (Points df raw)
        (put_session fin (w_db w)) = (Inr ev, w_db w')
    \<and> sc = scoreFrom ev df"
  using assms unfolding settle_def committed
  by (auto dest!: exec_Inr simp: FinishGameSession_Inr)

lemma move_tx_Inr:
  assumes "move_tx svc c u i mv w = (Inr (b, updated, view, out, sc), w')"
  shows "b \<and> (\<exists>row df j. find_session i (w_db w) = Some row \<and> gs_UserID row = u \<and> is_active row
    \<and> registry_Get (ss_registry svc) (gs_Game row) = Inr df
    \<and> e_Move (d_engine df) (gs_State row) mv (c_now c) = Inr (j, view, out)
    \<and> (let saved = row\<lparr>gs_State := j, gs_Moves := gs_Moves row + 1\<rparr>
       in if Done out
          then \<exists>w1 rec. w_db w1 = put_session saved (w_db w) \<and> settle c saved df w1 = (Inr (updated, rec), w') \<and> sc = Some rec
          else updated = saved \<and> w_db w' = put_session saved (w_db w) \<and> sc = None))"
proof -
  obtain row w1 where row: "exec (LockGameSession i) w = (Inr row, w1)"
    and own: "gs_UserID row = u" "is_active row"
    and rest: "act_bind (game_call (registry_Get (ss_registry svc) (gs_Game row))) (\<lambda>d.
       act_bind (game_call (e_Move (d_engine d) (gs_State row) mv (c_now c))) (\<lambda>(nextState, view, outcome).
       act_bind (exec (SaveGameSessionState i nextState)) (\<lambda>updated.
       if Done outcome
       then act_bind (settle c updated d) (\<lambda>(finished, recorded). ret (True, finished, view, outcome, Some recorded))
       else ret (True, updated, view, outcome, None)))) w1 = (Inr (b, updated, view, out, sc), w')"
    using assms unfolding move_tx_def act_bind_Inr [of "no_rows_as e m" for e m] no_rows_as_Inr is_active_iff
    by (fastforce split: if_splits)
  have found: "find_session i (w_db w) = Some row" "w_db w1 = w_db w"
    using exec_Inr [OF row] by (simp_all add: LockGameSession_Inr)
  show ?thesis
    using rest found own unfolding committed
    by (fastforce dest!: exec_Inr simp: SaveGameSessionState_Inr Let_def act_bind_Inr split: if_splits)
qed

lemma GetScoreEventBySession_Inr:
  "GetScoreEventBySession i d = (Inr ev, d') \<longleftrightarrow> find (\<lambda>e. ev_SessionID e = i) (events d) = Some ev \<and> d' = d"
  by (auto simp: GetScoreEventBySession_def row_of_def of_option_def split: option.splits)

lemma GetScoreEventBySession_Inl:
  "fst (GetScoreEventBySession i d) = Inl e \<longleftrightarrow> find (\<lambda>ev. ev_SessionID ev = i) (events d) = None \<and> e = ErrNoRows"
  by (auto simp: GetScoreEventBySession_def row_of_def of_option_def split: option.splits)

lemma scoreFor_same_db: "keeps same_db (scoreFor svc row)"
  unfolding scoreFor_def game_call_def by (intro same_db_rules) simp_all

lemma scoreFor_Inr:
  assumes "scoreFor svc row w = (Inr sc, w')"
  shows "sc = (if is_active row then None
      else map_option (\<lambda>ev. scoreFrom ev (projr (registry_Get (ss_registry svc) (gs_Game row))))
             (find (\<lambda>ev. ev_SessionID ev = gs_ID row) (events (w_db w))))
    \<and> w_db w' = w_db w"
proof
  show "w_db w' = w_db w" using same_dbD [OF scoreFor_same_db, of svc row w] assms by simp
  show "sc = (if is_active row then None
      else map_option (\<lambda>ev. scoreFrom ev (projr (registry_Get (ss_registry svc) (gs_Game row))))
             (find (\<lambda>ev. ev_SessionID ev = gs_ID row) (events (w_db w))))"
  proof (cases "is_active row")
    case True
    then show ?thesis using assms by (simp add: scoreFor_def is_active_iff)
  next
    case False
    then obtain found w1 where found: "act_catch (act_bind (exec (GetScoreEventBySession (gs_ID row))) (\<lambda>event. ret (Some event)))
             (\<lambda>e. if e = ErrNoRows then ret None else fail e) w = (Inr found, w1)"
      and rest: "(case found of None \<Rightarrow> ret None
           | Some event \<Rightarrow>
               act_bind (game_call (registry_Get (ss_registry svc) (gs_Game row))) (\<lambda>d.
               ret (Some (scoreFrom event d)))) w1 = (Inr sc, w')"
      using assms unfolding scoreFor_def is_active_iff by (auto simp: act_bind_Inr)
    have "found = find (\<lambda>ev. ev_SessionID ev = gs_ID row) (events (w_db w))"
      using found
      by (auto simp: act_catch_Inr act_bind_Inr act_bind_Inl GetScoreEventBySession_Inr GetScoreEventBySession_Inl
          dest!: exec_Inr exec_Inl split: if_splits)
    with rest False show ?thesis by (auto simp: act_bind_Inr game_call_Inr split: option.splits)
  qed
qed

lemma finish_tx_Inr:
  assumes "finish_tx svc c u i w = (Inr (b, fresh, row', view, sc), w')"
  shows "b = fresh \<and> (\<exists>row df. find_session i (w_db w) = Some row \<and> gs_UserID row = u
    \<and> registry_Get (ss_registry svc) (gs_Game row) = Inr df \<and> e_View (d_engine df) (gs_State row) = Inr view
    \<and> (if is_active row
       then fresh \<and> (\<exists>w1. w_db w1 = w_db w \<and> settle c row df w1 = (Inr (row', sc), w'))
       else \<not> fresh \<and> row' = row \<and> w_db w' = w_db w
         \<and> (\<exists>ev. find (\<lambda>ev. ev_SessionID ev = i) (events (w_db w)) = Some ev \<and> sc = scoreFrom ev df)))"
proof -
  obtain row w1 where row: "exec (LockGameSession i) w = (Inr row, w1)"
    and own: "gs_UserID row = u"
    and rest: "act_bind (game_call (registry_Get (ss_registry svc) (gs_Game row))) (\<lambda>d.
       act_bind (game_call (e_View (d_engine d) (gs_State row))) (\<lambda>view.
       if gs_Status row \<noteq> StatusActive
       then act_bind (scoreFor svc row) (\<lambda>score.
              case score of None \<Rightarrow> fail ErrFinished | Some sc \<Rightarrow> ret (False, False, row, view, sc))
       else act_bind (settle c row d) (\<lambda>(finished, recorded). ret (True, True, finished, view, recorded)))) w1
      = (Inr (b, fresh, row', view, sc), w')"
    using assms unfolding finish_tx_def act_bind_Inr [of "no_rows_as e m" for e m] no_rows_as_Inr is_active_iff
    by (fastforce split: if_splits)
  have found: "find_session i (w_db w) = Some row" "w_db w1 = w_db w"
    using exec_Inr [OF row] by (simp_all add: LockGameSession_Inr)
  note i = conjunct2 [OF find_session_Some [OF found(1)]]
  obtain df v where g: "registry_Get (ss_registry svc) (gs_Game row) = Inr df" "e_View (d_engine df) (gs_State row) = Inr v"
    and tail: "(if gs_Status row \<noteq> StatusActive
       then act_bind (scoreFor svc row) (\<lambda>score.
              case score of None \<Rightarrow> fail ErrFinished | Some sc \<Rightarrow> ret (False, False, row, v, sc))
       else act_bind (settle c row df) (\<lambda>(finished, recorded). ret (True, True, finished, v, recorded))) w1
      = (Inr (b, fresh, row', view, sc), w')"
    using rest unfolding act_bind_Inr [of "game_call r" for r] game_call_Inr by blast
  show ?thesis
  proof (cases "is_active row")
    case True
    then show ?thesis using tail found own g unfolding is_active_iff
      by (auto simp: act_bind_Inr)
  next
    case False
    then obtain score w2 where sc: "scoreFor svc row w1 = (Inr score, w2)"
      and "(case score of None \<Rightarrow> fail ErrFinished | Some sc \<Rightarrow> ret (False, False, row, v, sc)) w2
        = (Inr (b, fresh, row', view, sc), w')"
      using tail unfolding is_active_iff by (auto simp: act_bind_Inr)
    then have "score = Some sc" "w2 = w'" "\<not> b" "\<not> fresh" "row' = row" "view = v"
      by (auto split: option.splits)
    then show ?thesis using scoreFor_Inr [OF sc] False found own g i by auto
  qed
qed

text \<open>What lasts across the statements.\<close>

lemma lasts_events:
  assumes "\<And>e. e \<in> set (events d) \<Longrightarrow> \<exists>e' \<in> set (events d'). same_score e e'" and "sessions d' = sessions d"
  shows "lasts d d'"
  using assms by (simp add: lasts_def)

lemma lasts_put_session:
  assumes "distinct (map gs_ID (sessions d))" and "s \<in> set (sessions d)" and "is_active s"
    and "gs_ID row = gs_ID s"
  shows "lasts d (put_session row d)"
  unfolding lasts_def set_put_session [OF assms(1,2,4)] using assms(3) same_score_refl
  by (simp only: put_session_events) blast

lemma lasts_abandon:
  assumes "\<And>s. hit s \<Longrightarrow> is_active s"
  shows "lasts d (d\<lparr>sessions := map (\<lambda>s. if hit s then abandon now s else s) (sessions d)\<rparr>)"
proof -
  have "s \<in> (\<lambda>s. if hit s then abandon now s else s) ` set (sessions d)" if "s \<in> set (sessions d)" "\<not> is_active s" for s
    using that assms by (metis (mono_tags, lifting) image_eqI)
  then show ?thesis by (auto simp: lasts_def simp del: if_image_distrib intro: same_score_refl)
qed

lemma lasts_mark: "lasts d (snd (MarkScoreEventProjected now i d))"
proof (rule lasts_events)
  let ?f = "\<lambda>e. if ev_ID e = i then e\<lparr>ev_ProjectedAt := Some now\<rparr> else e"
  fix e assume "e \<in> set (events d)"
  then have "?f e \<in> set (events (snd (MarkScoreEventProjected now i d)))"
    unfolding MarkScoreEventProjected_def by (simp del: if_image_distrib)
  moreover have "same_score e (?f e)" by (simp add: same_score_def)
  ultimately show "\<exists>e' \<in> set (events (snd (MarkScoreEventProjected now i d))). same_score e e'" by blast
qed (simp add: MarkScoreEventProjected_def)

lemma lasts_trans: "lasts d e \<Longrightarrow> lasts e f \<Longrightarrow> lasts d f"
  by (rule rows.L_trans)

lemma lasts_more: "events d' = events d @ es \<Longrightarrow> sessions d' = sessions d @ ss \<Longrightarrow> lasts d d'"
  by (auto simp: lasts_def intro: same_score_refl)

lemma lasts_score: "CreateScoreEvent now u i g raw pts d = (Inr ev, d') \<Longrightarrow> lasts d d'"
  unfolding CreateScoreEvent_Inr by (elim conjE, rule lasts_more [of _ _ "[ev]" "[]"]) simp_all

lemma lasts_create: "CreateGameSession now i u g sd j dl d = (Inr row, d') \<Longrightarrow> lasts d d'"
  unfolding CreateGameSession_Inr by (elim conjE, rule lasts_more [of _ _ "[]" "[row]"]) simp_all

text \<open>The rows a score is settled in: the invariant, and what lasts.\<close>

lemma settle_evolves:
  assumes ok: "store_ok reg d" and s: "s \<in> set (sessions d)" "is_active s"
    and g: "registry_Get reg (gs_Game s) = Inr df" and raw: "e_Raw (d_engine df) (gs_State s) = Inr raw"
    and fin: "fin = s\<lparr>gs_Status := StatusFinished, gs_FinishedAt := Some now\<rparr>"
    and ev: "CreateScoreEvent now' (gs_UserID s) (gs_ID s) (gs_Game s) raw (Points df raw) (put_session fin d) = (Inr ev, d')"
  shows "store_ok reg d' \<and> lasts d d'"
proof
  show "store_ok reg d'" by (rule store_ok_settle [OF assms])
  have "lasts d (put_session fin d)" by (rule lasts_put_session [OF store_ok_ids [OF ok] s]) (simp add: fin)
  then show "lasts d d'" using lasts_score [OF ev] by (rule lasts_trans)
qed

section \<open>The operations keep the invariant\<close>

lemma move_tx_keeps:
  assumes ok: "store_ok (ss_registry svc) (w_db w)" and run: "move_tx svc c u i mv w = (Inr (b, x), w')"
  shows "store_ok (ss_registry svc) (w_db w') \<and> lasts (w_db w) (w_db w')"
proof -
  obtain updated view out sc where x: "x = (updated, view, out, sc)" by (cases x)
  obtain row df j where row: "find_session i (w_db w) = Some row" "is_active row"
      "registry_Get (ss_registry svc) (gs_Game row) = Inr df"
    and out: "let saved = row\<lparr>gs_State := j, gs_Moves := gs_Moves row + 1\<rparr>
       in if Done out
          then \<exists>w1 rec. w_db w1 = put_session saved (w_db w) \<and> settle c saved df w1 = (Inr (updated, rec), w') \<and> sc = Some rec
          else updated = saved \<and> w_db w' = put_session saved (w_db w) \<and> sc = None"
    using move_tx_Inr [OF run [unfolded x]] by blast
  let ?saved = "row\<lparr>gs_State := j, gs_Moves := gs_Moves row + 1\<rparr>"
  note mem = find_session_Some [OF row(1)]
  have moves: "0 \<le> gs_Moves row" using store_okD(4) [OF ok] mem by (auto simp: session_ok_def)
  have ok1: "store_ok (ss_registry svc) (put_session ?saved (w_db w))"
    using mem moves by (intro store_ok_put_active [OF ok _ row(2)]) simp_all
  have l1: "lasts (w_db w) (put_session ?saved (w_db w))"
    by (rule lasts_put_session [OF store_ok_ids [OF ok] _ row(2)]) (use mem in simp_all)
  show ?thesis
  proof (cases "Done out")
    case False
    then show ?thesis using out ok1 l1 by (simp add: Let_def)
  next
    case True
    then obtain w1 rec where w1: "w_db w1 = put_session ?saved (w_db w)"
      and st: "settle c ?saved df w1 = (Inr (updated, rec), w')" using out by (auto simp: Let_def)
    have find1: "find_session i (put_session ?saved (w_db w)) = Some ?saved"
      using find_put_session [OF store_ok_ids [OF ok], of row ?saved i] mem by simp
    obtain raw ev where r: "e_Raw (d_engine df) j = Inr raw"
      and fin: "updated = ?saved\<lparr>gs_Status := StatusFinished, gs_FinishedAt := Some (c_pg_now c)\<rparr>"
      and ev: "CreateScoreEvent (c_pg_now c) (gs_UserID row) (gs_ID row) (gs_Game row) raw (Points df raw)
        (put_session updated (put_session ?saved (w_db w))) = (Inr ev, w_db w')"
      using settle_Inr [OF st] find1 w1 mem by auto
    have "store_ok (ss_registry svc) (w_db w') \<and> lasts (put_session ?saved (w_db w)) (w_db w')"
      by (rule settle_evolves [OF ok1, of ?saved df raw updated "c_pg_now c" "c_pg_now c" ev])
        (use find_session_Some [OF find1] row(2,3) r fin ev in \<open>simp_all add: is_active_def\<close>)
    then show ?thesis using lasts_trans [OF l1] by blast
  qed
qed

lemma finish_tx_keeps:
  assumes ok: "store_ok (ss_registry svc) (w_db w)" and run: "finish_tx svc c u i w = (Inr (b, x), w')"
  shows "store_ok (ss_registry svc) (w_db w') \<and> lasts (w_db w) (w_db w')"
proof -
  obtain fresh row' view sc where x: "x = (fresh, row', view, sc)" by (cases x)
  obtain row df where row: "find_session i (w_db w) = Some row" "registry_Get (ss_registry svc) (gs_Game row) = Inr df"
    and out: "if is_active row
       then fresh \<and> (\<exists>w1. w_db w1 = w_db w \<and> settle c row df w1 = (Inr (row', sc), w'))
       else \<not> fresh \<and> row' = row \<and> w_db w' = w_db w
         \<and> (\<exists>ev. find (\<lambda>ev. ev_SessionID ev = i) (events (w_db w)) = Some ev \<and> sc = scoreFrom ev df)"
    using finish_tx_Inr [OF run [unfolded x]] by blast
  note mem = find_session_Some [OF row(1)]
  show ?thesis
  proof (cases "is_active row")
    case False
    then show ?thesis using out ok rows.L_refl by simp
  next
    case True
    then obtain w1 where w1: "w_db w1 = w_db w" and st: "settle c row df w1 = (Inr (row', sc), w')" using out by auto
    obtain raw ev where r: "e_Raw (d_engine df) (gs_State row) = Inr raw"
      and fin: "row' = row\<lparr>gs_Status := StatusFinished, gs_FinishedAt := Some (c_pg_now c)\<rparr>"
      and ev: "CreateScoreEvent (c_pg_now c) (gs_UserID row) (gs_ID row) (gs_Game row) raw (Points df raw)
        (put_session row' (w_db w)) = (Inr ev, w_db w')"
      using settle_Inr [OF st] row(1) w1 mem by auto
    show ?thesis
      by (rule settle_evolves [OF ok _ True row(2) r fin ev]) (use mem in simp)
  qed
qed

lemma start_tx_keeps:
  assumes ok: "store_ok reg d"
    and aban: "AbandonActiveSessions now u g d = (Inr n, d1)"
    and new: "CreateGameSession now i u g sd j dl d1 = (Inr row, d2)"
  shows "store_ok reg d2 \<and> lasts d d2"
proof -
  let ?hit = "\<lambda>s. gs_UserID s = u \<and> gs_Game s = g \<and> is_active s"
  have d1: "d1 = d\<lparr>sessions := map (\<lambda>s. if ?hit s then abandon now s else s) (sessions d)\<rparr>"
    using aban by (simp add: AbandonActiveSessions_def Let_def)
  have "store_ok reg d1" unfolding d1 by (rule store_ok_abandon [OF ok]) simp
  moreover have "gs_Game s \<noteq> g" if s: "s \<in> set (sessions d1)" "is_active s" "gs_UserID s = u" for s
  proof -
    obtain t where t: "s = (if ?hit t then abandon now t else t)"
      using s(1) unfolding d1 by force
    have "\<not> is_active (abandon now t)" by (simp add: abandon_def is_active_def)
    then have "\<not> ?hit t" using t s(2) by metis
    moreover from this have "s = t" using t by metis
    ultimately show ?thesis using s(2,3) by blast
  qed
  ultimately have "store_ok reg d2" by (rule store_ok_create [OF _ new])
  moreover have "lasts d d1" unfolding d1 by (rule lasts_abandon) simp
  ultimately show ?thesis using lasts_trans lasts_create [OF new] by blast
qed

text \<open>Every operation, as a composition of statements and transactions.\<close>

lemma AbandonStale_evolves:
  "store_ok reg d \<Longrightarrow> store_ok reg (snd (AbandonStaleSessions now before d)) \<and> lasts d (snd (AbandonStaleSessions now before d))"
  unfolding AbandonStaleSessions_def Let_def snd_conv by (intro conjI store_ok_abandon lasts_abandon) simp_all

lemma mark_evolves:
  "store_ok reg d \<Longrightarrow> store_ok reg (snd (MarkScoreEventProjected now i d)) \<and> lasts d (snd (MarkScoreEventProjected now i d))"
  by (intro conjI store_ok_mark lasts_mark)

lemma game_call_same_db: "keeps same_db (game_call r)"
  unfolding game_call_def by (intro same_db_rules)

lemma new_seed_same_db: "keeps same_db (new_seed c)"
  unfolding new_seed_def by (intro same_db_rules)

lemma hold_same_db: "keeps same_db (hold c t)"
  unfolding hold_def by (intro same_db_rules)

lemma no_rows_as_same_db: "keeps same_db m \<Longrightarrow> keeps same_db (no_rows_as e m)"
  unfolding no_rows_as_def by (intro same_db_rules)

lemma session_Get_same_db: "keeps same_db (session_Get svc u i)"
  unfolding session_Get_def
  by (intro same_db_rules no_rows_as_same_db game_call_same_db scoreFor_same_db) simp_all

lemmas reads_rows = rows.evolves_same_db [OF game_call_same_db] rows.evolves_same_db [OF new_seed_same_db]
  rows.evolves_same_db [OF hold_same_db] rows.evolves_same_db [OF session_Get_same_db]

lemma Start_evolves: "keeps rows.evolves (Start svc c u g)"
  unfolding Start_def
proof (intro rows.evolution_rules reads_rows)
  fix d seed x state y view deadline and w :: "(database, 'a) world" and row w'
  assume "store_ok NewRegistry (w_db w)"
    and "act_bind (exec (AbandonActiveSessions (c_pg_now c) u g)) (\<lambda>_.
        let deadlineAt = (if is_zero deadline then None else Some deadline)
        in act_bind (exec (CreateGameSession (c_pg_now c) (c_uuid c) u g seed state deadlineAt)) (\<lambda>row.
           ret (True, row))) w = (Inr (True, row), w')"
  then show "store_ok NewRegistry (w_db w') \<and> lasts (w_db w) (w_db w')"
    by (auto simp: act_bind_Inr Let_def dest!: exec_Inr dest: start_tx_keeps)
qed

text \<open>The contract of the service with its projector, which publishes and leaves the rows alone.\<close>

locale score_service =
  fixes svc :: "'r session_service"
  assumes registry_new: "ss_registry svc = NewRegistry"
    and projector_rows: "ss_projector svc = Some submit \<Longrightarrow> keeps same_db (submit u g p t)"
begin

lemma project_evolves: "keeps rows.evolves (project svc c u sc)"
  unfolding project_def
  by (intro rows.evolution_rules mark_evolves) (rule rows.evolves_same_db, rule projector_rows)

lemma session_Move_evolves: "keeps rows.evolves (session_Move svc c u i mv)"
  unfolding session_Move_def
  by (intro rows.evolution_rules reads_rows project_evolves)
    (use move_tx_keeps [of svc] in \<open>simp add: registry_new\<close>)

lemma Finish_evolves: "keeps rows.evolves (Finish svc c u i)"
  unfolding Finish_def
  by (intro rows.evolution_rules reads_rows project_evolves)
    (use finish_tx_keeps [of svc] in \<open>simp add: registry_new\<close>)

end

end
