(* ===== verification/Session_Spec.thy ===== *)
theory Session_Spec
  imports Session_Rules
begin

text \<open>
  What the session service promises to its callers, over every sequence of operations and every
  schedule of failing calls: \<open>serves\<close> is one operation on the shared rows, whoever asks for it. The
  service of the API publishes to the boards of \<open>internal/leaderboard\<close>; the background worker marks
  scores and abandons stale sessions. Operations are transactions of Postgres, so they interleave
  between transactions; \<open>start_race\<close> looks inside two of them.
\<close>

section \<open>One operation\<close>

inductive serves :: "'r session_service \<Rightarrow> 'r service_world \<Rightarrow> 'r service_world \<Rightarrow> bool"
  for svc :: "'r session_service" where
  started: "Start svc c u g w = (r, w') \<Longrightarrow> serves svc w w'"
| read: "session_Get svc u i w = (r, w') \<Longrightarrow> serves svc w w'"
| moved: "session_Move svc c u i mv w = (r, w') \<Longrightarrow> serves svc w w'"
| finished: "Finish svc c u i w = (r, w') \<Longrightarrow> serves svc w w'"
| marked: "exec (MarkScoreEventProjected now k) w = (r1, w') \<Longrightarrow> serves svc w w'"
| swept: "exec (AbandonStaleSessions now before) w = (r2, w') \<Longrightarrow> serves svc w w'"
| elsewhere: "sessions (w_db w') = sessions (w_db w) \<Longrightarrow> events (w_db w') = events (w_db w) \<Longrightarrow> serves svc w w'"

inductive_cases servesE: "serves svc w w'"

text \<open>The service as \<open>cmd/api\<close> assembles it.\<close>

definition api_service :: "'r board \<Rightarrow> 'r session_service" where
  "api_service b = \<lparr>ss_registry = NewRegistry, ss_projector = Some (Submit b)\<rparr>"

definition quiet_board :: "'r redis_ops \<Rightarrow> time \<Rightarrow> 'r board" where
  "quiet_board R t = \<lparr>b_redis = R, b_now = t, b_announcer = None\<rparr>"

lemma announce_periods_same_db:
  assumes "\<And>s p. keeps same_db (publish s p)"
  shows "keeps same_db (announce_periods publish g f ps)"
proof (induction ps)
  case (Cons p ps)
  then show ?case using assms unfolding announce_periods.simps announce_scope_def by (intro same_db_rules)
qed (simp add: keeps_def same_db_def)

lemma Submit_same_db:
  assumes "\<And>publish s p. b_announcer b = Some publish \<Longrightarrow> keeps same_db (publish s p)"
  shows "keeps same_db (Submit b u g points t)"
  unfolding Submit_def announce_def Let_def
  by (intro same_db_rules announce_periods_same_db) (rule assms)

interpretation quiet_api: score_service "api_service (quiet_board R t)"
proof
  show "ss_registry (api_service (quiet_board R t)) = NewRegistry" by (simp add: api_service_def)
  fix submit u g p t'
  assume "ss_projector (api_service (quiet_board R t)) = Some submit"
  then have "submit = Submit (quiet_board R t)" by (simp add: api_service_def)
  then show "keeps same_db (submit u g p t')"
    using Submit_same_db [of "quiet_board R t"] by (simp add: quiet_board_def)
qed

context score_service
begin

lemma serves_evolves:
  assumes "serves svc w w'"
  shows "rows.evolves w w'"
  using assms
proof cases
  case (started c u g r)
  then show ?thesis using keepsD [OF Start_evolves] by blast
next
  case (read u i r)
  then show ?thesis using keepsD [OF rows.evolves_same_db [OF session_Get_same_db]] by blast
next
  case (moved c u i mv r)
  then show ?thesis using keepsD [OF session_Move_evolves] by blast
next
  case (finished c u i r)
  then show ?thesis using keepsD [OF Finish_evolves] by blast
next
  case (marked now k r1)
  show ?thesis by (rule keepsD [OF rows.evolves_exec marked]) (rule mark_evolves)
next
  case (swept now before r2)
  show ?thesis by (rule keepsD [OF rows.evolves_exec swept]) (rule AbandonStale_evolves)
next
  case elsewhere
  then show ?thesis by (auto simp: rows.evolves_def store_ok_def lasts_def intro: same_score_refl)
qed

lemma all_serves_evolves: "(serves svc)\<^sup>*\<^sup>* w w' \<Longrightarrow> rows.evolves w w'"
proof (induction rule: rtranclp_induct)
  case base
  then show ?case by (rule rows.evolves_refl)
next
  case (step v w')
  then show ?case using serves_evolves rows.evolves_trans by blast
qed

end

section \<open>Calls that do not fail\<close>

lemma in_tx_calm:
  assumes "w_faults w = []" and "body w = (r, w')" and "w_faults w' = []"
  shows "in_tx body w =
    (case r of Inl e \<Rightarrow> (Inl e, w'\<lparr>w_db := w_db w\<rparr>)
     | Inr (c, x) \<Rightarrow> (Inr x, if c then w' else w'\<lparr>w_db := w_db w\<rparr>))"
  using assms by (auto simp: in_tx_def split: sum.split prod.split bool.split)

lemma project_swallows: "\<exists>pl w'. project svc c u sc w = (Inr pl, w')"
  by (auto simp: project_def act_bind_def act_catch_def split: option.split sum.split prod.split)

lemma project_never_fails: "project svc c u sc w \<noteq> (Inl e, w')"
  using project_swallows [of svc c u sc w] by auto

lemmas calm_simps = act_bind_def act_catch_def no_rows_as_def unique_as_def game_call_def exec_NoFault map_error_def
  LockGameSession_def GetGameSession_def row_of_def of_option_def Let_def

lemma scoreFor_calm:
  assumes "w_faults w = []" and "\<not> is_active s" and "registry_Get (ss_registry svc) (gs_Game s) = Inr df"
    and "find (\<lambda>e. ev_SessionID e = gs_ID s) (events (w_db w)) = Some ev"
  shows "scoreFor svc s w = (Inr (Some (scoreFrom ev df)), w)"
  using assms by (simp add: scoreFor_def calm_simps GetScoreEventBySession_def is_active_iff)

text \<open>Finishing a session that has ended returns the score that is stored, and writes nothing.\<close>

lemma Finish_again:
  assumes calm: "w_faults w = []" and found: "find_session i (w_db w) = Some s" "gs_UserID s = u" "\<not> is_active s"
    and game: "registry_Get (ss_registry svc) (gs_Game s) = Inr df" "e_View (d_engine df) (gs_State s) = Inr v"
    and ev: "find (\<lambda>e. ev_SessionID e = i) (events (w_db w)) = Some ev"
  shows "Finish svc c u i w = (Inr (sessionFrom s v (Some (scoreFrom ev df))), w)"
proof -
  have i: "gs_ID s = i" using find_session_Some [OF found(1)] by blast
  have "scoreFor svc s w = (Inr (Some (scoreFrom ev df)), w)"
    using scoreFor_calm [OF calm found(3) game(1)] ev i by simp
  then have "finish_tx svc c u i w = (Inr (False, False, s, v, scoreFrom ev df), w)"
    using calm found game by (simp add: finish_tx_def calm_simps is_active_iff)
  then show ?thesis
    using in_tx_calm [OF calm _ calm, of "finish_tx svc c u i"] by (simp add: Finish_def act_bind_def)
qed

text \<open>Finishing an active session without a failing statement records its score.\<close>

lemma settle_calm:
  assumes calm: "w_faults w = []" and found: "find_session (gs_ID s) (w_db w) = Some s" "is_active s"
    and fresh: "gs_ID s \<notin> ev_SessionID ` set (events (w_db w))" and user: "gs_UserID s \<in> us_ID ` set (users (w_db w))"
    and raw: "e_Raw (d_engine df) (gs_State s) = Inr raw"
  shows "\<exists>fin ev d'. settle c s df w = (Inr (fin, scoreFrom ev df), w\<lparr>w_db := d'\<rparr>)
    \<and> events d' = events (w_db w) @ [ev] \<and> ev_SessionID ev = gs_ID s \<and> gs_UserID fin = gs_UserID s"
proof -
  let ?fin = "s\<lparr>gs_Status := StatusFinished, gs_FinishedAt := Some (c_pg_now c)\<rparr>"
  have fin: "FinishGameSession (c_pg_now c) (gs_ID s) (w_db w) = (Inr ?fin, put_session ?fin (w_db w))"
    using found by (simp add: FinishGameSession_def StatusFinished_def Let_def)
  have mem: "gs_ID s \<in> gs_ID ` set (sessions (w_db w))" using find_session_Some [OF found(1)] by blast
  have pts: "0 \<le> Points df raw" "Points df raw \<le> 10000"
    using Points_bounds [of df raw] by (simp_all add: MaxPoints_def)
  define ev where "ev = \<lparr>ev_ID = next_id (map ev_ID (events (w_db w))), ev_UserID = gs_UserID s, ev_SessionID = gs_ID s,
      ev_Game = gs_Game s, ev_Raw = raw, ev_Points = Points df raw, ev_AchievedAt = c_pg_now c, ev_ProjectedAt = None\<rparr>"
  define d' where "d' = put_session ?fin (w_db w)\<lparr>events := events (w_db w) @ [ev]\<rparr>"
  have new: "CreateScoreEvent (c_pg_now c) (gs_UserID s) (gs_ID s) (gs_Game s) raw (Points df raw)
      (put_session ?fin (w_db w)) = (Inr ev, d')"
    unfolding CreateScoreEvent_Inr using pts fresh user mem by (simp add: ev_def d'_def)
  have "settle c s df w = (Inr (?fin, scoreFrom ev df), w\<lparr>w_db := d'\<rparr>)"
    using calm by (simp add: settle_def calm_simps raw fin new)
  then show ?thesis by (intro exI [of _ ?fin] exI [of _ ev] exI [of _ d']) (simp add: d'_def ev_def)
qed

lemma Finish_first:
  assumes calm: "w_faults w = []" and found: "find_session i (w_db w) = Some s" "gs_UserID s = u" "is_active s"
    and fresh: "i \<notin> ev_SessionID ` set (events (w_db w))" and user: "u \<in> us_ID ` set (users (w_db w))"
    and game: "registry_Get (ss_registry svc) (gs_Game s) = Inr df" "e_View (d_engine df) (gs_State s) = Inr v"
      "e_Raw (d_engine df) (gs_State s) = Inr raw"
  shows "\<exists>r w' ev. Finish svc c u i w = (Inr r, w') \<and> se_Score r = Some (scoreFrom ev df) \<and> ev_SessionID ev = i"
proof -
  have i: "gs_ID s = i" using find_session_Some [OF found(1)] by blast
  obtain fin ev d' where st: "settle c s df w = (Inr (fin, scoreFrom ev df), w\<lparr>w_db := d'\<rparr>)" and ev: "ev_SessionID ev = gs_ID s"
    using settle_calm [OF calm, of s df raw c] found fresh user game(3) i by auto
  have "finish_tx svc c u i w = (Inr (True, True, fin, v, scoreFrom ev df), w\<lparr>w_db := d'\<rparr>)"
    using calm found game st by (simp add: finish_tx_def calm_simps is_active_iff)
  then have "in_tx (finish_tx svc c u i) w = (Inr (True, fin, v, scoreFrom ev df), w\<lparr>w_db := d'\<rparr>)"
    using in_tx_calm [OF calm, of "finish_tx svc c u i"] calm by simp
  moreover obtain pl w' where "project svc c (gs_UserID fin) (Some (scoreFrom ev df)) (w\<lparr>w_db := d'\<rparr>) = (Inr pl, w')"
    using project_swallows by metis
  ultimately show ?thesis using ev i by (auto simp: Finish_def act_bind_def sessionFrom_def)
qed

section \<open>A recorded score\<close>

text \<open>The session has ended, its game can show it, and its score is stored.\<close>

definition recorded :: "database \<Rightarrow> int \<Rightarrow> uuid \<Rightarrow> score \<Rightarrow> bool" where
  "recorded d u i sc \<longleftrightarrow>
     (\<exists>s \<in> set (sessions d). \<exists>e \<in> set (events d). gs_ID s = i \<and> gs_UserID s = u \<and> \<not> is_active s \<and> ev_SessionID e = i
       \<and> (\<exists>df v. registry_Get NewRegistry (gs_Game s) = Inr df \<and> e_View (d_engine df) (gs_State s) = Inr v
            \<and> sc = scoreFrom e df))"

lemma find_event_eq:
  assumes "distinct (map ev_SessionID es)" and "e \<in> set es"
  shows "find (\<lambda>x. ev_SessionID x = ev_SessionID e) es = Some e"
  using assms by (induction es) (auto simp: image_iff)

lemma one_of_key: "distinct (map f xs) \<Longrightarrow> x \<in> set xs \<Longrightarrow> f x = k \<Longrightarrow> length (filter (\<lambda>y. f y = k) xs) = 1"
proof (induction xs)
  case (Cons a xs)
  have "f a = k \<Longrightarrow> filter (\<lambda>y. f y = k) xs = []" using Cons.prems(1) by (auto simp: filter_empty_conv image_iff)
  then show ?case using Cons by (cases "f a = k") auto
qed simp

lemma scoreFrom_same: "same_score e e' \<Longrightarrow> scoreFrom e' df = scoreFrom e df \<and> ev_SessionID e' = ev_SessionID e"
  unfolding same_score_def scoreFrom_def
  by (cases e; cases e') simp

lemma recorded_lasts:
  assumes "recorded d u i sc" and "lasts d d'"
  shows "recorded d' u i sc"
proof -
  obtain s e df v where s: "s \<in> set (sessions d)" "e \<in> set (events d)" "gs_ID s = i" "gs_UserID s = u" "\<not> is_active s"
      "ev_SessionID e = i" "registry_Get NewRegistry (gs_Game s) = Inr df" "e_View (d_engine df) (gs_State s) = Inr v"
      "sc = scoreFrom e df"
    using assms(1) unfolding recorded_def by blast
  have "s \<in> set (sessions d')" using assms(2) s(1,5) unfolding lasts_def by blast
  moreover obtain e' where "e' \<in> set (events d')" "same_score e e'" using assms(2) s(2) unfolding lasts_def by blast
  ultimately show ?thesis unfolding recorded_def using s scoreFrom_same [of e e' df] by metis
qed

context score_service
begin

lemma Finish_recorded:
  assumes ok: "store_ok NewRegistry (w_db w)" and rec: "recorded (w_db w) u i sc" and calm: "w_faults w = []"
  shows "\<exists>s2. Finish svc c u i w = (Inr s2, w) \<and> se_Score s2 = Some sc"
proof -
  obtain s e df v where s: "s \<in> set (sessions (w_db w))" "e \<in> set (events (w_db w))" "gs_ID s = i" "gs_UserID s = u"
      "\<not> is_active s" "ev_SessionID e = i" "registry_Get NewRegistry (gs_Game s) = Inr df"
      "e_View (d_engine df) (gs_State s) = Inr v" "sc = scoreFrom e df"
    using rec unfolding recorded_def by blast
  have "find_session i (w_db w) = Some s" using find_session_eq [OF store_okD(1) [OF ok] s(1)] s(3) by simp
  moreover have "find (\<lambda>e. ev_SessionID e = i) (events (w_db w)) = Some e"
    using find_event_eq [OF store_okD(3) [OF ok] s(2)] s(6) by simp
  ultimately have "Finish svc c u i w = (Inr (sessionFrom s v (Some (scoreFrom e df))), w)"
    using s registry_new by (intro Finish_again [OF calm]) simp_all
  then show ?thesis using s(9) by (simp add: sessionFrom_def)
qed

text \<open>What the transaction of \<open>Finish\<close> leaves when it returns a score.\<close>

lemma finish_tx_records:
  assumes ok: "store_ok NewRegistry (w_db w)" and run: "finish_tx svc c u i w = (Inr (b, fresh, row', view, sc), w')"
  shows "recorded (if b then w_db w' else w_db w) u i sc"
proof -
  obtain row df where row: "find_session i (w_db w) = Some row" "gs_UserID row = u"
      "registry_Get NewRegistry (gs_Game row) = Inr df" "e_View (d_engine df) (gs_State row) = Inr view"
    and b: "b = fresh"
    and out: "if is_active row
       then fresh \<and> (\<exists>w1. w_db w1 = w_db w \<and> settle c row df w1 = (Inr (row', sc), w'))
       else \<not> fresh \<and> row' = row \<and> w_db w' = w_db w
         \<and> (\<exists>ev. find (\<lambda>ev. ev_SessionID ev = i) (events (w_db w)) = Some ev \<and> sc = scoreFrom ev df)"
    using finish_tx_Inr [OF run] unfolding registry_new by blast
  note mem = find_session_Some [OF row(1)]
  show ?thesis
  proof (cases "is_active row")
    case False
    then obtain ev where "find (\<lambda>ev. ev_SessionID ev = i) (events (w_db w)) = Some ev" "sc = scoreFrom ev df" "\<not> b"
      using out b by auto
    moreover from this have "ev \<in> set (events (w_db w))" "ev_SessionID ev = i" by (auto simp: find_Some_iff)
    ultimately show ?thesis using mem row False unfolding recorded_def by auto
  next
    case True
    then obtain w1 where w1: "w_db w1 = w_db w" and st: "settle c row df w1 = (Inr (row', sc), w')" and "b" using out b by auto
    obtain raw ev where fin: "row' = row\<lparr>gs_Status := StatusFinished, gs_FinishedAt := Some (c_pg_now c)\<rparr>"
      and ev: "CreateScoreEvent (c_pg_now c) (gs_UserID row) (gs_ID row) (gs_Game row) raw (Points df raw)
        (put_session row' (w_db w)) = (Inr ev, w_db w')" and sc: "sc = scoreFrom ev df"
      using settle_Inr [OF st] row(1) w1 mem by auto
    note new = ev [unfolded CreateScoreEvent_Inr]
    have "row' \<in> set (sessions (put_session row' (w_db w)))"
      using set_put_session [OF store_okD(1) [OF ok], of row row'] mem fin by simp
    moreover have "sessions (w_db w') = sessions (put_session row' (w_db w))" "ev \<in> set (events (w_db w'))" "ev_SessionID ev = i"
      using new mem by (elim conjE, simp)+
    ultimately have "recorded (w_db w') u i sc"
      unfolding recorded_def using row(2-4) sc mem
      by (intro bexI [of _ row'] bexI [of _ ev]) (simp_all add: fin is_active_iff)
    then show ?thesis using \<open>b\<close> by simp
  qed
qed

lemma Finish_outcome:
  assumes ok: "store_ok NewRegistry (w_db w)" and run: "Finish svc c u i w = (r, w1)"
  shows "(\<forall>s1. r = Inr s1 \<longrightarrow> (\<exists>sc. se_Score s1 = Some sc \<and> recorded (w_db w1) u i sc))
    \<and> (\<forall>e. r = Inl e \<longrightarrow> w_db w1 = w_db w \<or> (\<exists>sc. recorded (w_db w1) u i sc))"
proof -
  obtain x wa where tx: "in_tx (finish_tx svc c u i) w = (x, wa)" by fastforce
  have okd: "store_ok NewRegistry (w_db wb)" if "w_db wb = w_db w" for wb :: "(database, 'r) world" using ok that by simp
  show ?thesis
  proof (cases x)
    case (Inl e)
    then have w1: "r = Inl e" "w1 = wa" using run tx by (simp_all add: Finish_def act_bind_def)
    from in_tx_db [OF tx] have "w_db wa = w_db w \<or> (\<exists>sc. recorded (w_db wa) u i sc)"
      using finish_tx_records [OF okd] by fastforce
    then show ?thesis using w1 by blast
  next
    case (Inr y)
    obtain fresh row' v sc where y: "y = (fresh, row', v, sc)" by (cases y)
    obtain w2 b w3 where tx': "w_db w2 = w_db w" "finish_tx svc c u i w2 = (Inr (b, fresh, row', v, sc), w3)"
        "w_db wa = (if b then w_db w3 else w_db w)"
      using in_tx_Inr [OF tx [unfolded Inr y]] by blast
    have rec: "recorded (w_db wa) u i sc" using finish_tx_records [OF okd [OF tx'(1)] tx'(2)] tx'(1,3) by (cases b) simp_all
    have ev: "keeps rows.evolves (in_tx (finish_tx svc c u i) :: ('r service_world, _) act)"
      by (rule rows.evolves_in_tx) (use finish_tx_keeps [of svc] in \<open>simp add: registry_new\<close>)
    have okwa: "store_ok NewRegistry (w_db wa)" using rows.evolvesD(1) [OF ev tx ok] .
    show ?thesis
    proof (cases fresh)
      case True
      obtain pl wb where pr: "project svc c (gs_UserID row') (Some sc) wa = (Inr pl, wb)" using project_swallows by blast
      then have w1: "r = Inr ((sessionFrom row' v (Some sc))\<lparr>se_Placement := pl\<rparr>)" "w1 = wb"
        using run tx True Inr y by (simp_all add: Finish_def act_bind_def)
      have "recorded (w_db wb) u i sc"
        using recorded_lasts [OF rec] rows.evolvesD(2) [OF project_evolves pr okwa] by blast
      then show ?thesis using w1 by (simp add: sessionFrom_def)
    next
      case False
      then have "r = Inr (sessionFrom row' v (Some sc))" "w1 = wa"
        using run tx Inr y by (simp_all add: Finish_def act_bind_def)
      then show ?thesis using rec by (simp add: sessionFrom_def)
    qed
  qed
qed

end

section \<open>Strangers\<close>

text \<open>A session that does not exist for the caller: no row of that id, or a row of someone else.\<close>

definition not_mine :: "int \<Rightarrow> uuid \<Rightarrow> database \<Rightarrow> bool" where
  "not_mine u i d \<longleftrightarrow> (case find_session i d of None \<Rightarrow> True | Some s \<Rightarrow> gs_UserID s \<noteq> u)"

lemma exec_read:
  assumes "\<And>d. snd (q d) = d"
  shows "exec q w = (if fst (next_fault w) = NoFault then fst (q (w_db w)) else Inl ErrDB, snd (next_fault w))"
proof -
  obtain ft w1 where nf: "next_fault w = (ft, w1)" by fastforce
  obtain r where q: "q (w_db w1) = (r, w_db w1)" using assms [of "w_db w1"] by (metis prod.collapse)
  have "w_db w1 = w_db w" using next_fault_same [OF nf] by simp
  then show ?thesis using q nf by (auto simp: exec_def split: fault.split)
qed

lemma stranger_lookup:
  assumes "not_mine u i (w_db w)" and "\<And>d. q d = (row_of (find_session i d), d)"
  shows "act_bind (no_rows_as ErrNotFound (exec q)) (\<lambda>row. if gs_UserID row \<noteq> u then fail ErrNotFound else k row) w
    = (Inl (if fst (next_fault w) = NoFault then ErrNotFound else ErrDB), snd (next_fault w))"
  using assms
  by (auto simp: act_bind_def no_rows_as_def act_catch_def exec_read not_mine_def row_of_def of_option_def
      split: option.splits)

lemma next_fault_of:
  "fst (next_fault w) = (case w_faults w of [] \<Rightarrow> NoFault | f # _ \<Rightarrow> f)"
  "w_faults (snd (next_fault w)) = tl (w_faults w)"
  by (simp_all add: next_fault_def split: list.split)

text \<open>What such a caller is told is a function of the faults alone, and no row changes.\<close>

lemma stranger_Get:
  assumes "not_mine u i (w_db w)"
  shows "session_Get svc u i w
    = (Inl (if fst (next_fault w) = NoFault then ErrNotFound else ErrDB), snd (next_fault w))"
  unfolding session_Get_def by (rule stranger_lookup [OF assms]) (simp add: GetGameSession_def)

lemma stranger_tx:
  assumes "\<And>w. not_mine u i (w_db w) \<Longrightarrow> body w
      = (Inl (if fst (next_fault w) = NoFault then ErrNotFound else ErrDB), snd (next_fault w))"
    and "not_mine u i (w_db w)"
  shows "in_tx body w =
    (Inl (if fst (next_fault w) = NoFault \<and> fst (next_fault (snd (next_fault w))) = NoFault then ErrNotFound else ErrDB),
     if fst (next_fault w) = NoFault then snd (next_fault (snd (next_fault w))) else snd (next_fault w))"
proof -
  obtain ft w1 where nf: "next_fault w = (ft, w1)" by fastforce
  obtain ft2 w2 where nf2: "next_fault w1 = (ft2, w2)" by fastforce
  have db: "w_db w1 = w_db w" "w_db w2 = w_db w" using next_fault_same [OF nf] next_fault_same [OF nf2] by simp_all
  have "body w1 = (Inl (if ft2 = NoFault then ErrNotFound else ErrDB), w2)" using assms db nf2 by simp
  then show ?thesis using nf nf2 db by (simp add: in_tx_def)
qed

lemma stranger_Move:
  assumes "not_mine u i (w_db w)"
  shows "session_Move svc c u i mv w =
    (Inl (if fst (next_fault w) = NoFault \<and> fst (next_fault (snd (next_fault w))) = NoFault then ErrNotFound else ErrDB),
     if fst (next_fault w) = NoFault then snd (next_fault (snd (next_fault w))) else snd (next_fault w))"
proof -
  have "move_tx svc c u i mv w = (Inl (if fst (next_fault w) = NoFault then ErrNotFound else ErrDB), snd (next_fault w))"
    if "not_mine u i (w_db w)" for w :: "(database, 'a) world"
    unfolding move_tx_def by (rule stranger_lookup [OF that]) (simp add: LockGameSession_def)
  from stranger_tx [OF this assms] show ?thesis unfolding session_Move_def by (simp add: act_bind_cong_Inl)
qed

lemma stranger_Finish:
  assumes "not_mine u i (w_db w)"
  shows "Finish svc c u i w =
    (Inl (if fst (next_fault w) = NoFault \<and> fst (next_fault (snd (next_fault w))) = NoFault then ErrNotFound else ErrDB),
     if fst (next_fault w) = NoFault then snd (next_fault (snd (next_fault w))) else snd (next_fault w))"
proof -
  have "finish_tx svc c u i w = (Inl (if fst (next_fault w) = NoFault then ErrNotFound else ErrDB), snd (next_fault w))"
    if "not_mine u i (w_db w)" for w :: "(database, 'a) world"
    unfolding finish_tx_def by (rule stranger_lookup [OF that]) (simp add: LockGameSession_def)
  from stranger_tx [OF this assms] show ?thesis unfolding Finish_def by (simp add: act_bind_cong_Inl)
qed

section \<open>What a move writes\<close>

text \<open>Publishing a score marks it; the sessions stay as they are.\<close>

interpretation sessions_stay: evolution "\<lambda>_. True" "\<lambda>d d'. sessions d' = sessions d"
  by unfold_locales simp_all

context score_service
begin

lemma project_sessions: "keeps sessions_stay.evolves (project svc c u sc)"
  unfolding project_def
  by (intro sessions_stay.evolution_rules)
    (auto intro: sessions_stay.evolves_same_db projector_rows simp: MarkScoreEventProjected_def)

lemma Move_split:
  assumes "session_Move svc c u i mv w = (Inr s, w')" and "store_ok NewRegistry (w_db w)"
  shows "\<exists>w1 w2 updated view out sc. w_db w1 = w_db w \<and> move_tx svc c u i mv w1 = (Inr (True, updated, view, out, sc), w2)
    \<and> sessions (w_db w') = sessions (w_db w2) \<and> lasts (w_db w2) (w_db w')
    \<and> (\<exists>pl. s = (sessionFrom updated view sc)\<lparr>se_Placement := pl\<rparr>)"
proof -
  obtain updated view out sc wa wb pl where
    tx: "in_tx (move_tx svc c u i mv) w = (Inr (updated, view, out, sc), wa)"
    and h: "hold c (HoldUntil out) wa = (Inr (), wb)"
    and pr: "project svc c (gs_UserID updated) sc wb = (Inr pl, w')"
    and s: "s = (sessionFrom updated view sc)\<lparr>se_Placement := pl\<rparr>"
    using assms(1) unfolding session_Move_def by (auto simp: act_bind_Inr)
  obtain w1 b w2 where w: "w_db w1 = w_db w" "move_tx svc c u i mv w1 = (Inr (b, updated, view, out, sc), w2)"
      "w_db wa = (if b then w_db w2 else w_db w)"
    using in_tx_Inr [OF tx] by blast
  have b using move_tx_Inr [OF w(2)] by blast
  have "w_db wb = w_db wa" using same_dbD [OF hold_same_db, of c "HoldUntil out" wa] h by simp
  moreover have "sessions (w_db w') = sessions (w_db wb)"
    using sessions_stay.evolvesD(2) [OF project_sessions pr] by simp
  moreover have "lasts (w_db wb) (w_db w')"
  proof (rule rows.evolvesD(2) [OF project_evolves pr])
    have "store_ok NewRegistry (w_db w2)" using move_tx_keeps [of svc w1] w(1,2) assms(2) registry_new by simp
    then show "store_ok NewRegistry (w_db wb)" using w(3) \<open>b\<close> \<open>w_db wb = w_db wa\<close> by simp
  qed
  ultimately show ?thesis using w s \<open>b\<close> by metis
qed

lemma move_tx_writes:
  assumes ok: "store_ok NewRegistry (w_db w)" and run: "move_tx svc c u i mv w = (Inr (True, updated, view, out, sc), w')"
  shows "\<exists>row df j. find_session i (w_db w) = Some row \<and> gs_UserID row = u \<and> is_active row
    \<and> registry_Get NewRegistry (gs_Game row) = Inr df
    \<and> e_Move (d_engine df) (gs_State row) mv (c_now c) = Inr (j, view, out)
    \<and> find_session i (w_db w') = Some updated
    \<and> updated = row\<lparr>gs_State := j, gs_Moves := gs_Moves row + 1,
        gs_Status := (if Done out then StatusFinished else StatusActive),
        gs_FinishedAt := (if Done out then Some (c_pg_now c) else None)\<rparr>
    \<and> (if Done out
       then \<exists>raw e. e_Raw (d_engine df) j = Inr raw \<and> e \<in> set (events (w_db w')) \<and> ev_SessionID e = i
         \<and> ev_Points e = Points df raw \<and> sc = Some (scoreFrom e df)
       else sc = None \<and> events (w_db w') = events (w_db w))"
proof -
  obtain row df j where row: "find_session i (w_db w) = Some row" "gs_UserID row = u" "is_active row"
      "registry_Get NewRegistry (gs_Game row) = Inr df"
      "e_Move (d_engine df) (gs_State row) mv (c_now c) = Inr (j, view, out)"
    and out: "let saved = row\<lparr>gs_State := j, gs_Moves := gs_Moves row + 1\<rparr>
       in if Done out
          then \<exists>w1 rec. w_db w1 = put_session saved (w_db w) \<and> settle c saved df w1 = (Inr (updated, rec), w') \<and> sc = Some rec
          else updated = saved \<and> w_db w' = put_session saved (w_db w) \<and> sc = None"
    using move_tx_Inr [OF run] unfolding registry_new by blast
  let ?saved = "row\<lparr>gs_State := j, gs_Moves := gs_Moves row + 1\<rparr>"
  note mem = find_session_Some [OF row(1)]
  have active: "gs_Status row = StatusActive" "gs_FinishedAt row = None"
    using row(3) store_okD(4) [OF ok] mem by (auto simp: session_ok_def is_active_iff)
  note ids = store_okD(1) [OF ok]
  have find1: "find_session i (put_session ?saved (w_db w)) = Some ?saved"
    using find_put_session [OF ids, of row ?saved i] mem by simp
  show ?thesis
  proof (cases "Done out")
    case False
    then show ?thesis using row out find1 active by (simp add: Let_def)
  next
    case True
    then obtain w1 rec where w1: "w_db w1 = put_session ?saved (w_db w)"
      and st: "settle c ?saved df w1 = (Inr (updated, rec), w')" and sc: "sc = Some rec" using out by (auto simp: Let_def)
    obtain raw ev where r: "e_Raw (d_engine df) j = Inr raw" "rec = scoreFrom ev df"
      and fin: "updated = ?saved\<lparr>gs_Status := StatusFinished, gs_FinishedAt := Some (c_pg_now c)\<rparr>"
      and ev: "CreateScoreEvent (c_pg_now c) (gs_UserID row) (gs_ID row) (gs_Game row) raw (Points df raw)
        (put_session updated (put_session ?saved (w_db w))) = (Inr ev, w_db w')"
      using settle_Inr [OF st] find1 w1 mem by auto
    have "find_session i (put_session updated (put_session ?saved (w_db w))) = Some updated"
      using find_put_session [of "put_session ?saved (w_db w)" ?saved updated i] ids mem fin
        set_put_session [OF ids, of row ?saved] by simp
    note new = ev [unfolded CreateScoreEvent_Inr]
    have db: "find_session i (w_db w') = find_session i (put_session updated (put_session ?saved (w_db w)))"
        "ev \<in> set (events (w_db w'))" "ev_SessionID ev = i" "ev_Points ev = Points df raw"
      using new mem by (elim conjE, simp add: find_session_def)+
    show ?thesis
      using row True sc r fin db \<open>find_session i (put_session updated (put_session ?saved (w_db w))) = Some updated\<close>
      by auto
  qed
qed

end

section \<open>A small service\<close>

text \<open>The API over the in-memory server with one player, before a game of Reaction Time and when its first signal has been given.\<close>

definition demo_api :: "mem_redis session_service" where
  "demo_api = api_service (quiet_board mem_ops 0)"

definition demo_call :: call where
  "demo_call = \<lparr>c_now = 0, c_pg_now = 0, c_uuid = 9, c_entropy = Some [0, 0, 0, 0, 0, 0, 0, 7], c_gone = False\<rparr>"

definition demo_player :: user_row where
  "demo_player = \<lparr>us_ID = 1, us_Username = ''ada'', us_Email = ''ada@example.com'', us_PasswordHash = '''',
     us_CreatedAt = 0, us_UpdatedAt = 0\<rparr>"

definition reaction_state :: json where
  "reaction_state = (case r_marshal ((r_start 7 0)\<lparr>GoAt := Some 0\<rparr>) of Some j \<Rightarrow> j)"

definition demo_session :: game_session where
  "demo_session = \<lparr>gs_ID = 9, gs_UserID = 1, gs_Game = Reaction, gs_Seed = 7, gs_State = reaction_state,
     gs_Status = StatusActive, gs_Moves = 0, gs_StartedAt = 0, gs_DeadlineAt = None, gs_FinishedAt = None\<rparr>"

definition lobby :: "mem_redis service_world" where
  "lobby = \<lparr>w_db = empty_db\<lparr>users := [demo_player]\<rparr>, w_redis = mem_empty, w_faults = []\<rparr>"

definition in_game :: "fault list \<Rightarrow> mem_redis service_world" where
  "in_game fs = \<lparr>w_db = empty_db\<lparr>users := [demo_player], sessions := [demo_session]\<rparr>, w_redis = mem_empty, w_faults = fs\<rparr>"

lemma demo_service: "score_service demo_api"
  unfolding demo_api_def by (rule quiet_api.score_service_axioms)

lemma demo_game:
  "\<exists>v. e_View (d_engine reactionDefinition) reaction_state = Inr v"
  "\<exists>raw. e_Raw (d_engine reactionDefinition) reaction_state = Inr raw"
proof -
  have "case e_View (d_engine reactionDefinition) reaction_state of Inr _ \<Rightarrow> True | Inl _ \<Rightarrow> False" by code_simp
  then show "\<exists>v. e_View (d_engine reactionDefinition) reaction_state = Inr v" by (auto split: sum.splits)
  have "case e_Raw (d_engine reactionDefinition) reaction_state of Inr _ \<Rightarrow> True | Inl _ \<Rightarrow> False" by code_simp
  then show "\<exists>raw. e_Raw (d_engine reactionDefinition) reaction_state = Inr raw" by (auto split: sum.splits)
qed

lemma store_ok_lobby: "store_ok NewRegistry (w_db lobby)"
  by (simp add: store_ok_def lobby_def empty_db_def)

lemma store_ok_in_game: "store_ok NewRegistry (w_db (in_game fs))"
  by (simp add: store_ok_def in_game_def empty_db_def demo_session_def session_ok_def)

lemma in_game_session: "find_session 9 (w_db (in_game fs)) = Some demo_session"
  by (simp add: find_session_def in_game_def demo_session_def)

section \<open>Properties\<close>



text \<open>
  C9. A recorded score is permanent: under any later operations and failures its row keeps its id,
  session, user, game, raw value, points and instant, and only the mark of its projection changes;
  the row of a session that has ended never changes again.
\<close>

theorem scores_permanent:
  assumes "score_service svc" and "store_ok NewRegistry (w_db w)" and "(serves svc)\<^sup>*\<^sup>* w w'"
  shows "(\<forall>e \<in> set (events (w_db w)). \<exists>e' \<in> set (events (w_db w')). e'\<lparr>ev_ProjectedAt := ev_ProjectedAt e\<rparr> = e)
    \<and> (\<forall>s \<in> set (sessions (w_db w)). gs_Status s \<noteq> StatusActive \<longrightarrow> s \<in> set (sessions (w_db w')))"
  using score_service.all_serves_evolves [OF assms(1,3)] assms(2)
  by (simp add: rows.evolves_def lasts_def same_score_def is_active_iff)

lemma scores_permanent_witness:
  "\<exists>r w'. Finish demo_api demo_call 1 9 (in_game []) = (r, w') \<and>
    (\<forall>s \<in> set (sessions (w_db w')). gs_Status s \<noteq> StatusActive \<longrightarrow>
       s \<in> set (sessions (w_db (snd (Start demo_api demo_call 1 Reaction w')))))"
proof -
  obtain r w1 where run: "Finish demo_api demo_call 1 9 (in_game []) = (r, w1)" by fastforce
  obtain r2 w2 where again: "Start demo_api demo_call 1 Reaction w1 = (r2, w2)" by fastforce
  have "rows.evolves (in_game []) w1" using score_service.serves_evolves [OF demo_service serves.finished [OF run]] .
  then have "store_ok NewRegistry (w_db w1)" using store_ok_in_game by (simp add: rows.evolves_def)
  moreover have "(serves demo_api)\<^sup>*\<^sup>* w1 w2" using serves.started [OF again] by blast
  ultimately show ?thesis using scores_permanent [OF demo_service] run again by auto
qed

text \<open>
  Finishing twice returns the score already stored: once \<open>Finish\<close> has returned a session, then after
  any operations and failures another \<open>Finish\<close> whose calls succeed returns the same score and
  writes nothing.
\<close>

theorem finish_idempotent:
  assumes "score_service svc" and "store_ok NewRegistry (w_db w)"
    and "Finish svc c u i w = (Inr s1, w1)" and "(serves svc)\<^sup>*\<^sup>* w1 w2" and "w_faults w2 = []"
  shows "\<exists>s2 sc. Finish svc c' u i w2 = (Inr s2, w2) \<and> se_Score s1 = Some sc \<and> se_Score s2 = Some sc"
proof -
  note svc = assms(1)
  obtain sc where sc: "se_Score s1 = Some sc" "recorded (w_db w1) u i sc"
    using score_service.Finish_outcome [OF svc assms(2,3)] by blast
  have "rows.evolves w w1" by (rule score_service.serves_evolves [OF svc serves.finished [OF assms(3)]])
  moreover have "rows.evolves w1 w2" by (rule score_service.all_serves_evolves [OF svc assms(4)])
  ultimately have "store_ok NewRegistry (w_db w2)" "lasts (w_db w1) (w_db w2)"
    using assms(2) by (simp_all add: rows.evolves_def)
  then show ?thesis
    using score_service.Finish_recorded [OF svc _ recorded_lasts [OF sc(2)] assms(5)] sc(1) by blast
qed

lemma demo_finish: "\<exists>s1 w1. Finish demo_api demo_call 1 9 (in_game []) = (Inr s1, w1)"
proof -
  obtain v raw where g: "e_View (d_engine reactionDefinition) reaction_state = Inr v"
      "e_Raw (d_engine reactionDefinition) reaction_state = Inr raw" using demo_game by blast
  have calm: "w_faults (in_game []) = []" by (simp add: in_game_def)
  obtain s1 w1 where "Finish demo_api demo_call 1 9 (in_game []) = (Inr s1, w1)"
    using Finish_first [OF calm in_game_session, of 1 demo_api reactionDefinition v raw demo_call] g
    by (auto simp: demo_session_def is_active_def StatusActive_def in_game_def empty_db_def demo_player_def
        demo_api_def api_service_def registry_Get_new)
  then show ?thesis by blast
qed

lemma finish_idempotent_witness:
  "\<exists>s1 w1 s2. Finish demo_api demo_call 1 9 (in_game []) = (Inr s1, w1)
    \<and> Finish demo_api demo_call 1 9 (w1\<lparr>w_faults := []\<rparr>) = (Inr s2, w1\<lparr>w_faults := []\<rparr>) \<and> se_Score s1 = se_Score s2"
proof -
  obtain s1 w1 where run: "Finish demo_api demo_call 1 9 (in_game []) = (Inr s1, w1)" using demo_finish by blast
  have "(serves demo_api)\<^sup>*\<^sup>* w1 (w1\<lparr>w_faults := []\<rparr>)" by (rule r_into_rtranclp, rule serves.elsewhere) simp_all
  from finish_idempotent [OF demo_service store_ok_in_game run this, of demo_call] run show ?thesis by auto
qed

text \<open>
  C8. Finishing can be retried: whichever calls of a first \<open>Finish\<close> fail - also when its commit took effect
  and only the answer was lost - a retry whose calls succeed returns a score, and afterwards
  exactly one score is stored for the session.
\<close>

theorem finish_retry:
  assumes "score_service svc" and "store_ok NewRegistry (w_db w)"
    and "find_session i (w_db w) = Some s" and "gs_UserID s = u" and "gs_Status s = StatusActive"
    and "u \<in> us_ID ` set (users (w_db w))"
    and "registry_Get NewRegistry (gs_Game s) = Inr df" and "e_View (d_engine df) (gs_State s) = Inr v"
    and "e_Raw (d_engine df) (gs_State s) = Inr raw"
    and "Finish svc c u i w = (r, w1)"
  shows "\<exists>s2 w2 sc. Finish svc c' u i (w1\<lparr>w_faults := []\<rparr>) = (Inr s2, w2) \<and> se_Score s2 = Some sc
    \<and> length (filter (\<lambda>e. ev_SessionID e = i) (events (w_db w2))) = 1"
proof -
  note svc = assms(1)
  let ?w1 = "w1\<lparr>w_faults := []\<rparr>"
  have "rows.evolves w w1" by (rule score_service.serves_evolves [OF svc serves.finished [OF assms(10)]])
  then have ok1: "store_ok NewRegistry (w_db ?w1)" using assms(2) by (simp add: rows.evolves_def)
  have "\<exists>s2 w2 sc. Finish svc c' u i ?w1 = (Inr s2, w2) \<and> se_Score s2 = Some sc"
  proof (cases "\<exists>sc. recorded (w_db w1) u i sc")
    case True
    then show ?thesis using score_service.Finish_recorded [OF svc ok1, of u i _ c'] by fastforce
  next
    case False
    then have same: "w_db w1 = w_db w"
      using score_service.Finish_outcome [OF svc assms(2,10)] by (cases r) auto
    have act: "is_active s" using assms(5) by (simp add: is_active_iff)
    have "i \<notin> ev_SessionID ` set (events (w_db w))"
      using no_event_of_active [OF assms(2) _ act] find_session_Some [OF assms(3)] by auto
    then have c: "w_faults ?w1 = []" "find_session i (w_db ?w1) = Some s" "i \<notin> ev_SessionID ` set (events (w_db ?w1))"
        "u \<in> us_ID ` set (users (w_db ?w1))" "registry_Get (ss_registry svc) (gs_Game s) = Inr df"
      using same assms(3,6,7) score_service.registry_new [OF svc] by simp_all
    from Finish_first [OF c(1,2) assms(4) act c(3-5) assms(8,9), of c']
    show ?thesis by (elim exE conjE) (intro exI conjI)
  qed
  then obtain s2 w2 sc where run: "Finish svc c' u i ?w1 = (Inr s2, w2)" "se_Score s2 = Some sc" by blast
  have "recorded (w_db w2) u i sc" using score_service.Finish_outcome [OF svc ok1 run(1)] run(2) by auto
  then obtain e where e: "e \<in> set (events (w_db w2))" "ev_SessionID e = i" by (auto simp: recorded_def)
  have "rows.evolves ?w1 w2" by (rule score_service.serves_evolves [OF svc serves.finished [OF run(1)]])
  then have "distinct (map ev_SessionID (events (w_db w2)))" using ok1 store_okD(3) by (auto simp: rows.evolves_def)
  then have "length (filter (\<lambda>e. ev_SessionID e = i) (events (w_db w2))) = 1"
    by (rule one_of_key [where f = ev_SessionID, OF _ e])
  then show ?thesis using run by blast
qed

lemma finish_retry_witness:
  "\<exists>s2 w2 sc. Finish demo_api demo_call 1 9
      ((snd (Finish demo_api demo_call 1 9 (in_game [NoFault, NoFault, NoFault, NoFault, NoFault, FailAfter])))\<lparr>w_faults := []\<rparr>)
    = (Inr s2, w2) \<and> se_Score s2 = Some sc"
proof -
  let ?w = "in_game [NoFault, NoFault, NoFault, NoFault, NoFault, FailAfter]"
  obtain v raw where g: "e_View (d_engine reactionDefinition) reaction_state = Inr v"
      "e_Raw (d_engine reactionDefinition) reaction_state = Inr raw" using demo_game by blast
  obtain r w1 where run: "Finish demo_api demo_call 1 9 ?w = (r, w1)" by fastforce
  have h: "gs_UserID demo_session = 1" "gs_Status demo_session = StatusActive"
    "registry_Get NewRegistry (gs_Game demo_session) = Inr reactionDefinition" "gs_State demo_session = reaction_state"
    "1 \<in> us_ID ` set (users (w_db ?w))"
    by (simp_all add: demo_session_def registry_Get_new in_game_def empty_db_def demo_player_def)
  from finish_retry [OF demo_service store_ok_in_game in_game_session h(1,2,5,3) g [folded h(4)] run, of demo_call]
  show ?thesis unfolding run snd_conv by (elim exE conjE) (intro exI conjI)
qed

text \<open>
  Somebody else's session cannot be told from one that does not exist: reading, moving in and
  finishing it give the same answer under the same faults as for an id without a row, \<open>ErrNotFound\<close>
  when no call fails, and no row changes.
\<close>

theorem session_ownership:
  assumes "not_mine u i (w_db w)" and "not_mine u i (w_db v)" and "w_faults w = w_faults v"
  shows "fst (session_Get svc u i w) = fst (session_Get svc u i v)
    \<and> fst (session_Move svc c u i mv w) = fst (session_Move svc c u i mv v)
    \<and> fst (Finish svc c u i w) = fst (Finish svc c u i v)
    \<and> w_db (snd (session_Get svc u i w)) = w_db w \<and> w_db (snd (session_Move svc c u i mv w)) = w_db w
    \<and> w_db (snd (Finish svc c u i w)) = w_db w
    \<and> (w_faults w = [] \<longrightarrow> fst (session_Get svc u i w) = Inl ErrNotFound
        \<and> fst (session_Move svc c u i mv w) = Inl ErrNotFound \<and> fst (Finish svc c u i w) = Inl ErrNotFound)"
proof -
  have "fst (next_fault w) = fst (next_fault v)"
    "fst (next_fault (snd (next_fault w))) = fst (next_fault (snd (next_fault v)))"
    by (simp_all add: next_fault_of assms(3))
  moreover have "w_faults w = [] \<Longrightarrow> next_fault v = (NoFault, v)" using assms(3) by simp
  ultimately show ?thesis
    using stranger_Get [OF assms(1)] stranger_Get [OF assms(2)] stranger_Move [OF assms(1)] stranger_Move [OF assms(2)]
      stranger_Finish [OF assms(1)] stranger_Finish [OF assms(2)]
    by (cases "w_faults w = []") simp_all
qed

lemma session_ownership_witness:
  "fst (Finish demo_api demo_call 2 9 (in_game [FailBefore])) = fst (Finish demo_api demo_call 2 9 (lobby\<lparr>w_faults := [FailBefore]\<rparr>))"
  using session_ownership [of 2 9 "in_game [FailBefore]" "lobby\<lparr>w_faults := [FailBefore]\<rparr>" demo_api demo_call]
  by (simp add: not_mine_def find_session_def in_game_def lobby_def demo_session_def empty_db_def)

text \<open>
  A move that is refused costs nothing: any error but a failing database call, or the client leaving
  while the response is held back, leaves every row as it was - an unknown session, one that has
  ended, an unknown game, and every refusal of the game's engine.
\<close>

theorem move_refused:
  assumes "session_Move svc c u i mv w = (Inl e, w')" and "e \<noteq> ErrDB" and "e \<noteq> ErrCancelled"
  shows "w_db w' = w_db w"
proof -
  obtain x wa where tx: "in_tx (move_tx svc c u i mv) w = (x, wa)" by fastforce
  show ?thesis
  proof (cases x)
    case (Inl e')
    then have r: "e' = e" "wa = w'" using assms(1) tx by (simp_all add: session_Move_def act_bind_def)
    show ?thesis using in_tx_cases [OF tx [unfolded Inl r]] assms(2) by blast
  next
    case (Inr y)
    obtain updated view out sc where y: "y = (updated, view, out, sc)" by (cases y)
    have "e = ErrCancelled"
      using assms(1) tx Inr y unfolding session_Move_def
      by (auto simp: act_bind_Inl act_bind_cong_Inr hold_def project_never_fails split: if_splits)
    then show ?thesis using assms(3) by contradiction
  qed
qed

lemma move_refused_witness:
  "w_db (snd (session_Move demo_api demo_call 1 9 NoBytes (in_game []))) = w_db (in_game [])"
proof -
  have "case e_Move (d_engine reactionDefinition) reaction_state NoBytes 0 of Inl _ \<Rightarrow> True | Inr _ \<Rightarrow> False" by code_simp
  then obtain g where g: "e_Move (d_engine reactionDefinition) reaction_state NoBytes 0 = Inl g" by (auto split: sum.splits)
  have calm: "w_faults (in_game []) = []" by (simp add: in_game_def)
  have reg: "registry_Get (ss_registry demo_api) (gs_Game demo_session) = Inr reactionDefinition"
    by (simp add: demo_api_def api_service_def demo_session_def registry_Get_new)
  have "move_tx demo_api demo_call 1 9 NoBytes (in_game []) = (Inl (ErrGame g), in_game [])"
    using calm reg g in_game_session [of "[]"]
    by (simp add: move_tx_def calm_simps demo_call_def) (simp add: demo_session_def)
  then have "session_Move demo_api demo_call 1 9 NoBytes (in_game []) = (Inl (ErrGame g), in_game [])"
    using in_tx_calm [OF calm, of "move_tx demo_api demo_call 1 9 NoBytes"] calm by (simp add: session_Move_def act_bind_def)
  from move_refused [OF this] this show ?thesis by simp
qed

text \<open>
  C22. A move that is accepted writes exactly what the engine decided: the session of the caller was
  active, its row now holds the engine's next state and one more move, the answer shows the engine's
  view, and the session is finished, with the score of that very state stored and returned, exactly
  when the engine said the game is done.
\<close>

theorem move_effect:
  assumes "score_service svc" and "store_ok NewRegistry (w_db w)"
    and "session_Move svc c u i mv w = (Inr s, w')"
  shows "\<exists>row df j view out row'. find_session i (w_db w) = Some row \<and> gs_UserID row = u \<and> gs_Status row = StatusActive
    \<and> registry_Get NewRegistry (gs_Game row) = Inr df
    \<and> e_Move (d_engine df) (gs_State row) mv (c_now c) = Inr (j, view, out)
    \<and> find_session i (w_db w') = Some row' \<and> gs_State row' = j \<and> gs_Moves row' = gs_Moves row + 1
    \<and> gs_Status row' = (if Done out then StatusFinished else StatusActive)
    \<and> se_View s = view \<and> se_Moves s = gs_Moves row + 1 \<and> se_Status s = gs_Status row'
    \<and> (if Done out
       then \<exists>raw e. e_Raw (d_engine df) j = Inr raw \<and> e \<in> set (events (w_db w')) \<and> ev_SessionID e = i
         \<and> ev_Points e = Points df raw \<and> se_Score s = Some (scoreFrom e df)
       else se_Score s = None)"
proof -
  obtain w1 w2 updated view out sc pl where m: "w_db w1 = w_db w" "move_tx svc c u i mv w1 = (Inr (True, updated, view, out, sc), w2)"
      "sessions (w_db w') = sessions (w_db w2)" "lasts (w_db w2) (w_db w')"
      "s = (sessionFrom updated view sc)\<lparr>se_Placement := pl\<rparr>"
    using score_service.Move_split [OF assms(1,3,2)] by blast
  have "store_ok NewRegistry (w_db w1)" using assms(2) m(1) by simp
  then obtain row df j where row: "find_session i (w_db w1) = Some row" "gs_UserID row = u" "is_active row"
    "registry_Get NewRegistry (gs_Game row) = Inr df"
    "e_Move (d_engine df) (gs_State row) mv (c_now c) = Inr (j, view, out)"
    "find_session i (w_db w2) = Some updated"
    and upd: "updated = row\<lparr>gs_State := j, gs_Moves := gs_Moves row + 1,
        gs_Status := (if Done out then StatusFinished else StatusActive),
        gs_FinishedAt := (if Done out then Some (c_pg_now c) else None)\<rparr>"
    and out: "if Done out
       then \<exists>raw e. e_Raw (d_engine df) j = Inr raw \<and> e \<in> set (events (w_db w2)) \<and> ev_SessionID e = i
         \<and> ev_Points e = Points df raw \<and> sc = Some (scoreFrom e df)
       else sc = None \<and> events (w_db w2) = events (w_db w1)"
    using score_service.move_tx_writes [OF assms(1) _ m(2)] by blast
  have "find_session i (w_db w') = Some updated" using row(6) m(3) by (simp add: find_session_def)
  moreover have "if Done out
       then \<exists>raw e. e_Raw (d_engine df) j = Inr raw \<and> e \<in> set (events (w_db w')) \<and> ev_SessionID e = i
         \<and> ev_Points e = Points df raw \<and> se_Score s = Some (scoreFrom e df)
       else se_Score s = None"
  proof (cases "Done out")
    case True
    then obtain raw e where e: "e_Raw (d_engine df) j = Inr raw" "e \<in> set (events (w_db w2))" "ev_SessionID e = i"
      "ev_Points e = Points df raw" "sc = Some (scoreFrom e df)" using out by auto
    obtain e' where "e' \<in> set (events (w_db w'))" "same_score e e'" using m(4) e(2) unfolding lasts_def by blast
    then show ?thesis using e True m(5) scoreFrom_same [of e e' df]
      by (auto simp: sessionFrom_def same_score_def intro!: exI [of _ raw] exI [of _ e'])
        (metis scoreFrom_def score.select_convs(5))
  qed (use out m(5) in \<open>simp add: sessionFrom_def\<close>)
  ultimately show ?thesis
    using row(2-5) upd m(1,5) row(1)
    by (intro exI [of _ row] exI [of _ df] exI [of _ j] exI [of _ view] exI [of _ out] exI [of _ updated])
      (simp add: sessionFrom_def is_active_iff)
qed

definition tap_call :: call where
  "tap_call = demo_call\<lparr>c_now := 80 * millisecond\<rparr>"

lemma move_effect_witness:
  "\<exists>s w'. session_Move demo_api tap_call 1 9 tap_move (in_game []) = (Inr s, w') \<and> se_Moves s = 1
    \<and> (\<exists>row. find_session 9 (w_db w') = Some row \<and> gs_Status row = StatusActive)"
proof -
  have "case e_Move (d_engine reactionDefinition) reaction_state tap_move (80 * millisecond) of Inr (_, _, out) \<Rightarrow> \<not> Done out | Inl _ \<Rightarrow> False"
    by code_simp
  then obtain j v out where g: "e_Move (d_engine reactionDefinition) reaction_state tap_move (80 * millisecond) = Inr (j, v, out)" "\<not> Done out"
    by (auto split: sum.splits)
  have calm: "w_faults (in_game []) = []" by (simp add: in_game_def)
  have reg: "registry_Get (ss_registry demo_api) Reaction = Inr reactionDefinition"
    by (simp add: demo_api_def api_service_def registry_Get_new)
  let ?saved = "demo_session\<lparr>gs_State := j, gs_Moves := gs_Moves demo_session + 1\<rparr>"
  have save: "SaveGameSessionState 9 j (w_db (in_game [])) = (Inr ?saved, put_session ?saved (w_db (in_game [])))"
    using in_game_session by (simp add: SaveGameSessionState_def Let_def)
  have ds: "gs_UserID demo_session = 1" "gs_Status demo_session = StatusActive" "gs_Game demo_session = Reaction"
    "gs_State demo_session = reaction_state" by (simp_all add: demo_session_def)
  have "move_tx demo_api tap_call 1 9 tap_move (in_game [])
      = (Inr (True, ?saved, v, out, None), (in_game [])\<lparr>w_db := put_session ?saved (w_db (in_game []))\<rparr>)"
    using calm reg g in_game_session [of "[]"] save ds
    by (simp add: move_tx_def calm_simps) (simp add: tap_call_def calm_simps)
  then have "in_tx (move_tx demo_api tap_call 1 9 tap_move) (in_game [])
      = (Inr (?saved, v, out, None), (in_game [])\<lparr>w_db := put_session ?saved (w_db (in_game []))\<rparr>)"
    using in_tx_calm [OF calm, of "move_tx demo_api tap_call 1 9 tap_move"] calm by simp
  moreover have "hold tap_call t w = (Inr (), w)" for t and w :: "mem_redis service_world"
    by (simp add: hold_def tap_call_def demo_call_def)
  moreover have "project demo_api tap_call u None w = (Inr None, w)" for u and w :: "mem_redis service_world"
    by (simp add: project_def split: option.split)
  ultimately obtain s w' where run: "session_Move demo_api tap_call 1 9 tap_move (in_game []) = (Inr s, w')"
    by (simp add: session_Move_def act_bind_def)
  obtain row df j' view out' row' where e: "find_session 9 (w_db (in_game [])) = Some row"
      "registry_Get NewRegistry (gs_Game row) = Inr df"
      "e_Move (d_engine df) (gs_State row) tap_move (c_now tap_call) = Inr (j', view, out')"
      "find_session 9 (w_db w') = Some row'" "gs_Status row' = (if Done out' then StatusFinished else StatusActive)"
      "se_Moves s = gs_Moves row + 1"
    using move_effect [OF demo_service store_ok_in_game run] by (elim exE conjE)
  have row: "row = demo_session" "df = reactionDefinition" using e(1,2) in_game_session ds by (simp_all add: registry_Get_new)
  then have "\<not> Done out'" using e(3) g ds by (simp add: tap_call_def)
  then show ?thesis using run e(4-6) row by (auto simp: demo_session_def)
qed



end
