(* ===== verification/Rebuild.thy ===== *)
theory Rebuild
  imports Leaderboard "HOL-Library.AList"
begin

text \<open>
  \<open>internal/leaderboard/rebuild.go\<close>: every board of the current windows written anew from the history
  in Postgres. A Go map from users to points is an association list with distinct keys; its order,
  which Go leaves open, does not matter to a single \<open>ZADD\<close>. The two commands of the pipeline are two
  calls, so a fault can fall between them.
\<close>

section \<open>Operations\<close>

record best_row =
  be_Game :: slug
  be_UserID :: int
  be_Points :: int

text \<open>The interface \<open>History\<close>: the scores, and the clock of the database.\<close>

record 'r history =
  BestPoints :: "time \<Rightarrow> time \<Rightarrow> ('r service_world, best_row list) act"
  Now :: "('r service_world, time) act"

record rebuild_report =
  rr_Keys :: int
  rr_Entries :: int
  rr_Periods :: "period list"

type_synonym user_scores = "(int \<times> int) list"

text \<open>The loop that fills \<open>perGame\<close> and \<open>global\<close>.\<close>

definition score_of :: "user_scores \<Rightarrow> int \<Rightarrow> int" where
  "score_of m u = (case map_of m u of None \<Rightarrow> 0 | Some x \<Rightarrow> x)"

fun gather ::
    "best_row list \<Rightarrow> (slug \<Rightarrow> user_scores) \<times> user_scores \<Rightarrow> (slug \<Rightarrow> user_scores) \<times> user_scores" where
  "gather [] acc = acc"
| "gather (e # es) (per_game, overall) =
     gather es
       (per_game(be_Game e := AList.update (be_UserID e) (be_Points e) (per_game (be_Game e))),
        AList.update (be_UserID e) (score_of overall (be_UserID e) + be_Points e) overall)"

definition zadd_all :: "'r redis_ops \<Rightarrow> string \<Rightarrow> user_scores \<Rightarrow> 'r \<Rightarrow> 'r" where
  "zadd_all R key scores r = foldl (\<lambda>r (u, points). zadd R key points (member_of u) r) r scores"

definition redis_do :: "('r \<Rightarrow> 'r) \<Rightarrow> ('r service_world, unit) act" where
  "redis_do f = redis_call (\<lambda>r. ((), f r))"

definition swap_in :: "'r redis_ops \<Rightarrow> string \<Rightarrow> string \<Rightarrow> ('r service_world, unit) act" where
  "swap_in R staging key =
     act_bind (redis_call (\<lambda>r. case rename R staging key r of None \<Rightarrow> (False, r) | Some r' \<Rightarrow> (True, r')))
       (\<lambda>ok. if ok then ret () else fail ErrRedis)"

definition replaceKey :: "'r redis_ops \<Rightarrow> string \<Rightarrow> period \<Rightarrow> user_scores \<Rightarrow> ('r service_world, int) act" where
  "replaceKey R key p scores =
     (if scores = [] then act_bind (redis_do (del R key)) (\<lambda>_. ret 0)
      else
        let staging = key @ '':rebuilding'' in
        act_bind (redis_do (del R staging)) (\<lambda>_.
        act_bind (redis_do (zadd_all R staging scores)) (\<lambda>_.
        act_bind (if 0 < TTL p then redis_do (expire R staging (seconds_int (TTL p))) else ret ()) (\<lambda>_.
        act_bind (swap_in R staging key) (\<lambda>_.
        ret (int (length scores)))))))"

fun replace_games ::
    "'r redis_ops \<Rightarrow> period \<Rightarrow> time \<Rightarrow> (slug \<Rightarrow> user_scores) \<Rightarrow> slug list \<Rightarrow> int \<Rightarrow> int
      \<Rightarrow> ('r service_world, int \<times> int) act" where
  "replace_games R p now per_game [] keys entries = ret (keys, entries)"
| "replace_games R p now per_game (g # gs) keys entries =
     act_bind (replaceKey R (Key (Game g) p now) p (per_game g)) (\<lambda>written.
     replace_games R p now per_game gs (keys + 1) (entries + written))"

definition rebuildPeriod ::
    "'r redis_ops \<Rightarrow> period \<Rightarrow> time \<Rightarrow> best_row list \<Rightarrow> ('r service_world, int \<times> int) act" where
  "rebuildPeriod R p now rows =
     (let (per_game, overall) = gather rows (\<lambda>_. [], [])
      in act_bind (replace_games R p now per_game (registry_Slugs NewRegistry) 0 0) (\<lambda>(keys, entries).
         act_bind (replaceKey R (Key Global p now) p overall) (\<lambda>written.
         ret (keys + 1, entries + written))))"

fun rebuild_periods ::
    "'r redis_ops \<Rightarrow> 'r history \<Rightarrow> time \<Rightarrow> period list \<Rightarrow> rebuild_report \<Rightarrow> ('r service_world, rebuild_report) act" where
  "rebuild_periods R h now [] report = ret report"
| "rebuild_periods R h now (p # ps) report =
     (let (from, until) = Window p now
      in act_bind (BestPoints h from until) (\<lambda>rows.
         act_bind (rebuildPeriod R p now rows) (\<lambda>(keys, entries).
         rebuild_periods R h now ps
           (report\<lparr>rr_Keys := rr_Keys report + keys, rr_Entries := rr_Entries report + entries,
              rr_Periods := rr_Periods report @ [p]\<rparr>))))"

definition Rebuild :: "'r board \<Rightarrow> 'r history \<Rightarrow> ('r service_world, rebuild_report) act" where
  "Rebuild b h =
     act_bind (Now h) (\<lambda>now.
     rebuild_periods (b_redis b) h now Periods \<lparr>rr_Keys = 0, rr_Entries = 0, rr_Periods = []\<rparr>)"

section \<open>What a rebuild writes\<close>

text \<open>Sorted sets outside \<open>K\<close>, and every row, are as they were.\<close>

definition touches :: "'r redis_ops \<Rightarrow> string set \<Rightarrow> 'r service_world \<Rightarrow> 'r service_world \<Rightarrow> bool" where
  "touches R K w w' \<longleftrightarrow>
     w_db w' = w_db w \<and> (\<forall>k. k \<notin> K \<longrightarrow> zscore R (w_redis w') k = zscore R (w_redis w) k)"

interpretation touches: frame "touches R K"
  by unfold_locales (auto simp: touches_def)

lemma touches_mono: "touches R K w w' \<Longrightarrow> K \<subseteq> K' \<Longrightarrow> touches R K' w w'"
  by (auto simp: touches_def)

lemma TTL_seconds: "0 < TTL p \<Longrightarrow> 0 < seconds_int (TTL p)"
  by (cases p) (simp_all add: seconds_int_def go_quot_nonneg hour_def minute_def second_def)

text \<open>The sorted set a map of scores makes.\<close>

definition zset_of :: "user_scores \<Rightarrow> string \<Rightarrow> int option" where
  "zset_of m = map_of (map (\<lambda>(u, points). (member_of u, points)) m)"

lemma zset_of_member: "zset_of m (member_of u) = map_of m u"
  unfolding zset_of_def by (induction m) auto

lemma zset_of_Nil: "zset_of [] = (\<lambda>_. None)"
  by (simp add: zset_of_def)

lemma redis_do_cases:
  assumes "redis_do f w = (r, w')"
  shows "w_db w' = w_db w \<and> (w_redis w' = w_redis w \<or> w_redis w' = f (w_redis w)) \<and> (r = Inr () \<longrightarrow> w_redis w' = f (w_redis w))"
proof -
  have "w_db w' = w_db w" using same_dbD [OF redis_call_same_db, of "\<lambda>r. ((), f r)" w] assms by (simp add: redis_do_def)
  moreover have "w_redis w' = w_redis w \<or> w_redis w' = f (w_redis w)"
    using redis_call_redis [of "\<lambda>r. ((), f r)" w r w'] assms by (simp add: redis_do_def)
  moreover have "r = Inr () \<Longrightarrow> w_redis w' = f (w_redis w)"
    using redis_call_Inr [of "\<lambda>r. ((), f r)" w "()" w'] assms by (simp add: redis_do_def)
  ultimately show ?thesis by blast
qed

context redis_server
begin

lemma zscore_zadd_all:
  assumes "distinct (map fst m)"
  shows "zscore R (zadd_all R k m r) k' = (if k' = k then zscore R r k ++ zset_of m else zscore R r k')"
  using assms
proof (induction m arbitrary: r)
  case (Cons e m)
  obtain u p where e: "e = (u, p)" by (cases e)
  have "zset_of m (member_of u) = None" using Cons.prems e by (simp add: zset_of_member map_of_eq_None_iff)
  moreover have "zset_of (e # m) = (zset_of m)(member_of u \<mapsto> p)" by (simp add: zset_of_def e)
  moreover have "zscore R (zadd_all R k (e # m) r) k' =
      (if k' = k then zscore R (zadd R k p (member_of u) r) k ++ zset_of m else zscore R (zadd R k p (member_of u) r) k')"
    using Cons by (simp add: zadd_all_def e)
  moreover have "zscore R (zadd R k p (member_of u) r) k = (zscore R r k)(member_of u \<mapsto> p)"
    by (simp add: fun_eq_iff zscore_zadd)
  moreover have "k' \<noteq> k \<Longrightarrow> zscore R (zadd R k p (member_of u) r) k' = zscore R r k'"
    by (simp add: fun_eq_iff zscore_zadd)
  ultimately show ?case by (auto simp: fun_eq_iff map_add_def split: option.split)
qed (simp add: zadd_all_def zset_of_Nil map_add_def)

lemma swap_in_cases:
  assumes "swap_in R a b w = (r, w')" and "zscore R (w_redis w) a m \<noteq> None" and "a \<noteq> b"
  shows "touches R {a, b} w w' \<and> (zscore R (w_redis w') b = zscore R (w_redis w) b \<or> zscore R (w_redis w') b = zscore R (w_redis w) a)
    \<and> (r = Inr () \<longrightarrow> zscore R (w_redis w') b = zscore R (w_redis w) a)"
proof -
  obtain q where q: "rename R a b (w_redis w) = Some q"
    and z: "zscore R q k = (if k = b then zscore R (w_redis w) a else if k = a then (\<lambda>m. None) else zscore R (w_redis w) k)" for k
    using rename_ok [OF assms(2,3)] by blast
  have db: "w_db w' = w_db w" and red: "w_redis w' = w_redis w \<or> w_redis w' = q" and ok: "r = Inr () \<Longrightarrow> w_redis w' = q"
    using assms(1) q unfolding swap_in_def redis_call_def
    by (auto simp: act_bind_def Let_def dest!: next_fault_same split: prod.splits sum.splits fault.splits if_splits option.splits)
  show ?thesis using db red ok z by (auto simp: touches_def)
qed

text \<open>
  Whatever fails, the board is the old one or the new one, never a part; when \<open>replaceKey\<close> returns it is
  the new one. Only the board and its staging name are written.
\<close>

lemma replaceKey_effect:
  assumes run: "replaceKey R k p m w = (r, w')" and dist: "distinct (map fst m)"
  shows "touches R {k, k @ '':rebuilding''} w w'
    \<and> (zscore R (w_redis w') k = zscore R (w_redis w) k \<or> zscore R (w_redis w') k = zset_of m)
    \<and> (\<forall>n. r = Inr n \<longrightarrow> n = int (length m) \<and> zscore R (w_redis w') k = zset_of m)"
proof (cases "m = []")
  case True
  from run True have "act_bind (redis_do (del R k)) (\<lambda>_. ret 0) w = (r, w')" by (simp add: replaceKey_def)
  then show ?thesis
  proof (cases rule: act_bind_cases)
    case (Stopped e)
    then show ?thesis using redis_do_cases [OF Stopped(1)] True by (auto simp: touches_def zset_of_Nil zscore_del)
  next
    case (Ran x w1)
    then show ?thesis using redis_do_cases [OF Ran(1)] True by (auto simp: touches_def zset_of_Nil zscore_del)
  qed
next
  case False
  define st where "st = k @ '':rebuilding''"
  have ne: "st \<noteq> k" by (simp add: st_def)
  from run have "act_bind (redis_do (del R st)) (\<lambda>_.
        act_bind (redis_do (zadd_all R st m)) (\<lambda>_.
        act_bind (if 0 < TTL p then redis_do (expire R st (seconds_int (TTL p))) else ret ()) (\<lambda>_.
        act_bind (swap_in R st k) (\<lambda>_. ret (int (length m)))))) w = (r, w')"
    unfolding replaceKey_def Let_def st_def by (simp only: False if_False)
  then have "touches R {k, st} w w'
    \<and> (zscore R (w_redis w') k = zscore R (w_redis w) k \<or> zscore R (w_redis w') k = zset_of m)
    \<and> (\<forall>n. r = Inr n \<longrightarrow> n = int (length m) \<and> zscore R (w_redis w') k = zset_of m)"
  proof (cases rule: act_bind_cases)
    case (Stopped e)
    then show ?thesis using redis_do_cases [OF Stopped(1)] ne by (auto simp: touches_def zscore_del)
  next
    case (Ran x w1)
    have w1: "w_db w1 = w_db w" "zscore R (w_redis w1) k' = (if k' = st then (\<lambda>_. None) else zscore R (w_redis w) k')" for k'
      using redis_do_cases [OF Ran(1)] by (simp_all add: zscore_del)
    from Ran(2) show ?thesis
    proof (cases rule: act_bind_cases)
      case (Stopped e)
      then show ?thesis using redis_do_cases [OF Stopped(1)] ne w1
        by (auto simp: touches_def zscore_zadd_all [OF dist])
    next
      case (Ran x w2)
      have w2: "w_db w2 = w_db w" "zscore R (w_redis w2) k' = (if k' = st then zset_of m else zscore R (w_redis w) k')" for k'
        using redis_do_cases [OF Ran(1)] w1 by (simp_all add: zscore_zadd_all [OF dist] map_add_def)
      have exp: "w_db w3 = w_db w2 \<and> zscore R (w_redis w3) = zscore R (w_redis w2)"
        if "(if 0 < TTL p then redis_do (expire R st (seconds_int (TTL p))) else ret ()) w2 = (y, w3)" for y w3
        using that redis_do_cases [of "expire R st (seconds_int (TTL p))" w2 y w3] TTL_seconds [of p]
        by (auto simp: zscore_expire split: if_splits)
      from Ran(2) show ?thesis
      proof (cases rule: act_bind_cases)
        case (Stopped e)
        then show ?thesis using exp [OF Stopped(1)] ne w2 by (auto simp: touches_def)
      next
        case (Ran x w3)
        have w3: "w_db w3 = w_db w" "zscore R (w_redis w3) k' = (if k' = st then zset_of m else zscore R (w_redis w) k')" for k'
          using exp [OF Ran(1)] w2 by simp_all
        obtain u q m' where "m = (u, q) # m'" using False by (cases m) auto
        then have some: "zscore R (w_redis w3) st (member_of u) \<noteq> None" by (simp add: w3 zset_of_def)
        from Ran(2) show ?thesis
        proof (cases rule: act_bind_cases)
          case (Stopped e)
          then show ?thesis using swap_in_cases [OF Stopped(1) some ne] w3 ne by (auto simp: touches_def)
        next
          case (Ran x w4)
          then have "w4 = w'" "r = Inr (int (length m))" by simp_all
          then show ?thesis using swap_in_cases [OF Ran(1) some ne] w3 ne by (auto simp: touches_def)
        qed
      qed
    qed
  qed
  then show ?thesis by (simp add: st_def)
qed

end

end
