(* ===== verification/Scores.thy ===== *)
theory Scores
  imports Rebuild
begin

text \<open>
  \<open>internal/scores/store.go\<close>: the score history as the worker and a rebuild read it. Each operation is
  one statement outside a transaction, so \<open>now\<close> is the instant of that statement.
\<close>

record pending_event =
  pe_ID :: int
  pe_UserID :: int
  pe_Game :: slug
  pe_Points :: int
  pe_AchievedAt :: time

definition to_int32 :: "int \<Rightarrow> int" where
  "to_int32 n = sint (word_of_int n :: 32 word)"

definition pending_of :: "score_event \<Rightarrow> pending_event" where
  "pending_of row =
     \<lparr>pe_ID = ev_ID row, pe_UserID = ev_UserID row, pe_Game = ev_Game row, pe_Points = ev_Points row,
      pe_AchievedAt = ev_AchievedAt row\<rparr>"

definition Unprojected :: "int \<Rightarrow> ('r service_world, pending_event list) act" where
  "Unprojected limit =
     act_bind (exec (ListUnprojectedScoreEvents (to_int32 limit))) (\<lambda>rows. ret (map pending_of rows))"

definition MarkProjected :: "time \<Rightarrow> int \<Rightarrow> ('r service_world, unit) act" where
  "MarkProjected now ident = exec (MarkScoreEventProjected now ident)"

definition PendingCount :: "('r service_world, int) act" where
  "PendingCount = exec CountUnprojectedScoreEvents"

definition scores_BestPoints :: "time \<Rightarrow> time \<Rightarrow> ('r service_world, best_row list) act" where
  "scores_BestPoints from until =
     act_bind (exec (BestPointsPerUserAndGame (if is_zero from then None else Some from)
        (if is_zero until then None else Some until))) (\<lambda>rows.
     ret (map (\<lambda>(g, u, points). \<lparr>be_Game = g, be_UserID = u, be_Points = points\<rparr>) rows))"

definition scores_Now :: "time \<Rightarrow> ('r service_world, time) act" where
  "scores_Now now = exec (pg_Now now)"

definition scores_DeleteExpired :: "time \<Rightarrow> ('r service_world, int) act" where
  "scores_DeleteExpired now = exec (DeleteExpiredRefreshTokens now)"

definition scores_AbandonStale :: "time \<Rightarrow> time \<Rightarrow> ('r service_world, int) act" where
  "scores_AbandonStale now olderThan = exec (AbandonStaleSessions now olderThan)"

definition score_history :: "time \<Rightarrow> 'r history" where
  "score_history now = \<lparr>BestPoints = scores_BestPoints, Now = scores_Now now\<rparr>"

end
