(* ===== verification/Rebuild_Spec.thy ===== *)
theory Rebuild_Spec
  imports Scores
begin

text \<open>
  That a rebuild restores the boards: \<open>scored_events\<close> are the scores in Postgres as the specification
  of the boards (\<open>best\<close>, \<open>global_best\<close> of theory Leaderboard) reads them, the aggregates of the history
  compute that specification, and \<open>replaceKey\<close> puts it in place key by key.
\<close>

section \<open>The history computes the specification\<close>

definition scored_events :: "database \<Rightarrow> scored_event list" where
  "scored_events d = map (\<lambda>e. (ev_UserID e, ev_Game e, ev_Points e, ev_AchievedAt e)) (events d)"

definition in_period :: "period \<Rightarrow> time \<Rightarrow> score_event \<Rightarrow> bool" where
  "in_period p t e \<longleftrightarrow> Window p (ev_AchievedAt e) = Window p t"

lemma window_end_not_zero:
  assumes "p \<noteq> AllTime" and "31 \<le> day_number t"
  shows "\<not> is_zero (snd (Window p t))"
proof -
  have "fst (Window p t) < snd (Window p t)" using window_iff [OF assms(1), of t] by linarith
  moreover have "zero_time = midnight 0" by (simp add: zero_time_def midnight_def)
  moreover have "0 < first_day p (day_number t)"
  proof -
    have "past_day p (day_number t) - first_day p (day_number t) \<le> 31"
      using window_days_le [OF assms(1), of "day_number t"] by (cases p) simp_all
    then show ?thesis using day_in_window [OF assms(1), of "day_number t"] assms(2) by linarith
  qed
  then have "midnight 0 < fst (Window p t)" by (simp add: Window_days [OF assms(1)] midnight_less_iff)
  ultimately show ?thesis by (simp add: is_zero_def)
qed

lemma in_window_period:
  assumes "31 \<le> day_number t"
  shows "in_window (if is_zero (fst (Window p t)) then None else Some (fst (Window p t)))
      (if is_zero (snd (Window p t)) then None else Some (snd (Window p t))) e \<longleftrightarrow> in_period p t e"
proof (cases "p = AllTime")
  case True
  then show ?thesis by (simp add: in_window_def in_period_def is_zero_def)
next
  case False
  then show ?thesis
    using window_not_zero [OF False assms] window_end_not_zero [OF False assms] window_iff [OF False, of t]
    by (simp add: in_window_def in_period_def)
qed

lemma points_in_events:
  "points_in p t g u (scored_events d) = map ev_Points (filter (of_game_user g u) (filter (in_period p t) (events d)))"
  unfolding points_in_def scored_events_def in_period_def of_game_user_def
  by (simp add: filter_map comp_def split_beta conj_commute conj_left_commute)

lemma max_of_Max: "xs \<noteq> [] \<Longrightarrow> max_of xs = Max (set xs)"
proof -
  have "foldr max ys x = Max (set (x # ys))" for x :: int and ys
    by (induction ys) (simp_all add: insert_commute [of x])
  then show "xs \<noteq> [] \<Longrightarrow> max_of xs = Max (set xs)" by (cases xs) (simp_all add: max_of_def)
qed

text \<open>The row of a game and a user holds the best of the window.\<close>

definition row_key :: "slug \<times> int \<times> int \<Rightarrow> slug \<times> int" where
  "row_key row = (fst row, fst (snd row))"

lemma best_rows_keys: "map row_key (best_rows es) = remdups (map (\<lambda>e. (ev_Game e, ev_UserID e)) es)"
  by (simp add: best_rows_def row_key_def comp_def split_beta)

lemma best_rows_mem:
  "(g, u, x) \<in> set (best_rows es) \<longleftrightarrow>
    filter (of_game_user g u) es \<noteq> [] \<and> x = max_of (map ev_Points (filter (of_game_user g u) es))"
  by (auto simp: best_rows_def filter_empty_conv of_game_user_def image_iff split_beta)

lemma best_of_rows:
  "best p t g u (scored_events d) = Some x \<longleftrightarrow> (g, u, x) \<in> set (best_rows (filter (in_period p t) (events d)))"
proof -
  let ?xs = "map ev_Points (filter (of_game_user g u) (filter (in_period p t) (events d)))"
  have "best p t g u (scored_events d) = (if ?xs = [] then None else Some (max_of ?xs))"
    unfolding best_def points_in_events Let_def using max_of_Max [of ?xs] by (simp del: map_is_Nil_conv)
  then show ?thesis by (auto simp: best_rows_mem)
qed

section \<open>Gathering the rows\<close>

lemma gather_keys:
  assumes "\<And>g. distinct (map fst (pg g))" and "distinct (map fst ov)"
  shows "distinct (map fst (fst (gather rows (pg, ov)) g)) \<and> distinct (map fst (snd (gather rows (pg, ov))))"
  using assms
proof (induction rows arbitrary: pg ov)
  case (Cons e rows)
  show ?case unfolding gather.simps
    by (rule Cons.IH) (use Cons.prems in \<open>auto intro: distinct_update\<close>)
qed simp

lemma gather_game:
  assumes "distinct (map (\<lambda>e. (be_Game e, be_UserID e)) rows)"
  shows "map_of (fst (gather rows (pg, ov)) g) u =
    (case find (\<lambda>e. be_Game e = g \<and> be_UserID e = u) rows of None \<Rightarrow> map_of (pg g) u | Some e \<Rightarrow> Some (be_Points e))"
  using assms
proof (induction rows arbitrary: pg ov)
  case (Cons e rows)
  have "find (\<lambda>e'. be_Game e' = be_Game e \<and> be_UserID e' = be_UserID e) rows = None"
    using Cons.prems by (force simp: find_None_iff image_iff)
  then show ?case using Cons by (auto simp: update_conv' split: option.split)
qed simp

lemma gather_overall:
  "map_of (snd (gather rows (pg, ov))) u =
    (let mine = filter (\<lambda>e. be_UserID e = u) rows
     in if mine = [] then map_of ov u else Some (score_of ov u + sum_list (map be_Points mine)))"
proof (induction rows arbitrary: pg ov)
  case (Cons e rows)
  show ?case unfolding gather.simps Cons.IH
    by (auto simp: Let_def score_of_def update_conv')
qed simp

definition best_row_of :: "slug \<times> int \<times> int \<Rightarrow> best_row" where
  "best_row_of row = (case row of (g, u, points) \<Rightarrow> \<lparr>be_Game = g, be_UserID = u, be_Points = points\<rparr>)"

definition period_rows :: "period \<Rightarrow> time \<Rightarrow> database \<Rightarrow> best_row list" where
  "period_rows p t d = map best_row_of (best_rows (filter (in_period p t) (events d)))"

lemma period_rows_distinct: "distinct (map (\<lambda>e. (be_Game e, be_UserID e)) (period_rows p t d))"
proof -
  have "map (\<lambda>e. (be_Game e, be_UserID e)) (period_rows p t d) = map row_key (best_rows (filter (in_period p t) (events d)))"
    by (simp add: period_rows_def best_row_of_def row_key_def comp_def split_beta)
  then show ?thesis by (simp add: best_rows_keys)
qed

lemma period_rows_mem:
  "e \<in> set (period_rows p t d) \<longleftrightarrow> best p t (be_Game e) (be_UserID e) (scored_events d) = Some (be_Points e)"
  unfolding best_of_rows period_rows_def best_row_of_def
  by (cases e) (force simp: image_iff split_beta)

text \<open>Per game: the best of the window.\<close>

lemma gathered_game:
  "map_of (fst (gather (period_rows p t d) (\<lambda>_. [], [])) g) u = best p t g u (scored_events d)"
proof (cases "find (\<lambda>e. be_Game e = g \<and> be_UserID e = u) (period_rows p t d)")
  case None
  have "best p t g u (scored_events d) \<noteq> Some x" for x
    using None period_rows_mem [of "\<lparr>be_Game = g, be_UserID = u, be_Points = x\<rparr>" p t d] by (force simp: find_None_iff)
  then have "best p t g u (scored_events d) = None" by (metis not_Some_eq)
  then show ?thesis using None by (simp add: gather_game [OF period_rows_distinct])
next
  case (Some e)
  then have "e \<in> set (period_rows p t d)" "be_Game e = g" "be_UserID e = u" by (auto simp: find_Some_iff)
  then show ?thesis using Some period_rows_mem [of e p t d] by (simp add: gather_game [OF period_rows_distinct])
qed

text \<open>Over all games: the sum of those bests.\<close>

lemma gathered_overall:
  assumes "\<And>e. e \<in> set (events d) \<Longrightarrow> ev_Game e \<in> set game_slugs"
  shows "map_of (snd (gather (period_rows p t d) (\<lambda>_. [], []))) u = global_best p t u (scored_events d)"
proof -
  let ?b = "\<lambda>g. best p t g u (scored_events d)"
  let ?mine = "filter (\<lambda>e. be_UserID e = u) (period_rows p t d)"
  have slug: "g \<in> set game_slugs" if g: "?b g = Some x" for g x
  proof -
    have "filter (of_game_user g u) (filter (in_period p t) (events d)) \<noteq> []"
      using g unfolding best_of_rows best_rows_mem by (rule conjunct1)
    then obtain e where "e \<in> set (events d)" "of_game_user g u e" by (auto simp: filter_empty_conv)
    then show ?thesis using assms [of e] by (simp add: of_game_user_def)
  qed
  have mem: "e \<in> set ?mine \<longleftrightarrow> be_UserID e = u \<and> ?b (be_Game e) = Some (be_Points e)" for e
    using period_rows_mem [of e p t d] by auto
  have games: "be_Game ` set ?mine = {g \<in> set game_slugs. ?b g \<noteq> None}"
  proof (intro equalityI subsetI)
    fix g assume "g \<in> be_Game ` set ?mine"
    then show "g \<in> {g \<in> set game_slugs. ?b g \<noteq> None}" using mem slug by fastforce
  next
    fix g assume "g \<in> {g \<in> set game_slugs. ?b g \<noteq> None}"
    then obtain x where "?b g = Some x" by auto
    then have "\<lparr>be_Game = g, be_UserID = u, be_Points = x\<rparr> \<in> set ?mine" using mem by simp
    then show "g \<in> be_Game ` set ?mine" by force
  qed
  show ?thesis
  proof (cases "?mine = []")
    case True
    then have "{g \<in> set game_slugs. ?b g \<noteq> None} = {}" using games by simp
    then have "\<forall>g \<in> set game_slugs. ?b g = None" by blast
    then show ?thesis using True by (simp add: gather_overall global_best_def Let_def)
  next
    case False
    have "distinct (map (\<lambda>e. (be_Game e, be_UserID e)) ?mine)"
      using period_rows_distinct by (rule distinct_map_filter)
    then have dist: "distinct (map be_Game ?mine)"
      by (auto simp: distinct_map inj_on_def)
    have pts: "map be_Points ?mine = map (\<lambda>g. or_zero (?b g)) (map be_Game ?mine)"
      using mem by simp
    have "sum_list (map be_Points ?mine) = (\<Sum>g \<in> set (map be_Game ?mine). or_zero (?b g))"
      unfolding pts by (rule sum_list_distinct_conv_sum_set [OF dist])
    also have "\<dots> = (\<Sum>g \<in> {g \<in> set game_slugs. ?b g \<noteq> None}. or_zero (?b g))"
      using games by (simp only: list.set_map)
    also have "\<dots> = (\<Sum>g \<in> set game_slugs. or_zero (?b g))"
      by (rule sum.mono_neutral_left) auto
    also have "\<dots> = (\<Sum>g \<leftarrow> game_slugs. or_zero (?b g))"
      by (rule sum_list_distinct_conv_sum_set [symmetric]) (use slugs_distinct in \<open>simp add: registry_Slugs_new\<close>)
    finally have "sum_list (map be_Points ?mine) = (\<Sum>g \<leftarrow> game_slugs. or_zero (?b g))" .
    moreover have "\<not> (\<forall>g \<in> set game_slugs. ?b g = None)"
    proof -
      obtain e where "e \<in> set ?mine" using False by (meson last_in_set)
      then have "be_Game e \<in> {g \<in> set game_slugs. ?b g \<noteq> None}" using games by (metis imageI)
      then have e: "be_Game e \<in> set game_slugs" "?b (be_Game e) \<noteq> None" by simp_all
      show ?thesis using bspec [of "set game_slugs" "\<lambda>g. ?b g = None", OF _ e(1)] e(2) by blast
    qed
    ultimately show ?thesis using False by (simp add: gather_overall global_best_def Let_def score_of_def)
  qed
qed

section \<open>Replacing a set of boards\<close>

type_synonym board_id = "scope \<times> period"

definition board_names :: "time \<Rightarrow> board_id set \<Rightarrow> string set" where
  "board_names t I = (\<Union>(s, p) \<in> I. {Key s p t, Key s p t @ '':rebuilding''})"

text \<open>What a board should hold, as \<open>rebuildPeriod\<close> gathers it.\<close>

definition target :: "database \<Rightarrow> time \<Rightarrow> scope \<Rightarrow> period \<Rightarrow> user_scores" where
  "target d t s p =
     (let acc = gather (period_rows p t d) (\<lambda>_. [], []) in if IsGlobal s then snd acc else fst acc (sc_Game s))"

definition board_at :: "'r redis_ops \<Rightarrow> 'r service_world \<Rightarrow> time \<Rightarrow> board_id \<Rightarrow> string \<Rightarrow> int option" where
  "board_at R w t i = zscore R (w_redis w) (Key (fst i) (snd i) t)"

definition goal :: "database \<Rightarrow> time \<Rightarrow> board_id \<Rightarrow> string \<Rightarrow> int option" where
  "goal d t i = zset_of (target d t (fst i) (snd i))"

text \<open>
  The boards \<open>I\<close> are replaced: each is the old one or the goal, the goal when no error is reported, and
  nothing but these boards and their staging names is written.
\<close>

definition replaced ::
    "'r redis_ops \<Rightarrow> time \<Rightarrow> database \<Rightarrow> board_id set \<Rightarrow> err + 'a \<Rightarrow> 'r service_world \<Rightarrow> 'r service_world \<Rightarrow> bool" where
  "replaced R t d I r w w' \<longleftrightarrow>
     touches R (board_names t I) w w' \<and>
     (\<forall>i \<in> I. board_at R w' t i = board_at R w t i \<or> board_at R w' t i = goal d t i) \<and>
     (isl r \<or> (\<forall>i \<in> I. board_at R w' t i = goal d t i))"

definition fine :: "board_id set \<Rightarrow> bool" where
  "fine I \<longleftrightarrow> (\<forall>i \<in> I. scope_ok (fst i))"

lemma other_board:
  assumes "fine I" and "fine {i}" and "i \<notin> I"
  shows "Key (fst i) (snd i) t \<notin> board_names t I"
proof
  assume "Key (fst i) (snd i) t \<in> board_names t I"
  then obtain s p where "(s, p) \<in> I" "Key (fst i) (snd i) t = Key s p t \<or> Key (fst i) (snd i) t = Key s p t @ '':rebuilding''"
    by (auto simp: board_names_def)
  moreover from this have "Key (fst i) (snd i) t = Key s p t" using staging_not_Key by metis
  ultimately have "i = (s, p)"
    using assms(1,2) Key_eq_iff [of "fst i" s "snd i" t p t] by (auto simp: fine_def prod_eq_iff)
  then show False using \<open>(s, p) \<in> I\<close> assms(3) by simp
qed

lemma board_names_mono: "board_names t I \<subseteq> board_names t (I \<union> J)" "board_names t J \<subseteq> board_names t (I \<union> J)"
  by (auto simp: board_names_def)

lemma untouched_board:
  assumes "touches R (board_names t I) w w'" and "fine I" and "fine {i}" and "i \<notin> I"
  shows "board_at R w' t i = board_at R w t i"
  using assms(1) other_board [OF assms(2-4)] by (simp add: touches_def board_at_def)

lemma replaced_seq:
  assumes "replaced R t d I (Inr x) w w1" and "replaced R t d J r w1 w'" and "fine (I \<union> J)" and "I \<inter> J = {}"
  shows "replaced R t d (I \<union> J) r w w'"
proof -
  have f: "fine I" "fine J" "\<And>i. i \<in> I \<union> J \<Longrightarrow> fine {i}" using assms(3) by (auto simp: fine_def)
  note t1 = assms(1) [unfolded replaced_def, THEN conjunct1] and t2 = assms(2) [unfolded replaced_def, THEN conjunct1]
  have g1: "board_at R w' t i = goal d t i" if "i \<in> I" for i
    using untouched_board [OF t2 f(2) f(3), of i] that assms(1,4) by (auto simp: replaced_def)
  have g2: "board_at R w1 t i = board_at R w t i" if "i \<in> J" for i
    using untouched_board [OF t1 f(1) f(3), of i] that assms(4) by auto
  have "touches R (board_names t (I \<union> J)) w w'"
    using touches.trans [OF touches_mono [OF t1 board_names_mono(1)] touches_mono [OF t2 board_names_mono(2)]] .
  then show ?thesis using g1 g2 assms(2) by (auto simp: replaced_def)
qed

lemma replaced_stop:
  assumes "replaced R t d I (Inl e :: err + 'a) w w'" and "fine (I \<union> J)" and "I \<inter> J = {}"
  shows "replaced R t d (I \<union> J) (Inl e' :: err + 'b) w w'"
proof -
  have f: "fine I" "\<And>i. i \<in> I \<union> J \<Longrightarrow> fine {i}" using assms(2) by (auto simp: fine_def)
  note t1 = assms(1) [unfolded replaced_def, THEN conjunct1]
  have "board_at R w' t i = board_at R w t i" if "i \<in> J" for i
    using untouched_board [OF t1 f, of i] that assms(3) by auto
  then show ?thesis using assms(1) touches_mono [OF t1 board_names_mono(1)] by (auto simp: replaced_def)
qed

lemma replaced_none: "touches R {} w w' \<Longrightarrow> replaced R t d {} r w w'"
  by (simp add: replaced_def board_names_def)

lemma replaced_before:
  assumes "touches R {} w w1" and "replaced R t d I r w1 w'"
  shows "replaced R t d I r w w'"
proof -
  have "touches R (board_names t I) w w'"
    using touches.trans [OF touches_mono [OF assms(1), of "board_names t I"]] assms(2) by (simp add: replaced_def)
  then show ?thesis using assms by (simp add: replaced_def touches_def board_at_def)
qed

context redis_server
begin

lemma replaced_one:
  assumes "replaceKey R (Key s p t) p (target d t s p) w = (r, w')"
  shows "replaced R t d {(s, p)} r w w'"
proof -
  have "distinct (map fst (target d t s p))"
    using gather_keys [of "\<lambda>_. []" "[]" "period_rows p t d"] by (simp add: target_def Let_def)
  from replaceKey_effect [OF assms this] show ?thesis
    by (cases r) (auto simp: replaced_def board_names_def board_at_def goal_def)
qed

lemma replaced_games:
  assumes "replace_games R p t (fst (gather (period_rows p t d) (\<lambda>_. [], []))) gs keys entries w = (r, w')"
    and "distinct gs" and "set gs \<subseteq> set game_slugs"
  shows "replaced R t d ((\<lambda>g. (Game g, p)) ` set gs) r w w'"
  using assms
proof (induction gs arbitrary: keys entries w)
  case Nil
  then show ?case using replaced_none touches.refl by force
next
  case (Cons g gs)
  have "\<not> IsGlobal (Game g)" using Cons.prems(3) registry_slug_nonempty by (auto simp: IsGlobal_def Game_def)
  then have tg: "fst (gather (period_rows p t d) (\<lambda>_. [], [])) g = target d t (Game g) p"
    by (simp add: target_def Game_def Let_def)
  let ?I = "{(Game g, p)}" and ?J = "(\<lambda>g. (Game g, p)) ` set gs"
  have fine: "fine (?I \<union> ?J)" using Cons.prems(3) by (auto simp: fine_def scope_ok_def Game_def)
  have disj: "?I \<inter> ?J = {}" using Cons.prems(2) by (auto simp: Game_def)
  have set: "(\<lambda>g. (Game g, p)) ` set (g # gs) = ?I \<union> ?J" by auto
  from Cons.prems(1) have "act_bind (replaceKey R (Key (Game g) p t) p (target d t (Game g) p)) (\<lambda>written.
      replace_games R p t (fst (gather (period_rows p t d) (\<lambda>_. [], []))) gs (keys + 1) (entries + written)) w = (r, w')"
    by (simp add: tg)
  then show ?case unfolding set
  proof (cases rule: act_bind_cases)
    case (Stopped e)
    then show "replaced R t d (?I \<union> ?J) r w w'" using replaced_stop [OF replaced_one [OF Stopped(1)] fine disj] by simp
  next
    case (Ran written w1)
    show "replaced R t d (?I \<union> ?J) r w w'"
      using replaced_seq [OF replaced_one [OF Ran(1)] Cons.IH [OF Ran(2)] fine disj] Cons.prems(2,3) by simp
  qed
qed

end

text \<open>All boards of a period: those of the registered games, and the cross-game board.\<close>

definition all_scopes :: "scope set" where
  "all_scopes = insert Global (Game ` set game_slugs)"

lemma fine_all: "fst ` I \<subseteq> all_scopes \<Longrightarrow> fine I"
  by (auto simp: fine_def all_scopes_def scope_ok_def Game_def Global_def IsGlobal_def dest!: subsetD)

lemma history_read:
  assumes "scores_BestPoints (fst (Window p t)) (snd (Window p t)) w = (r, w')" and "31 \<le> day_number t"
  shows "touches R {} w w' \<and> (\<forall>rows. r = Inr rows \<longrightarrow> rows = period_rows p t (w_db w))"
proof -
  let ?from = "if is_zero (fst (Window p t)) then None else Some (fst (Window p t))"
  let ?until = "if is_zero (snd (Window p t)) then None else Some (snd (Window p t))"
  have sel: "filter (in_window ?from ?until) es = filter (in_period p t) es" for es
    by (rule filter_cong) (simp_all only: in_window_period [OF assms(2)])
  have "keeps same_db (scores_BestPoints a b)" "keeps same_redis (scores_BestPoints a b)" for a b
    unfolding scores_BestPoints_def
    by (intro same_db_rules same_redis_rules; simp add: BestPointsPerUserAndGame_def)+
  then have "w_db w' = w_db w" "w_redis w' = w_redis w"
    using same_dbD same_redisD assms(1) by (metis snd_conv)+
  then have t: "touches R {} w w'" by (simp add: touches_def)
  have "rows = period_rows p t (w_db w)" if "r = Inr rows" for rows
    using assms(1) that sel
    by (auto simp: scores_BestPoints_def act_bind_Inr BestPointsPerUserAndGame_def period_rows_def best_row_of_def
        dest!: exec_Inr)
  then show ?thesis using t by blast
qed

context redis_server
begin

lemma replaced_period:
  assumes "rebuildPeriod R p t (period_rows p t d) w = (r, w')"
  shows "replaced R t d (all_scopes \<times> {p}) r w w'"
proof -
  obtain pg ov where acc: "gather (period_rows p t d) (\<lambda>_. [], []) = (pg, ov)" by (cases "gather (period_rows p t d) (\<lambda>_. [], [])")
  have ov: "ov = target d t Global p" using acc by (simp add: target_def IsGlobal_def Global_def)
  let ?I = "(\<lambda>g. (Game g, p)) ` set game_slugs" and ?J = "{(Global, p)}"
  have fine: "fine (?I \<union> ?J)" by (rule fine_all) (auto simp: all_scopes_def)
  have disj: "?I \<inter> ?J = {}" using registry_slug_nonempty by (force simp: Game_def Global_def)
  have all: "all_scopes \<times> {p} = ?I \<union> ?J" by (auto simp: all_scopes_def)
  have games: "replaced R t d ?I r1 w w1" if "replace_games R p t pg game_slugs 0 0 w = (r1, w1)" for r1 w1
    using replaced_games [of p t d game_slugs 0 0 w r1 w1] that acc slugs_distinct by (simp add: registry_Slugs_new)
  from assms have "act_bind (replace_games R p t pg game_slugs 0 0) (\<lambda>(keys, entries).
         act_bind (replaceKey R (Key Global p t) p ov) (\<lambda>written. ret (keys + 1, entries + written))) w = (r, w')"
    by (simp add: rebuildPeriod_def acc)
  then show ?thesis unfolding all
  proof (cases rule: act_bind_cases)
    case (Stopped e)
    then show "replaced R t d (?I \<union> ?J) r w w'" using replaced_stop [OF games [OF Stopped(1)] fine disj] by simp
  next
    case (Ran x w1)
    obtain keys entries where x: "x = (keys, entries)" by (cases x)
    from Ran(2) have "act_bind (replaceKey R (Key Global p t) p ov) (\<lambda>written. ret (keys + 1, entries + written)) w1 = (r, w')"
      by (simp add: x)
    then show "replaced R t d (?I \<union> ?J) r w w'"
    proof (cases rule: act_bind_cases)
      case (Stopped e)
      have "replaced R t d (?I \<union> ?J) (Inl e :: err + int) w w'"
        using replaced_seq [OF games [OF Ran(1)] replaced_one [OF Stopped(1) [unfolded ov]] fine disj] .
      then show ?thesis using Stopped(2) by (simp add: replaced_def)
    next
      case (Ran written w2)
      have "replaced R t d (?I \<union> ?J) (Inr written) w w2"
        using replaced_seq [OF games [OF \<open>replace_games R p t pg game_slugs 0 0 w = (Inr x, w1)\<close>]
            replaced_one [OF Ran(1) [unfolded ov]] fine disj] .
      then show ?thesis using Ran(2) by (simp add: replaced_def)
    qed
  qed
qed

lemma touches_db: "replaced R t d I r w w' \<Longrightarrow> w_db w' = w_db w"
  by (simp add: replaced_def touches_def)

lemma replaced_periods:
  assumes "rebuild_periods R (score_history now) t ps report w = (r, w')" and "distinct ps"
    and "31 \<le> day_number t"
  shows "replaced R t (w_db w) (all_scopes \<times> set ps) r w w'"
  using assms(1,2)
proof (induction ps arbitrary: report w)
  case Nil
  then show ?case using replaced_none touches.refl by force
next
  case (Cons p ps)
  let ?I = "all_scopes \<times> {p}" and ?J = "all_scopes \<times> set ps"
  have set: "all_scopes \<times> set (p # ps) = ?I \<union> ?J" by auto
  have fine: "fine (?I \<union> ?J)" by (rule fine_all) auto
  have disj: "?I \<inter> ?J = {}" using Cons.prems(2) by auto
  have none: "replaced R t (w_db w) (?I \<union> ?J) (Inl e :: err + rebuild_report) w w1" if "touches R {} w w1" for e w1
    by (rule replaced_stop [where I = "{}", simplified, OF replaced_none [OF that] fine])
  from Cons.prems(1) have "act_bind (scores_BestPoints (fst (Window p t)) (snd (Window p t))) (\<lambda>rows.
         act_bind (rebuildPeriod R p t rows) (\<lambda>(keys, entries).
         rebuild_periods R (score_history now) t ps
           (report\<lparr>rr_Keys := rr_Keys report + keys, rr_Entries := rr_Entries report + entries,
              rr_Periods := rr_Periods report @ [p]\<rparr>))) w = (r, w')"
    by (simp add: score_history_def split_beta)
  then show ?case unfolding set
  proof (cases rule: act_bind_cases)
    case (Stopped e)
    then show "replaced R t (w_db w) (?I \<union> ?J) r w w'" using none history_read [OF Stopped(1) assms(3), of R] by simp
  next
    case (Ran rows w1)
    have rows: "rows = period_rows p t (w_db w)" and t1: "touches R {} w w1"
      using history_read [OF Ran(1) assms(3), of R] by simp_all
    have db1: "w_db w1 = w_db w" using t1 by (simp add: touches_def)
    from Ran(2) have "replaced R t (w_db w) (?I \<union> ?J) r w1 w'"
    proof (cases rule: act_bind_cases)
      case (Stopped e)
      then show ?thesis using replaced_stop [OF replaced_period [OF Stopped(1) [unfolded rows]] fine disj] by simp
    next
      case (Ran x w2)
      obtain keys entries where x: "x = (keys, entries)" by (cases x)
      note first = replaced_period [OF Ran(1) [unfolded rows]]
      have "w_db w2 = w_db w" using touches_db [OF first] db1 by simp
      then have "replaced R t (w_db w) ?J r w2 w'" using Cons.IH [OF Ran(2) [unfolded x prod.case]] Cons.prems(2) by simp
      then show ?thesis using replaced_seq [OF first _ fine disj] by blast
    qed
    then show "replaced R t (w_db w) (?I \<union> ?J) r w w'" by (rule replaced_before [OF t1])
  qed
qed

end

section \<open>A rebuild without failures\<close>

definition calm :: "('d, 'r) world \<Rightarrow> bool" where
  "calm w \<longleftrightarrow> w_faults w = []"

text \<open>An action that returns, and leaves no fault behind, when none is scheduled.\<close>

definition returns :: "(('d, 'r) world, 'a) act \<Rightarrow> ('a \<Rightarrow> bool) \<Rightarrow> bool" where
  "returns m P \<longleftrightarrow> (\<forall>w. calm w \<longrightarrow> (\<exists>x w'. m w = (Inr x, w') \<and> calm w' \<and> P x))"

lemma returns_ret: "P x \<Longrightarrow> returns (ret x) P"
  by (simp add: returns_def)

lemma returns_bind:
  assumes "returns m Q" and "\<And>x. Q x \<Longrightarrow> returns (f x) P"
  shows "returns (act_bind m f) P"
  using assms unfolding returns_def by (metis act_bind_cong_Inr)

lemma returns_redis_call: "(\<And>r. P (fst (c r))) \<Longrightarrow> returns (redis_call c) P"
  unfolding returns_def calm_def redis_call_def by (auto simp: split_beta)

lemma returns_redis_do: "returns (redis_do f) (\<lambda>_. True)"
  unfolding redis_do_def by (rule returns_redis_call) simp

lemma returns_exec: "(\<And>d. \<exists>x. fst (q d) = Inr x \<and> P x) \<Longrightarrow> returns (exec q) P"
  unfolding returns_def calm_def by (auto simp: exec_NoFault)

lemma returns_True: "returns m P \<Longrightarrow> returns m (\<lambda>_. True)"
  unfolding returns_def by blast

text \<open>The swap needs the staging key, which the \<open>ZADD\<close> before it has filled.\<close>

context redis_server
begin

lemma returns_replaceKey:
  assumes "distinct (map fst m)"
  shows "returns (replaceKey R k p m) (\<lambda>_. True)"
proof (cases "m = []")
  case True
  then show ?thesis unfolding replaceKey_def by (auto intro!: returns_bind returns_redis_do returns_ret)
next
  case False
  show ?thesis unfolding returns_def
  proof (intro allI impI)
    fix w :: "'r service_world" assume calm: "calm w"
    let ?st = "k @ '':rebuilding''"
    have do_calm: "redis_do f w = (Inr (), w\<lparr>w_redis := f (w_redis w)\<rparr>)" if "calm w" for f and w :: "'r service_world"
      using that by (simp add: redis_do_def redis_call_def calm_def)
    let ?w2 = "w\<lparr>w_redis := zadd_all R ?st m (del R ?st (w_redis w))\<rparr>"
    define w3 where "w3 = (if 0 < TTL p then ?w2\<lparr>w_redis := expire R ?st (seconds_int (TTL p)) (w_redis ?w2)\<rparr> else ?w2)"
    have c: "calm (w\<lparr>w_redis := x\<rparr>)" for x using calm by (simp add: calm_def)
    have c3: "calm w3" using c by (simp add: w3_def)
    obtain u q m' where m: "m = (u, q) # m'" using False by (cases m) auto
    have "zscore R (w_redis w3) ?st = zset_of m"
      using TTL_seconds [of p] zscore_zadd_all [OF assms, of ?st]
      by (auto simp: w3_def zscore_expire zscore_del fun_eq_iff map_add_def split: option.split)
    then have "zscore R (w_redis w3) ?st (member_of u) \<noteq> None" by (simp add: zset_of_member m)
    then obtain r' where r': "rename R ?st k (w_redis w3) = Some r'" using rename_ok [of "w_redis w3" ?st "member_of u" k] by auto
    have d1: "redis_do (del R ?st) w = (Inr (), w\<lparr>w_redis := del R ?st (w_redis w)\<rparr>)" by (rule do_calm [OF calm])
    have d2: "redis_do (zadd_all R ?st m) (w\<lparr>w_redis := del R ?st (w_redis w)\<rparr>) = (Inr (), ?w2)"
      using do_calm [OF c, of "zadd_all R ?st m"] by simp
    have d3: "(if 0 < TTL p then redis_do (expire R ?st (seconds_int (TTL p))) else ret ()) ?w2 = (Inr (), w3)"
      using do_calm [OF c, of "expire R ?st (seconds_int (TTL p))"] by (simp add: w3_def)
    have d4: "swap_in R ?st k w3 = (Inr (), w3\<lparr>w_redis := r'\<rparr>)"
      using c3 r' by (simp add: swap_in_def act_bind_def redis_call_def calm_def)
    have "replaceKey R k p m w = (Inr (int (length m)), w3\<lparr>w_redis := r'\<rparr>)"
      unfolding replaceKey_def Let_def
      by (simp only: act_bind_def d1 d2 d3 d4 False if_False prod.case sum.case act_simps)
    then show "\<exists>x w'. replaceKey R k p m w = (Inr x, w') \<and> calm w' \<and> True" using c3 by (simp add: calm_def)
  qed
qed

lemma returns_games:
  assumes "\<And>g. distinct (map fst (pg g))"
  shows "returns (replace_games R p t pg gs keys entries) (\<lambda>(keys', _). keys' = keys + int (length gs))"
proof (induction gs arbitrary: keys entries)
  case (Cons g gs)
  show ?case unfolding replace_games.simps
  proof (rule returns_bind [OF returns_replaceKey [OF assms]])
    fix written :: int
    show "returns (replace_games R p t pg gs (keys + 1) (entries + written)) (\<lambda>(keys', _). keys' = keys + int (length (g # gs)))"
      using Cons [of "keys + 1" "entries + written"] by (simp add: add.assoc)
  qed
qed (simp add: returns_ret)

lemma returns_period: "returns (rebuildPeriod R p t rows) (\<lambda>(keys, _). keys = 6)"
proof -
  obtain pg ov where acc: "gather rows (\<lambda>_. [], []) = (pg, ov)" by (cases "gather rows (\<lambda>_. [], [])")
  have d: "distinct (map fst (pg g))" "distinct (map fst ov)" for g
    using gather_keys [of "\<lambda>_. []" "[]" rows] acc by simp_all
  have "returns (act_bind (replace_games R p t pg game_slugs 0 0) (\<lambda>(keys, entries).
         act_bind (replaceKey R (Key Global p t) p ov) (\<lambda>written. ret (keys + 1, entries + written)))) (\<lambda>(keys, _). keys = 6)"
  proof (rule returns_bind [OF returns_games [OF d(1)]])
    fix x :: "int \<times> int" assume x: "case x of (keys', _) \<Rightarrow> keys' = 0 + int (length game_slugs)"
    show "returns (case x of (keys, entries) \<Rightarrow>
         act_bind (replaceKey R (Key Global p t) p ov) (\<lambda>written. ret (keys + 1, entries + written))) (\<lambda>(keys, _). keys = 6)"
      using x by (cases x) (auto simp: registry_Slugs_new intro!: returns_bind [OF returns_replaceKey [OF d(2)]] returns_ret)
  qed
  then show ?thesis by (simp add: rebuildPeriod_def acc)
qed

lemma returns_periods:
  assumes "\<And>a b. returns (BestPoints h a b) (\<lambda>_. True)"
  shows "returns (rebuild_periods R h t ps report)
    (\<lambda>rep. rr_Keys rep = rr_Keys report + 6 * int (length ps) \<and> rr_Periods rep = rr_Periods report @ ps)"
proof (induction ps arbitrary: report)
  case (Cons p ps)
  obtain a b where w: "Window p t = (a, b)" by (cases "Window p t")
  have step: "returns (case x of (keys, entries) \<Rightarrow> rebuild_periods R h t ps
        (report\<lparr>rr_Keys := rr_Keys report + keys, rr_Entries := rr_Entries report + entries,
           rr_Periods := rr_Periods report @ [p]\<rparr>))
      (\<lambda>rep. rr_Keys rep = rr_Keys report + 6 * int (length (p # ps)) \<and> rr_Periods rep = rr_Periods report @ p # ps)"
    if "case x of (keys, _) \<Rightarrow> keys = 6" for x :: "int \<times> int"
    using that Cons [of "report\<lparr>rr_Keys := rr_Keys report + fst x, rr_Entries := rr_Entries report + snd x,
           rr_Periods := rr_Periods report @ [p]\<rparr>"]
    by (cases x) (simp add: algebra_simps)
  show ?case unfolding rebuild_periods.simps w prod.case Let_def
    by (rule returns_bind [OF assms], rule returns_bind [OF returns_period], rule step)
qed (simp add: returns_ret)

end

lemma returns_history: "returns (BestPoints (score_history now) a b) (\<lambda>_. True)"
  unfolding score_history_def history.simps scores_BestPoints_def
  by (rule returns_bind [OF returns_exec [where P = "\<lambda>_. True"]]) (simp_all add: BestPointsPerUserAndGame_def returns_ret)

lemma Now_result:
  assumes "scores_Now now w = (r, w')"
  shows "touches R {} w w' \<and> (\<forall>t. r = Inr t \<longrightarrow> t = now)"
proof -
  have "keeps same_db (scores_Now now)" "keeps same_redis (scores_Now now)"
    unfolding scores_Now_def by (intro same_db_rules same_redis_rules; simp add: pg_Now_def)+
  then have "w_db w' = w_db w" "w_redis w' = w_redis w" using same_dbD same_redisD assms by (metis snd_conv)+
  then show ?thesis using assms by (auto simp: touches_def scores_Now_def pg_Now_def dest!: exec_Inr)
qed

text \<open>The whole rebuild, whatever fails.\<close>

context redis_server
begin

lemma rebuild_replaces:
  assumes "b_redis b = R" and "Rebuild b (score_history now) w = (r, w')" and "31 \<le> day_number now"
  shows "replaced R now (w_db w) (all_scopes \<times> UNIV) r w w'"
proof -
  have all: "all_scopes \<times> UNIV = all_scopes \<times> set Periods" using Periods_all by auto
  have dist: "distinct Periods" by (simp add: Periods_def)
  have fine: "fine (all_scopes \<times> (UNIV :: period set))" by (rule fine_all) auto
  from assms(1,2) have "act_bind (scores_Now now) (\<lambda>t.
     rebuild_periods R (score_history now) t Periods \<lparr>rr_Keys = 0, rr_Entries = 0, rr_Periods = []\<rparr>) w = (r, w')"
    by (simp add: Rebuild_def score_history_def)
  then show ?thesis
  proof (cases rule: act_bind_cases)
    case (Stopped e)
    then have "touches R {} w w'" using Now_result by blast
    then have "replaced R now (w_db w) (all_scopes \<times> UNIV) (Inl e :: err + rebuild_report) w w'"
      by (rule replaced_stop [where I = "{}", simplified, OF replaced_none fine])
    then show ?thesis using Stopped(2) by simp
  next
    case (Ran t w1)
    have t: "t = now" "touches R {} w w1" using Now_result [OF Ran(1)] by blast+
    then have "w_db w1 = w_db w" by (simp add: touches_def)
    then show ?thesis
      using replaced_before [OF t(2) replaced_periods [OF Ran(2) [unfolded t(1)] dist assms(3)]] all by simp
  qed
qed

end

section \<open>Properties\<close>

lemma february:
  assumes "date_time 1 2 1 \<le> t"
  shows "31 \<le> day_number t"
proof -
  have "date_days 1 2 1 = 31" by code_simp
  then show ?thesis using assms by (simp add: date_time_midnight midnight_le_iff)
qed

lemma goal_game:
  assumes "g \<in> set game_slugs"
  shows "goal d t (Game g, p) (member_of u) = best p t g u (scored_events d)"
proof -
  have "\<not> IsGlobal (Game g)" using assms registry_slug_nonempty by (auto simp: IsGlobal_def Game_def)
  then show ?thesis by (simp add: goal_def target_def Let_def zset_of_member gathered_game Game_def)
qed

lemma goal_global:
  assumes "\<And>e. e \<in> set (events d) \<Longrightarrow> ev_Game e \<in> set game_slugs"
  shows "goal d t (Global, p) (member_of u) = global_best p t u (scored_events d)"
proof -
  have "IsGlobal Global" by (simp add: IsGlobal_def Global_def)
  then show ?thesis by (simp add: goal_def target_def Let_def zset_of_member gathered_overall [OF assms])
qed

lemma goal_members: "goal d t i m \<noteq> None \<Longrightarrow> \<exists>u. m = member_of u"
  unfolding goal_def zset_of_def by (fastforce dest: map_of_SomeD)

text \<open>
  C3. A rebuild that returns has restored every board of the current windows exactly: each registered
  game's board holds each user's best recorded score of the window, the cross-game board the sum of
  those bests, and neither holds any other member, whatever Redis held before. No row changes.
\<close>

theorem rebuild_restores:
  assumes "redis_server (b_redis b)" and "Rebuild b (score_history now) w = (Inr report, w')"
    and "date_time 1 2 1 \<le> now" and "\<forall>e \<in> set (events (w_db w)). ev_Game e \<in> set (registry_Slugs NewRegistry)"
  shows "\<forall>p. let z = (\<lambda>s. zscore (b_redis b) (w_redis w') (Key s p now)) in
      (\<forall>u. (\<forall>g \<in> set game_slugs. z (Game g) (member_of u) = best p now g u (scored_events (w_db w)))
         \<and> z Global (member_of u) = global_best p now u (scored_events (w_db w)))
      \<and> (\<forall>s \<in> all_scopes. \<forall>m. z s m \<noteq> None \<longrightarrow> (\<exists>u. m = member_of u))"
proof -
  have day: "31 \<le> day_number now"
    by (rule february [OF assms(3)])
  have "replaced (b_redis b) now (w_db w) (all_scopes \<times> UNIV) (Inr report) w w'"
    by (rule redis_server.rebuild_replaces [OF assms(1) HOL.refl assms(2) day])
  then have at: "zscore (b_redis b) (w_redis w') (Key s p now) = goal (w_db w) now (s, p)" if "s \<in> all_scopes" for s p
    using that by (auto simp: replaced_def board_at_def)
  have "Game g \<in> all_scopes" if "g \<in> set game_slugs" for g using that by (simp add: all_scopes_def)
  moreover have "Global \<in> all_scopes" by (simp add: all_scopes_def)
  ultimately show ?thesis
    using at goal_game goal_global [of "w_db w" now] assms(4) goal_members by (auto simp: Let_def)
qed

definition rebuild_world :: "fault list \<Rightarrow> mem_redis service_world" where
  "rebuild_world fs =
     \<lparr>w_db = empty_db\<lparr>events := [\<lparr>ev_ID = 1, ev_UserID = 7, ev_SessionID = 1, ev_Game = Memory, ev_Raw = 3, ev_Points = 2500,
        ev_AchievedAt = 0, ev_ProjectedAt = None\<rparr>]\<rparr>,
      w_redis = zadd mem_ops (Key (Game Memory) AllTime 0) 9000 ''8'' mem_empty, w_faults = fs\<rparr>"

lemma rebuild_restores_witness:
  "\<exists>report w'. Rebuild demo_board (score_history 0) (rebuild_world []) = (Inr report, w')
    \<and> zscore mem_ops (w_redis w') (Key (Game Memory) AllTime 0) (member_of 8) = None
    \<and> zscore mem_ops (w_redis w') (Key (Game Memory) AllTime 0) (member_of 7) = Some 2500"
proof -
  have board: "b_redis demo_board = mem_ops" by (simp add: demo_board_def)
  have "returns (Rebuild demo_board (score_history 0) :: (mem_redis service_world, _) act) (\<lambda>_. True)"
    unfolding Rebuild_def board
    by (rule returns_bind [where Q = "\<lambda>_. True"], simp add: score_history_def scores_Now_def,
        rule returns_exec, simp add: pg_Now_def, rule returns_True [OF mem.returns_periods [OF returns_history]])
  then obtain report w' where run: "Rebuild demo_board (score_history 0) (rebuild_world []) = (Inr report, w')"
    unfolding returns_def by (force simp: calm_def rebuild_world_def)
  have slugs: "Memory \<in> set game_slugs" by (simp add: registry_Slugs_new)
  have ev: "scored_events (w_db (rebuild_world [])) = [(7, Memory, 2500, 0)]"
    by (simp add: scored_events_def rebuild_world_def)
  have past: "date_time 1 2 1 \<le> 0" by code_simp
  have "zscore mem_ops (w_redis w') (Key (Game Memory) AllTime 0) (member_of u) = best AllTime 0 Memory u [(7, Memory, 2500, 0)]" for u
    using rebuild_restores [of demo_board, unfolded board, OF mem.redis_server_axioms run past] slugs ev
    by (simp add: Let_def rebuild_world_def)
  then show ?thesis using run by (auto simp: best_def points_in_def)
qed

text \<open>
  C10. A rebuild is atomic per board, whatever fails: when it stops with an error, every board of the
  current windows is either what it was or exactly what the history makes it, never a part of it;
  boards of other windows, and everything else in Redis but the staging names, are untouched.
\<close>

theorem rebuild_atomic:
  assumes "redis_server (b_redis b)" and "Rebuild b (score_history now) w = (r, w')" and "date_time 1 2 1 \<le> now"
  shows "(\<forall>s \<in> all_scopes. \<forall>p. let k = Key s p now in
        zscore (b_redis b) (w_redis w') k = zscore (b_redis b) (w_redis w) k
        \<or> zscore (b_redis b) (w_redis w') k = zset_of (target (w_db w) now s p))
    \<and> (\<forall>k. k \<notin> board_names now (all_scopes \<times> UNIV) \<longrightarrow> zscore (b_redis b) (w_redis w') k = zscore (b_redis b) (w_redis w) k)
    \<and> w_db w' = w_db w"
proof -
  have day: "31 \<le> day_number now"
    by (rule february [OF assms(3)])
  have "replaced (b_redis b) now (w_db w) (all_scopes \<times> UNIV) r w w'"
    by (rule redis_server.rebuild_replaces [OF assms(1) HOL.refl assms(2) day])
  then show ?thesis by (auto simp: replaced_def touches_def board_at_def goal_def Let_def)
qed

lemma rebuild_atomic_witness:
  "w_db (snd (Rebuild demo_board (score_history 0) (rebuild_world [NoFault, NoFault, NoFault, FailAfter])))
    = w_db (rebuild_world [NoFault, NoFault, NoFault, FailAfter])"
proof -
  have past: "date_time 1 2 1 \<le> 0" by code_simp
  obtain r w' where "Rebuild demo_board (score_history 0) (rebuild_world [NoFault, NoFault, NoFault, FailAfter]) = (r, w')" by fastforce
  with rebuild_atomic [of demo_board, OF _ this past] mem.redis_server_axioms show ?thesis by (simp add: demo_board_def)
qed

text \<open>
  C39. A rebuild whose calls succeed returns: it has written or cleared six boards for each of the four
  periods.
\<close>

theorem rebuild_returns:
  assumes "redis_server (b_redis b)" and "w_faults w = []"
  shows "\<exists>report w'. Rebuild b (score_history now) w = (Inr report, w') \<and> rr_Keys report = 24 \<and> rr_Periods report = Periods"
proof -
  have "returns (Rebuild b (score_history now)) (\<lambda>rep. rr_Keys rep = 24 \<and> rr_Periods rep = Periods)"
    unfolding Rebuild_def
  proof (rule returns_bind [where Q = "\<lambda>_. True"])
    show "returns (Now (score_history now)) (\<lambda>_. True)"
      unfolding score_history_def history.simps scores_Now_def by (rule returns_exec) (simp add: pg_Now_def)
    fix t
    show "returns (rebuild_periods (b_redis b) (score_history now) t Periods \<lparr>rr_Keys = 0, rr_Entries = 0, rr_Periods = []\<rparr>)
       (\<lambda>rep. rr_Keys rep = 24 \<and> rr_Periods rep = Periods)"
      using redis_server.returns_periods [OF assms(1) returns_history, of now t Periods "\<lparr>rr_Keys = 0, rr_Entries = 0, rr_Periods = []\<rparr>"]
      by (simp add: Periods_def)
  qed
  then show ?thesis using assms(2) unfolding returns_def calm_def by blast
qed

lemma rebuild_returns_witness:
  "\<exists>report w'. Rebuild demo_board (score_history 0) (rebuild_world []) = (Inr report, w') \<and> rr_Keys report = 24"
proof -
  have "redis_server (b_redis demo_board)" using mem.redis_server_axioms by (simp add: demo_board_def)
  from rebuild_returns [OF this, of "rebuild_world []" 0] show ?thesis by (auto simp: rebuild_world_def)
qed

end
