(* ===== verification/Projector.thy ===== *)
theory Projector
  imports Session_Spec Rebuild_Spec
begin

text \<open>
  \<open>internal/projector/projector.go\<close>: the two loops of the worker. The projector publishes scores that
  never reached the boards, oldest first, and marks each after it was published; the housekeeper
  removes what nobody can use any more. \<open>now\<close> is the clock of the statements. The loops of \<open>Run\<close> are
  a list of instants at which a sweep runs; a failing sweep is logged and the next one runs.
\<close>

section \<open>Operations\<close>

record worker_config =
  ProjectorInterval :: duration
  ProjectorBatch :: int
  HousekeepingInterval :: duration
  SessionMaxAge :: duration
  MetricsAddr :: string

type_synonym 'r submit = "int \<Rightarrow> slug \<Rightarrow> int \<Rightarrow> time \<Rightarrow> ('r service_world, placement) act"

fun sweep_loop :: "'r submit \<Rightarrow> time \<Rightarrow> pending_event list \<Rightarrow> int \<Rightarrow> ('r service_world, int) act" where
  "sweep_loop submit now [] projected = ret projected"
| "sweep_loop submit now (e # es) projected =
     act_bind (submit (pe_UserID e) (pe_Game e) (pe_Points e) (pe_AchievedAt e)) (\<lambda>_.
     act_bind (MarkProjected now (pe_ID e)) (\<lambda>_.
     sweep_loop submit now es (projected + 1)))"

definition projector_Sweep :: "'r submit \<Rightarrow> worker_config \<Rightarrow> time \<Rightarrow> ('r service_world, int) act" where
  "projector_Sweep submit cfg now =
     act_bind (Unprojected (ProjectorBatch cfg)) (\<lambda>pending. sweep_loop submit now pending 0)"

fun projector_Run :: "'r submit \<Rightarrow> worker_config \<Rightarrow> time list \<Rightarrow> ('r service_world, unit) act" where
  "projector_Run submit cfg [] = ret ()"
| "projector_Run submit cfg (now # ticks) =
     act_bind (act_catch (projector_Sweep submit cfg now) (\<lambda>_. ret 0)) (\<lambda>_. projector_Run submit cfg ticks)"

text \<open>The materialiser is the reports service, or nil.\<close>

definition housekeeper_Sweep ::
    "(time \<Rightarrow> ('r service_world, int \<times> int) act) option \<Rightarrow> worker_config \<Rightarrow> time \<Rightarrow> time \<Rightarrow> ('r service_world, unit) act" where
  "housekeeper_Sweep materialise cfg clock now =
     act_bind (scores_DeleteExpired now) (\<lambda>removed.
     act_bind (scores_AbandonStale now (clock - SessionMaxAge cfg)) (\<lambda>abandoned.
     case materialise of
       None \<Rightarrow> ret ()
     | Some freeze \<Rightarrow> act_bind (freeze clock) (\<lambda>frozen. ret ())))"

text \<open>Each tick has the clock of the process and the one of the statements.\<close>

fun housekeeper_Run ::
    "(time \<Rightarrow> ('r service_world, int \<times> int) act) option \<Rightarrow> worker_config \<Rightarrow> (time \<times> time) list \<Rightarrow> ('r service_world, unit) act" where
  "housekeeper_Run materialise cfg [] = ret ()"
| "housekeeper_Run materialise cfg ((clock, now) # ticks) =
     act_bind (act_catch (housekeeper_Sweep materialise cfg clock now) (\<lambda>_. ret ()))
       (\<lambda>_. housekeeper_Run materialise cfg ticks)"

section \<open>Marked scores are on the boards\<close>

definition score_tuple :: "score_event \<Rightarrow> scored_event" where
  "score_tuple e = (ev_UserID e, ev_Game e, ev_Points e, ev_AchievedAt e)"

lemma scored_events_tuples: "scored_events d = map score_tuple (events d)"
  by (simp add: scored_events_def score_tuple_def)

text \<open>
  The boards mean a list of recorded scores that has at least those that are marked as projected: a
  score may be on the boards without its mark, when the mark was lost, never the other way round.
\<close>

definition event_fit :: "score_event \<Rightarrow> bool" where
  "event_fit e \<longleftrightarrow> ev_Game e \<in> set game_slugs \<and> 0 \<le> ev_Points e \<and> \<not> is_zero (ev_AchievedAt e)"

definition rows_fit :: "database \<Rightarrow> bool" where
  "rows_fit d \<longleftrightarrow> distinct (map ev_ID (events d)) \<and> (\<forall>e \<in> set (events d). event_fit e)"

definition shown :: "'r redis_ops \<Rightarrow> scored_event set \<Rightarrow> 'r service_world \<Rightarrow> bool" where
  "shown R X w \<longleftrightarrow>
     (\<exists>evs. boards_match R (w_redis w) evs \<and> set evs \<subseteq> score_tuple ` set (events (w_db w)) \<and> X \<subseteq> set evs \<and>
        (\<forall>e \<in> set (events (w_db w)). ev_ProjectedAt e \<noteq> None \<longrightarrow> score_tuple e \<in> set evs))"

definition on_boards :: "'r redis_ops \<Rightarrow> 'r service_world \<Rightarrow> bool" where
  "on_boards R w \<longleftrightarrow> rows_fit (w_db w) \<and> shown R {} w"

definition quiet :: "'r board \<Rightarrow> bool" where
  "quiet b \<longleftrightarrow> (\<forall>publish s p. b_announcer b = Some publish \<longrightarrow> keeps same_db (publish s p) \<and> keeps same_redis (publish s p))"

lemma announce_same_redis:
  assumes "quiet b"
  shows "keeps same_redis (announce b g pl)"
proof -
  have "keeps same_redis (announce_periods publish g f ps)" if "b_announcer b = Some publish" for publish f ps
  proof (induction ps)
    case (Cons p ps)
    then show ?case using assms that unfolding announce_periods.simps announce_scope_def quiet_def
      by (intro same_redis_rules) blast+
  qed (simp add: keeps_def same_redis_def)
  then show ?thesis unfolding announce_def by (intro same_redis_rules) blast+
qed

lemma quiet_same_db: "quiet b \<Longrightarrow> keeps same_db (Submit b u g points t)"
  by (rule Submit_same_db) (simp add: quiet_def)

text \<open>Redis after \<open>Submit\<close>: as before, or as the script leaves it; the latter when it returns.\<close>

lemma Submit_redis:
  assumes "quiet b" and "\<not> is_zero t" and "Submit b u g points t w = (r, w')"
  shows "w_db w' = w_db w
    \<and> (w_redis w' = w_redis w \<or> w_redis w' = snd (submit_call (b_redis b) u g points t (w_redis w)))
    \<and> (\<not> isl r \<longrightarrow> w_redis w' = snd (submit_call (b_redis b) u g points t (w_redis w)))"
proof -
  have db: "w_db w' = w_db w" using same_dbD [OF quiet_same_db [OF assms(1)], of u g points t w] assms(3) by simp
  from assms(2,3) have "act_bind (redis_call (submit_call (b_redis b) u g points t)) (\<lambda>raw.
         if length raw \<noteq> length Periods * fieldsPerPeriod then fail ErrScript
         else act_bind (announce b g (placement_of raw)) (\<lambda>_. ret (placement_of raw))) w = (r, w')"
    by (simp add: Submit_def)
  then show ?thesis
  proof (cases rule: act_bind_cases)
    case (Stopped e)
    then show ?thesis using db redis_call_redis [OF Stopped(1)] by simp
  next
    case (Ran raw w1)
    have "w_redis w1 = snd (submit_call (b_redis b) u g points t (w_redis w))"
      using redis_call_Inr [OF Ran(1)] by simp
    moreover have "keeps same_redis (if length raw \<noteq> length Periods * fieldsPerPeriod then fail ErrScript
         else act_bind (announce b g (placement_of raw)) (\<lambda>_. ret (placement_of raw)))"
      by (intro same_redis_rules announce_same_redis assms(1))
    ultimately show ?thesis using db same_redisD [of _ w1] Ran(2) by fastforce
  qed
qed

lemma shown_less: "shown R X w \<Longrightarrow> Y \<subseteq> X \<Longrightarrow> shown R Y w"
  unfolding shown_def by blast

context redis_server
begin

lemma Submit_shows:
  assumes b: "quiet b" "b_redis b = R" and fit: "rows_fit (w_db w)" and sh: "shown R X w" and e: "e \<in> set (events (w_db w))"
    and run: "Submit b (ev_UserID e) (ev_Game e) (ev_Points e) (ev_AchievedAt e) w = (r, w')"
  shows "w_db w' = w_db w \<and> shown R X w' \<and> (\<not> isl r \<longrightarrow> shown R (insert (score_tuple e) X) w')"
proof -
  have ef: "ev_Game e \<in> set game_slugs" "\<not> is_zero (ev_AchievedAt e)" using fit e by (auto simp: rows_fit_def event_fit_def)
  let ?r = "snd (submit_call R (ev_UserID e) (ev_Game e) (ev_Points e) (ev_AchievedAt e) (w_redis w))"
  have sub: "w_db w' = w_db w" "w_redis w' = w_redis w \<or> w_redis w' = ?r" "\<not> isl r \<Longrightarrow> w_redis w' = ?r"
    using Submit_redis [OF b(1) ef(2) run] b(2) by auto
  obtain evs where evs: "boards_match R (w_redis w) evs" "set evs \<subseteq> score_tuple ` set (events (w_db w))" "X \<subseteq> set evs"
      "\<forall>e \<in> set (events (w_db w)). ev_ProjectedAt e \<noteq> None \<longrightarrow> score_tuple e \<in> set evs"
    using sh unfolding shown_def by blast
  have new: "shown R (insert (score_tuple e) X) w'" if "w_redis w' = ?r"
  proof -
    have "boards_match R (w_redis w') (evs @ [score_tuple e])"
      using boards_match_submit [OF evs(1) ef(1)] that by (simp add: score_tuple_def)
    moreover have "set (evs @ [score_tuple e]) \<subseteq> score_tuple ` set (events (w_db w'))" using evs(2) e sub(1) by simp
    moreover have "insert (score_tuple e) X \<subseteq> set (evs @ [score_tuple e])" using evs(3) by auto
    moreover have "\<forall>e' \<in> set (events (w_db w')). ev_ProjectedAt e' \<noteq> None \<longrightarrow> score_tuple e' \<in> set (evs @ [score_tuple e])"
      using evs(4) sub(1) by simp
    ultimately show ?thesis unfolding shown_def by blast
  qed
  have "shown R X w'" using sub(2)
  proof
    assume "w_redis w' = w_redis w"
    then show ?thesis using sh sub(1) by (simp add: shown_def)
  next
    assume "w_redis w' = ?r"
    from shown_less [OF new [OF this]] show ?thesis by blast
  qed
  then show ?thesis using sub new by blast
qed

end

lemma mark_rows:
  fixes e :: score_event
  defines "f \<equiv> \<lambda>i now (e :: score_event). if ev_ID e = i then e\<lparr>ev_ProjectedAt := Some now\<rparr> else e"
  shows "events (snd (MarkScoreEventProjected now i d)) = map (f i now) (events d)"
    and "ev_ID (f i now e) = ev_ID e" and "score_tuple (f i now e) = score_tuple e"
    and "pending_of (f i now e) = pending_of e" and "event_fit (f i now e) = event_fit e"
    and "ev_ProjectedAt (f i now e) = (if ev_ID e = i then Some now else ev_ProjectedAt e)"
  by (simp_all add: f_def MarkScoreEventProjected_def score_tuple_def pending_of_def event_fit_def)

text \<open>Marking a score that is on the boards.\<close>

lemma mark_shows:
  assumes fit: "rows_fit (w_db w)" and e: "e \<in> set (events (w_db w))" and sh: "shown R {score_tuple e} w"
    and run: "MarkProjected now (ev_ID e) w = (r, w')"
  shows "rows_fit (w_db w') \<and> shown R {} w' \<and> map pending_of (events (w_db w')) = map pending_of (events (w_db w))
    \<and> (\<not> isl r \<longrightarrow> events (w_db w') = map (\<lambda>x. if ev_ID x = ev_ID e then x\<lparr>ev_ProjectedAt := Some now\<rparr> else x) (events (w_db w)))"
proof -
  let ?d = "snd (MarkScoreEventProjected now (ev_ID e) (w_db w))"
  define f :: "score_event \<Rightarrow> score_event" where "f = (\<lambda>x. if ev_ID x = ev_ID e then x\<lparr>ev_ProjectedAt := Some now\<rparr> else x)"
  have d: "events ?d = map f (events (w_db w))" unfolding f_def by (rule mark_rows(1))
  have f: "ev_ID (f x) = ev_ID x" "score_tuple (f x) = score_tuple x" "pending_of (f x) = pending_of x"
    "event_fit (f x) = event_fit x" "ev_ProjectedAt (f x) = (if ev_ID x = ev_ID e then Some now else ev_ProjectedAt x)" for x
    unfolding f_def by (rule mark_rows)+
  have db: "w_db w' = w_db w \<or> w_db w' = ?d" using exec_db [of "MarkScoreEventProjected now (ev_ID e)" w] run by (simp add: MarkProjected_def)
  have ok: "w_db w' = ?d" if "\<not> isl r"
    using run that exec_Inr [of "MarkScoreEventProjected now (ev_ID e)" w _ w'] by (cases r) (auto simp: MarkProjected_def)
  have red: "w_redis w' = w_redis w"
    using same_redisD [OF exec_same_redis, of "MarkScoreEventProjected now (ev_ID e)" w] run by (simp add: MarkProjected_def)
  have marked: "rows_fit ?d \<and> map pending_of (events ?d) = map pending_of (events (w_db w))"
    using fit by (simp add: rows_fit_def d f comp_def)
  have shd: "shown R {} w'" if "w_db w' = ?d"
  proof -
    obtain evs where evs: "boards_match R (w_redis w) evs" "set evs \<subseteq> score_tuple ` set (events (w_db w))" "score_tuple e \<in> set evs"
        "\<forall>e \<in> set (events (w_db w)). ev_ProjectedAt e \<noteq> None \<longrightarrow> score_tuple e \<in> set evs"
      using sh unfolding shown_def by blast
    have "score_tuple ` set (events ?d) = score_tuple ` set (events (w_db w))" by (simp add: d image_image f)
    moreover have "score_tuple x \<in> set evs" if x: "x \<in> set (events ?d)" "ev_ProjectedAt x \<noteq> None" for x
    proof -
      obtain y where y: "y \<in> set (events (w_db w))" "x = f y" using x(1) by (auto simp: d)
      show ?thesis
      proof (cases "ev_ID y = ev_ID e")
        case True
        then have "y = e" using distinct_key_eq [of ev_ID "events (w_db w)" y e] fit y(1) e by (simp add: rows_fit_def)
        then show ?thesis using evs(3) y(2) f(2) by simp
      next
        case False
        then show ?thesis using evs(4) y x(2) f by simp
      qed
    qed
    ultimately show ?thesis using evs(1,2) that red unfolding shown_def by auto
  qed
  have "shown R {} w'" if "w_db w' = w_db w"
    using shown_less [OF sh, of "{}"] that red by (simp add: shown_def)
  then show ?thesis using db marked shd fit ok d f_def by auto
qed

context redis_server
begin

lemma sweep_loop_shows:
  assumes b: "quiet b" "b_redis b = R" and "rows_fit (w_db w)" and "shown R {} w"
    and "set es \<subseteq> pending_of ` set (events (w_db w))" and "sweep_loop (Submit b) now es n w = (r, w')"
  shows "rows_fit (w_db w') \<and> shown R {} w'"
  using assms(3-)
proof (induction es arbitrary: n w)
  case (Cons pe es)
  obtain e where e: "e \<in> set (events (w_db w))" "pe = pending_of e" using Cons.prems(3) by auto
  have pe: "pe_UserID pe = ev_UserID e" "pe_Game pe = ev_Game e" "pe_Points pe = ev_Points e" "pe_AchievedAt pe = ev_AchievedAt e"
    "pe_ID pe = ev_ID e" by (simp_all add: e(2) pending_of_def)
  from Cons.prems(4) have "act_bind (Submit b (ev_UserID e) (ev_Game e) (ev_Points e) (ev_AchievedAt e)) (\<lambda>_.
     act_bind (MarkProjected now (ev_ID e)) (\<lambda>_. sweep_loop (Submit b) now es (n + 1))) w = (r, w')"
    by (simp add: pe)
  then show ?case
  proof (cases rule: act_bind_cases)
    case (Stopped x)
    then show ?thesis using Submit_shows [OF b Cons.prems(1,2) e(1) Stopped(1)] Cons.prems(1) by simp
  next
    case (Ran pl w1)
    have w1: "w_db w1 = w_db w" "shown R {score_tuple e} w1"
      using Submit_shows [OF b Cons.prems(1,2) e(1) Ran(1)] by simp_all
    have fit1: "rows_fit (w_db w1)" "e \<in> set (events (w_db w1))" using w1(1) Cons.prems(1) e(1) by simp_all
    from Ran(2) show ?thesis
    proof (cases rule: act_bind_cases)
      case (Stopped x)
      then show ?thesis using mark_shows [OF fit1 w1(2) Stopped(1)] by simp
    next
      case (Ran u w2)
      note m = mark_shows [OF fit1 w1(2) Ran(1)]
      have "pending_of ` set (events (w_db w2)) = pending_of ` set (events (w_db w))"
        using m w1(1) by (metis list.set_map)
      then show ?thesis using Cons.IH [OF _ _ _ Ran(2)] m Cons.prems(3) by auto
    qed
  qed
qed simp

lemma Unprojected_result:
  assumes "Unprojected n w = (r, w')"
  shows "w_db w' = w_db w \<and> w_redis w' = w_redis w
    \<and> (\<forall>ps. r = Inr ps \<longrightarrow> 0 \<le> to_int32 n \<and>
        ps = take (nat (to_int32 n)) (map pending_of (sort_key ev_ID (filter (\<lambda>e. ev_ProjectedAt e = None) (events (w_db w))))))"
proof -
  have k: "keeps same_db (Unprojected n)" "keeps same_redis (Unprojected n)"
    unfolding Unprojected_def by (intro same_db_rules same_redis_rules; simp add: ListUnprojectedScoreEvents_def)+
  have same: "w_db w' = w_db w" "w_redis w' = w_redis w"
    using same_dbD [OF k(1), of w] same_redisD [OF k(2), of w] assms by simp_all
  then show ?thesis
    using assms
    by (auto simp: Unprojected_def act_bind_Inr ListUnprojectedScoreEvents_def sql_limit_def take_map
        dest!: exec_Inr split: if_splits)
qed

lemma Sweep_shows:
  assumes b: "quiet b" "b_redis b = R" and on: "on_boards R w" and run: "projector_Sweep (Submit b) cfg now w = (r, w')"
  shows "on_boards R w'"
proof -
  from run have "act_bind (Unprojected (ProjectorBatch cfg)) (\<lambda>pending. sweep_loop (Submit b) now pending 0) w = (r, w')"
    by (simp add: projector_Sweep_def)
  then show ?thesis
  proof (cases rule: act_bind_cases)
    case (Stopped e)
    then show ?thesis using Unprojected_result [OF Stopped(1)] on by (simp add: on_boards_def shown_def)
  next
    case (Ran ps w1)
    note u = Unprojected_result [OF Ran(1)]
    then have "set ps \<subseteq> pending_of ` set (events (w_db w1))"
      by (auto dest!: in_set_takeD)
    moreover have "rows_fit (w_db w1)" "shown R {} w1" using u on by (simp_all add: on_boards_def shown_def)
    ultimately show ?thesis using sweep_loop_shows [OF b _ _ _ Ran(2)] by (simp add: on_boards_def)
  qed
qed

end

section \<open>Catching up\<close>

definition pending :: "database \<Rightarrow> score_event list" where
  "pending d = filter (\<lambda>e. ev_ProjectedAt e = None) (events d)"

lemma length_submit_loop: "length (fst (submit_loop R ks m points r)) = 5 * length ks"
  by (induction R ks m points r rule: submit_loop.induct)
    (auto simp: submit_period_def Let_def split_beta)

lemma Submit_calm:
  assumes "b_announcer b = None" and "w_faults w = []" and "\<not> is_zero t"
  shows "\<exists>pl r. Submit b u g points t w = (Inr pl, w\<lparr>w_redis := r\<rparr>)"
proof -
  have "length (fst (submit_call (b_redis b) u g points t r)) = length Periods * fieldsPerPeriod" for r
    unfolding submit_call_loop length_submit_loop by (simp add: submit_keys_def Periods_def fieldsPerPeriod_def)
  then show ?thesis using assms
    by (intro exI [of _ "placement_of (fst (submit_call (b_redis b) u g points t (w_redis w)))"]
          exI [of _ "snd (submit_call (b_redis b) u g points t (w_redis w))"])
      (simp add: Submit_def act_bind_def redis_call_def announce_def split_beta)
qed

lemma MarkProjected_calm:
  "w_faults w = [] \<Longrightarrow> MarkProjected now i w = (Inr (), w\<lparr>w_db := snd (MarkScoreEventProjected now i (w_db w))\<rparr>)"
  by (simp add: MarkProjected_def exec_NoFault MarkScoreEventProjected_def)

lemma pending_mark:
  "pending (snd (MarkScoreEventProjected now i d)) = filter (\<lambda>e. ev_ID e \<noteq> i) (pending d)"
proof -
  have "filter (\<lambda>e. ev_ProjectedAt e = None) (map (\<lambda>e. if ev_ID e = i then e\<lparr>ev_ProjectedAt := Some now\<rparr> else e) es)
      = filter (\<lambda>e. ev_ID e \<noteq> i) (filter (\<lambda>e. ev_ProjectedAt e = None) es)" for es :: "score_event list"
    by (induction es) auto
  then show ?thesis by (simp only: pending_def mark_rows(1))
qed

lemma sweep_loop_calm:
  assumes "b_announcer b = None" and "w_faults w = []" and "\<forall>pe \<in> set es. \<not> is_zero (pe_AchievedAt pe)"
  shows "\<exists>w'. sweep_loop (Submit b) now es n w = (Inr (n + int (length es)), w') \<and> w_faults w' = []
    \<and> pending (w_db w') = filter (\<lambda>e. ev_ID e \<notin> pe_ID ` set es) (pending (w_db w))"
  using assms(2,3)
proof (induction es arbitrary: n w)
  case (Cons pe es)
  obtain pl r where s: "Submit b (pe_UserID pe) (pe_Game pe) (pe_Points pe) (pe_AchievedAt pe) w = (Inr pl, w\<lparr>w_redis := r\<rparr>)"
    using Submit_calm [OF assms(1) Cons.prems(1)] Cons.prems(2) by fastforce
  let ?w2 = "w\<lparr>w_redis := r, w_db := snd (MarkScoreEventProjected now (pe_ID pe) (w_db w))\<rparr>"
  have m: "MarkProjected now (pe_ID pe) (w\<lparr>w_redis := r\<rparr>) = (Inr (), ?w2)"
    using MarkProjected_calm [of "w\<lparr>w_redis := r\<rparr>"] Cons.prems(1) by simp
  obtain w' where w': "sweep_loop (Submit b) now es (n + 1) ?w2 = (Inr (n + 1 + int (length es)), w')" "w_faults w' = []"
      "pending (w_db w') = filter (\<lambda>e. ev_ID e \<notin> pe_ID ` set es) (pending (w_db ?w2))"
    using Cons.IH [of ?w2 "n + 1"] Cons.prems by auto
  have "sweep_loop (Submit b) now (pe # es) n w = (Inr (n + int (length (pe # es))), w')"
    using w'(1) by (simp add: act_bind_def s m add.commute add.left_commute)
  moreover have "pending (w_db w') = filter (\<lambda>e. ev_ID e \<notin> pe_ID ` set (pe # es)) (pending (w_db w))"
    using w'(3) by (simp add: pending_mark conj_commute)
  ultimately show ?case using w'(2) by blast
qed simp

lemma length_filter_sorted:
  assumes "distinct (map k xs)"
  shows "length (filter (\<lambda>x. k x \<notin> k ` set (take n (sort_key k xs))) xs) = length xs - n"
proof -
  let ?s = "sort_key k xs" and ?P = "\<lambda>x. k x \<notin> k ` set (take n (sort_key k xs))"
  have "length (filter ?P xs) = size (filter_mset ?P (mset xs))" by (metis mset_filter size_mset)
  also have "\<dots> = length (filter ?P ?s)" by (metis mset_filter mset_sort size_mset)
  also have "\<dots> = length (filter ?P (take n ?s)) + length (filter ?P (drop n ?s))"
    by (metis append_take_drop_id filter_append length_append)
  also have "filter ?P (take n ?s) = []" by (auto simp: filter_empty_conv)
  also have "filter ?P (drop n ?s) = drop n ?s"
  proof -
    have "mset (map k ?s) = mset (map k xs)" by simp
    then have "distinct (map k ?s)" using assms by (metis mset_eq_imp_distinct_iff)
    then have "set (take n (map k ?s)) \<inter> set (drop n (map k ?s)) = {}" by (rule set_take_disj_set_drop_if_distinct) simp
    then have "\<forall>x \<in> set (drop n ?s). ?P x" by (auto simp: take_map drop_map)
    then show ?thesis by simp
  qed
  finally show ?thesis by simp
qed

lemma Sweep_calm:
  assumes "b_announcer b = None" and "w_faults w = []" and "rows_fit (w_db w)" and "to_int32 (ProjectorBatch cfg) = int n"
  shows "\<exists>w'. projector_Sweep (Submit b) cfg now w = (Inr (int (min n (length (pending (w_db w))))), w') \<and> w_faults w' = []
    \<and> length (pending (w_db w')) = length (pending (w_db w)) - n"
proof -
  let ?ps = "map pending_of (take n (sort_key ev_ID (pending (w_db w))))"
  have u: "Unprojected (ProjectorBatch cfg) w = (Inr ?ps, w)"
    using assms(2,4) by (simp add: Unprojected_def act_bind_def exec_NoFault ListUnprojectedScoreEvents_def sql_limit_def pending_def)
  have "\<forall>pe \<in> set ?ps. \<not> is_zero (pe_AchievedAt pe)"
    using assms(3) by (auto simp: rows_fit_def event_fit_def pending_of_def pending_def dest!: in_set_takeD)
  then obtain w' where w': "sweep_loop (Submit b) now ?ps 0 w = (Inr (0 + int (length ?ps)), w')" "w_faults w' = []"
      "pending (w_db w') = filter (\<lambda>e. ev_ID e \<notin> pe_ID ` set ?ps) (pending (w_db w))"
    using sweep_loop_calm [OF assms(1,2)] by blast
  have "distinct (map ev_ID (pending (w_db w)))"
    using assms(3) unfolding pending_def rows_fit_def by (simp add: distinct_map_filter)
  moreover have "pe_ID ` set ?ps = ev_ID ` set (take n (sort_key ev_ID (pending (w_db w))))"
    by (simp add: image_image pending_of_def)
  ultimately have "length (pending (w_db w')) = length (pending (w_db w)) - n"
    unfolding w'(3) by (simp add: length_filter_sorted)
  moreover have "projector_Sweep (Submit b) cfg now w = (Inr (int (min n (length (pending (w_db w))))), w')"
    using w'(1) by (simp add: projector_Sweep_def act_bind_def u min.commute)
  ultimately show ?thesis using w'(2) by blast
qed

context redis_server
begin

lemma Run_shows:
  assumes b: "quiet b" "b_redis b = R" and "on_boards R w" and "projector_Run (Submit b) cfg ticks w = (r, w')"
  shows "on_boards R w'"
  using assms(3,4)
proof (induction ticks arbitrary: w)
  case (Cons now ticks)
  obtain x w1 where s: "projector_Sweep (Submit b) cfg now w = (x, w1)" by fastforce
  have "projector_Run (Submit b) cfg ticks w1 = (r, w')"
    using Cons.prems(2) s by (cases x) (simp_all add: act_bind_def act_catch_def)
  then show ?case using Cons.IH Sweep_shows [OF b Cons.prems(1) s] by blast
qed simp

lemma Run_catches_up:
  assumes b: "b_announcer b = None" "b_redis b = R" and cfg: "to_int32 (ProjectorBatch cfg) = int n"
    and "w_faults w = []" and "on_boards R w"
  shows "\<exists>w'. projector_Run (Submit b) cfg ticks w = (Inr (), w') \<and> on_boards R w'
    \<and> length (pending (w_db w')) = length (pending (w_db w)) - n * length ticks"
  using assms(4,5)
proof (induction ticks arbitrary: w)
  case Nil
  then show ?case by auto
next
  case (Cons now ticks)
  have q: "quiet b" using b(1) by (simp add: quiet_def)
  have fit: "rows_fit (w_db w)" using Cons.prems(2) by (simp add: on_boards_def)
  obtain k w1 where s: "projector_Sweep (Submit b) cfg now w = (Inr k, w1)" "w_faults w1 = []"
      "length (pending (w_db w1)) = length (pending (w_db w)) - n"
    using Sweep_calm [OF b(1) Cons.prems(1) fit cfg] by blast
  have "on_boards R w1" by (rule Sweep_shows [OF q b(2) Cons.prems(2) s(1)])
  from Cons.IH [OF s(2) this] obtain w' where "projector_Run (Submit b) cfg ticks w1 = (Inr (), w')" "on_boards R w'"
      "length (pending (w_db w')) = length (pending (w_db w1)) - n * length ticks" by blast
  then show ?case using s by (auto simp: act_bind_def act_catch_def)
qed

end

end
