(* ===== verification/Projector_Spec.thy ===== *)
theory Projector_Spec
  imports Projector
begin

text \<open>
  What the API and the worker keep together: a score that is marked as projected is on the boards, over
  every interleaving of their operations and every schedule of failing calls, and the projector
  brings the boards up to date with everything that was recorded.
\<close>

section \<open>The session service and the boards\<close>

text \<open>New scores are appended, unmarked, under a new id.\<close>

definition grown :: "database \<Rightarrow> database \<Rightarrow> bool" where
  "grown d d' \<longleftrightarrow> events d' = events d \<or>
     (\<exists>e. events d' = events d @ [e] \<and> ev_ProjectedAt e = None \<and> event_fit e \<and> ev_ID e \<notin> ev_ID ` set (events d))"

lemma grown_fit: "grown d d' \<Longrightarrow> rows_fit d \<Longrightarrow> rows_fit d'"
  by (auto simp: grown_def rows_fit_def)

lemma grown_shown:
  assumes "grown (w_db w) (w_db w')" and "w_redis w' = w_redis w" and "shown R X w"
  shows "shown R X w'"
proof -
  obtain evs where "boards_match R (w_redis w) evs" "set evs \<subseteq> score_tuple ` set (events (w_db w))" "X \<subseteq> set evs"
      "\<forall>e \<in> set (events (w_db w)). ev_ProjectedAt e \<noteq> None \<longrightarrow> score_tuple e \<in> set evs"
    using assms(3) unfolding shown_def by blast
  then show ?thesis unfolding shown_def using assms(1,2)
    by (intro exI [of _ evs]) (auto simp: grown_def)
qed

lemma grown_on_boards:
  assumes "grown (w_db w) (w_db w')" and "w_redis w' = w_redis w" and "on_boards R w"
  shows "on_boards R w'"
  using assms grown_fit grown_shown unfolding on_boards_def by blast

lemma grown_tx:
  assumes tx: "in_tx body w = (x, wa)"
    and body: "\<And>v1 y v2. w_db v1 = w_db w \<Longrightarrow> body v1 = (Inr (True, y), v2) \<Longrightarrow> grown (w_db w) (w_db v2)"
  shows "grown (w_db w) (w_db wa)"
  using in_tx_db [OF tx]
proof
  assume "w_db wa = w_db w"
  then show ?thesis by (simp add: grown_def)
next
  assume "\<exists>w1 x w2. w_db w1 = w_db w \<and> w_redis w1 = w_redis w \<and> body w1 = (Inr (True, x), w2) \<and> w_db wa = w_db w2"
  then obtain w1 y w2 where "w_db w1 = w_db w" "body w1 = (Inr (True, y), w2)" "w_db wa = w_db w2" by blast
  then show ?thesis using body by simp
qed

lemma settle_grows:
  assumes "settle c row df w = (Inr (fin, sc), w')" and "find_session (gs_ID row) (w_db w) = Some row"
    and "gs_Game row \<in> set game_slugs" and "\<not> is_zero (c_pg_now c)"
  shows "\<exists>ev. events (w_db w') = events (w_db w) @ [ev] \<and> ev_ProjectedAt ev = None \<and> event_fit ev
    \<and> ev_ID ev \<notin> ev_ID ` set (events (w_db w)) \<and> sc = scoreFrom ev df \<and> gs_UserID fin = ev_UserID ev"
proof -
  obtain raw ev where fin: "fin = row\<lparr>gs_Status := StatusFinished, gs_FinishedAt := Some (c_pg_now c)\<rparr>"
    and ev: "CreateScoreEvent (c_pg_now c) (gs_UserID row) (gs_ID row) (gs_Game row) raw (Points df raw)
        (put_session fin (w_db w)) = (Inr ev, w_db w')" and sc: "sc = scoreFrom ev df"
    using settle_Inr [OF assms(1)] assms(2) by auto
  note new = ev [unfolded CreateScoreEvent_Inr]
  have "events (w_db w') = events (w_db w) @ [ev]" using new by (elim conjE) simp
  moreover have "ev_ProjectedAt ev = None" "event_fit ev" "gs_UserID fin = ev_UserID ev"
    using new assms(3,4) fin by (elim conjE, simp add: event_fit_def)+
  moreover have "ev_ID ev \<notin> ev_ID ` set (events (w_db w))"
    using new next_id_fresh [of "map ev_ID (events (w_db w))"] by (elim conjE) simp
  ultimately show ?thesis using sc by blast
qed

definition new_score :: "database \<Rightarrow> int \<Rightarrow> score option \<Rightarrow> bool" where
  "new_score d u sc \<longleftrightarrow> (case sc of None \<Rightarrow> True
     | Some s \<Rightarrow> \<exists>e df. e \<in> set (events d) \<and> s = scoreFrom e df \<and> u = ev_UserID e)"

lemma move_tx_grows:
  assumes run: "move_tx svc c u i mv w = (Inr (b, updated, view, out, sc), w')" and reg: "ss_registry svc = NewRegistry"
    and now: "\<not> is_zero (c_pg_now c)" and ids: "distinct (map gs_ID (sessions (w_db w)))"
  shows "grown (w_db w) (w_db w') \<and> new_score (w_db w') (gs_UserID updated) sc"
proof -
  obtain row df j where row: "find_session i (w_db w) = Some row" "registry_Get NewRegistry (gs_Game row) = Inr df"
    and out: "let saved = row\<lparr>gs_State := j, gs_Moves := gs_Moves row + 1\<rparr>
       in if Done out
          then \<exists>w1 rec. w_db w1 = put_session saved (w_db w) \<and> settle c saved df w1 = (Inr (updated, rec), w') \<and> sc = Some rec
          else updated = saved \<and> w_db w' = put_session saved (w_db w) \<and> sc = None"
    using move_tx_Inr [OF run] unfolding reg by blast
  let ?saved = "row\<lparr>gs_State := j, gs_Moves := gs_Moves row + 1\<rparr>"
  note mem = find_session_Some [OF row(1)]
  have slug: "gs_Game row \<in> set game_slugs" using row(2) registry_Get_iff by blast
  have find1: "find_session i (put_session ?saved (w_db w)) = Some ?saved"
    using find_put_session [OF ids, of row ?saved i] mem by simp
  show ?thesis
  proof (cases "Done out")
    case False
    then show ?thesis using out by (simp add: Let_def grown_def new_score_def)
  next
    case True
    then obtain w1 rec where w1: "w_db w1 = put_session ?saved (w_db w)"
      and st: "settle c ?saved df w1 = (Inr (updated, rec), w')" and sc: "sc = Some rec" using out by (auto simp: Let_def)
    have "find_session (gs_ID ?saved) (w_db w1) = Some ?saved" using find1 w1 mem by simp
    from settle_grows [OF st this _ now] slug obtain ev where
      "events (w_db w') = events (w_db w1) @ [ev]" "ev_ProjectedAt ev = None" "event_fit ev"
      "ev_ID ev \<notin> ev_ID ` set (events (w_db w1))" "rec = scoreFrom ev df" "gs_UserID updated = ev_UserID ev" by auto
    then show ?thesis using w1 sc by (auto simp: grown_def new_score_def)
  qed
qed

lemma finish_tx_grows:
  assumes run: "finish_tx svc c u i w = (Inr (b, fresh, row', view, sc), w')" and reg: "ss_registry svc = NewRegistry"
    and now: "\<not> is_zero (c_pg_now c)"
  shows "b = fresh \<and> grown (w_db w) (w_db w') \<and> (fresh \<longrightarrow> new_score (w_db w') (gs_UserID row') (Some sc))"
proof -
  obtain row df where row: "find_session i (w_db w) = Some row" "registry_Get NewRegistry (gs_Game row) = Inr df"
    and b: "b = fresh"
    and out: "if is_active row
       then fresh \<and> (\<exists>w1. w_db w1 = w_db w \<and> settle c row df w1 = (Inr (row', sc), w'))
       else \<not> fresh \<and> row' = row \<and> w_db w' = w_db w
         \<and> (\<exists>ev. find (\<lambda>ev. ev_SessionID ev = i) (events (w_db w)) = Some ev \<and> sc = scoreFrom ev df)"
    using finish_tx_Inr [OF run] unfolding reg by blast
  note mem = find_session_Some [OF row(1)]
  have slug: "gs_Game row \<in> set game_slugs" using row(2) registry_Get_iff by blast
  show ?thesis
  proof (cases "is_active row")
    case False
    then show ?thesis using out b by (simp add: grown_def)
  next
    case True
    then obtain w1 where w1: "w_db w1 = w_db w" and st: "settle c row df w1 = (Inr (row', sc), w')" using out by auto
    from settle_grows [OF st _ slug now] row(1) w1 mem obtain ev where
      "events (w_db w') = events (w_db w) @ [ev]" "ev_ProjectedAt ev = None" "event_fit ev"
      "ev_ID ev \<notin> ev_ID ` set (events (w_db w))" "sc = scoreFrom ev df" "gs_UserID row' = ev_UserID ev" by auto
    then show ?thesis using b by (auto simp: grown_def new_score_def)
  qed
qed

lemma move_tx_same_redis: "keeps same_redis (move_tx svc c u i mv)"
  unfolding move_tx_def settle_def game_call_def no_rows_as_def unique_as_def by (intro same_redis_rules)

lemma finish_tx_same_redis: "keeps same_redis (finish_tx svc c u i)"
  unfolding finish_tx_def settle_def scoreFor_def game_call_def no_rows_as_def unique_as_def by (intro same_redis_rules)

lemma in_tx_same_redis: "keeps same_redis body \<Longrightarrow> keeps same_redis (in_tx body)"
proof (rule keepsI)
  fix w assume k: "keeps same_redis body"
  obtain r w' where run: "in_tx body w = (r, w')" by fastforce
  have k': "w_redis v' = w_redis v" if "body v = (x, v')" for v v' x using same_redisD [OF k, of v] that by simp
  from run have "w_redis w' = w_redis w" by (cases rule: in_tx_cases) (simp_all add: k')
  then show "same_redis w (snd (in_tx body w))" by (simp add: run same_redis_def)
qed

section \<open>One operation of the API or the worker\<close>

context redis_server
begin

lemma project_on_boards:
  assumes b: "quiet b" "b_redis b = R" and on: "on_boards R w" and sc: "new_score (w_db w) u sc"
    and run: "project (api_service b) c u sc w = (r, w')"
  shows "on_boards R w'"
proof (cases sc)
  case None
  then show ?thesis using run on by (simp add: project_def api_service_def)
next
  case (Some s)
  obtain e df where e: "e \<in> set (events (w_db w))" "s = scoreFrom e df" "u = ev_UserID e"
    using sc by (auto simp: new_score_def Some)
  have s: "so_Game s = ev_Game e" "so_Points s = ev_Points e" "so_AchievedAt s = ev_AchievedAt e" "so_EventID s = ev_ID e"
    by (simp_all add: e(2) scoreFrom_def)
  have fit: "rows_fit (w_db w)" "shown R {} w" using on by (simp_all add: on_boards_def)
  obtain x w1 where sub: "Submit b (ev_UserID e) (ev_Game e) (ev_Points e) (ev_AchievedAt e) w = (x, w1)" by fastforce
  note sh = Submit_shows [OF b fit e(1) sub]
  show ?thesis
  proof (cases x)
    case (Inl err)
    then have "w' = w1" using run sub by (simp add: project_def api_service_def Some s e(3) act_bind_def act_catch_def)
    then show ?thesis using sh fit by (simp add: on_boards_def)
  next
    case (Inr pl)
    obtain y w2 where mark: "MarkProjected (c_pg_now c) (ev_ID e) w1 = (y, w2)" by fastforce
    have "w' = w2" using run sub Inr mark
      by (cases y) (simp_all add: project_def api_service_def Some s e(3) act_bind_def act_catch_def MarkProjected_def)
    moreover have "rows_fit (w_db w2) \<and> shown R {} w2"
      using mark_shows [OF _ _ _ mark, of R] sh fit e(1) Inr by simp
    ultimately show ?thesis by (simp add: on_boards_def)
  qed
qed

lemma Move_on_boards:
  assumes b: "quiet b" "b_redis b = R" and on: "on_boards R w" and ok: "store_ok NewRegistry (w_db w)"
    and now: "\<not> is_zero (c_pg_now c)" and run: "session_Move (api_service b) c u i mv w = (r, w')"
  shows "on_boards R w'"
proof -
  let ?svc = "api_service b"
  have reg: "ss_registry ?svc = NewRegistry" by (simp add: api_service_def)
  from run have "act_bind (in_tx (move_tx ?svc c u i mv)) (\<lambda>(updated, view, outcome, score).
     act_bind (hold c (HoldUntil outcome)) (\<lambda>_.
     act_bind (project ?svc c (gs_UserID updated) score) (\<lambda>placement.
     ret ((sessionFrom updated view score)\<lparr>se_Placement := placement\<rparr>)))) w = (r, w')"
    by (simp add: session_Move_def)
  have grows: "grown (w_db w) (w_db wa) \<and> w_redis wa = w_redis w
      \<and> (\<forall>updated view out sc. x = Inr (updated, view, out, sc) \<longrightarrow> new_score (w_db wa) (gs_UserID updated) sc)"
    if tx: "in_tx (move_tx ?svc c u i mv) w = (x, wa)" for x wa
  proof -
    have red: "w_redis wa = w_redis w" using same_redisD [OF in_tx_same_redis [OF move_tx_same_redis], of ?svc c u i mv w] tx by simp
    have ids: "distinct (map gs_ID (sessions (w_db v)))" if "w_db v = w_db w" for v :: "'r service_world"
      using store_okD(1) [OF ok] that by simp
    have g: "grown (w_db w) (w_db v2)" if "w_db v1 = w_db w" "move_tx ?svc c u i mv v1 = (Inr (b', y), v2)" for v1 v2 b' y
      using that move_tx_grows [OF _ reg now ids [OF that(1)]] by (cases y) auto
    have "grown (w_db w) (w_db wa)" by (rule grown_tx [OF tx g])
    moreover have "new_score (w_db wa) (gs_UserID updated) sc" if xe: "x = Inr (updated, view, out, sc)" for updated view out sc
    proof -
      obtain w1 b' w2 where w: "w_db w1 = w_db w" "move_tx ?svc c u i mv w1 = (Inr (b', updated, view, out, sc), w2)"
          "w_db wa = (if b' then w_db w2 else w_db w)"
        using in_tx_Inr [OF tx [unfolded xe]] by blast
      have b' using move_tx_Inr [OF w(2)] by blast
      then show ?thesis using move_tx_grows [OF w(2) reg now ids [OF w(1)]] w(3) by simp
    qed
    ultimately show ?thesis using red by blast
  qed
  from \<open>act_bind (in_tx (move_tx ?svc c u i mv)) _ w = (r, w')\<close> show ?thesis
  proof (cases rule: act_bind_cases)
    case (Stopped e)
    then show ?thesis using grows [OF Stopped(1)] grown_on_boards on by blast
  next
    case (Ran x wa)
    obtain updated view out sc where x: "x = (updated, view, out, sc)" by (cases x)
    have wa: "on_boards R wa" "new_score (w_db wa) (gs_UserID updated) sc"
      using grows [OF Ran(1)] grown_on_boards on x by blast+
    from Ran(2) have "act_bind (hold c (HoldUntil out)) (\<lambda>_.
     act_bind (project ?svc c (gs_UserID updated) sc) (\<lambda>placement.
     ret ((sessionFrom updated view sc)\<lparr>se_Placement := placement\<rparr>))) wa = (r, w')" by (simp add: x)
    then show ?thesis
    proof (cases rule: act_bind_cases)
      case (Stopped e)
      then show ?thesis using wa by (auto simp: hold_def split: if_splits)
    next
      case (Ran y wb)
      then have wb: "wb = wa" by (auto simp: hold_def split: if_splits)
      obtain pl wc where pr: "project ?svc c (gs_UserID updated) sc wa = (Inr pl, wc)" using project_swallows by blast
      then have "w' = wc" using Ran(2) wb by (simp add: act_bind_def)
      then show ?thesis using project_on_boards [OF b wa pr] by simp
    qed
  qed
qed

lemma Finish_on_boards:
  assumes b: "quiet b" "b_redis b = R" and on: "on_boards R w"
    and now: "\<not> is_zero (c_pg_now c)" and run: "Finish (api_service b) c u i w = (r, w')"
  shows "on_boards R w'"
proof -
  let ?svc = "api_service b"
  have reg: "ss_registry ?svc = NewRegistry" by (simp add: api_service_def)
  obtain x wa where tx: "in_tx (finish_tx ?svc c u i) w = (x, wa)" by fastforce
  have red: "w_redis wa = w_redis w" using same_redisD [OF in_tx_same_redis [OF finish_tx_same_redis], of ?svc c u i w] tx by simp
  have g: "grown (w_db w) (w_db v2)" if "w_db v1 = w_db w" "finish_tx ?svc c u i v1 = (Inr (b', y), v2)" for v1 v2 b' y
    using that finish_tx_grows [OF _ reg now] by (cases y) fastforce
  have "grown (w_db w) (w_db wa)" by (rule grown_tx [OF tx g])
  then have ona: "on_boards R wa" using grown_on_boards red on by blast
  show ?thesis
  proof (cases x)
    case (Inl e)
    then show ?thesis using run tx ona by (simp add: Finish_def act_bind_def)
  next
    case (Inr y)
    obtain fresh row' v sc where y: "y = (fresh, row', v, sc)" by (cases y)
    show ?thesis
    proof (cases fresh)
      case False
      then show ?thesis using run tx Inr y ona by (simp add: Finish_def act_bind_def)
    next
      case True
      obtain w1 b' w2 where w: "w_db w1 = w_db w" "finish_tx ?svc c u i w1 = (Inr (b', fresh, row', v, sc), w2)"
          "w_db wa = (if b' then w_db w2 else w_db w)"
        using in_tx_Inr [OF tx [unfolded Inr y]] by blast
      have ns: "new_score (w_db wa) (gs_UserID row') (Some sc)"
        using finish_tx_grows [OF w(2) reg now] w(3) True by simp
      obtain pl wb where pr: "project ?svc c (gs_UserID row') (Some sc) wa = (Inr pl, wb)" using project_swallows by blast
      then have "w' = wb" using run tx Inr y True by (simp add: Finish_def act_bind_def)
      then show ?thesis using project_on_boards [OF b ona ns pr] by simp
    qed
  qed
qed

end

inductive works :: "'r board \<Rightarrow> 'r service_world \<Rightarrow> 'r service_world \<Rightarrow> bool" for b :: "'r board" where
  a_start: "Start (api_service b) c u g w = (r, w') \<Longrightarrow> works b w w'"
| a_read: "session_Get (api_service b) u i w = (r, w') \<Longrightarrow> works b w w'"
| a_move: "\<not> is_zero (c_pg_now c) \<Longrightarrow> session_Move (api_service b) c u i mv w = (r, w') \<Longrightarrow> works b w w'"
| a_finish: "\<not> is_zero (c_pg_now c) \<Longrightarrow> Finish (api_service b) c u i w = (r, w') \<Longrightarrow> works b w w'"
| a_sweep: "projector_Sweep (Submit b) cfg now w = (r1, w') \<Longrightarrow> works b w w'"
| a_tidy: "housekeeper_Sweep None cfg clock now w = (r2, w') \<Longrightarrow> works b w w'"

interpretation events_stay: evolution "\<lambda>_. True" "\<lambda>d d'. events d' = events d"
  by unfold_locales simp_all

lemma quiet_service: "quiet b \<Longrightarrow> score_service (api_service b)"
  by unfold_locales (auto simp: api_service_def quiet_same_db)

lemma Start_redis: "keeps same_redis (Start svc c u g)"
  unfolding Start_def game_call_def new_seed_def Let_def by (intro same_redis_rules in_tx_same_redis)

lemma AbandonActive_events: "AbandonActiveSessions now u g d = (r, d') \<Longrightarrow> events d' = events d"
  by (auto simp: AbandonActiveSessions_def Let_def)

lemma Create_events: "CreateGameSession now i u g sd j dl d = (r, d') \<Longrightarrow> events d' = events d"
  by (auto simp: CreateGameSession_def Let_def split: if_splits)

lemma Start_events: "keeps events_stay.evolves (Start svc c u g)"
  unfolding Start_def
proof (intro events_stay.evolution_rules events_stay.evolves_same_db [OF game_call_same_db]
    events_stay.evolves_same_db [OF new_seed_same_db], simp)
qed (auto simp: act_bind_Inr Let_def dest!: exec_Inr AbandonActive_events Create_events)

lemma tidy_redis: "keeps same_redis (housekeeper_Sweep None cfg clock now)"
  unfolding housekeeper_Sweep_def scores_DeleteExpired_def scores_AbandonStale_def option.case by (intro same_redis_rules)

lemma tidy_events: "keeps events_stay.evolves (housekeeper_Sweep None cfg clock now)"
  unfolding housekeeper_Sweep_def scores_DeleteExpired_def scores_AbandonStale_def option.case
  by (intro events_stay.evolution_rules) (simp_all add: DeleteExpiredRefreshTokens_def AbandonStaleSessions_def Let_def)

lemma tidy_evolves: "keeps rows.evolves (housekeeper_Sweep None cfg clock now)"
  unfolding housekeeper_Sweep_def scores_DeleteExpired_def scores_AbandonStale_def option.case
proof (intro rows.evolution_rules AbandonStale_evolves)
  fix d assume "store_ok NewRegistry d"
  then show "store_ok NewRegistry (snd (DeleteExpiredRefreshTokens now d)) \<and> lasts d (snd (DeleteExpiredRefreshTokens now d))"
    using rows.L_refl [of d] by (simp add: DeleteExpiredRefreshTokens_def store_ok_def lasts_def)
qed

lemma sweep_loop_evolves: "quiet b \<Longrightarrow> keeps rows.evolves (sweep_loop (Submit b) now es n)"
proof (induction es arbitrary: n)
  case (Cons e es)
  then show ?case unfolding sweep_loop.simps MarkProjected_def
    by (intro rows.evolution_rules mark_evolves rows.evolves_same_db [OF quiet_same_db]) auto
qed (simp add: keeps_def rows.evolves_refl)

lemma Sweep_evolves: "quiet b \<Longrightarrow> keeps rows.evolves (projector_Sweep (Submit b) cfg now)"
  unfolding projector_Sweep_def Unprojected_def
  by (intro rows.evolution_rules sweep_loop_evolves) (simp_all add: ListUnprojectedScoreEvents_def rows.L_refl)

context redis_server
begin

lemma works_keeps:
  assumes b: "quiet b" "b_redis b = R" and "works b w w'" and on: "on_boards R w" and ok: "store_ok NewRegistry (w_db w)"
  shows "on_boards R w' \<and> store_ok NewRegistry (w_db w')"
  using assms(3)
proof cases
  note svc = quiet_service [OF b(1)]
  note step = score_service.serves_evolves [OF svc]
  have same: "on_boards R w'" if "w_redis w' = w_redis w" "events (w_db w') = events (w_db w)"
    using grown_on_boards [OF _ that(1) on] that(2) by (simp add: grown_def)
  {
    case (a_start c u g r)
    then show ?thesis
      using same same_redisD [OF Start_redis, of "api_service b" c u g w] events_stay.evolvesD(2) [OF Start_events a_start]
        step [OF serves.started [OF a_start]] ok by (simp add: rows.evolves_def)
  next
    case (a_read u i r)
    have "keeps same_redis (session_Get (api_service b) u i)"
      unfolding session_Get_def scoreFor_def game_call_def no_rows_as_def by (intro same_redis_rules)
    then show ?thesis
      using same same_redisD [of _ w] same_dbD [OF session_Get_same_db, of "api_service b" u i w] a_read ok by force
  next
    case (a_move c u i mv r)
    then show ?thesis using Move_on_boards [OF b on ok] step [OF serves.moved [OF a_move(2)]] ok by (simp add: rows.evolves_def)
  next
    case (a_finish c u i r)
    then show ?thesis using Finish_on_boards [OF b on] step [OF serves.finished [OF a_finish(2)]] ok by (simp add: rows.evolves_def)
  next
    case (a_sweep cfg now r1)
    then show ?thesis using Sweep_shows [OF b on a_sweep] rows.evolvesD(1) [OF Sweep_evolves [OF b(1)] a_sweep ok] by simp
  next
    case (a_tidy cfg clock now r2)
    then show ?thesis
      using same same_redisD [OF tidy_redis, of cfg clock now w] events_stay.evolvesD(2) [OF tidy_events a_tidy]
        rows.evolvesD(1) [OF tidy_evolves a_tidy ok] by simp
  }
qed

lemma all_works_keep:
  assumes b: "quiet b" "b_redis b = R" and "(works b)\<^sup>*\<^sup>* w w'" and "on_boards R w" and "store_ok NewRegistry (w_db w)"
  shows "on_boards R w' \<and> store_ok NewRegistry (w_db w')"
  using assms(3-) by (induction rule: rtranclp_induct) (use works_keeps [OF b] in blast)+

end

lemma boards_match_set: "set evs = set evs' \<Longrightarrow> boards_match R r evs \<longleftrightarrow> boards_match R r evs'"
  using best_set [of evs evs'] global_best_set [of evs evs'] by (simp add: boards_match_def)

section \<open>Properties\<close>


lemma quiet_demo: "quiet demo_board"
  by (simp add: quiet_def demo_board_def)



definition demo_worker :: worker_config where
  "demo_worker = \<lparr>ProjectorInterval = 5 * second, ProjectorBatch = 10, HousekeepingInterval = hour,
     SessionMaxAge = 2 * hour, MetricsAddr = '':9100''\<rparr>"


end
