(* ===== verification/Reports.thy ===== *)
theory Reports
  imports Scores
begin

text \<open>
  \<open>internal/reports\<close>: who the best players of a window were, from Redis while the window's board lives, from
  the snapshot that was stored when the window closed, or from the score history; and the pass of
  the housekeeper that stores those snapshots.
\<close>

section \<open>Reading a report\<close>

definition SourceLive :: string where "SourceLive = ''live''"
definition SourceSnapshot :: string where "SourceSnapshot = ''snapshot''"
definition SourceHistory :: string where "SourceHistory = ''history''"

definition MaxLimit :: int where "MaxLimit = 100"

record report =
  rp_Scope :: string
  rp_Period :: period
  rp_From :: "time option"
  rp_Until :: "time option"
  rp_Source :: string
  rp_Players :: int
  rp_Entries :: "entry list"

text \<open>The interface \<open>Boards\<close> is implemented by \<open>Board\<close>.\<close>

record 'r report_service =
  rs_boards :: "'r board"
  rs_registry :: registry
  rs_now :: time

record request =
  rq_Scope :: scope
  rq_Period :: period
  rq_At :: time
  rq_Limit :: int

record snapshot_entry =
  sp_Rank :: int
  sp_UserID :: int
  sp_Points :: int

definition snapshot_fields :: "snapshot_entry field list" where
  "snapshot_fields =
     [(''rank'', int_field (\<lambda>n e. e\<lparr>sp_Rank := n\<rparr>)), (''user_id'', int_field (\<lambda>n e. e\<lparr>sp_UserID := n\<rparr>)),
      (''points'', int_field (\<lambda>n e. e\<lparr>sp_Points := n\<rparr>))]"

fun decode_entries :: "json list \<Rightarrow> snapshot_entry list option" where
  "decode_entries [] = Some []"
| "decode_entries (j # js) =
     (case decode_struct False snapshot_fields j \<lparr>sp_Rank = 0, sp_UserID = 0, sp_Points = 0\<rparr> of
        None \<Rightarrow> None
      | Some e \<Rightarrow> map_option (\<lambda>es. e # es) (decode_entries js))"

definition unmarshal_snapshot :: "json \<Rightarrow> snapshot_entry list option" where
  "unmarshal_snapshot j = (case j of JNull \<Rightarrow> Some [] | JArr js \<Rightarrow> decode_entries js | _ \<Rightarrow> None)"

definition marshal_snapshot :: "snapshot_entry list \<Rightarrow> json" where
  "marshal_snapshot es = JArr (map (\<lambda>e. JObj
     [(''rank'', JInt (sp_Rank e)), (''user_id'', JInt (sp_UserID e)), (''points'', JInt (sp_Points e))]) es)"

definition name_in :: "(int \<Rightarrow> string option) \<Rightarrow> int \<Rightarrow> string" where
  "name_in names u = (case names u of None \<Rightarrow> '''' | Some n \<Rightarrow> n)"

definition snapshot_row :: "string \<Rightarrow> string \<Rightarrow> time \<Rightarrow> ('r service_world, leaderboard_snapshot option) act" where
  "snapshot_row scope period from =
     act_catch (act_bind (exec (GetLeaderboardSnapshot scope period from)) (\<lambda>row. ret (Some row)))
       (\<lambda>e. if e = ErrNoRows then ret None else fail e)"

definition fromSnapshot :: "request \<Rightarrow> time \<Rightarrow> ('r service_world, (int \<times> entry list) option) act" where
  "fromSnapshot request from =
     (if is_zero from then ret None
      else
        act_bind (snapshot_row (scope_Name (rq_Scope request)) (period_str (rq_Period request)) from) (\<lambda>found.
        case found of
          None \<Rightarrow> ret None
        | Some row \<Rightarrow>
            (case unmarshal_snapshot (sn_Entries row) of
               None \<Rightarrow> fail ErrBadSnapshot
             | Some stored \<Rightarrow>
                 let stored = (if rq_Limit request < int (length stored) then take (nat (rq_Limit request)) stored
                               else stored)
                 in act_bind (Usernames (map sp_UserID stored)) (\<lambda>names.
                    ret (Some (sn_PlayerCount row,
                      map (\<lambda>e. \<lparr>en_Rank = sp_Rank e, en_UserID = sp_UserID e,
                                en_Username = name_in names (sp_UserID e), en_Points = sp_Points e\<rparr>) stored))))))"

definition aggregate :: "request \<Rightarrow> time \<Rightarrow> time \<Rightarrow> ('r service_world, (int \<times> int) list) act" where
  "aggregate request from until =
     (let limit = to_int32 (rq_Limit request); s = rq_Scope request in
      if IsGlobal s \<and> is_zero from then exec (TopPlayersGlobalAllTime limit)
      else if IsGlobal s then exec (TopPlayersGlobalInWindow from until limit)
      else if is_zero from then exec (TopPlayersForGameAllTime (sc_Game s) limit)
      else exec (TopPlayersForGameInWindow (sc_Game s) from until limit))"

text \<open>\<open>i\<close> is the index of the row, \<open>prev\<close> the points of the row before it.\<close>

fun decorate_rows :: "(int \<Rightarrow> string option) \<Rightarrow> int \<Rightarrow> int \<Rightarrow> int option \<Rightarrow> (int \<times> int) list \<Rightarrow> entry list" where
  "decorate_rows names i rank prev [] = []"
| "decorate_rows names i rank prev ((u, points) # rows) =
     (let rank = (case prev of None \<Rightarrow> rank | Some before \<Rightarrow> if points \<noteq> before then i + 1 else rank)
      in \<lparr>en_Rank = rank, en_UserID = u, en_Username = name_in names u, en_Points = points\<rparr>
         # decorate_rows names (i + 1) rank (Some points) rows)"

definition decorate :: "(int \<times> int) list \<Rightarrow> ('r service_world, entry list) act" where
  "decorate rows =
     (if rows = [] then ret []
      else act_bind (Usernames (map fst rows)) (\<lambda>names. ret (decorate_rows names 0 1 None rows)))"

definition fromHistory :: "request \<Rightarrow> time \<Rightarrow> time \<Rightarrow> ('r service_world, entry list \<times> int) act" where
  "fromHistory request from until =
     act_bind (aggregate request from until) (\<lambda>rows.
     act_bind (decorate rows) (\<lambda>entries.
     ret (entries, int (length rows))))"

definition normalise :: "'r report_service \<Rightarrow> request \<Rightarrow> request" where
  "normalise svc request =
     (let request = (if is_zero (rq_At request) then request\<lparr>rq_At := rs_now svc\<rparr> else request)
      in if rq_Limit request \<le> 0 \<or> MaxLimit < rq_Limit request then request\<lparr>rq_Limit := 10\<rparr> else request)"

definition TopPlayers :: "'r report_service \<Rightarrow> request \<Rightarrow> ('r service_world, report) act" where
  "TopPlayers svc request0 =
     (let request = normalise svc request0;
          (from, until) = Window (rq_Period request) (rq_At request);
          bounded = \<not> is_zero from;
          report = \<lparr>rp_Scope = scope_Name (rq_Scope request), rp_Period = rq_Period request,
                    rp_From = (if bounded then Some from else None), rp_Until = (if bounded then Some until else None),
                    rp_Source = '''', rp_Players = 0, rp_Entries = []\<rparr>
      in act_bind (Exists (rs_boards svc) (rq_Scope request) (rq_Period request) (rq_At request)) (\<lambda>live.
         if live
         then act_bind (PageAt (rs_boards svc) (rq_Scope request) (rq_Period request) (rq_At request) 0 (rq_Limit request))
                (\<lambda>page. ret (report\<lparr>rp_Source := SourceLive, rp_Players := pg_Total page, rp_Entries := pg_Entries page\<rparr>))
         else act_bind (fromSnapshot request from) (\<lambda>stored.
              case stored of
                Some (players, entries) \<Rightarrow>
                  ret (report\<lparr>rp_Source := SourceSnapshot, rp_Players := players, rp_Entries := entries\<rparr>)
              | None \<Rightarrow>
                  act_bind (fromHistory request from until) (\<lambda>(entries, players).
                  ret (report\<lparr>rp_Source := SourceHistory, rp_Players := players, rp_Entries := entries\<rparr>)))))"

section \<open>Freezing closed windows\<close>

definition snapshotSize :: int where "snapshotSize = MaxLimit"

definition stored_form :: "entry list \<Rightarrow> snapshot_entry list" where
  "stored_form entries =
     map (\<lambda>e. \<lparr>sp_Rank = en_Rank e, sp_UserID = en_UserID e, sp_Points = en_Points e\<rparr>) entries"

definition materialise :: "time \<Rightarrow> scope \<Rightarrow> period \<Rightarrow> time \<Rightarrow> ('r service_world, bool) act" where
  "materialise now s p at_time =
     (let (from, until) = Window p at_time
      in act_bind
           (aggregate \<lparr>rq_Scope = s, rq_Period = p, rq_At = zero_time, rq_Limit = snapshotSize\<rparr> from until) (\<lambda>rows.
         if rows = [] then ret False
         else act_bind (decorate rows) (\<lambda>entries.
              act_bind (exec (UpsertLeaderboardSnapshot now (scope_Name s) (period_str p) from until
                 (to_int32 (int (length rows))) (marshal_snapshot (stored_form entries)))) (\<lambda>_.
              ret True))))"

fun materialise_scopes ::
    "time \<Rightarrow> period \<Rightarrow> time \<Rightarrow> scope list \<Rightarrow> int \<times> int \<Rightarrow> ('r service_world, int \<times> int) act" where
  "materialise_scopes now p at_time [] report = ret report"
| "materialise_scopes now p at_time (s # ss) (written, skipped) =
     act_bind (materialise now s p at_time) (\<lambda>done_now.
     materialise_scopes now p at_time ss (if done_now then (written + 1, skipped) else (written, skipped + 1)))"

fun materialise_periods ::
    "time \<Rightarrow> time \<Rightarrow> scope list \<Rightarrow> period list \<Rightarrow> int \<times> int \<Rightarrow> ('r service_world, int \<times> int) act" where
  "materialise_periods now at_time scopes [] report = ret report"
| "materialise_periods now at_time scopes (p # ps) report =
     (if p = AllTime then materialise_periods now at_time scopes ps report
      else
        let (from, until) = Window p at_time; previous = time_add from (- 1)
        in act_bind (materialise_scopes now p previous scopes report) (\<lambda>report.
           materialise_periods now at_time scopes ps report))"

text \<open>The counts of a pass that failed are not looked at. \<open>now\<close> is the clock of the statements.\<close>

definition MaterialiseClosedWindows :: "'r report_service \<Rightarrow> time \<Rightarrow> time \<Rightarrow> ('r service_world, int \<times> int) act" where
  "MaterialiseClosedWindows svc now at_time =
     (let at_time = (if is_zero at_time then rs_now svc else at_time);
          scopes = Global # map Game (registry_Slugs (rs_registry svc))
      in materialise_periods now at_time scopes Periods (0, 0))"

end
