(* ===== verification/Reports_Spec.thy ===== *)
theory Reports_Spec
  imports Reports Rebuild_Spec Session_Rules
begin

text \<open>
  The three sources of a report answer alike: \<open>top_players\<close> is the specification of a list of leading
  players over the boards' specification (\<open>best\<close>, \<open>global_best\<close> of theory Leaderboard); the aggregates of the
  history compute it, the boards show it, and a snapshot keeps it.
\<close>

section \<open>Leading players\<close>

definition players_above :: "(int \<Rightarrow> int option) \<Rightarrow> int \<Rightarrow> int set" where
  "players_above f x = {u. \<exists>y. f u = Some y \<and> x < y}"

text \<open>
  The first \<open>l\<close> players of the scores \<open>f\<close>, best first, each with the competition rank; nobody who is left out
  has more points than one who is named.
\<close>

definition top_players :: "(int \<Rightarrow> int option) \<Rightarrow> nat \<Rightarrow> entry list \<Rightarrow> bool" where
  "top_players f l es \<longleftrightarrow>
     distinct (map en_UserID es) \<and> sorted_wrt (\<ge>) (map en_Points es) \<and> length es = min l (card (dom f)) \<and>
     (\<forall>e \<in> set es. f (en_UserID e) = Some (en_Points e) \<and> en_Rank e = int (card (players_above f (en_Points e))) + 1) \<and>
     (\<forall>u x. f u = Some x \<longrightarrow> u \<notin> en_UserID ` set es \<longrightarrow> (\<forall>e \<in> set es. x \<le> en_Points e))"

text \<open>All players of \<open>f\<close> in order.\<close>

definition ranked :: "(int \<Rightarrow> int option) \<Rightarrow> (int \<times> int) list \<Rightarrow> bool" where
  "ranked f rows \<longleftrightarrow>
     distinct (map fst rows) \<and> (\<forall>u x. (u, x) \<in> set rows \<longleftrightarrow> f u = Some x) \<and> sorted_wrt (\<ge>) (map snd rows)"

lemma ranked_count:
  assumes "ranked f rows"
  shows "count_above (map snd rows) x = int (card (players_above f x))"
proof -
  let ?hit = "filter (\<lambda>row. x < snd row) rows"
  have "players_above f x = fst ` set ?hit"
    using assms by (force simp: players_above_def ranked_def)
  moreover have "distinct (map fst ?hit)"
    using assms unfolding ranked_def by (intro distinct_map_filter) simp
  ultimately have "card (players_above f x) = length ?hit"
    by (metis distinct_card length_map list.set_map)
  then show ?thesis by (simp add: count_above_def filter_map comp_def)
qed

lemma ranked_card: "ranked f rows \<Longrightarrow> card (dom f) = length rows"
proof -
  assume r: "ranked f rows"
  then have "dom f = fst ` set rows" by (force simp: ranked_def)
  moreover have "card (fst ` set rows) = length rows"
    using r distinct_card [of "map fst rows"] by (simp add: ranked_def)
  ultimately show ?thesis by simp
qed

lemma ranked_top:
  assumes r: "ranked f rows" and es: "map (\<lambda>e. (en_UserID e, en_Points e)) es = take l rows"
    and rank: "\<forall>e \<in> set es. en_Rank e = count_above (map snd rows) (en_Points e) + 1"
  shows "top_players f l es"
proof -
  have us: "map en_UserID es = map fst (take l rows)" and pts: "map en_Points es = map snd (take l rows)"
    using arg_cong [OF es, of "map fst"] arg_cong [OF es, of "map snd"] by (simp_all add: comp_def)
  have "distinct (map en_UserID es)" using r unfolding us ranked_def by (simp add: take_map [symmetric])
  moreover have "sorted_wrt (\<ge>) (map en_Points es)"
    using r unfolding pts ranked_def by (simp add: take_map [symmetric] sorted_wrt_take)
  moreover have "length es = min l (card (dom f))"
    using arg_cong [OF es, of length] ranked_card [OF r] by simp
  moreover have "f (en_UserID e) = Some (en_Points e)" if e: "e \<in> set es" for e
  proof -
    have "(en_UserID e, en_Points e) \<in> set (take l rows)" unfolding es [symmetric] using e by force
    then have "(en_UserID e, en_Points e) \<in> set rows" by (rule in_set_takeD)
    then show ?thesis using r by (simp add: ranked_def)
  qed
  moreover have "x \<le> en_Points e" if u: "f u = Some x" "u \<notin> en_UserID ` set es" and e: "e \<in> set es" for u x e
  proof -
    have "(u, x) \<in> set rows" using r u(1) by (simp add: ranked_def)
    moreover have "(u, x) \<notin> set (take l rows)" using u(2) unfolding es [symmetric] by force
    ultimately have "(u, x) \<in> set (drop l rows)" by (metis append_take_drop_id UnE set_append)
    then have x: "x \<in> set (map snd (drop l rows))" by force
    have "sorted_wrt (\<ge>) (map snd (take l rows) @ map snd (drop l rows))"
      using r by (simp add: ranked_def flip: map_append)
    moreover have "en_Points e \<in> set (map snd (take l rows))" unfolding pts [symmetric] using e by simp
    ultimately show ?thesis using x by (fastforce simp: sorted_wrt_append)
  qed
  ultimately show ?thesis using rank ranked_count [OF r] by (simp add: top_players_def)
qed

lemma top_players_fewer:
  assumes top: "top_players f l es" and "n \<le> l"
  shows "top_players f n (take n es)"
proof -
  have sub: "set (take n es) \<subseteq> set es" by (rule set_take_subset)
  have "x \<le> en_Points e" if u: "f u = Some x" "u \<notin> en_UserID ` set (take n es)" and e: "e \<in> set (take n es)" for u x e
  proof (cases "u \<in> en_UserID ` set es")
    case True
    then obtain e' where e': "e' \<in> set es" "en_UserID e' = u" by blast
    then have "e' \<notin> set (take n es)" using u(2) by blast
    then have "e' \<in> set (drop n es)" using e'(1) by (metis append_take_drop_id UnE set_append)
    moreover have "sorted_wrt (\<ge>) (map en_Points (take n es) @ map en_Points (drop n es))"
      using top by (simp add: top_players_def flip: map_append)
    ultimately have "en_Points e' \<le> en_Points e" using e by (simp add: sorted_wrt_append)
    moreover have "x = en_Points e'" using top e' u(1) by (auto simp: top_players_def)
    ultimately show ?thesis by simp
  next
    case False
    then show ?thesis using top u(1) e sub unfolding top_players_def by blast
  qed
  then show ?thesis
    using top assms(2) sub unfolding top_players_def
    by (auto simp: take_map [symmetric] intro: sorted_wrt_take)
qed

section \<open>The history\<close>

definition on_board :: "scope \<Rightarrow> period \<Rightarrow> time \<Rightarrow> scored_event list \<Rightarrow> int \<Rightarrow> int option" where
  "on_board s p t evs u = (if IsGlobal s then global_best p t u evs else best p t (sc_Game s) u evs)"

text \<open>The rows of an aggregate before ordering.\<close>

definition totals :: "scope \<Rightarrow> score_event list \<Rightarrow> (int \<times> int \<times> time) list" where
  "totals s es = (if IsGlobal s then global_totals es else game_totals (filter (\<lambda>e. ev_Game e = sc_Game s) es))"

lemma totals_users: "distinct (map fst (totals s es))"
  by (simp add: totals_def game_totals_def global_totals_def comp_def Let_def)

lemma game_totals_mem:
  "(\<exists>t. (u, x, t) \<in> set (game_totals es)) \<longleftrightarrow>
    filter (\<lambda>e. ev_UserID e = u) es \<noteq> [] \<and> x = max_of (map ev_Points (filter (\<lambda>e. ev_UserID e = u) es))"
  by (auto simp: game_totals_def Let_def filter_empty_conv image_iff)

lemma global_totals_mem:
  "(\<exists>t. (u, x, t) \<in> set (global_totals es)) \<longleftrightarrow>
    filter (\<lambda>e. ev_UserID e = u) es \<noteq> []
    \<and> x = sum_list (map (\<lambda>(g, _, b). b) (best_rows (filter (\<lambda>e. ev_UserID e = u) es)))"
  by (auto simp: global_totals_def Let_def filter_empty_conv image_iff)

lemma best_rows_user:
  "best_rows (filter (\<lambda>e. ev_UserID e = u) es) = filter (\<lambda>row. fst (snd row) = u) (best_rows es)"
proof -
  have "remdups (map (\<lambda>e. (ev_Game e, ev_UserID e)) (filter (\<lambda>e. ev_UserID e = u) es))
      = filter (\<lambda>k. snd k = u) (remdups (map (\<lambda>e. (ev_Game e, ev_UserID e)) es))"
    unfolding remdups_filter [symmetric] by (simp add: filter_map comp_def)
  moreover have "filter (of_game_user g u) (filter (\<lambda>e. ev_UserID e = u) es) = filter (of_game_user g u) es" for g
    by (auto simp: of_game_user_def intro: filter_cong)
  ultimately show ?thesis
    by (auto simp: best_rows_def filter_map comp_def split_beta intro!: map_cong)
qed

lemma best_None_rows:
  "best p t g u (scored_events d) = None \<longleftrightarrow> filter (of_game_user g u) (filter (in_period p t) (events d)) = []"
  unfolding best_def points_in_events Let_def by simp

lemma totals_game:
  assumes "\<not> IsGlobal s"
  shows "(\<exists>m. (u, x, m) \<in> set (totals s (filter (in_period p t) (events d)))) \<longleftrightarrow> on_board s p t (scored_events d) u = Some x"
proof -
  have "filter (\<lambda>e. ev_UserID e = u) (filter (\<lambda>e. ev_Game e = sc_Game s) es) = filter (of_game_user (sc_Game s) u) es" for es
    by (auto simp: of_game_user_def intro: filter_cong)
  then show ?thesis
    using assms by (simp add: totals_def on_board_def game_totals_mem best_of_rows best_rows_mem del: filter_filter)
qed

lemma totals_global:
  assumes "IsGlobal s" and games: "\<And>e. e \<in> set (events d) \<Longrightarrow> ev_Game e \<in> set game_slugs"
  shows "(\<exists>m. (u, x, m) \<in> set (totals s (filter (in_period p t) (events d)))) \<longleftrightarrow> on_board s p t (scored_events d) u = Some x"
proof -
  let ?es = "filter (in_period p t) (events d)"
  let ?mine = "filter (\<lambda>e. be_UserID e = u) (period_rows p t d)"
  have mine: "?mine = map best_row_of (filter (\<lambda>row. fst (snd row) = u) (best_rows ?es))"
    by (simp add: period_rows_def filter_map comp_def best_row_of_def split_beta del: filter_filter)
  have "sum_list (map (\<lambda>(g, _, b). b) (best_rows (filter (\<lambda>e. ev_UserID e = u) ?es))) = sum_list (map be_Points ?mine)"
    unfolding best_rows_user mine by (simp add: comp_def best_row_of_def case_prod_beta' del: filter_filter)
  moreover have "filter (\<lambda>e. ev_UserID e = u) ?es = [] \<longleftrightarrow> ?mine = []"
  proof -
    have "best_rows (filter (\<lambda>e. ev_UserID e = u) ?es) = [] \<longleftrightarrow> filter (\<lambda>e. ev_UserID e = u) ?es = []"
      by (simp add: best_rows_def del: filter_filter)
    then show ?thesis unfolding mine best_rows_user by simp
  qed
  ultimately show ?thesis
    using assms(1) gathered_overall [OF games, where p = p and t = t and d = d and u = u, unfolded gather_overall, symmetric]
    by (auto simp: totals_def on_board_def global_totals_mem Let_def score_of_def simp del: filter_filter)
qed

lemma top_rows_ranked:
  assumes "distinct (map fst rows)" and "\<And>u x. (\<exists>m. (u, x, m) \<in> set rows) \<longleftrightarrow> f u = Some x"
    and "top_rows l rows = Inr out"
  shows "\<exists>all. ranked f all \<and> out = take (nat l) all"
proof -
  let ?sorted = "sort_key (\<lambda>(u, p, t). - p) (sort_key (\<lambda>(u, p, t). t) rows)"
  let ?all = "map (\<lambda>(u, p, _). (u, p)) ?sorted"
  have "distinct (map fst ?sorted)"
  proof -
    have "mset (map fst ?sorted) = mset (map fst rows)" by (simp add: mset_map)
    then show ?thesis using assms(1) by (metis mset_eq_imp_distinct_iff)
  qed
  then have "distinct (map fst ?all)" by (simp add: comp_def split_beta)
  moreover have "(u, x) \<in> set ?all \<longleftrightarrow> f u = Some x" for u x
    unfolding assms(2) [symmetric] by (force simp: image_iff)
  moreover have "sorted_wrt (\<ge>) (map snd ?all)"
  proof -
    have "sorted (map (\<lambda>(u, p, t). - p) ?sorted)" by (rule sorted_sort_key)
    then show ?thesis by (simp add: sorted_wrt_map split_beta)
  qed
  ultimately have "ranked f ?all" unfolding ranked_def by (intro conjI allI)
  moreover have "out = take (nat l) ?all"
    using assms(3) by (auto simp: top_rows_def sql_limit_def take_map split: if_splits)
  ultimately show ?thesis by blast
qed

lemma to_int32_id: "- (2 ^ 31) \<le> n \<Longrightarrow> n < 2 ^ 31 \<Longrightarrow> to_int32 n = n"
  by (simp add: to_int32_def signed_take_bit_int_eq_self sint_sbintrunc')

text \<open>The queries read the window \<open>in_period\<close> names.\<close>

lemma aggregate_rows:
  assumes "aggregate rq (fst (Window p t)) (snd (Window p t)) w = (Inr rows, w')" and "31 \<le> day_number t"
  shows "w_db w' = w_db w \<and> w_redis w' = w_redis w
    \<and> top_rows (to_int32 (rq_Limit rq)) (totals (rq_Scope rq) (filter (in_period p t) (events (w_db w)))) = Inr rows"
proof -
  let ?from = "fst (Window p t)" and ?until = "snd (Window p t)"
  have win: "in_window (if is_zero ?from then None else Some ?from) (if is_zero ?until then None else Some ?until) = in_period p t"
    using in_window_period [OF assms(2)] by (intro ext)
  have zero: "is_zero ?from \<longleftrightarrow> p = AllTime" using window_not_zero [OF _ assms(2)] by (cases "p = AllTime") (auto simp: is_zero_def)
  show ?thesis
  proof (cases "p = AllTime")
    case True
    then have all: "in_period p t = (\<lambda>_. True)" by (intro ext) (simp add: in_period_def)
    show ?thesis unfolding all
      using assms(1) True zero unfolding aggregate_def Let_def
      by (auto simp: totals_def TopPlayersGlobalAllTime_def TopPlayersForGameAllTime_def dest!: exec_Inr split: if_splits)
  next
    case False
    then have "\<not> is_zero ?until" using window_end_not_zero [OF _ assms(2)] by blast
    then have win': "in_window (Some ?from) (Some ?until) = in_period p t" using win zero False by simp
    have game: "filter (\<lambda>e. ev_Game e = g \<and> in_period p t e) es = filter (\<lambda>e. ev_Game e = g) (filter (in_period p t) es)" for g es
      by (simp add: conj_commute)
    show ?thesis
      using assms(1) False zero unfolding aggregate_def Let_def
      by (auto simp: totals_def TopPlayersGlobalInWindow_def TopPlayersForGameInWindow_def win' game dest!: exec_Inr split: if_splits)
  qed
qed

text \<open>Every score is of a registered game, as the session service keeps them.\<close>

definition known_games :: "database \<Rightarrow> bool" where
  "known_games d \<longleftrightarrow> (\<forall>e \<in> set (events d). ev_Game e \<in> set game_slugs)"

lemma aggregate_ranked:
  assumes "aggregate rq (fst (Window p t)) (snd (Window p t)) w = (Inr rows, w')" and "31 \<le> day_number t"
    and "known_games (w_db w)" and "0 < rq_Limit rq" and "rq_Limit rq \<le> MaxLimit"
  shows "\<exists>all. ranked (on_board (rq_Scope rq) p t (scored_events (w_db w))) all \<and> rows = take (nat (rq_Limit rq)) all"
proof -
  have "to_int32 (rq_Limit rq) = rq_Limit rq"
    using assms(4,5) by (simp add: to_int32_id MaxLimit_def)
  then have "top_rows (rq_Limit rq) (totals (rq_Scope rq) (filter (in_period p t) (events (w_db w)))) = Inr rows"
    using aggregate_rows [OF assms(1,2)] by simp
  moreover have "(\<exists>m. (u, x, m) \<in> set (totals (rq_Scope rq) (filter (in_period p t) (events (w_db w)))))
      \<longleftrightarrow> on_board (rq_Scope rq) p t (scored_events (w_db w)) u = Some x" for u x
    using totals_game [of "rq_Scope rq"] totals_global [of "rq_Scope rq"] assms(3) unfolding known_games_def
    by (cases "IsGlobal (rq_Scope rq)") blast+
  ultimately show ?thesis by (intro top_rows_ranked [OF totals_users])
qed

text \<open>The loop of \<open>decorate\<close> is the one of a page that starts at the top.\<close>

lemma decorate_rows_page: "decorate_rows names i rank prev rows = page_rows names 0 i rank prev rows"
  by (induction rows arbitrary: i rank prev) (auto simp: name_in_def Let_def split: option.split)

lemma count_above_hd: "sorted_wrt (\<ge>) (x # xs) \<Longrightarrow> count_above (x # xs) x = 0"
  by (auto simp: count_above_def filter_empty_conv)

lemma decorate_top:
  assumes "ranked f all"
  shows "top_players f l (decorate_rows names 0 1 None (take l all))"
proof (rule ranked_top [OF assms])
  let ?rows = "take l all"
  show "map (\<lambda>e. (en_UserID e, en_Points e)) (decorate_rows names 0 1 None ?rows) = ?rows"
    by (simp only: decorate_rows_page page_rows_rows)
  have all: "map snd ?rows @ map snd (drop l all) = map snd all" by (simp flip: map_append)
  have "count_above (map snd all) (snd (hd ?rows)) = 0" if "?rows \<noteq> []"
    using that assms count_above_hd by (cases all; cases l) (auto simp: ranked_def)
  then show "\<forall>e \<in> set (decorate_rows names 0 1 None ?rows). en_Rank e = count_above (map snd all) (en_Points e) + 1"
    using page_rows_ranks [of "[]" ?rows "map snd (drop l all)" 0 0 1 None names] assms
    unfolding decorate_rows_page all append_Nil by (simp add: ranked_def)
qed

lemma decorate_Inr:
  assumes "decorate rows w = (Inr entries, w')"
  shows "w_db w' = w_db w \<and> w_redis w' = w_redis w \<and> (\<exists>names. entries = decorate_rows names 0 1 None rows)"
proof -
  have "keeps same_db (decorate rows)" "keeps same_redis (decorate rows)"
    unfolding decorate_def by (intro same_db_rules Usernames_same_db, intro same_redis_rules Usernames_same_redis)
  then have "w_db w' = w_db w" "w_redis w' = w_redis w"
    using same_dbD [of "decorate rows" w] same_redisD [of "decorate rows" w] assms by simp_all
  moreover have "\<exists>names. entries = decorate_rows names 0 1 None rows"
    using assms by (auto simp: decorate_def act_bind_Inr split: if_splits)
  ultimately show ?thesis by blast
qed

lemma fromHistory_top:
  assumes "fromHistory rq (fst (Window p t)) (snd (Window p t)) w = (Inr (entries, n), w')" and "31 \<le> day_number t"
    and "known_games (w_db w)" and "0 < rq_Limit rq" and "rq_Limit rq \<le> MaxLimit"
  shows "top_players (on_board (rq_Scope rq) p t (scored_events (w_db w))) (nat (rq_Limit rq)) entries \<and> n = int (length entries)"
proof -
  obtain rows w1 where rows: "aggregate rq (fst (Window p t)) (snd (Window p t)) w = (Inr rows, w1)"
    and d: "decorate rows w1 = (Inr entries, w')" and n: "n = int (length rows)"
    using assms(1) unfolding fromHistory_def by (auto simp: act_bind_Inr)
  obtain all where all: "ranked (on_board (rq_Scope rq) p t (scored_events (w_db w))) all" "rows = take (nat (rq_Limit rq)) all"
    using aggregate_ranked [OF rows assms(2-5)] by blast
  obtain names where e: "entries = decorate_rows names 0 1 None rows" using decorate_Inr [OF d] by blast
  have "map (\<lambda>e. (en_UserID e, en_Points e)) entries = rows" by (simp only: e decorate_rows_page page_rows_rows)
  then have "length rows = length entries" by (metis length_map)
  then show ?thesis using decorate_top [OF all(1)] n e all(2) by simp
qed

section \<open>The boards\<close>

text \<open>Boards hold user ids as members; nothing else writes to their keys.\<close>

definition only_users :: "'r redis_ops \<Rightarrow> 'r \<Rightarrow> string \<Rightarrow> bool" where
  "only_users R r key \<longleftrightarrow> (\<forall>m. zscore R r key m \<noteq> None \<longrightarrow> (\<exists>u. m = member_of u \<and> fits_int64 u))"

context redis_server
begin

lemma PageAt_top:
  assumes "PageAt b s p t 0 limit w = (Inr pg, w')" and "b_redis b = R" and "0 < limit" and "limit \<le> MaxLimit"
    and match: "\<And>u. zscore R (w_redis w) (Key s p t) (member_of u) = f u" and only: "only_users R (w_redis w) (Key s p t)"
  shows "top_players f (nat limit) (pg_Entries pg) \<and> pg_Total pg = int (card (dom f))"
proof -
  let ?L = "ranking (w_redis w) (Key s p t)"
  define user where "user = (\<lambda>m. projr (parseMember m))"
  define all where "all = map (\<lambda>(m, x). (user m, x)) ?L"
  have l: "page_limit limit = limit" using assms(3,4) by (simp add: page_limit_def MaxLimit_def MaxPageSize_def)
  note pg = PageAt_Inr [OF assms(1,2), unfolded l, simplified]
  have user: "m = member_of (user m) \<and> f (user m) = Some x" if mx: "(m, x) \<in> set ?L" for m x
  proof -
    have z: "zscore R (w_redis w) (Key s p t) m = Some x" using mx by (simp add: ranking_iff)
    then obtain u where u: "m = member_of u" "fits_int64 u" using only by (auto simp: only_users_def)
    then have "user m = u" by (simp add: user_def)
    then show ?thesis using u(1) z match [of u] by simp
  qed
  have fst: "map fst all = map user (map fst ?L)" by (simp add: all_def split_beta)
  have "inj_on user (set (map fst ?L))"
    using user by (intro inj_onI) (metis (no_types, lifting) in_set_zipE list.set_map imageE prod.collapse)
  then have "distinct (map fst all)"
    unfolding fst using zrev_distinct by (simp only: distinct_map)
  moreover have "(u, x) \<in> set all \<longleftrightarrow> f u = Some x" for u x
  proof
    assume "(u, x) \<in> set all"
    then obtain m where "(m, x) \<in> set ?L" "u = user m" by (auto simp: all_def)
    then show "f u = Some x" using user by blast
  next
    assume f: "f u = Some x"
    then have "(member_of u, x) \<in> set ?L" using match by (simp add: ranking_iff)
    moreover from this have "user (member_of u) = u" using user by (metis member_of_inj)
    ultimately show "(u, x) \<in> set all" unfolding all_def by force
  qed
  moreover have snd: "map snd all = map snd ?L" by (simp add: all_def split_beta)
  ultimately have r: "ranked f all" using ranking_descending by (simp add: ranked_def)
  have pts: "map en_Points (pg_Entries pg) = map snd (take (nat limit) ?L)"
    and us: "list_all2 (\<lambda>e row. parseMember (fst row) = Inr (en_UserID e)) (pg_Entries pg) (take (nat limit) ?L)"
    using pg by blast+
  have len: "length (pg_Entries pg) = length (take (nat limit) ?L)" using us by (rule list_all2_lengthD)
  have "map (\<lambda>e. (en_UserID e, en_Points e)) (pg_Entries pg) = take (nat limit) all"
  proof (rule nth_equalityI)
    fix i assume "i < length (map (\<lambda>e. (en_UserID e, en_Points e)) (pg_Entries pg))"
    then have i: "i < length (pg_Entries pg)" by simp
    have "en_Points (pg_Entries pg ! i) = snd (take (nat limit) ?L ! i)" using pts i len by (metis nth_map)
    moreover have "parseMember (fst (take (nat limit) ?L ! i)) = Inr (en_UserID (pg_Entries pg ! i))"
      using list_all2_nthD [OF us i] .
    ultimately show "map (\<lambda>e. (en_UserID e, en_Points e)) (pg_Entries pg) ! i = take (nat limit) all ! i"
      using i len by (simp add: all_def user_def split_beta)
  qed (simp add: len all_def)
  moreover have "zcount_above R (w_redis w) (Key s p t) x = count_above (map snd all) x" for x
    by (simp add: zcount_ranking count_above_def snd filter_map comp_def)
  ultimately have "top_players f (nat limit) (pg_Entries pg)" using pg by (intro ranked_top [OF r]) simp_all
  moreover have "pg_Total pg = int (card (dom f))" using pg ranked_card [OF r] by (simp add: all_def)
  ultimately show ?thesis by blast
qed

end

section \<open>Snapshots\<close>

text \<open>The stored form of entries decodes to what was stored, for integers an \<open>int64\<close> holds.\<close>

definition entry_fits :: "snapshot_entry \<Rightarrow> bool" where
  "entry_fits e \<longleftrightarrow> fits_int64 (sp_Rank e) \<and> fits_int64 (sp_UserID e) \<and> fits_int64 (sp_Points e)"

lemma snapshot_roundtrip:
  assumes "\<forall>e \<in> set es. entry_fits e"
  shows "unmarshal_snapshot (marshal_snapshot es) = Some es"
proof -
  have "decode_entries (map (\<lambda>e. JObj [(''rank'', JInt (sp_Rank e)), (''user_id'', JInt (sp_UserID e)),
      (''points'', JInt (sp_Points e))]) es) = Some es"
    using assms by (induction es) (simp_all add: entry_fits_def snapshot_fields_def json_simps)
  then show ?thesis by (simp add: unmarshal_snapshot_def marshal_snapshot_def)
qed

text \<open>Scores as the session service stores them.\<close>

definition scores_fit :: "database \<Rightarrow> bool" where
  "scores_fit d \<longleftrightarrow> (\<forall>e \<in> set (events d). fits_int64 (ev_UserID e) \<and> 0 \<le> ev_Points e \<and> ev_Points e \<le> 10000)"

lemma best_fits:
  assumes "scores_fit d" and "best p t g u (scored_events d) = Some x"
  shows "fits_int64 u \<and> 0 \<le> x \<and> x \<le> 10000"
proof -
  let ?mine = "filter (of_game_user g u) (filter (in_period p t) (events d))"
  have m: "?mine \<noteq> []" "x = max_of (map ev_Points ?mine)" using assms(2) unfolding best_of_rows best_rows_mem by blast+
  then have "x \<in> set (map ev_Points ?mine)" using max_of_Max [of "map ev_Points ?mine"] by (metis List.finite_set Max_in map_is_Nil_conv set_empty)
  then obtain e where "e \<in> set (events d)" "of_game_user g u e" "x = ev_Points e" by auto
  then show ?thesis using assms(1) by (auto simp: scores_fit_def of_game_user_def)
qed

lemma on_board_fits:
  assumes fit: "scores_fit d" and f: "on_board s p t (scored_events d) u = Some x"
  shows "fits_int64 u \<and> fits_int64 x"
proof (cases "IsGlobal s")
  case True
  let ?b = "\<lambda>g. best p t g u (scored_events d)"
  have ex: "\<exists>g. ?b g \<noteq> None" and x: "x = (\<Sum>g \<leftarrow> game_slugs. or_zero (?b g))"
    using f True by (auto simp: on_board_def global_best_def split: if_splits)
  have z: "0 \<le> or_zero (?b g) \<and> or_zero (?b g) \<le> 10000" for g
    using best_fits [OF fit, of p t g u] by (cases "?b g") simp_all
  have "0 \<le> x \<and> x \<le> 5 * 10000"
    unfolding x registry_Slugs_new using z by (simp add: add_nonneg_nonneg) (smt (verit) z)
  moreover have "fits_int64 u" using ex best_fits [OF fit] by blast
  ultimately show ?thesis by (simp add: fits_int64_def)
next
  case False
  then show ?thesis using f best_fits [OF fit] by (fastforce simp: on_board_def fits_int64_def)
qed

lemma top_rank:
  assumes top: "top_players f l es" and e: "e \<in> set es"
  shows "1 \<le> en_Rank e \<and> en_Rank e \<le> int l + 1"
proof -
  have "u \<in> en_UserID ` set es" if u: "u \<in> players_above f (en_Points e)" for u
  proof (rule ccontr)
    assume "u \<notin> en_UserID ` set es"
    moreover obtain y where "f u = Some y" "en_Points e < y" using u unfolding players_above_def by blast
    ultimately have "y \<le> en_Points e" using top e unfolding top_players_def by blast
    then show False using \<open>en_Points e < y\<close> by simp
  qed
  then have "card (players_above f (en_Points e)) \<le> card (en_UserID ` set es)" by (intro card_mono) auto
  also have "\<dots> \<le> length es" by (metis card_image_le card_length List.finite_set le_trans)
  also have "\<dots> \<le> l" using top by (simp add: top_players_def)
  finally show ?thesis using top e by (simp add: top_players_def)
qed

lemma stored_form_fits:
  assumes fit: "scores_fit d" and top: "top_players (on_board s p t (scored_events d)) l es" and l: "l \<le> 100"
  shows "\<forall>e \<in> set (stored_form es). entry_fits e"
proof
  fix x assume "x \<in> set (stored_form es)"
  then obtain e where e: "e \<in> set es" "x = \<lparr>sp_Rank = en_Rank e, sp_UserID = en_UserID e, sp_Points = en_Points e\<rparr>"
    by (auto simp: stored_form_def)
  have "on_board s p t (scored_events d) (en_UserID e) = Some (en_Points e)"
    using top e(1) by (simp add: top_players_def)
  moreover have "fits_int64 (en_Rank e)" using top_rank [OF top e(1)] l by (simp add: fits_int64_def)
  ultimately show "entry_fits x" using on_board_fits [OF fit] by (simp add: entry_fits_def e(2))
qed

text \<open>
  A stored row is the frozen board of a window: it decodes to its leading players, as many as a
  snapshot keeps.
\<close>

definition frozen_row :: "database \<Rightarrow> scope \<Rightarrow> period \<Rightarrow> time \<Rightarrow> leaderboard_snapshot \<Rightarrow> bool" where
  "frozen_row d s p t row \<longleftrightarrow>
     (\<exists>es. unmarshal_snapshot (sn_Entries row) = Some (stored_form es) \<and>
        top_players (on_board s p t (scored_events d)) (nat snapshotSize) es \<and> sn_PlayerCount row = int (length es))"

definition snapshot_at :: "database \<Rightarrow> string \<Rightarrow> string \<Rightarrow> time \<Rightarrow> leaderboard_snapshot option" where
  "snapshot_at d scope period from = find (same_window scope period from) (snapshots d)"

lemma snapshot_row_Inr:
  assumes "snapshot_row scope period from w = (Inr found, w')"
  shows "found = snapshot_at (w_db w) scope period from \<and> w_db w' = w_db w \<and> w_redis w' = w_redis w"
proof -
  have read: "snd (GetLeaderboardSnapshot scope period from d) = d" for d by (simp add: GetLeaderboardSnapshot_def)
  have same: "keeps same_db (snapshot_row scope period from)" "keeps same_redis (snapshot_row scope period from)"
    unfolding snapshot_row_def by (intro same_db_rules read, intro same_redis_rules)
  have "found = snapshot_at (w_db w) scope period from"
    using assms unfolding snapshot_row_def act_catch_Inr
    by (auto simp: act_bind_Inr act_bind_Inl snapshot_at_def GetLeaderboardSnapshot_def row_of_def
        of_option_def dest!: exec_Inr exec_Inl split: option.splits if_splits)
  then show ?thesis using same_dbD [OF same(1), of w] same_redisD [OF same(2), of w] assms by simp
qed

lemma fromSnapshot_same: "keeps same_db (fromSnapshot rq from)" "keeps same_redis (fromSnapshot rq from)"
proof -
  have read: "snd (GetLeaderboardSnapshot scope period from d) = d" for scope period d by (simp add: GetLeaderboardSnapshot_def)
  show "keeps same_db (fromSnapshot rq from)"
    unfolding fromSnapshot_def snapshot_row_def Let_def by (intro same_db_rules Usernames_same_db read)
  show "keeps same_redis (fromSnapshot rq from)"
    unfolding fromSnapshot_def snapshot_row_def Let_def by (intro same_redis_rules Usernames_same_redis)
qed

text \<open>The specification does not look at names.\<close>

definition entry_key :: "entry \<Rightarrow> int \<times> int \<times> int" where
  "entry_key e = (en_Rank e, en_UserID e, en_Points e)"

lemma top_players_keys:
  "top_players f l es \<longleftrightarrow>
    (let ks = map entry_key es in
     distinct (map (\<lambda>k. fst (snd k)) ks) \<and> sorted_wrt (\<ge>) (map (\<lambda>k. snd (snd k)) ks) \<and> length ks = min l (card (dom f)) \<and>
     (\<forall>k \<in> set ks. f (fst (snd k)) = Some (snd (snd k)) \<and> fst k = int (card (players_above f (snd (snd k)))) + 1) \<and>
     (\<forall>u x. f u = Some x \<longrightarrow> u \<notin> (\<lambda>k. fst (snd k)) ` set ks \<longrightarrow> (\<forall>k \<in> set ks. x \<le> snd (snd k))))"
  by (simp add: top_players_def entry_key_def comp_def image_image)

lemma top_named: "top_players f l es \<Longrightarrow> map entry_key es' = map entry_key es \<Longrightarrow> top_players f l es'"
  by (simp only: top_players_keys)

lemma fromSnapshot_Some:
  assumes "fromSnapshot rq from w = (Inr (Some (players, entries)), w')"
  obtains row w1 stored names where
    "snapshot_row (scope_Name (rq_Scope rq)) (period_str (rq_Period rq)) from w = (Inr (Some row), w1)"
    and "unmarshal_snapshot (sn_Entries row) = Some stored" and "players = sn_PlayerCount row"
    and "entries = map (\<lambda>e. \<lparr>en_Rank = sp_Rank e, en_UserID = sp_UserID e, en_Username = name_in names (sp_UserID e),
        en_Points = sp_Points e\<rparr>) (take (nat (rq_Limit rq)) stored)"
proof -
  have "\<not> is_zero from" using assms by (auto simp: fromSnapshot_def)
  then obtain found w1 where found: "snapshot_row (scope_Name (rq_Scope rq)) (period_str (rq_Period rq)) from w = (Inr found, w1)"
    and rest: "(case found of None \<Rightarrow> ret None
        | Some row \<Rightarrow>
            (case unmarshal_snapshot (sn_Entries row) of
               None \<Rightarrow> fail ErrBadSnapshot
             | Some stored \<Rightarrow>
                 let stored = (if rq_Limit rq < int (length stored) then take (nat (rq_Limit rq)) stored else stored)
                 in act_bind (Usernames (map sp_UserID stored)) (\<lambda>names.
                    ret (Some (sn_PlayerCount row,
                      map (\<lambda>e. \<lparr>en_Rank = sp_Rank e, en_UserID = sp_UserID e,
                                en_Username = name_in names (sp_UserID e), en_Points = sp_Points e\<rparr>) stored))))) w1
      = (Inr (Some (players, entries)), w')"
    using assms by (auto simp: fromSnapshot_def act_bind_Inr)
  then obtain row where row: "found = Some row" by (cases found) auto
  then obtain stored where stored: "unmarshal_snapshot (sn_Entries row) = Some stored"
    using rest by (cases "unmarshal_snapshot (sn_Entries row)") auto
  have cut: "(if rq_Limit rq < int (length stored) then take (nat (rq_Limit rq)) stored else stored) = take (nat (rq_Limit rq)) stored"
    by auto
  obtain names where "players = sn_PlayerCount row"
    "entries = map (\<lambda>e. \<lparr>en_Rank = sp_Rank e, en_UserID = sp_UserID e, en_Username = name_in names (sp_UserID e),
        en_Points = sp_Points e\<rparr>) (take (nat (rq_Limit rq)) stored)"
    using rest unfolding row stored option.case Let_def cut act_bind_Inr by auto
  then show ?thesis using found row stored by (intro that) simp_all
qed

lemma fromSnapshot_top:
  assumes "fromSnapshot rq from w = (Inr (Some (players, entries)), w')" and "p = rq_Period rq"
    and limit: "0 < rq_Limit rq" "rq_Limit rq \<le> MaxLimit"
    and frozen: "\<And>row. snapshot_at (w_db w) (scope_Name (rq_Scope rq)) (period_str p) from = Some row \<Longrightarrow> frozen_row (w_db w) (rq_Scope rq) p t row"
  shows "top_players (on_board (rq_Scope rq) p t (scored_events (w_db w))) (nat (rq_Limit rq)) entries \<and>
    players = min 100 (int (card (dom (on_board (rq_Scope rq) p t (scored_events (w_db w))))))"
proof -
  let ?f = "on_board (rq_Scope rq) p t (scored_events (w_db w))" and ?l = "nat (rq_Limit rq)"
  obtain row w1 stored names where row: "snapshot_row (scope_Name (rq_Scope rq)) (period_str p) from w = (Inr (Some row), w1)"
    and stored: "unmarshal_snapshot (sn_Entries row) = Some stored" and players: "players = sn_PlayerCount row"
    and entries: "entries = map (\<lambda>e. \<lparr>en_Rank = sp_Rank e, en_UserID = sp_UserID e, en_Username = name_in names (sp_UserID e),
        en_Points = sp_Points e\<rparr>) (take ?l stored)"
    by (rule fromSnapshot_Some [OF assms(1)]) (rule that, simp_all add: assms(2))
  have "frozen_row (w_db w) (rq_Scope rq) p t row" using frozen snapshot_row_Inr [OF row] by simp
  then obtain es where es: "stored = stored_form es" "top_players ?f (nat snapshotSize) es" "players = int (length es)"
    using stored players by (auto simp: frozen_row_def)
  have top: "top_players ?f ?l (take ?l es)"
    using es(2) limit by (intro top_players_fewer [of _ "nat snapshotSize"]) (simp_all add: snapshotSize_def)
  have "map entry_key entries = map entry_key (take ?l es)"
    by (simp add: entries es(1) stored_form_def entry_key_def comp_def take_map)
  then have "top_players ?f ?l entries" by (rule top_named [OF top])
  moreover have "players = min 100 (int (card (dom ?f)))"
    using es(2,3) by (simp add: top_players_def snapshotSize_def MaxLimit_def)
  ultimately show ?thesis by blast
qed

section \<open>Freezing a window\<close>

definition frozen :: "database \<Rightarrow> scope \<Rightarrow> period \<Rightarrow> time \<Rightarrow> bool" where
  "frozen d s p t \<longleftrightarrow> dom (on_board s p t (scored_events d)) = {} \<or>
     (\<exists>row. snapshot_at d (scope_Name s) (period_str p) (fst (Window p t)) = Some row \<and> frozen_row d s p t row)"

lemma find_replaced:
  "find P xs = Some x \<Longrightarrow> P row \<Longrightarrow> find P (map (\<lambda>s. if P s then row else s) xs) = Some row"
  by (induction xs) (auto split: if_splits)

lemma find_replaced_other:
  "(\<And>s. P s \<Longrightarrow> \<not> Q s) \<Longrightarrow> \<not> Q row \<Longrightarrow> find Q (map (\<lambda>s. if P s then row else s) xs) = find Q xs"
  by (induction xs) auto

lemma find_snoc: "find P (xs @ [x]) = (case find P xs of None \<Rightarrow> if P x then Some x else None | Some y \<Rightarrow> Some y)"
  by (induction xs) auto

lemma snapshot_at_upsert:
  assumes "UpsertLeaderboardSnapshot now scope period from until n es d = (Inr row, d')"
  shows "snapshot_at d' scope' period' from' =
      (if scope' = scope \<and> period' = period \<and> from' = from then Some row else snapshot_at d scope' period' from')
    \<and> sn_Entries row = es \<and> sn_PlayerCount row = n \<and> events d' = events d \<and> sessions d' = sessions d"
proof (cases "find (same_window scope period from) (snapshots d)")
  case None
  then have row: "d' = d\<lparr>snapshots := snapshots d @ [row]\<rparr>" "same_window scope period from row" "sn_Entries row = es" "sn_PlayerCount row = n"
    using assms by (auto simp: UpsertLeaderboardSnapshot_def Let_def same_window_def)
  have "same_window scope' period' from' row \<longleftrightarrow> scope' = scope \<and> period' = period \<and> from' = from"
    using row(2) by (auto simp: same_window_def)
  then show ?thesis using row None by (auto simp: snapshot_at_def find_snoc split: option.split)
next
  case (Some old)
  have "same_window scope period from old" using Some by (auto simp: find_Some_iff)
  then have row: "d' = d\<lparr>snapshots := map (\<lambda>s. if same_window scope period from s then row else s) (snapshots d)\<rparr>"
      "same_window scope period from row" "sn_Entries row = es" "sn_PlayerCount row = n"
    using assms Some by (auto simp: UpsertLeaderboardSnapshot_def Let_def same_window_def)
  show ?thesis
  proof (cases "scope' = scope \<and> period' = period \<and> from' = from")
    case True
    then show ?thesis using row find_replaced [OF Some row(2)] by (simp add: snapshot_at_def)
  next
    case False
    have "find (same_window scope' period' from') (map (\<lambda>s. if same_window scope period from s then row else s) (snapshots d))
        = find (same_window scope' period' from') (snapshots d)"
      using False row(2) by (intro find_replaced_other) (auto simp: same_window_def)
    then show ?thesis using False row by (auto simp: snapshot_at_def)
  qed
qed

lemma materialise_Inr:
  assumes "materialise now s p t w = (Inr b, w')" and "31 \<le> day_number t" and "known_games (w_db w)" and "scores_fit (w_db w)"
  shows "events (w_db w') = events (w_db w) \<and> sessions (w_db w') = sessions (w_db w) \<and> w_redis w' = w_redis w \<and> frozen (w_db w') s p t
    \<and> (\<forall>scope period from. (scope, period, from) \<noteq> (scope_Name s, period_str p, fst (Window p t)) \<longrightarrow>
         snapshot_at (w_db w') scope period from = snapshot_at (w_db w) scope period from)"
proof -
  let ?rq = "\<lparr>rq_Scope = s, rq_Period = p, rq_At = zero_time, rq_Limit = snapshotSize\<rparr>"
  let ?f = "on_board s p t (scored_events (w_db w))"
  have size: "0 < snapshotSize" "snapshotSize \<le> MaxLimit" by (simp_all add: snapshotSize_def MaxLimit_def)
  obtain rows w1 where rows: "aggregate ?rq (fst (Window p t)) (snd (Window p t)) w = (Inr rows, w1)"
    and rest: "(if rows = [] then ret False
         else act_bind (decorate rows) (\<lambda>entries.
              act_bind (exec (UpsertLeaderboardSnapshot now (scope_Name s) (period_str p) (fst (Window p t)) (snd (Window p t))
                 (to_int32 (int (length rows))) (marshal_snapshot (stored_form entries)))) (\<lambda>_.
              ret True))) w1 = (Inr b, w')"
    using assms(1) by (auto simp: materialise_def act_bind_Inr case_prod_beta)
  have w1: "w_db w1 = w_db w" "w_redis w1 = w_redis w" using aggregate_rows [OF rows assms(2)] by blast+
  obtain all where all: "ranked ?f all" "rows = take (nat snapshotSize) all"
    using aggregate_ranked [OF rows assms(2,3)] size by auto
  show ?thesis
  proof (cases "rows = []")
    case True
    then have "dom ?f = {}" using all size ranked_card [OF all(1)] by (auto simp: ranked_def)
    then show ?thesis using rest True w1 by (auto simp: frozen_def)
  next
    case False
    obtain entries w2 row where d: "decorate rows w1 = (Inr entries, w2)"
      and up: "exec (UpsertLeaderboardSnapshot now (scope_Name s) (period_str p) (fst (Window p t)) (snd (Window p t))
          (to_int32 (int (length rows))) (marshal_snapshot (stored_form entries))) w2 = (Inr row, w')"
      using rest False by (auto simp: act_bind_Inr)
    obtain names where e: "entries = decorate_rows names 0 1 None rows" using decorate_Inr [OF d] by blast
    have top: "top_players ?f (nat snapshotSize) entries" using decorate_top [OF all(1)] unfolding e all(2) .
    have w2: "w_db w2 = w_db w" "w_redis w2 = w_redis w" using decorate_Inr [OF d] w1 by simp_all
    have "map (\<lambda>e. (en_UserID e, en_Points e)) entries = rows" by (simp only: e decorate_rows_page page_rows_rows)
    then have len: "length rows = length entries" by (metis length_map)
    have le: "length entries \<le> 100" using top by (simp add: top_players_def snapshotSize_def MaxLimit_def)
    then have n: "to_int32 (int (length rows)) = int (length entries)"
      by (simp add: to_int32_id len)
    have "unmarshal_snapshot (marshal_snapshot (stored_form entries)) = Some (stored_form entries)"
      using stored_form_fits [OF assms(4) top] by (intro snapshot_roundtrip) (simp add: snapshotSize_def MaxLimit_def)
    moreover note u = exec_Inr [OF up] and s' = snapshot_at_upsert [OF conjunct1 [OF exec_Inr [OF up]]]
    ultimately have "frozen_row (w_db w') s p t row"
      using top n by (auto simp: frozen_row_def scored_events_def w2)
    then show ?thesis using s' u w2 by (auto simp: frozen_def)
  qed
qed

text \<open>The passes over scopes and periods: what is frozen stays frozen.\<close>

lemma scope_Name_inj: "scope_ok s \<Longrightarrow> scope_ok s' \<Longrightarrow> scope_Name s = scope_Name s' \<Longrightarrow> s = s'"
proof -
  have global: "''global'' \<notin> set game_slugs"
    by (simp add: registry_Slugs_new Reaction_def MathSprint_def Memory_def WordScramble_def NumberGuess_def)
  assume "scope_ok s" "scope_ok s'" "scope_Name s = scope_Name s'"
  then show ?thesis
    using global by (cases s; cases s') (auto simp: scope_ok_def scope_Name_def IsGlobal_def split: if_splits)
qed

lemma period_str_inj: "period_str p = period_str q \<longleftrightarrow> p = q"
  by (cases p; cases q) simp_all

lemma frozen_kept:
  assumes "materialise now s p t w = (Inr b, w')" and "31 \<le> day_number t" and "known_games (w_db w)" and "scores_fit (w_db w)"
    and ok: "scope_ok s" "scope_ok s0" and other: "p0 \<noteq> p \<or> t0 = t" and fr: "frozen (w_db w) s0 p0 t0"
  shows "frozen (w_db w') s0 p0 t0"
proof (cases "(scope_Name s0, period_str p0, fst (Window p0 t0)) = (scope_Name s, period_str p, fst (Window p t))")
  case True
  then have "s0 = s" "p0 = p" using scope_Name_inj ok by (simp_all add: period_str_inj)
  then show ?thesis using materialise_Inr [OF assms(1-4)] other by simp
next
  case False
  note m = materialise_Inr [OF assms(1-4)]
  have "snapshot_at (w_db w') (scope_Name s0) (period_str p0) (fst (Window p0 t0)) = snapshot_at (w_db w) (scope_Name s0) (period_str p0) (fst (Window p0 t0))"
    using m False by blast
  then show ?thesis using fr m by (simp add: frozen_def frozen_row_def scored_events_def)
qed

text \<open>What a pass keeps: the scores, and whatever is frozen of other periods or of the same window.\<close>

definition passed :: "period set \<Rightarrow> (period \<Rightarrow> time) \<Rightarrow> 'r service_world \<Rightarrow> 'r service_world \<Rightarrow> bool" where
  "passed P at_time w w' \<longleftrightarrow> events (w_db w') = events (w_db w) \<and> sessions (w_db w') = sessions (w_db w) \<and> w_redis w' = w_redis w \<and>
     (\<forall>s p t. scope_ok s \<longrightarrow> p \<notin> P \<or> t = at_time p \<longrightarrow> frozen (w_db w) s p t \<longrightarrow> frozen (w_db w') s p t)"

lemma passed_refl: "passed P at_time w w"
  by (simp add: passed_def)

lemma passed_trans: "passed P at_time w w' \<Longrightarrow> passed Q at_time w' w'' \<Longrightarrow> passed (P \<union> Q) at_time w w''"
  by (simp add: passed_def)

lemma passed_rows: "passed P at_time w w' \<Longrightarrow> known_games (w_db w) \<and> scores_fit (w_db w) \<Longrightarrow> known_games (w_db w') \<and> scores_fit (w_db w')"
  by (simp add: passed_def known_games_def scores_fit_def)

lemma materialise_scopes_Inr:
  assumes "materialise_scopes now p (at_time p) ss rep w = (Inr rep', w')" and "31 \<le> day_number (at_time p)"
    and "known_games (w_db w) \<and> scores_fit (w_db w)" and "\<forall>s \<in> set ss. scope_ok s"
  shows "passed {p} at_time w w' \<and> (\<forall>s \<in> set ss. frozen (w_db w') s p (at_time p))
    \<and> fst rep' + snd rep' = fst rep + snd rep + int (length ss)"
  using assms(1,3,4)
proof (induction ss arbitrary: rep w)
  case Nil
  then show ?case by (simp add: passed_refl)
next
  case (Cons s ss)
  obtain x y where rep: "rep = (x, y)" by fastforce
  obtain b w1 where m: "materialise now s p (at_time p) w = (Inr b, w1)"
    and rest: "materialise_scopes now p (at_time p) ss (if b then (x + 1, y) else (x, y + 1)) w1 = (Inr rep', w')"
    using Cons.prems(1) unfolding rep by (auto simp: act_bind_Inr)
  have ok: "scope_ok s" using Cons.prems(3) by simp
  have rows: "known_games (w_db w)" "scores_fit (w_db w)" using Cons.prems(2) by simp_all
  note m' = materialise_Inr [OF m assms(2) rows]
  have "frozen (w_db w1) s0 p0 t0"
    if "scope_ok s0" "p0 \<notin> {p} \<or> t0 = at_time p0" "frozen (w_db w) s0 p0 t0" for s0 p0 t0
    by (rule frozen_kept [OF m assms(2) rows ok that(1) _ that(3)]) (use that(2) in auto)
  then have step: "passed {p} at_time w w1" using m' by (simp add: passed_def)
  have IH: "passed {p} at_time w1 w' \<and> (\<forall>s \<in> set ss. frozen (w_db w') s p (at_time p))
      \<and> fst rep' + snd rep' = fst rep + snd rep + 1 + int (length ss)"
    using Cons.IH [OF rest passed_rows [OF step Cons.prems(2)]] Cons.prems(3) by (cases b) (simp_all add: rep)
  have "frozen (w_db w1) s p (at_time p)" using m' by blast
  then have "frozen (w_db w') s p (at_time p)" using IH ok by (simp add: passed_def)
  then show ?case using IH passed_trans [OF step, of "{p}" w'] by simp
qed

text \<open>The window before the current one.\<close>

definition previous :: "time \<Rightarrow> period \<Rightarrow> time" where
  "previous t p = fst (Window p t) - 1"

lemma previous_late:
  assumes "p \<noteq> AllTime" and "62 \<le> day_number t"
  shows "31 \<le> day_number (previous t p)"
proof -
  have "past_day p (day_number t) - first_day p (day_number t) \<le> 31"
    using window_days_le [OF assms(1), of "day_number t"] by (cases p) simp_all
  then have "31 < first_day p (day_number t)" using day_in_window [OF assms(1), of "day_number t"] assms(2) by linarith
  then have "midnight 31 < midnight (first_day p (day_number t))" by (simp add: midnight_less_iff)
  then show ?thesis
    using midnight_less_iff [of "previous t p" 31] by (simp add: previous_def Window_days [OF assms(1)] not_less)
qed

lemma materialise_periods_Inr:
  assumes "materialise_periods now t ss ps rep w = (Inr rep', w')" and "62 \<le> day_number t" and "distinct ps"
    and "known_games (w_db w) \<and> scores_fit (w_db w)" and ok: "\<forall>s \<in> set ss. scope_ok s"
  shows "passed (set ps) (previous t) w w' \<and> (\<forall>p \<in> set ps. p \<noteq> AllTime \<longrightarrow> (\<forall>s \<in> set ss. frozen (w_db w') s p (previous t p)))
    \<and> fst rep' + snd rep' = fst rep + snd rep + int (length (filter (\<lambda>p. p \<noteq> AllTime) ps)) * int (length ss)"
  using assms(1,3,4)
proof (induction ps arbitrary: rep w)
  case Nil
  then show ?case by (simp add: passed_refl)
next
  case (Cons p ps)
  show ?case
  proof (cases "p = AllTime")
    case True
    then show ?thesis using Cons.IH [of rep w] Cons.prems by (auto simp: passed_def)
  next
    case False
    obtain rep1 w1 where scopes: "materialise_scopes now p (previous t p) ss rep w = (Inr rep1, w1)"
      and rest: "materialise_periods now t ss ps rep1 w1 = (Inr rep', w')"
      using Cons.prems(1) False by (auto simp: act_bind_Inr case_prod_beta previous_def time_add_def Let_def)
    note step = materialise_scopes_Inr [where at_time = "previous t", OF scopes previous_late [OF False assms(2)] Cons.prems(3) ok]
    have dist: "distinct ps" "p \<notin> set ps" using Cons.prems(2) by simp_all
    have IH: "passed (set ps) (previous t) w1 w' \<and> (\<forall>p \<in> set ps. p \<noteq> AllTime \<longrightarrow> (\<forall>s \<in> set ss. frozen (w_db w') s p (previous t p)))
        \<and> fst rep' + snd rep' = fst rep1 + snd rep1 + int (length (filter (\<lambda>p. p \<noteq> AllTime) ps)) * int (length ss)"
      using step passed_rows Cons.prems(3) by (intro Cons.IH [OF rest dist(1)]) blast
    have "frozen (w_db w') s p (previous t p)" if "s \<in> set ss" for s
      using that step IH dist(2) ok unfolding passed_def by blast
    moreover have "passed (set (p # ps)) (previous t) w w'"
      using passed_trans [of "{p}" "previous t" w w1 "set ps" w'] step IH by simp
    ultimately show ?thesis using step IH False by (auto simp: distrib_right)
  qed
qed

section \<open>Properties\<close>

text \<open>The board in Redis shows the recorded scores of its window, and only users.\<close>

definition board_shows :: "'r redis_ops \<Rightarrow> 'r service_world \<Rightarrow> scope \<Rightarrow> period \<Rightarrow> time \<Rightarrow> bool" where
  "board_shows R w s p t \<longleftrightarrow> only_users R (w_redis w) (Key s p t) \<and>
     (\<forall>u. zscore R (w_redis w) (Key s p t) (member_of u) = on_board s p t (scored_events (w_db w)) u)"

lemma normalise_limit: "0 < rq_Limit (normalise svc rq) \<and> rq_Limit (normalise svc rq) \<le> MaxLimit"
  by (simp add: normalise_def MaxLimit_def Let_def)


definition demo_reports :: "mem_redis report_service" where
  "demo_reports = \<lparr>rs_boards = demo_board, rs_registry = NewRegistry, rs_now = 0\<rparr>"

definition demo_request :: request where
  "demo_request = \<lparr>rq_Scope = Game Memory, rq_Period = AllTime, rq_At = 0, rq_Limit = 5\<rparr>"

definition demo_rows :: "mem_redis service_world" where
  "demo_rows = (rebuild_world [])\<lparr>w_redis := mem_empty\<rparr>"

lemma demo_rows_simps:
  "w_faults demo_rows = []" "w_redis demo_rows = mem_empty" "snapshots (w_db demo_rows) = []" "users (w_db demo_rows) = []"
  "events (w_db demo_rows) = events (w_db (rebuild_world []))"
  by (simp_all add: demo_rows_def rebuild_world_def empty_db_def)

lemma demo_normalise: "normalise demo_reports demo_request = demo_request"
proof -
  have "\<not> is_zero 0" by code_simp
  then show ?thesis by (simp add: normalise_def demo_request_def MaxLimit_def)
qed

lemma demo_rows_same: "demo_rows\<lparr>w_redis := mem_empty\<rparr> = demo_rows" "demo_rows\<lparr>w_db := w_db demo_rows\<rparr> = demo_rows"
  by (simp_all add: demo_rows_def)

lemma demo_dead: "\<not> exists_key mem_ops mem_empty k"
  by (simp add: mem_ops_def mem_exists_def mem_empty_def)

lemma demo_exists: "Exists demo_board (Game Memory) AllTime 0 demo_rows = (Inr False, demo_rows)"
  by (simp add: Exists_def redis_call_def demo_rows_simps demo_rows_same demo_board_def demo_dead)

lemma demo_aggregate: "aggregate demo_request zero_time zero_time demo_rows = (Inr [(7, 2500)], demo_rows)"
proof -
  have "to_int32 5 = 5" by (simp add: to_int32_id)
  then show ?thesis
    by (simp add: aggregate_def demo_request_def Game_def IsGlobal_def is_zero_def exec_NoFault demo_rows_simps demo_rows_same
        TopPlayersForGameAllTime_def top_rows_def sql_limit_def game_totals_def rebuild_world_def max_of_def Memory_def)
qed

lemma demo_decorate: "\<exists>entries. decorate [(7, 2500)] demo_rows = (Inr entries, demo_rows)"
  by (simp add: decorate_def Usernames_def act_bind_def exec_NoFault ListUsersByID_def demo_rows_simps demo_rows_same)


text \<open>
  C31. A pass over the closed windows freezes them: when it returns, the window before the current one of
  every period but all-time has, for every board that has players in it, a stored row that
  decodes to exactly its hundred leading players; no score, session or board is touched, and each of
  the eighteen boards was written or skipped.
\<close>

theorem windows_frozen:
  assumes "MaterialiseClosedWindows svc now t w = (Inr rep, w')" and "rs_registry svc = NewRegistry"
    and "\<not> is_zero t" and "62 \<le> day_number t" and "known_games (w_db w)" and "scores_fit (w_db w)"
  shows "events (w_db w') = events (w_db w) \<and> sessions (w_db w') = sessions (w_db w) \<and> w_redis w' = w_redis w
    \<and> fst rep + snd rep = 18
    \<and> (\<forall>s p. scope_ok s \<longrightarrow> p \<noteq> AllTime \<longrightarrow> frozen (w_db w') s p (previous t p))"
proof -
  let ?ss = "Global # map Game game_slugs"
  have run: "materialise_periods now t ?ss Periods (0, 0) w = (Inr rep, w')"
    using assms(1-3) by (simp add: MaterialiseClosedWindows_def Let_def)
  have ok: "\<forall>s \<in> set ?ss. scope_ok s" using scope_ok_Global scope_ok_Game by simp
  have all: "s \<in> set ?ss" if "scope_ok s" for s
    using that by (cases s) (auto simp: scope_ok_def IsGlobal_def Global_def Game_def)
  note pass = materialise_periods_Inr [OF run assms(4) _ conjI [OF assms(5,6)] ok]
  have periods: "p \<in> set Periods" for p by (cases p) (simp_all add: Periods_def)
  have "distinct Periods" by (simp add: Periods_def)
  note pass = pass [OF this]
  have "frozen (w_db w') s p (previous t p)" if "scope_ok s" "p \<noteq> AllTime" for s p
    using pass all [OF that(1)] periods [of p] that(2) by blast
  moreover have "length ?ss = 6" "length (filter (\<lambda>p. p \<noteq> AllTime) Periods) = 3" by (simp_all add: registry_Slugs_new Periods_def)
  ultimately show ?thesis using pass by (simp add: passed_def)
qed

text \<open>A pass whose calls succeed returns.\<close>

lemma returns_aggregate: "0 \<le> to_int32 (rq_Limit rq) \<Longrightarrow> returns (aggregate rq from until) (\<lambda>_. True)"
  unfolding aggregate_def Let_def
  by (auto intro!: returns_exec simp: TopPlayersGlobalAllTime_def TopPlayersGlobalInWindow_def
      TopPlayersForGameAllTime_def TopPlayersForGameInWindow_def top_rows_def sql_limit_def)

lemma returns_decorate: "returns (decorate rows) (\<lambda>_. True)"
  unfolding decorate_def Usernames_def
  by (auto intro!: returns_ret returns_bind [where Q = "\<lambda>_. True"] returns_exec simp: ListUsersByID_def)

lemma returns_materialise: "returns (materialise now s p t) (\<lambda>_. True)"
proof -
  have "0 \<le> to_int32 snapshotSize" by (simp add: snapshotSize_def MaxLimit_def to_int32_id)
  then show ?thesis
    unfolding materialise_def case_prod_beta
    by (auto intro!: returns_ret returns_bind [where Q = "\<lambda>_. True"] returns_aggregate returns_decorate returns_exec
        simp: UpsertLeaderboardSnapshot_def Let_def split: option.split)
qed

lemma returns_scopes: "returns (materialise_scopes now p t ss rep) (\<lambda>_. True)"
proof (induction ss arbitrary: rep)
  case (Cons s ss)
  then show ?case by (cases rep) (auto intro: returns_bind [OF returns_materialise])
qed (simp add: returns_ret)

lemma returns_passes: "returns (materialise_periods now t ss ps rep) (\<lambda>_. True)"
proof (induction ps arbitrary: rep)
  case (Cons p ps)
  then show ?case by (auto simp: Let_def case_prod_beta intro: returns_bind [OF returns_scopes])
qed (simp add: returns_ret)

lemma windows_frozen_witness:
  "\<exists>rep w'. MaterialiseClosedWindows demo_reports 0 0 demo_rows = (Inr rep, w') \<and> fst rep + snd rep = 18
    \<and> frozen (w_db w') (Game Memory) Weekly (previous 0 Weekly)"
proof -
  have "\<not> is_zero 0" by code_simp
  have "returns (MaterialiseClosedWindows demo_reports 0 0 :: (mem_redis service_world, _) act) (\<lambda>_. True)"
    unfolding MaterialiseClosedWindows_def Let_def by (rule returns_passes)
  then obtain rep w' where run: "MaterialiseClosedWindows demo_reports 0 0 demo_rows = (Inr rep, w')"
    unfolding returns_def calm_def using demo_rows_simps(1) by blast
  moreover have "62 \<le> day_number 0" by code_simp
  moreover have "known_games (w_db demo_rows)" "scores_fit (w_db demo_rows)" "scope_ok (Game Memory)"
    by (simp_all add: known_games_def scores_fit_def fits_int64_def demo_rows_simps rebuild_world_def registry_Slugs_new scope_ok_Game)
  ultimately show ?thesis
    using windows_frozen [of demo_reports 0 0 demo_rows rep w'] \<open>\<not> is_zero 0\<close> by (simp add: demo_reports_def)
qed

end
