(* ===== verification/Go_Parse.thy ===== *)
theory Go_Parse
  imports Go_Strings Go_Time Float64
begin

text \<open>
  What Podium's configuration uses of Go's parsers: \<open>strconv.ParseBool\<close>, \<open>strconv.Atoi\<close> (\<open>parse_int64\<close> of the
  prelude), \<open>time.ParseDuration\<close> and the names of \<open>slog\<close> levels. A parser's error is \<open>None\<close>. Durations
  are integers of nanoseconds. The \<open>uint64\<close> values of one part of a duration stay below \<open>2 ^ 64\<close> by the
  checks before each step; the sum of two parts can reach it, and wraps.
\<close>

section \<open>strconv\<close>

definition parse_bool :: "string \<Rightarrow> bool option" where
  "parse_bool s =
     (if s \<in> {''1'', ''t'', ''T'', ''true'', ''TRUE'', ''True''} then Some True
      else if s \<in> {''0'', ''f'', ''F'', ''false'', ''FALSE'', ''False''} then Some False
      else None)"

section \<open>time.ParseDuration\<close>

text \<open>\<open>leadingInt\<close>: the value of the leading digits and the rest; too large is an error.\<close>

fun leading_int :: "nat \<Rightarrow> string \<Rightarrow> (nat \<times> string) option" where
  "leading_int x [] = Some (x, [])"
| "leading_int x (c # cs) =
     (case digit_val c of
        None \<Rightarrow> Some (x, c # cs)
      | Some n \<Rightarrow>
          if 2 ^ 63 div 10 < x then None
          else if 2 ^ 63 < x * 10 + n then None
          else leading_int (x * 10 + n) cs)"

text \<open>\<open>leadingFraction\<close>: digits beyond what fits are dropped. The scale is a power of ten.\<close>

fun leading_fraction :: "nat \<Rightarrow> f64 \<Rightarrow> bool \<Rightarrow> string \<Rightarrow> nat \<times> f64 \<times> string" where
  "leading_fraction x scale overflow [] = (x, scale, [])"
| "leading_fraction x scale overflow (c # cs) =
     (case digit_val c of
        None \<Rightarrow> (x, scale, c # cs)
      | Some n \<Rightarrow>
          if overflow then leading_fraction x scale True cs
          else if (2 ^ 63 - 1) div 10 < x then leading_fraction x scale True cs
          else if 2 ^ 63 < x * 10 + n then leading_fraction x scale True cs
          else leading_fraction (x * 10 + n) (f64_mul scale 10) False cs)"

definition bytes_of :: "nat list \<Rightarrow> string" where
  "bytes_of ns = map char_of ns"

text \<open>Microseconds are also written with U+00B5 and with U+03BC.\<close>

definition unit_map :: "(string \<times> duration) list" where
  "unit_map =
     [(''ns'', 1), (''us'', 1000), (bytes_of [0xC2, 0xB5] @ ''s'', 1000), (bytes_of [0xCE, 0xBC] @ ''s'', 1000),
      (''ms'', millisecond), (''s'', second), (''m'', minute), (''h'', hour)]"

definition unit_char :: "char \<Rightarrow> bool" where
  "unit_char c \<longleftrightarrow> c \<noteq> CHR ''.'' \<and> digit_val c = None"

text \<open>One number with its unit: what it adds, and the rest of the text.\<close>

definition duration_part :: "string \<Rightarrow> (nat \<times> string) option" where
  "duration_part s =
     (case s of
        [] \<Rightarrow> None
      | c # _ \<Rightarrow>
          if unit_char c then None
          else
            (case leading_int 0 s of
               None \<Rightarrow> None
             | Some (v, s1) \<Rightarrow>
                 let before = (length s1 \<noteq> length s);
                     dot = (s1 \<noteq> [] \<and> hd s1 = CHR ''.'');
                     (f, scale, s2) = (if dot then leading_fraction 0 1 False (tl s1) else (0, 1, s1));
                     after = (dot \<and> length s2 \<noteq> length (tl s1));
                     u = takeWhile unit_char s2;
                     rest = dropWhile unit_char s2
                 in if \<not> before \<and> \<not> after then None
                    else if u = [] then None
                    else
                      (case map_of unit_map u of
                         None \<Rightarrow> None
                       | Some w \<Rightarrow>
                           if 2 ^ 63 div nat w < v then None
                           else
                             let v1 = v * nat w;
                                 v2 = (if 0 < f then v1 + nat (f64_trunc (f64_mul (f64_of_int (int f)) (f64_div (f64_of_int w) scale)))
                                       else v1)
                             in if 2 ^ 63 < v2 then None else Some (v2, rest))))"

lemma leading_int_length: "leading_int x s = Some (v, s1) \<Longrightarrow> length s1 \<le> length s"
  by (induction x s rule: leading_int.induct) (auto split: option.splits if_splits)

lemma leading_fraction_length: "leading_fraction x sc ov s = (f, scale, s1) \<Longrightarrow> length s1 \<le> length s"
  by (induction x sc ov s rule: leading_fraction.induct) (fastforce split: option.splits if_splits)+

lemma dropWhile_shorter: "takeWhile P xs \<noteq> [] \<Longrightarrow> length (dropWhile P xs) < length xs"
  by (cases xs) (auto simp: le_imp_less_Suc length_dropWhile_le split: if_splits)

lemma duration_part_shorter:
  assumes "duration_part s = Some (v, rest)"
  shows "length rest < length s"
proof -
  obtain x s1 where i: "leading_int 0 s = Some (x, s1)"
    using assms by (cases s) (auto simp: duration_part_def split: option.splits if_splits)
  define s2 where "s2 = snd (snd (if s1 \<noteq> [] \<and> hd s1 = CHR ''.'' then leading_fraction 0 1 False (tl s1) else (0, 1, s1)))"
  have "takeWhile unit_char s2 \<noteq> []" "rest = dropWhile unit_char s2"
    using assms i unfolding s2_def
    by (cases s; auto simp: duration_part_def Let_def split_beta split: option.splits if_splits)+
  then have "length rest < length s2" using dropWhile_shorter by metis
  also have "length s2 \<le> length s1"
    unfolding s2_def using leading_fraction_length [of 0 1 False "tl s1"]
    by (cases s1; cases "leading_fraction 0 1 False (tl s1)") auto
  also have "\<dots> \<le> length s" using leading_int_length [OF i] .
  finally show ?thesis .
qed

function (sequential) duration_parts :: "nat \<Rightarrow> string \<Rightarrow> nat option" where
  "duration_parts d [] = Some d"
| "duration_parts d (c # cs) =
     (case duration_part (c # cs) of
        None \<Rightarrow> None
      | Some (v, rest) \<Rightarrow> let d = (d + v) mod 2 ^ 64 in if 2 ^ 63 < d then None else duration_parts d rest)"
  by pat_completeness auto
termination by (relation "measure (\<lambda>(d, s). length s)") (auto dest: duration_part_shorter)

definition parse_duration :: "string \<Rightarrow> duration option" where
  "parse_duration s =
     (let neg = (s \<noteq> [] \<and> hd s = CHR ''-'');
          s = (if s \<noteq> [] \<and> (hd s = CHR ''-'' \<or> hd s = CHR ''+'') then tl s else s)
      in if s = ''0'' then Some 0
         else if s = [] then None
         else (case duration_parts 0 s of
                 None \<Rightarrow> None
               | Some d \<Rightarrow>
                   if neg then Some (- int d) else if 2 ^ 63 - 1 < d then None else Some (int d)))"

section \<open>slog\<close>

text \<open>
  A level is a name and perhaps an offset. The only character outside ASCII whose upper case is a
  letter of a level's name is the dotless i, U+0131.
\<close>

fun level_upper :: "string \<Rightarrow> string" where
  "level_upper [] = []"
| "level_upper (c # cs) =
     (case cs of
        d # ds \<Rightarrow>
          if of_char c = (0xC4 :: nat) \<and> of_char d = (0xB1 :: nat) then CHR ''I'' # level_upper ds
          else ascii_upper c # level_upper cs
      | [] \<Rightarrow> [ascii_upper c])"

definition level_names :: "(string \<times> int) list" where
  "level_names = [(''DEBUG'', - 4), (''INFO'', 0), (''WARN'', 4), (''ERROR'', 8)]"

definition parse_level :: "string \<Rightarrow> int option" where
  "parse_level s =
     (let sign = (\<lambda>c. c = CHR ''+'' \<or> c = CHR ''-'');
          name = takeWhile (\<lambda>c. \<not> sign c) s; rest = dropWhile (\<lambda>c. \<not> sign c) s
      in case (if rest = [] then Some 0 else parse_int64 rest) of
           None \<Rightarrow> None
         | Some offset \<Rightarrow>
             map_option (\<lambda>l. sint (word_of_int (l + offset) :: 64 word)) (map_of level_names (level_upper name)))"

end
