(* ===== verification/Redis_Strings.thy ===== *)
theory Redis_Strings
  imports Prelude Go_Time
begin

text \<open>
  Redis, as rate limits and tickets use it: strings with an expiry in milliseconds. As in theory \<open>Redis\<close> the
  commands are a parameter, and the locale \<open>string_server\<close> states what Redis documents. A state is
  observed through \<open>string_at\<close>: the value of a key and the milliseconds it has left, if it expires.
  \<open>elapse\<close> is the time that passes between commands. \<open>mem_string_ops\<close> is a server in memory.
\<close>

section \<open>The commands\<close>

type_synonym entry_at = "(string \<times> int option) option"

record 'r string_ops =
  string_at :: "'r \<Rightarrow> string \<Rightarrow> entry_at"
  incr :: "string \<Rightarrow> 'r \<Rightarrow> int \<times> 'r"
  pexpire :: "string \<Rightarrow> int \<Rightarrow> 'r \<Rightarrow> 'r"
  pttl :: "'r \<Rightarrow> string \<Rightarrow> int"
  set_for :: "string \<Rightarrow> string \<Rightarrow> duration \<Rightarrow> 'r \<Rightarrow> 'r"
  getdel :: "string \<Rightarrow> 'r \<Rightarrow> string option \<times> 'r"
  del_string :: "string \<Rightarrow> 'r \<Rightarrow> 'r"
  elapse :: "int \<Rightarrow> 'r \<Rightarrow> 'r"

text \<open>What is left of an entry after \<open>ms\<close> milliseconds, and after a new expiry.\<close>

definition aged :: "int \<Rightarrow> entry_at \<Rightarrow> entry_at" where
  "aged ms e =
     (case e of
        Some (v, Some left) \<Rightarrow> if left \<le> ms then None else Some (v, Some (left - ms))
      | _ \<Rightarrow> e)"

definition expiring :: "int \<Rightarrow> entry_at \<Rightarrow> entry_at" where
  "expiring ms e = (case e of None \<Rightarrow> None | Some (v, _) \<Rightarrow> if ms \<le> 0 then None else Some (v, Some ms))"

definition ttl_of :: "entry_at \<Rightarrow> int" where
  "ttl_of e = (case e of None \<Rightarrow> - 2 | Some (_, None) \<Rightarrow> - 1 | Some (_, Some left) \<Rightarrow> left)"

text \<open>The counter a string holds, and one more: a missing key counts from zero, without an expiry.\<close>

definition counter :: "entry_at \<Rightarrow> int" where
  "counter e = (case e of None \<Rightarrow> 0 | Some (v, _) \<Rightarrow> (case parse_int64 v of None \<Rightarrow> 0 | Some n \<Rightarrow> n))"

definition is_counter :: "entry_at \<Rightarrow> bool" where
  "is_counter e = (case e of None \<Rightarrow> True | Some (v, _) \<Rightarrow>
     (case parse_int64 v of None \<Rightarrow> False | Some n \<Rightarrow> v = itoa n \<and> 0 \<le> n \<and> n < 2 ^ 62))"

definition bumped :: "entry_at \<Rightarrow> entry_at" where
  "bumped e = Some (itoa (counter e + 1), case e of None \<Rightarrow> None | Some (_, left) \<Rightarrow> left)"

section \<open>The laws\<close>

locale string_server =
  fixes S :: "'r string_ops"
  assumes incr_value: "is_counter (string_at S r k) \<Longrightarrow> fst (incr S k r) = counter (string_at S r k) + 1"
    and incr_at: "is_counter (string_at S r k) \<Longrightarrow> string_at S (snd (incr S k r)) k' = (if k' = k then bumped (string_at S r k) else string_at S r k')"
    and pexpire_at: "string_at S (pexpire S k ms r) k' = (if k' = k then expiring ms (string_at S r k) else string_at S r k')"
    and pttl_at: "pttl S r k = ttl_of (string_at S r k)"
    and set_for_at: "0 < d \<Longrightarrow> string_at S (set_for S k v d r) k' =
      (if k' = k then Some (v, Some (max 1 (milliseconds d))) else string_at S r k')"
    and getdel_value: "fst (getdel S k r) = map_option fst (string_at S r k)"
    and getdel_at: "string_at S (snd (getdel S k r)) k' = (if k' = k then None else string_at S r k')"
    and del_at: "string_at S (del_string S k r) k' = (if k' = k then None else string_at S r k')"
    and elapse_at: "0 \<le> ms \<Longrightarrow> string_at S (elapse S ms r) k = aged ms (string_at S r k)"

section \<open>A server in memory\<close>

type_synonym mem_strings = "string \<Rightarrow> entry_at"

definition mem_string_ops :: "mem_strings string_ops" where
  "mem_string_ops =
     \<lparr>string_at = (\<lambda>r. r),
      incr = (\<lambda>k r. (counter (r k) + 1, r(k := bumped (r k)))),
      pexpire = (\<lambda>k ms r. r(k := expiring ms (r k))),
      pttl = (\<lambda>r k. ttl_of (r k)),
      set_for = (\<lambda>k v d r. r(k := Some (v, Some (max 1 (milliseconds d))))),
      getdel = (\<lambda>k r. (map_option fst (r k), r(k := None))),
      del_string = (\<lambda>k r. r(k := None)),
      elapse = (\<lambda>ms r k. aged ms (r k))\<rparr>"

interpretation mem_strings: string_server mem_string_ops
  by unfold_locales (auto simp: mem_string_ops_def)

lemma aged_add: "0 \<le> a \<Longrightarrow> 0 \<le> b \<Longrightarrow> aged b (aged a e) = aged (a + b) e"
  by (auto simp: aged_def split: option.splits)

lemma counter_range: "is_counter e \<Longrightarrow> 0 \<le> counter e \<and> counter e < 2 ^ 62"
  by (auto simp: counter_def is_counter_def split: option.splits)

lemma counter_itoa: "0 \<le> n \<Longrightarrow> n \<le> 2 ^ 62 \<Longrightarrow> counter (Some (itoa n, l)) = n"
  by (simp add: counter_def fits_int64_def)

lemma is_counter_itoa: "0 \<le> n \<Longrightarrow> n < 2 ^ 62 \<Longrightarrow> is_counter (Some (itoa n, l))"
  by (simp add: is_counter_def fits_int64_def)

lemma counter_bumped: "is_counter e \<Longrightarrow> counter (bumped e) = counter e + 1"
  using counter_range [of e] unfolding bumped_def by (intro counter_itoa) auto

lemma is_counter_bumped: "is_counter e \<Longrightarrow> counter e + 1 < 2 ^ 62 \<Longrightarrow> is_counter (bumped e)"
  using counter_range [of e] unfolding bumped_def by (intro is_counter_itoa) auto

lemma aged_counter: "is_counter e \<Longrightarrow> is_counter (aged ms e)"
  by (auto simp: is_counter_def aged_def split: option.splits)

end
