(* ===== verification/RateLimit.thy ===== *)
theory RateLimit
  imports Effects Redis_Strings
begin

text \<open>
  \<open>internal/ratelimit\<close>: fixed-window limits counted in Redis. \<open>fixed_window\<close> is the Lua script, which Redis runs
  as one command. \<open>Allow\<close> is the call as the API makes it, and \<open>Reset\<close> forgets a counter.
\<close>

section \<open>The script\<close>

definition fixed_window :: "'r string_ops \<Rightarrow> string \<Rightarrow> int \<Rightarrow> int \<Rightarrow> 'r \<Rightarrow> (int \<times> int \<times> int) \<times> 'r" where
  "fixed_window S key limit window_ms r0 =
     (let (count, r1) = incr S key r0;
          r2 = (if count = 1 then pexpire S key window_ms r1 else r1);
          left = pttl S r2 key;
          (ttl, r3) = (if left < 0 then (window_ms, pexpire S key window_ms r2) else (left, r2))
      in (if limit < count then (0, 0, ttl) else (1, limit - count, ttl), r3))"

section \<open>The limiter\<close>

record limit_result =
  Allowed :: bool
  Remaining :: int
  RetryAfter :: duration

definition Allow :: "'r string_ops \<Rightarrow> string \<Rightarrow> int \<Rightarrow> duration \<Rightarrow> (('d, 'r) world, limit_result) act" where
  "Allow S key limit window =
     act_bind (redis_call (fixed_window S key limit (milliseconds window))) (\<lambda>(allowed, remaining, ttl_millis).
     ret \<lparr>Allowed = (allowed = 1), Remaining = remaining, RetryAfter = ttl_millis * millisecond\<rparr>)"

definition Reset :: "'r string_ops \<Rightarrow> string \<Rightarrow> (('d, 'r) world, unit) act" where
  "Reset S key = redis_call (\<lambda>r. ((), del_string S key r))"

section \<open>One run of the script\<close>

text \<open>What the script leaves under its key, and answers, as functions of what was there.\<close>

definition hit :: "int \<Rightarrow> entry_at \<Rightarrow> entry_at" where
  "hit window_ms e =
     (let e1 = bumped e; e2 = (if counter e1 = 1 then expiring window_ms e1 else e1)
      in if ttl_of e2 < 0 then expiring window_ms e2 else e2)"

definition answer :: "int \<Rightarrow> int \<Rightarrow> entry_at \<Rightarrow> int \<times> int \<times> int" where
  "answer limit window_ms e =
     (let ttl = (if ttl_of (hit window_ms e) < 0 then window_ms else ttl_of (hit window_ms e))
      in if limit < counter e + 1 then (0, 0, ttl) else (1, limit - (counter e + 1), ttl))"

lemma expiring_ttl: "0 < ms \<Longrightarrow> expiring ms (Some (v, l)) = Some (v, Some ms)"
  by (simp add: expiring_def)

context string_server
begin

lemma fixed_window_at:
  assumes "is_counter (string_at S r key)"
  shows "string_at S (snd (fixed_window S key limit w r)) k =
    (if k = key then hit w (string_at S r key) else string_at S r k)"
  using assms incr_value [OF assms] counter_bumped [OF assms]
  by (auto simp: fixed_window_def Let_def split_beta pexpire_at incr_at pttl_at hit_def)

lemma fixed_window_answer:
  assumes "is_counter (string_at S r key)" and "0 < w"
  shows "fst (fixed_window S key limit w r) = answer limit w (string_at S r key)"
proof -
  obtain v l where b: "bumped (string_at S r key) = Some (v, l)" by (simp add: bumped_def)
  show ?thesis
    using assms incr_value [OF assms(1)] counter_bumped [OF assms(1)] b
    by (cases l) (auto simp: fixed_window_def Let_def split_beta pexpire_at incr_at pttl_at hit_def answer_def expiring_ttl ttl_of_def)
qed

end

section \<open>Windows\<close>

text \<open>A counter as the limiter leaves it: no key, or a count of at least one with an expiry within the window.\<close>

definition window_ok :: "int \<Rightarrow> int \<Rightarrow> entry_at \<Rightarrow> bool" where
  "window_ok w bound e \<longleftrightarrow>
     e = None \<or> (\<exists>n left. e = Some (itoa n, Some left) \<and> 1 \<le> n \<and> n \<le> bound \<and> 0 < left \<and> left \<le> w)"

lemma window_ok_cases [consumes 1, case_names Fresh Open]:
  assumes "window_ok w b e"
  obtains "e = None" | n left where "e = Some (itoa n, Some left)" "1 \<le> n" "n \<le> b" "0 < left" "left \<le> w"
  using assms by (auto simp: window_ok_def)

lemma window_ok_simps [simp]:
  "window_ok w b None"
  "window_ok w b (Some (itoa n, Some left)) \<longleftrightarrow> 1 \<le> n \<and> n \<le> b \<and> 0 < left \<and> left \<le> w"
  by (auto simp: window_ok_def itoa_inj)

lemma window_ok_counter: "window_ok w b e \<Longrightarrow> b < 2 ^ 62 \<Longrightarrow> is_counter e \<and> 0 \<le> counter e \<and> counter e \<le> max 0 b"
  by (cases rule: window_ok_cases) (auto simp: is_counter_def counter_def fits_int64_def)

lemma window_ok_aged: "window_ok w b e \<Longrightarrow> 0 \<le> g \<Longrightarrow> window_ok w b (aged g e)"
  by (cases rule: window_ok_cases) (auto simp: aged_def)

lemma window_ok_mono: "window_ok w b e \<Longrightarrow> b \<le> b' \<Longrightarrow> window_ok w b' e"
  by (cases rule: window_ok_cases) auto

lemma hit_None: "0 < w \<Longrightarrow> hit w None = Some (itoa 1, Some w)"
  by (simp add: hit_def bumped_def counter_def fits_int64_def expiring_def ttl_of_def Let_def)

lemma hit_Some:
  "1 \<le> n \<Longrightarrow> n < 2 ^ 62 \<Longrightarrow> 0 < left \<Longrightarrow> hit w (Some (itoa n, Some left)) = Some (itoa (n + 1), Some left)"
  by (simp add: hit_def bumped_def counter_def fits_int64_def ttl_of_def Let_def)

lemma window_ok_hit: "window_ok w b e \<Longrightarrow> 0 < w \<Longrightarrow> 0 \<le> b \<Longrightarrow> b < 2 ^ 62 \<Longrightarrow> window_ok w (b + 1) (hit w e)"
  by (cases rule: window_ok_cases) (auto simp: hit_None hit_Some)

text \<open>
  Calls of the limiter for one limit: each waits some milliseconds and counts an event under a key. The
  result is how the calls of a key were answered.
\<close>

fun limiter_run ::
    "'r string_ops \<Rightarrow> int \<Rightarrow> duration \<Rightarrow> (int \<times> string) list \<Rightarrow> ('d, 'r) world \<Rightarrow> (string \<times> (err + limit_result)) list" where
  "limiter_run S limit window [] w = []"
| "limiter_run S limit window ((gap, key) # es) w =
     (let (res, w') = Allow S key limit window (w\<lparr>w_redis := elapse S gap (w_redis w)\<rparr>)
      in (key, res) # limiter_run S limit window es w')"

definition let_in :: "string \<Rightarrow> (string \<times> (err + limit_result)) list \<Rightarrow> int" where
  "let_in key answers = int (length (filter (\<lambda>(k, a). k = key \<and> (case a of Inl _ \<Rightarrow> False | Inr r \<Rightarrow> Allowed r)) answers))"

definition calls_of :: "string \<Rightarrow> (int \<times> string) list \<Rightarrow> int" where
  "calls_of key es = int (length (filter (\<lambda>(g, k). k = key) es))"

definition lasting :: "(int \<times> string) list \<Rightarrow> int" where
  "lasting es = sum_list (map fst es)"

text \<open>The same on the entry of one key.\<close>

fun entry_run :: "int \<Rightarrow> int \<Rightarrow> string \<Rightarrow> (int \<times> string) list \<Rightarrow> entry_at \<Rightarrow> int" where
  "entry_run limit w key [] e = 0"
| "entry_run limit w key ((gap, k) # es) e =
     (if k = key then (if counter (aged gap e) + 1 \<le> limit then 1 else 0) + entry_run limit w key es (hit w (aged gap e))
      else entry_run limit w key es (aged gap e))"

lemma let_in_Cons:
  "let_in key ((k, a) # as) = (if k = key \<and> (case a of Inl _ \<Rightarrow> False | Inr r \<Rightarrow> Allowed r) then 1 else 0) + let_in key as"
  by (simp add: let_in_def)

context string_server
begin

lemma Allow_calm:
  assumes "w_faults w = []" and "is_counter (string_at S (w_redis w) key)" and "0 < milliseconds window"
  shows "\<exists>res. Allow S key limit window w = (Inr res, w\<lparr>w_redis := snd (fixed_window S key limit (milliseconds window) (w_redis w))\<rparr>)
    \<and> (Allowed res \<longleftrightarrow> counter (string_at S (w_redis w) key) + 1 \<le> limit)"
  using assms fixed_window_answer [OF assms(2,3), of limit]
  by (cases "fixed_window S key limit (milliseconds window) (w_redis w)")
    (auto simp: Allow_def act_bind_def redis_call_def answer_def Let_def split: if_splits)

lemma limiter_entry:
  assumes "0 < milliseconds window" and "\<forall>(g, k) \<in> set es. 0 \<le> g" and "w_faults w = []"
    and "\<forall>k. window_ok (milliseconds window) b (string_at S (w_redis w) k)" and "0 \<le> b" and "b + int (length es) < 2 ^ 62"
  shows "let_in key (limiter_run S limit window es w) = entry_run limit (milliseconds window) key es (string_at S (w_redis w) key)"
  using assms(2-)
proof (induction es arbitrary: w b)
  case Nil
  then show ?case by (simp add: let_in_def)
next
  case (Cons ev es)
  obtain g k where ev: "ev = (g, k)" by (cases ev)
  let ?w = "w\<lparr>w_redis := elapse S g (w_redis w)\<rparr>" and ?ms = "milliseconds window"
  have g: "0 \<le> g" "\<forall>(g, k) \<in> set es. 0 \<le> g" using Cons.prems(1) by (simp_all add: ev)
  have at: "string_at S (w_redis ?w) k' = aged g (string_at S (w_redis w) k')" for k' using elapse_at [OF g(1)] by simp
  have ok: "window_ok ?ms b (string_at S (w_redis ?w) k')" for k' unfolding at using Cons.prems(3) g(1) window_ok_aged by blast
  have b: "b < 2 ^ 62" using Cons.prems(5) by simp
  have cnt: "is_counter (string_at S (w_redis ?w) k)" using window_ok_counter [OF ok b] by blast
  obtain res where res: "Allow S k limit window ?w = (Inr res, ?w\<lparr>w_redis := snd (fixed_window S k limit ?ms (w_redis ?w))\<rparr>)"
      "Allowed res \<longleftrightarrow> counter (string_at S (w_redis ?w) k) + 1 \<le> limit"
    using Allow_calm [of ?w k window limit] Cons.prems(2) cnt assms(1) by auto
  define w' where "w' = ?w\<lparr>w_redis := snd (fixed_window S k limit ?ms (w_redis ?w))\<rparr>"
  have at': "string_at S (w_redis w') k' = (if k' = k then hit ?ms (string_at S (w_redis ?w) k) else string_at S (w_redis ?w) k')" for k'
    using fixed_window_at [OF cnt] by (simp add: w'_def)
  have "window_ok ?ms (b + 1) (string_at S (w_redis w') k')" for k'
    unfolding at' using ok [of k'] window_ok_hit [OF ok assms(1) Cons.prems(4) b] window_ok_mono [of ?ms b _ "b + 1"] by auto
  then have "let_in key (limiter_run S limit window es w') = entry_run limit ?ms key es (string_at S (w_redis w') key)"
    by (intro Cons.IH [where b = "b + 1"]) (use Cons.prems(2,4,5) g(2) in \<open>auto simp: w'_def\<close>)
  moreover have "let_in key (limiter_run S limit window (ev # es) w) =
      (if k = key \<and> counter (string_at S (w_redis ?w) k) + 1 \<le> limit then 1 else 0) + let_in key (limiter_run S limit window es w')"
    unfolding ev limiter_run.simps res(1) w'_def [symmetric] using res(2) by (simp add: let_in_Cons)
  ultimately show ?case unfolding ev entry_run.simps at' at by auto
qed

end

section \<open>How many calls are let in\<close>

lemma lasting_Cons [simp]: "lasting ((g, k) # es) = g + lasting es"
  by (simp add: lasting_def)

lemma lasting_nonneg: "\<forall>(g, k) \<in> set es. 0 \<le> g \<Longrightarrow> 0 \<le> lasting es"
  by (induction es) (auto simp: lasting_def)

lemma calls_of_Cons: "calls_of key ((g, k) # es) = (if k = key then 1 else 0) + calls_of key es"
  by (simp add: calls_of_def)

lemma calls_of_nonneg [simp]: "0 \<le> calls_of key es"
  by (simp add: calls_of_def)

lemma entry_run_open:
  assumes "0 < w" and "\<forall>(g, k) \<in> set es. 0 \<le> g" and "lasting es < left" and "1 \<le> n" and "n + int (length es) < 2 ^ 62"
  shows "entry_run limit w key es (Some (itoa n, Some left)) = min (max 0 (limit - n)) (calls_of key es)"
  using assms(2-)
proof (induction es arbitrary: n left)
  case Nil
  then show ?case by (simp add: calls_of_def)
next
  case (Cons ev es)
  obtain g k where ev: "ev = (g, k)" by (cases ev)
  have g: "0 \<le> g" "\<forall>(g, k) \<in> set es. 0 \<le> g" using Cons.prems(1) by (simp_all add: ev)
  have t: "lasting es < left - g" "0 < left - g" using Cons.prems(2) lasting_nonneg [OF g(2)] by (simp_all add: ev)
  have a: "aged g (Some (itoa n, Some left)) = Some (itoa n, Some (left - g))" using t(2) by (simp add: aged_def)
  have c: "counter (Some (itoa n, Some (left - g))) = n" using Cons.prems(3,4) by (intro counter_itoa) auto
  have h: "hit w (Some (itoa n, Some (left - g))) = Some (itoa (n + 1), Some (left - g))"
    using Cons.prems(3,4) t(2) by (intro hit_Some) auto
  have e: "entry_run limit w key es (Some (itoa n, Some (left - g))) = min (max 0 (limit - n)) (calls_of key es)"
    "entry_run limit w key es (Some (itoa (n + 1), Some (left - g))) = min (max 0 (limit - (n + 1))) (calls_of key es)"
    by (intro Cons.IH; use g(2) t Cons.prems(3,4) in simp)+
  show ?case using calls_of_nonneg [of key es] unfolding ev entry_run.simps a c h calls_of_Cons e by auto
qed

lemma entry_run_fresh:
  assumes "0 < w" and "\<forall>(g, k) \<in> set es. 0 \<le> g" and "lasting es < w" and "1 + int (length es) < 2 ^ 62"
  shows "entry_run limit w key es None = min (max 0 limit) (calls_of key es)"
  using assms(2-)
proof (induction es)
  case Nil
  then show ?case by (simp add: calls_of_def)
next
  case (Cons ev es)
  obtain g k where ev: "ev = (g, k)" by (cases ev)
  have g: "0 \<le> g" "\<forall>(g, k) \<in> set es. 0 \<le> g" using Cons.prems(1) by (simp_all add: ev)
  have t: "lasting es < w" using Cons.prems(2) g(1) by (simp add: ev)
  have a: "aged g None = None" by (simp add: aged_def)
  have c: "counter None = 0" by (simp add: counter_def)
  have h: "hit w None = Some (itoa 1, Some w)" using assms(1) by (rule hit_None)
  have e: "entry_run limit w key es None = min (max 0 limit) (calls_of key es)"
    by (rule Cons.IH) (use g(2) t Cons.prems(3) in simp_all)
  have f: "entry_run limit w key es (Some (itoa 1, Some w)) = min (max 0 (limit - 1)) (calls_of key es)"
    by (rule entry_run_open [OF assms(1) g(2) t]) (use Cons.prems(3) in simp_all)
  show ?case using calls_of_nonneg [of key es] unfolding ev entry_run.simps a c h calls_of_Cons e f by auto
qed

lemma entry_run_bound:
  assumes "0 < w" and "\<forall>(g, k) \<in> set es. 0 \<le> g" and "lasting es < w" and "1 \<le> n" and "0 < left"
    and "n + int (length es) < 2 ^ 62" and "0 \<le> limit"
  shows "entry_run limit w key es (Some (itoa n, Some left)) \<le> max 0 (limit - n) + limit"
  using assms(2-6)
proof (induction es arbitrary: n left)
  case Nil
  then show ?case using assms(7) by simp
next
  case (Cons ev es)
  obtain g k where ev: "ev = (g, k)" by (cases ev)
  have g: "0 \<le> g" "\<forall>(g, k) \<in> set es. 0 \<le> g" using Cons.prems(1) by (simp_all add: ev)
  have t: "lasting es < w" using Cons.prems(2) g(1) by (simp add: ev)
  show ?case
  proof (cases "left \<le> g")
    case True
    have "entry_run limit w key (ev # es) (Some (itoa n, Some left)) = entry_run limit w key ((0, k) # es) None"
      using True by (simp add: ev aged_def)
    also have "\<dots> \<le> limit"
      using entry_run_fresh [OF assms(1), of "(0, k) # es" limit key] g(2) t Cons.prems(3,5) assms(7) by simp
    finally show ?thesis by simp
  next
    case False
    have a: "aged g (Some (itoa n, Some left)) = Some (itoa n, Some (left - g))" using False by (simp add: aged_def)
    have c: "counter (Some (itoa n, Some (left - g))) = n" using Cons.prems(3,5) by (intro counter_itoa) auto
    have h: "hit w (Some (itoa n, Some (left - g))) = Some (itoa (n + 1), Some (left - g))"
      using Cons.prems(3,5) False by (intro hit_Some) auto
    have e: "entry_run limit w key es (Some (itoa n, Some (left - g))) \<le> max 0 (limit - n) + limit"
      "entry_run limit w key es (Some (itoa (n + 1), Some (left - g))) \<le> max 0 (limit - (n + 1)) + limit"
      by (intro Cons.IH; use g(2) t Cons.prems(3,5) False in simp)+
    show ?thesis using e unfolding ev entry_run.simps a c h by auto
  qed
qed

lemma hit_expires:
  assumes "is_counter e" and "counter e + 1 < 2 ^ 62" and "0 < w" and "\<forall>v left. e = Some (v, Some left) \<longrightarrow> 0 < left \<and> left \<le> w"
  shows "\<exists>n left. hit w e = Some (itoa n, Some left) \<and> 0 < left \<and> left \<le> w"
proof -
  have c: "counter (Some (itoa (counter e + 1), l)) = counter e + 1" for l
    using counter_range [OF assms(1)] assms(2) by (intro counter_itoa) auto
  obtain l where b: "bumped e = Some (itoa (counter e + 1), l)" "l = None \<or> (\<exists>v. e = Some (v, l))"
    by (cases e) (auto simp: bumped_def)
  show ?thesis
    using assms(3,4) b(2) by (cases l) (auto simp: hit_def b(1) c expiring_def ttl_of_def Let_def)
qed

section \<open>Properties\<close>

text \<open>
  C12. A window lets in exactly its limit. Beginning with a key that is not counted yet, of all calls for
  that key within less than a window, interleaved in any way with calls for other keys, as many are let
  in as there are, up to the limit, and no more.
\<close>

theorem window_exact:
  assumes "string_server S" and "0 < milliseconds window" and "\<forall>(gap, k) \<in> set es. 0 \<le> gap" and "w_faults w = []"
    and "\<forall>k. window_ok (milliseconds window) b (string_at S (w_redis w) k)" and "0 \<le> b" and "b + 1 + int (length es) < 2 ^ 62"
    and "string_at S (w_redis w) key = None" and "lasting es < milliseconds window"
  shows "let_in key (limiter_run S limit window es w) = min (max 0 limit) (calls_of key es)"
  using string_server.limiter_entry [OF assms(1-6), of key limit] entry_run_fresh [OF assms(2,3,9), of limit key] assms(6-8) by simp

text \<open>
  C24. Whenever one looks, a caller gets at most twice the limit. From any state of the counters, of the
  calls for one key within less than a window at most two limits' worth are let in, since at most one
  boundary of a window can lie between them; this is the price of fixed windows that the code states.
\<close>

theorem window_twice:
  assumes "string_server S" and "0 < milliseconds window" and "\<forall>(gap, k) \<in> set es. 0 \<le> gap" and "w_faults w = []"
    and "\<forall>k. window_ok (milliseconds window) b (string_at S (w_redis w) k)" and "0 \<le> b" and "b + 1 + int (length es) < 2 ^ 62"
    and "0 \<le> limit" and "lasting es < milliseconds window"
  shows "let_in key (limiter_run S limit window es w) \<le> 2 * limit"
proof -
  let ?e = "string_at S (w_redis w) key"
  have run: "let_in key (limiter_run S limit window es w) = entry_run limit (milliseconds window) key es ?e"
    using string_server.limiter_entry [OF assms(1-6)] assms(7) by simp
  have "window_ok (milliseconds window) b ?e" using assms(5) by blast
  then show ?thesis
  proof (cases rule: window_ok_cases)
    case Fresh
    then show ?thesis using run entry_run_fresh [OF assms(2,3,9), of limit key] assms(6,7,8) by simp
  next
    case (Open n left)
    then show ?thesis
      using run entry_run_bound [OF assms(2,3,9) Open(2,4) _ assms(8), of key] assms(6,7,8) by simp
  qed
qed

text \<open>
  No counter stays for ever. Whether the call answers or its answer is lost, a counter that the limiter
  touched has an expiry, of a window at most where it had none, and other keys are left alone; and a
  call that is refused says how long the caller has to wait, which is at least a millisecond.
\<close>

theorem counter_expires:
  assumes "string_server S" and "0 < milliseconds window" and "is_counter (string_at S (w_redis w) key)"
    and "counter (string_at S (w_redis w) key) + 1 < 2 ^ 62"
    and old: "\<forall>v left. string_at S (w_redis w) key = Some (v, Some left) \<longrightarrow> 0 < left \<and> left \<le> milliseconds window"
    and run: "Allow S key limit window w = (res, w')"
  shows "(\<forall>k. k \<noteq> key \<longrightarrow> string_at S (w_redis w') k = string_at S (w_redis w) k)
    \<and> (string_at S (w_redis w') key = string_at S (w_redis w) key
        \<or> (\<exists>n left. string_at S (w_redis w') key = Some (itoa n, Some left) \<and> 0 < left \<and> left \<le> milliseconds window))
    \<and> (case res of Inl _ \<Rightarrow> True | Inr r \<Rightarrow> millisecond \<le> RetryAfter r \<and> RetryAfter r \<le> milliseconds window * millisecond)"
proof -
  let ?e = "string_at S (w_redis w) key" and ?w = "milliseconds window"
  let ?c = "fixed_window S key limit ?w"
  obtain n left where hit: "hit ?w ?e = Some (itoa n, Some left)" "0 < left" "left \<le> ?w"
    using hit_expires [OF assms(3,4,2) old] by blast
  have at: "string_at S (snd (?c (w_redis w))) k = (if k = key then hit ?w ?e else string_at S (w_redis w) k)" for k
    by (rule string_server.fixed_window_at [OF assms(1,3)])
  have ans: "fst (?c (w_redis w)) = answer limit ?w ?e" by (rule string_server.fixed_window_answer [OF assms(1,3,2)])
  obtain x w1 where call: "redis_call ?c w = (x, w1)" by fastforce
  have w1: "w' = w1" using run call by (auto simp: Allow_def act_bind_def split: sum.splits prod.splits)
  have "w_redis w1 = w_redis w \<or> w_redis w1 = snd (?c (w_redis w))" by (rule redis_call_redis [OF call])
  then have rows: "(\<forall>k. k \<noteq> key \<longrightarrow> string_at S (w_redis w') k = string_at S (w_redis w) k)
    \<and> (string_at S (w_redis w') key = ?e \<or> (\<exists>n left. string_at S (w_redis w') key = Some (itoa n, Some left) \<and> 0 < left \<and> left \<le> ?w))"
    using at hit unfolding w1 by auto
  have "case res of Inl _ \<Rightarrow> True | Inr r \<Rightarrow> millisecond \<le> RetryAfter r \<and> RetryAfter r \<le> ?w * millisecond"
  proof (cases x)
    case (Inl e)
    then show ?thesis using run call by (auto simp: Allow_def act_bind_def)
  next
    case (Inr a)
    then have "a = answer limit ?w ?e" using redis_call_Inr [of ?c w a w1] call ans by (metis fst_conv)
    then have "snd (snd a) = left" using hit by (simp add: answer_def Let_def ttl_of_def)
    then show ?thesis using run call Inr hit(2,3) by (auto simp: Allow_def act_bind_def split_beta millisecond_def)
  qed
  then show ?thesis using rows by blast
qed

text \<open>
  A window shorter than a millisecond limits nothing. The script is given whole milliseconds; with none,
  the expiry it sets removes the counter at once, and every call is the first of its window.
\<close>

theorem short_window_never_limits:
  assumes "string_server S" and "milliseconds window = 0" and "\<forall>k. string_at S (w_redis w) k = None" and "w_faults w = []"
    and "\<forall>(gap, k) \<in> set es. 0 \<le> gap" and "1 \<le> limit"
  shows "let_in key (limiter_run S limit window es w) = calls_of key es"
  using assms(3-5)
proof (induction es arbitrary: w)
  case Nil
  then show ?case by (simp add: let_in_def calls_of_def)
next
  case (Cons ev es)
  obtain g k where ev: "ev = (g, k)" by (cases ev)
  let ?w = "w\<lparr>w_redis := elapse S g (w_redis w)\<rparr>"
  let ?c = "fixed_window S k limit 0"
  have at: "string_at S (w_redis ?w) k' = None" for k'
    using string_server.elapse_at [OF assms(1), of g "w_redis w" k'] Cons.prems(1,3) ev by (auto simp: aged_def)
  have cnt: "is_counter (string_at S (w_redis ?w) k)" unfolding at by (simp add: is_counter_def)
  have inc: "fst (incr S k (w_redis ?w)) = 1" using string_server.incr_value [OF assms(1) cnt] unfolding at by (simp add: counter_def)
  have gone: "string_at S (pexpire S k 0 r) k = None" for r
    using string_server.pexpire_at [OF assms(1), of k 0 r k] by (simp add: expiring_def split: option.split)
  obtain a r where c: "?c (w_redis ?w) = (a, r)" by fastforce
  have a: "a = (1, limit - 1, 0)"
    using c inc gone string_server.pttl_at [OF assms(1)] assms(6) by (auto simp: fixed_window_def Let_def split_beta ttl_of_def split: if_splits)
  have "string_at S r k' = None" for k'
    using string_server.fixed_window_at [OF assms(1) cnt, of limit 0 k'] c unfolding at
    by (auto simp: hit_def bumped_def expiring_def ttl_of_def Let_def split: if_splits)
  then have "let_in key (limiter_run S limit window es (?w\<lparr>w_redis := r\<rparr>)) = calls_of key es"
    using Cons.prems(2,3) ev by (intro Cons.IH) auto
  moreover have "Allow S k limit window ?w =
      (Inr \<lparr>Allowed = True, Remaining = limit - 1, RetryAfter = 0\<rparr>, ?w\<lparr>w_redis := r\<rparr>)"
    using c a Cons.prems(2) assms(2) by (simp add: Allow_def act_bind_def redis_call_def)
  ultimately show ?case by (simp add: ev let_in_Cons calls_of_Cons)
qed

text \<open>A server in memory without keys, and four calls.\<close>

definition limiter_world :: "(unit, mem_strings) world" where
  "limiter_world = \<lparr>w_db = (), w_redis = \<lambda>_. None, w_faults = []\<rparr>"

definition limiter_calls :: "(int \<times> string) list" where
  "limiter_calls = [(0, ''a''), (1, ''b''), (5, ''a''), (0, ''a'')]"

lemma window_exact_witness:
  "let_in ''a'' (limiter_run mem_string_ops 2 second limiter_calls limiter_world) = 2"
  using window_exact [OF mem_strings.string_server_axioms, of second limiter_calls limiter_world 0 "''a''" 2]
  by (simp add: limiter_calls_def limiter_world_def milliseconds_nonneg second_def mem_string_ops_def lasting_def calls_of_def)

lemma window_twice_witness:
  "let_in ''a'' (limiter_run mem_string_ops 2 second limiter_calls
    (limiter_world\<lparr>w_redis := \<lambda>k. if k = ''a'' then Some (itoa 1, Some 3) else None\<rparr>)) \<le> 4"
  using window_twice [OF mem_strings.string_server_axioms, of second limiter_calls
    "limiter_world\<lparr>w_redis := \<lambda>k. if k = ''a'' then Some (itoa 1, Some 3) else None\<rparr>" 1 2 "''a''"]
  by (simp add: limiter_calls_def limiter_world_def milliseconds_nonneg second_def mem_string_ops_def lasting_def)

lemma counter_expires_witness:
  "\<exists>n left. string_at mem_string_ops (w_redis (snd (Allow mem_string_ops ''a'' 2 second limiter_world))) ''a'' = Some (itoa n, Some left)
    \<and> 0 < left \<and> left \<le> 1000"
proof -
  let ?r = "Allow mem_string_ops ''a'' 2 second limiter_world"
  have ms: "milliseconds second = 1000" by (simp add: milliseconds_nonneg second_def)
  have e: "string_at mem_string_ops (w_redis limiter_world) ''a'' = None" by (simp add: mem_string_ops_def limiter_world_def)
  have "?r = (fst ?r, snd ?r)" by simp
  from counter_expires [OF mem_strings.string_server_axioms _ _ _ _ this] have
    "string_at mem_string_ops (w_redis (snd ?r)) ''a'' = None \<or>
     (\<exists>n left. string_at mem_string_ops (w_redis (snd ?r)) ''a'' = Some (itoa n, Some left) \<and> 0 < left \<and> left \<le> 1000)"
    unfolding ms e by (simp add: is_counter_def counter_def)
  moreover have "string_at mem_string_ops (w_redis (snd ?r)) ''a'' = Some (itoa 1, Some 1000)"
  proof -
    have c: "is_counter (string_at mem_string_ops (w_redis limiter_world) ''a'')" "w_faults limiter_world = []"
      unfolding e by (simp_all add: is_counter_def limiter_world_def)
    have "w_redis (snd ?r) = snd (fixed_window mem_string_ops ''a'' 2 1000 (w_redis limiter_world))"
      using string_server.Allow_calm [OF mem_strings.string_server_axioms c(2,1), of second 2] by (auto simp: ms)
    then show ?thesis
      using string_server.fixed_window_at [OF mem_strings.string_server_axioms c(1), of 2 1000 "''a''"] by (simp add: e hit_None)
  qed
  ultimately show ?thesis by simp
qed

lemma short_window_never_limits_witness:
  "let_in ''a'' (limiter_run mem_string_ops 2 500000 limiter_calls limiter_world) = 3"
  using short_window_never_limits [OF mem_strings.string_server_axioms, of 500000 limiter_world limiter_calls 2 "''a''"]
  by (simp add: limiter_calls_def limiter_world_def milliseconds_nonneg mem_string_ops_def calls_of_def)

end
