(* ===== verification/Base64.thy ===== *)
theory Base64
  imports Go_Strings Sha256
begin

text \<open>
  What Podium uses of Go's \<open>encoding/base64\<close>: the two encodings without padding. A decoder skips line
  breaks, refuses characters outside its alphabet and a single left-over character, and ignores the
  bits that the last character carries too many.
\<close>

section \<open>Alphabets\<close>

definition std_alphabet :: string where
  "std_alphabet = ''ABCDEFGHIJKLMNOPQRSTUVWXYZabcdefghijklmnopqrstuvwxyz0123456789+/''"

definition url_alphabet :: string where
  "url_alphabet = ''ABCDEFGHIJKLMNOPQRSTUVWXYZabcdefghijklmnopqrstuvwxyz0123456789-_''"

definition line_break :: "char \<Rightarrow> bool" where
  "line_break c \<longleftrightarrow> c = newline \<or> c = char_of (13 :: nat)"

definition alphabet_ok :: "string \<Rightarrow> bool" where
  "alphabet_ok al \<longleftrightarrow> length al = 64 \<and> distinct al \<and> (\<forall>c \<in> set al. \<not> line_break c)"

lemma alphabets_ok: "alphabet_ok std_alphabet" "alphabet_ok url_alphabet"
  by code_simp+

section \<open>Encoding\<close>

text \<open>Three bytes make four groups of six bits.\<close>

fun sextets :: "byte list \<Rightarrow> nat list" where
  "sextets [] = []"
| "sextets [a] = (let n = unat a * 16 in [n div 64, n mod 64])"
| "sextets [a, b] = (let n = (unat a * 256 + unat b) * 4 in [n div 4096, n div 64 mod 64, n mod 64])"
| "sextets (a # b # c # rest) =
     (let n = unat a * 65536 + unat b * 256 + unat c
      in n div 262144 # n div 4096 mod 64 # n div 64 mod 64 # n mod 64 # sextets rest)"

definition b64_encode :: "string \<Rightarrow> byte list \<Rightarrow> string" where
  "b64_encode al bs = map (\<lambda>n. al ! n) (sextets bs)"

section \<open>Decoding\<close>

definition b64_val :: "string \<Rightarrow> char \<Rightarrow> nat option" where
  "b64_val al c = (let i = length (takeWhile (\<lambda>x. x \<noteq> c) al) in if i < length al then Some i else None)"

fun b64_vals :: "string \<Rightarrow> string \<Rightarrow> nat list option" where
  "b64_vals al [] = Some []"
| "b64_vals al (c # cs) =
     (case b64_val al c of None \<Rightarrow> None | Some n \<Rightarrow> map_option (\<lambda>ns. n # ns) (b64_vals al cs))"

fun from_sextets :: "nat list \<Rightarrow> byte list option" where
  "from_sextets [] = Some []"
| "from_sextets [w] = None"
| "from_sextets [w, x] = Some [word_of_nat ((w * 64 + x) div 16)]"
| "from_sextets [w, x, y] =
     (let n = w * 4096 + x * 64 + y in Some [word_of_nat (n div 1024), word_of_nat (n div 4 mod 256)])"
| "from_sextets (w # x # y # z # rest) =
     (let n = w * 262144 + x * 4096 + y * 64 + z
      in map_option (\<lambda>bs. word_of_nat (n div 65536) # word_of_nat (n div 256 mod 256) # word_of_nat (n mod 256) # bs)
           (from_sextets rest))"

definition b64_decode :: "string \<Rightarrow> string \<Rightarrow> byte list option" where
  "b64_decode al s =
     (case b64_vals al (filter (\<lambda>c. \<not> line_break c) s) of None \<Rightarrow> None | Some ns \<Rightarrow> from_sextets ns)"

section \<open>Round trip\<close>

lemma unat_byte: "unat (b :: byte) < 256"
  using unsigned_less [of b, where ?'a = nat] by simp

lemma sextets_less: "\<forall>n \<in> set (sextets bs). n < 64"
proof (induction bs rule: sextets.induct)
  case (2 a)
  then show ?case using unat_byte [of a] by (simp add: Let_def)
next
  case (3 a b)
  then show ?case using unat_byte [of a] unat_byte [of b] by (simp add: Let_def)
next
  case (4 a b c rest)
  then show ?case using unat_byte [of a] unat_byte [of b] unat_byte [of c] by (simp add: Let_def)
qed simp

lemma b64_val_nth: "distinct al \<Longrightarrow> n < length al \<Longrightarrow> b64_val al (al ! n) = Some n"
proof -
  assume d: "distinct al" "n < length al"
  have "al = take n al @ al ! n # drop (Suc n) al" using d(2) by (rule id_take_nth_drop)
  moreover have "\<forall>x \<in> set (take n al). x \<noteq> al ! n"
    using d by (auto simp: in_set_conv_nth nth_eq_iff_index_eq)
  moreover from this have "takeWhile (\<lambda>x. x \<noteq> al ! n) (take n al @ al ! n # drop (Suc n) al) = take n al"
    by (subst takeWhile_append2) simp_all
  ultimately have "takeWhile (\<lambda>x. x \<noteq> al ! n) al = take n al" by simp
  then show ?thesis using d(2) by (simp add: b64_val_def)
qed

lemma b64_vals_nth: "distinct al \<Longrightarrow> \<forall>n \<in> set ns. n < length al \<Longrightarrow> b64_vals al (map (\<lambda>n. al ! n) ns) = Some ns"
  by (induction ns) (simp_all add: b64_val_nth)

lemma regroup:
  fixes n :: nat
  shows "n div 64 * 64 + n mod 64 = n" and "n div 4096 * 4096 + n div 64 mod 64 * 64 + n mod 64 = n"
    and "n div 262144 * 262144 + n div 4096 mod 64 * 4096 + n div 64 mod 64 * 64 + n mod 64 = n"
proof -
  have split: "m div 64 * 64 + m mod 64 = m" for m :: nat by (rule div_mult_mod_eq)
  have d: "n div 4096 = n div 64 div 64" "n div 262144 = n div 64 div 64 div 64" by (simp_all add: div_mult2_eq [symmetric])
  show "n div 64 * 64 + n mod 64 = n" by (rule split)
  show "n div 4096 * 4096 + n div 64 mod 64 * 64 + n mod 64 = n" unfolding d using split [of n] split [of "n div 64"] by linarith
  show "n div 262144 * 262144 + n div 4096 mod 64 * 4096 + n div 64 mod 64 * 64 + n mod 64 = n"
    unfolding d using split [of n] split [of "n div 64"] split [of "n div 64 div 64"] by linarith
qed

lemma three_bytes:
  fixes a b c :: nat
  assumes "b < 256" and "c < 256"
  shows "(a * 65536 + b * 256 + c) div 65536 = a" and "(a * 65536 + b * 256 + c) div 256 mod 256 = b"
    and "(a * 65536 + b * 256 + c) mod 256 = c"
proof -
  have n: "a * 65536 + b * 256 + c = c + (b + a * 256) * 256" by simp
  have q: "(a * 65536 + b * 256 + c) div 256 = b + a * 256" unfolding n using assms(2) by (simp del: mult.commute)
  then show "(a * 65536 + b * 256 + c) div 256 mod 256 = b" using assms(1) by simp
  have "(a * 65536 + b * 256 + c) div 65536 = (a * 65536 + b * 256 + c) div 256 div 256" by (simp add: div_mult2_eq [symmetric])
  then show "(a * 65536 + b * 256 + c) div 65536 = a" unfolding q using assms(1) by simp
  show "(a * 65536 + b * 256 + c) mod 256 = c" unfolding n mod_mult_self1 using assms(2) by (rule mod_less)
qed

lemma from_sextets_sextets: "from_sextets (sextets bs) = Some bs"
proof (induction bs rule: sextets.induct)
  case (2 a)
  have "unat a * 16 div 64 * 64 + unat a * 16 mod 64 = unat a * 16" by (rule regroup)
  then show ?case by (simp only: sextets.simps from_sextets.simps Let_def) simp
next
  case (3 a b)
  let ?n = "(unat a * 256 + unat b) * 4"
  have "?n div 4096 * 4096 + ?n div 64 mod 64 * 64 + ?n mod 64 = ?n" by (rule regroup)
  moreover have "?n div 1024 = unat a" "?n div 4 mod 256 = unat b" using unat_byte [of b] by simp_all
  ultimately show ?case by (simp only: sextets.simps from_sextets.simps Let_def) simp
next
  case (4 a b c rest)
  let ?n = "unat a * 65536 + unat b * 256 + unat c"
  have "?n div 262144 * 262144 + ?n div 4096 mod 64 * 4096 + ?n div 64 mod 64 * 64 + ?n mod 64 = ?n" by (rule regroup)
  moreover have "?n div 65536 = unat a" "?n div 256 mod 256 = unat b" "?n mod 256 = unat c"
    using three_bytes unat_byte by blast+
  ultimately show ?case using 4 by (simp only: sextets.simps from_sextets.simps Let_def) simp
qed simp

theorem b64_roundtrip:
  assumes "alphabet_ok al"
  shows "b64_decode al (b64_encode al bs) = Some bs"
proof -
  have al: "length al = 64" "distinct al" using assms by (simp_all add: alphabet_ok_def)
  have "al ! n \<in> set al" if "n \<in> set (sextets bs)" for n using that sextets_less al(1) by simp
  then have "\<forall>c \<in> set (b64_encode al bs). \<not> line_break c" using assms by (auto simp: b64_encode_def alphabet_ok_def)
  then have "filter (\<lambda>c. \<not> line_break c) (b64_encode al bs) = b64_encode al bs" by simp
  then show ?thesis
    using b64_vals_nth [OF al(2), of "sextets bs"] sextets_less al(1) by (simp add: b64_decode_def b64_encode_def from_sextets_sextets)
qed

lemma b64_encode_chars: "alphabet_ok al \<Longrightarrow> set (b64_encode al bs) \<subseteq> set al"
  using sextets_less by (auto simp: b64_encode_def alphabet_ok_def)

lemma b64_encode_Nil: "b64_encode al bs = [] \<longleftrightarrow> bs = []"
  by (cases bs rule: sextets.cases) (simp_all add: b64_encode_def Let_def)

end
