(* ===== verification/Tickets.thy ===== *)
theory Tickets
  imports Effects Redis_Strings Base64 Config
begin

text \<open>
  \<open>internal/realtime/ticket.go\<close>: the tickets that open a WebSocket. A ticket is a Redis string with an
  expiry, and it is redeemed with \<open>GETDEL\<close>. The bytes of the random source are an argument, \<open>None\<close> when it
  fails. The lemmas follow the entry of one ticket through any sequence of operations of any clients.
\<close>

record 'r tickets =
  tk_client :: "'r string_ops"
  tk_ttl :: duration
  tk_timeout :: duration

definition NewTickets :: "'r string_ops \<Rightarrow> realtime_config \<Rightarrow> duration \<Rightarrow> 'r tickets" where
  "NewTickets S cfg timeout =
     \<lparr>tk_client = S, tk_ttl = TicketTTL cfg, tk_timeout = (if timeout \<le> 0 then 500 * millisecond else timeout)\<rparr>"

definition ticketKey :: "string \<Rightarrow> string" where
  "ticketKey token = ''rt:ticket:'' @ token"

definition ticket_Issue :: "'r tickets \<Rightarrow> byte list option \<Rightarrow> int \<Rightarrow> (('d, 'r) world, string) act" where
  "ticket_Issue t entropy userID =
     (case entropy of
        None \<Rightarrow> fail ErrDB
      | Some buf \<Rightarrow>
          let token = b64_encode url_alphabet buf
          in act_bind (redis_call (\<lambda>r. ((), set_for (tk_client t) (ticketKey token) (itoa userID) (tk_ttl t) r))) (\<lambda>_.
             ret token))"

definition Redeem :: "'r tickets \<Rightarrow> string \<Rightarrow> (('d, 'r) world, int) act" where
  "Redeem t token =
     (if token = '''' then fail ErrTicketInvalid
      else act_bind (redis_call (getdel (tk_client t) (ticketKey token))) (\<lambda>raw.
        case raw of
          None \<Rightarrow> fail ErrTicketInvalid
        | Some raw \<Rightarrow> (case parse_int64 raw of None \<Rightarrow> fail ErrTicketInvalid | Some userID \<Rightarrow> ret userID)))"

section \<open>Sequences of operations\<close>

text \<open>
  A client asks for a ticket, a handshake presents a token, or milliseconds pass. What a sequence of
  them did is a list of events.
\<close>

datatype ticket_op = Ask int "byte list option" | Present string | Wait int

datatype ticket_event = Asked int "err + string" | Presented string "err + int" | Waited int

fun ticket_op_run :: "'r tickets \<Rightarrow> ticket_op \<Rightarrow> ('d, 'r) world \<Rightarrow> ticket_event \<times> ('d, 'r) world" where
  "ticket_op_run t (Ask u entropy) w = (case ticket_Issue t entropy u w of (res, w') \<Rightarrow> (Asked u res, w'))"
| "ticket_op_run t (Present token) w = (case Redeem t token w of (res, w') \<Rightarrow> (Presented token res, w'))"
| "ticket_op_run t (Wait ms) w = (Waited ms, w\<lparr>w_redis := elapse (tk_client t) ms (w_redis w)\<rparr>)"

fun ticket_run :: "'r tickets \<Rightarrow> ticket_op list \<Rightarrow> ('d, 'r) world \<Rightarrow> ticket_event list \<times> ('d, 'r) world" where
  "ticket_run t [] w = ([], w)"
| "ticket_run t (x # xs) w =
     (let (ev, w1) = ticket_op_run t x w; (evs, w2) = ticket_run t xs w1 in (ev # evs, w2))"

text \<open>The users a token let in, in order; the times it is drawn; the operations that could touch it; waiting.\<close>

fun admitted :: "string \<Rightarrow> ticket_event list \<Rightarrow> int list" where
  "admitted token [] = []"
| "admitted token (Presented tok (Inr u) # evs) = (if tok = token then u # admitted token evs else admitted token evs)"
| "admitted token (ev # evs) = admitted token evs"

fun draws :: "string \<Rightarrow> ticket_op \<Rightarrow> bool" where
  "draws token (Ask u (Some buf)) \<longleftrightarrow> b64_encode url_alphabet buf = token"
| "draws token x \<longleftrightarrow> False"

fun waited :: "ticket_op list \<Rightarrow> int" where
  "waited [] = 0"
| "waited (Wait ms # xs) = ms + waited xs"
| "waited (x # xs) = waited xs"

fun forward :: "ticket_op \<Rightarrow> bool" where
  "forward (Wait ms) \<longleftrightarrow> 0 \<le> ms"
| "forward x \<longleftrightarrow> True"

text \<open>The milliseconds a ticket lives.\<close>

definition lifetime :: "'r tickets \<Rightarrow> int" where
  "lifetime t = max 1 (milliseconds (tk_ttl t))"

lemma ticketKey_inj [simp]: "ticketKey a = ticketKey b \<longleftrightarrow> a = b"
  by (simp add: ticketKey_def)

definition ticket_at :: "'r tickets \<Rightarrow> ('d, 'r) world \<Rightarrow> string \<Rightarrow> entry_at" where
  "ticket_at t w token = string_at (tk_client t) (w_redis w) (ticketKey token)"

text \<open>What waiting does to an entry.\<close>

fun later :: "ticket_op \<Rightarrow> entry_at \<Rightarrow> entry_at" where
  "later (Wait ms) e = aged ms e"
| "later x e = e"

lemma later_value: "e = None \<or> (\<exists>l. e = Some (v, l)) \<Longrightarrow> later x e = None \<or> (\<exists>l. later x e = Some (v, l))"
  by (cases x) (auto simp: aged_def split: option.split)

context string_server
begin

lemma Issue_entry:
  assumes "tk_client t = S" and "0 < tk_ttl t" and "ticket_Issue t (Some buf) u w = (res, w')"
  shows "(ticket_at t w' tok = ticket_at t w tok
      \<or> tok = b64_encode url_alphabet buf \<and> ticket_at t w' tok = Some (itoa u, Some (lifetime t)))
    \<and> (res = Inr tok \<longrightarrow> tok = b64_encode url_alphabet buf \<and> ticket_at t w' tok = Some (itoa u, Some (lifetime t)))"
proof -
  let ?token = "b64_encode url_alphabet buf"
  let ?c = "\<lambda>r. ((), set_for S (ticketKey ?token) (itoa u) (tk_ttl t) r)"
  have at: "string_at S (snd (?c r)) (ticketKey tok) =
      (if tok = ?token then Some (itoa u, Some (lifetime t)) else string_at S r (ticketKey tok))" for r
    using set_for_at [OF assms(2)] by (simp add: lifetime_def)
  obtain x w1 where call: "redis_call ?c w = (x, w1)" by fastforce
  have run: "w' = w1" "res = (case x of Inl e \<Rightarrow> Inl e | Inr _ \<Rightarrow> Inr ?token)"
    using assms(3) call by (auto simp: ticket_Issue_def Let_def assms(1) act_bind_def split: sum.splits)
  have at': "ticket_at t w' tok = (if tok = ?token then Some (itoa u, Some (lifetime t)) else ticket_at t w tok)"
    if "w_redis w1 = snd (?c (w_redis w))"
    using at [of "w_redis w"] unfolding that [symmetric] by (simp add: ticket_at_def assms(1) run)
  have "x = Inr y \<Longrightarrow> w_redis w1 = snd (?c (w_redis w))" for y
    using redis_call_Inr [of ?c w y w1] call by simp
  moreover have "w_redis w1 = w_redis w \<Longrightarrow> ticket_at t w' tok = ticket_at t w tok" by (simp add: ticket_at_def run)
  ultimately show ?thesis
    using redis_call_redis [OF call] at' run(2) by (cases x) (auto split: if_splits)
qed

lemma Redeem_entry:
  assumes "tk_client t = S" and "Redeem t token w = (res, w')"
  shows "(ticket_at t w' tok = ticket_at t w tok \<or> tok = token \<and> ticket_at t w' tok = None)
    \<and> (\<forall>u. res = Inr u \<longrightarrow> ticket_at t w' token = None \<and> (\<exists>v left. ticket_at t w token = Some (v, left) \<and> parse_int64 v = Some u))"
proof (cases "token = []")
  case True
  then show ?thesis using assms(2) by (auto simp: Redeem_def)
next
  case False
  let ?c = "getdel S (ticketKey token)"
  obtain x w1 where call: "redis_call ?c w = (x, w1)" by fastforce
  have w1: "w' = w1" using assms(2) call False
    by (auto simp: Redeem_def assms(1) act_bind_def split: sum.splits option.splits)
  have at: "string_at S (snd (?c r)) (ticketKey tok) = (if tok = token then None else string_at S r (ticketKey tok))" for r tok
    by (simp add: getdel_at)
  have "ticket_at t w' token = None \<and> (\<exists>v left. ticket_at t w token = Some (v, left) \<and> parse_int64 v = Some u)"
    if res: "res = Inr u" for u
  proof -
    obtain v where v: "x = Inr (Some v)" "parse_int64 v = Some u"
      using assms(2) call False res by (auto simp: Redeem_def assms(1) act_bind_def split: sum.splits option.splits)
    have "?c (w_redis w) = (Some v, w_redis w1)" using redis_call_Inr [of ?c w _ w1] call v(1) by simp
    moreover have "map_option fst (string_at S (w_redis w) (ticketKey token)) = Some v"
      using getdel_value [of "ticketKey token" "w_redis w"] calculation by simp
    ultimately show ?thesis using at [of "w_redis w" token] v(2) by (auto simp: ticket_at_def assms(1) w1)
  qed
  moreover have "ticket_at t w' tok = ticket_at t w tok \<or> tok = token \<and> ticket_at t w' tok = None"
    using redis_call_redis [OF call] at [of "w_redis w" tok] by (auto simp: ticket_at_def assms(1) w1 split: if_splits)
  ultimately show ?thesis by blast
qed

text \<open>Without faults a redemption answers with what the entry says.\<close>

lemma Redeem_calm:
  assumes "tk_client t = S" and "w_faults w = []" and "token \<noteq> []"
  shows "\<exists>w'. Redeem t token w = (case ticket_at t w token of
      None \<Rightarrow> Inl ErrTicketInvalid
    | Some (v, _) \<Rightarrow> (case parse_int64 v of None \<Rightarrow> Inl ErrTicketInvalid | Some u \<Rightarrow> Inr u), w')"
proof -
  obtain raw r where c: "getdel S (ticketKey token) (w_redis w) = (raw, r)" by fastforce
  have "raw = map_option fst (ticket_at t w token)"
    using getdel_value [of "ticketKey token" "w_redis w"] c by (simp add: ticket_at_def assms(1))
  then show ?thesis using assms c
    by (auto simp: Redeem_def act_bind_def redis_call_def split: option.split)
qed

lemma run_quiet:
  assumes "tk_client t = S" and "0 < tk_ttl t" and "ticket_op_run t x w = (ev, w')" and "\<not> draws tok x" and "x \<noteq> Present tok" and "forward x"
  shows "ticket_at t w' tok = later x (ticket_at t w tok) \<and> (\<forall>evs. admitted tok (ev # evs) = admitted tok evs)"
proof (cases x)
  case (Ask u entropy)
  show ?thesis
  proof (cases entropy)
    case None
    then show ?thesis using assms(3) Ask by (auto simp: ticket_Issue_def)
  next
    case (Some buf)
    obtain res where "ticket_Issue t (Some buf) u w = (res, w')" "ev = Asked u res"
      using assms(3) Ask Some by (auto split: prod.splits)
    then show ?thesis
      using Issue_entry [OF assms(1,2), of buf u w res w' tok] assms(4) Ask Some by auto
  qed
next
  case (Present token)
  obtain res where r: "Redeem t token w = (res, w')" "ev = Presented token res"
    using assms(3) Present by (auto split: prod.splits)
  have "token \<noteq> tok" using assms(5) Present by simp
  then show ?thesis
    using Redeem_entry [OF assms(1) r(1), of tok] Present r(2) by (cases res) auto
next
  case (Wait ms)
  then show ?thesis using assms(1,3,6) elapse_at [of ms] by (auto simp: ticket_at_def)
qed

text \<open>A ticket that is gone and not drawn again lets nobody in, and one that is there lets its user in once.\<close>

lemma gone_run:
  assumes "tk_client t = S" and "0 < tk_ttl t" and "\<forall>x \<in> set xs. forward x \<and> \<not> draws tok x" and "ticket_at t w tok = None"
  shows "admitted tok (fst (ticket_run t xs w)) = []"
  using assms(3,4)
proof (induction xs arbitrary: w)
  case (Cons x xs)
  obtain ev w1 where x: "ticket_op_run t x w = (ev, w1)" by fastforce
  have "ticket_at t w1 tok = None \<and> (\<forall>evs. admitted tok (ev # evs) = admitted tok evs)"
  proof (cases "x = Present tok")
    case True
    obtain res where r: "Redeem t tok w = (res, w1)" "ev = Presented tok res" using x True by (auto split: prod.splits)
    show ?thesis using Redeem_entry [OF assms(1) r(1), of tok] Cons.prems(2) r(2) by (cases res) auto
  next
    case False
    then show ?thesis
      using run_quiet [OF assms(1,2) x _ False] Cons.prems by (cases x) (auto simp: aged_def)
  qed
  then show ?case using Cons.IH [of w1] Cons.prems(1) x by (simp add: split_beta)
qed simp

lemma live_run:
  assumes "tk_client t = S" and "0 < tk_ttl t" and "\<forall>x \<in> set xs. forward x \<and> \<not> draws tok x"
    and "ticket_at t w tok = None \<or> (\<exists>l. ticket_at t w tok = Some (itoa u, l))" and "fits_int64 u"
  shows "admitted tok (fst (ticket_run t xs w)) \<in> {[], [u]}"
  using assms(3,4)
proof (induction xs arbitrary: w)
  case (Cons x xs)
  obtain ev w1 where x: "ticket_op_run t x w = (ev, w1)" by fastforce
  have rest: "fst (ticket_run t (x # xs) w) = ev # fst (ticket_run t xs w1)" using x by (simp add: split_beta)
  show ?case
  proof (cases "x = Present tok")
    case True
    obtain res where r: "Redeem t tok w = (res, w1)" "ev = Presented tok res" using x True by (auto split: prod.splits)
    note e = Redeem_entry [OF assms(1) r(1), of tok]
    show ?thesis
    proof (cases res)
      case (Inl err)
      then show ?thesis using Cons.IH [of w1] Cons.prems e r(2) unfolding rest by auto
    next
      case (Inr v)
      then have gone: "ticket_at t w1 tok = None" "v = u" using e Cons.prems(2) assms(5) by auto
      have "admitted tok (fst (ticket_run t xs w1)) = []"
        by (rule gone_run [OF assms(1,2) _ gone(1)]) (use Cons.prems(1) in simp)
      then show ?thesis unfolding rest r(2) Inr gone(2) by simp
    qed
  next
    case False
    have "ticket_at t w1 tok = later x (ticket_at t w tok) \<and> (\<forall>evs. admitted tok (ev # evs) = admitted tok evs)"
      using run_quiet [OF assms(1,2) x _ False] Cons.prems(1) by simp
    then show ?thesis
      using Cons.IH [of w1] Cons.prems later_value [OF Cons.prems(2), of x] unfolding rest by auto
  qed
qed simp

lemma first_draw_run:
  assumes "tk_client t = S" and "0 < tk_ttl t" and "\<forall>x \<in> set xs. forward x"
    and "\<forall>u entropy. Ask u entropy \<in> set xs \<longrightarrow> fits_int64 u"
    and "length (filter (draws tok) xs) \<le> 1" and "ticket_at t w tok = None"
  shows "admitted tok (fst (ticket_run t xs w)) = [] \<or>
    (\<exists>u entropy. Ask u entropy \<in> set xs \<and> draws tok (Ask u entropy) \<and> admitted tok (fst (ticket_run t xs w)) = [u])"
  using assms(3-)
proof (induction xs arbitrary: w)
  case (Cons x xs)
  obtain ev w1 where x: "ticket_op_run t x w = (ev, w1)" by fastforce
  have rest: "fst (ticket_run t (x # xs) w) = ev # fst (ticket_run t xs w1)" using x by (simp add: split_beta)
  show ?case
  proof (cases "draws tok x")
    case True
    then obtain u buf where a: "x = Ask u (Some buf)" "b64_encode url_alphabet buf = tok"
      by (cases "(tok, x)" rule: draws.cases) auto
    obtain res where r: "ticket_Issue t (Some buf) u w = (res, w1)" "ev = Asked u res"
      using x a by (auto split: prod.splits)
    have "filter (draws tok) xs = []" using True Cons.prems(3) by simp
    then have "\<forall>y \<in> set xs. forward y \<and> \<not> draws tok y" using Cons.prems(1) by (auto simp: filter_empty_conv)
    moreover have "ticket_at t w1 tok = None \<or> (\<exists>l. ticket_at t w1 tok = Some (itoa u, l))"
      using Issue_entry [OF assms(1,2) r(1), of tok] Cons.prems(4) by auto
    ultimately have "admitted tok (fst (ticket_run t xs w1)) \<in> {[], [u]}"
      by (intro live_run [OF assms(1,2)]) (use Cons.prems(2) a in auto)
    then show ?thesis
    proof (cases "admitted tok (fst (ticket_run t xs w1)) = []")
      case False
      have "Ask u (Some buf) \<in> set (x # xs)" and "draws tok (Ask u (Some buf))" using a by simp_all
      then show ?thesis using \<open>_ \<in> {[], [u]}\<close> False unfolding rest r(2) by auto
    qed (simp add: rest r(2) del: ticket_run.simps)
  next
    case False
    have "ticket_at t w1 tok = None \<and> (\<forall>evs. admitted tok (ev # evs) = admitted tok evs)"
    proof (cases "x = Present tok")
      case True
      obtain res where r: "Redeem t tok w = (res, w1)" "ev = Presented tok res" using x True by (auto split: prod.splits)
      show ?thesis using Redeem_entry [OF assms(1) r(1), of tok] Cons.prems(4) r(2) by (cases res) auto
    next
      case other: False
      show ?thesis
        using run_quiet [OF assms(1,2) x False other] Cons.prems(1,4) by (cases x) (auto simp: aged_def)
    qed
    moreover have "\<forall>x \<in> set xs. forward x" "\<forall>u entropy. Ask u entropy \<in> set xs \<longrightarrow> fits_int64 u"
      "length (filter (draws tok) xs) \<le> 1"
      using Cons.prems False by simp_all
    ultimately show ?thesis using Cons.IH [of w1] unfolding rest by (simp del: ticket_run.simps) blast
  qed
qed simp

end

section \<open>Properties\<close>

text \<open>
  C17. A ticket opens one connection, for the user it was issued to. Take any sequence of requests for tickets,
  handshakes and pauses, with any faults of Redis and any interleaving: if a token is drawn at most once
  and is not known to Redis before, it admits nobody, or one handshake, as the user who asked for it.
\<close>

theorem ticket_once:
  assumes "string_server (tk_client t)" and "0 < tk_ttl t" and "\<forall>x \<in> set xs. forward x"
    and "\<forall>u entropy. Ask u entropy \<in> set xs \<longrightarrow> fits_int64 u"
    and "length (filter (draws tok) xs) \<le> 1" and "ticket_at t w tok = None"
  shows "admitted tok (fst (ticket_run t xs w)) = [] \<or>
    (\<exists>u entropy. Ask u entropy \<in> set xs \<and> draws tok (Ask u entropy) \<and> admitted tok (fst (ticket_run t xs w)) = [u])"
  by (rule string_server.first_draw_run [OF assms(1) refl assms(2-)])

text \<open>
  A ticket works for its lifetime. Once it has been issued, and whatever else happens that neither
  presents nor draws the token, a handshake that Redis answers is admitted as the user if less time than
  the lifetime has passed, and told that the ticket is invalid otherwise.
\<close>

theorem ticket_lifetime:
  assumes "string_server (tk_client t)" and "0 < tk_ttl t" and "buf \<noteq> []" and "fits_int64 u"
    and issued: "ticket_Issue t (Some buf) u w = (Inr tok, w1)"
    and others: "ticket_run t xs w1 = (evs, w2)" "\<forall>x \<in> set xs. forward x \<and> \<not> draws tok x \<and> x \<noteq> Present tok"
    and "w_faults w2 = []"
  shows "fst (Redeem t tok w2) = (if waited xs < lifetime t then Inr u else Inl ErrTicketInvalid)"
proof -
  note laws = assms(1)
  define left where "left = lifetime t"
  have tok: "tok \<noteq> []" and at: "ticket_at t w1 tok = (if 0 < left then Some (itoa u, Some left) else None)"
    using string_server.Issue_entry [OF laws refl assms(2) issued, of tok] assms(3) b64_encode_Nil
    by (auto simp: left_def lifetime_def)
  have "ticket_at t w2 tok = (if waited xs < left then Some (itoa u, Some (left - waited xs)) else None)"
    using others at
  proof (induction xs arbitrary: w1 left evs)
    case (Cons x xs)
    obtain ev w3 where x: "ticket_op_run t x w1 = (ev, w3)" by fastforce
    have rest: "ticket_run t xs w3 = (tl evs, w2)" using Cons.prems(1) x by (auto simp: split_beta)
    have now: "ticket_at t w3 tok = later x (ticket_at t w1 tok)"
      using string_server.run_quiet [OF laws refl assms(2) x, of tok] Cons.prems(2) by simp
    have fw: "0 \<le> waited xs"
      using Cons.prems(2) by (induction xs rule: waited.induct) auto
    define gap where "gap = waited [x]"
    have gap: "waited (x # xs) = gap + waited xs" by (cases x) (simp_all add: gap_def)
    have "ticket_at t w3 tok = (if 0 < left - gap then Some (itoa u, Some (left - gap)) else None)"
      using now Cons.prems(2,3) by (cases x) (auto simp: gap_def aged_def)
    then show ?case
      using Cons.IH [OF rest, of "left - gap"] Cons.prems(2) gap by (auto split: if_splits)
  qed auto
  then show ?thesis
    using string_server.Redeem_calm [OF laws refl assms(8) tok] assms(4) by (auto simp: left_def)
qed

definition demo_tickets :: "mem_strings tickets" where
  "demo_tickets = NewTickets mem_string_ops
     \<lparr>FlushInterval = 250 * millisecond, TopN = 10, SendBuffer = 16, TicketTTL = 30 * second, MaxChannels = 16,
      rt_WriteTimeout = 5 * second, PingInterval = 30 * second, MaxConnsPerUser = 5\<rparr> 0"

definition ticket_world :: "(unit, mem_strings) world" where
  "ticket_world = \<lparr>w_db = (), w_redis = \<lambda>_. None, w_faults = []\<rparr>"

definition demo_steps :: "ticket_op list" where
  "demo_steps = [Ask 7 (Some [1]), Wait 20000, Ask 8 (Some [2]), Present ''AQ'', Present ''AQ'', Wait 10000, Present ''Ag'']"

lemma demo_tokens: "b64_encode url_alphabet [1] = ''AQ''" "b64_encode url_alphabet [2] = ''Ag''"
  by (simp_all add: b64_encode_def url_alphabet_def)

lemmas demo_ticket_defs =
  demo_tickets_def NewTickets_def ticket_world_def ticket_Issue_def Redeem_def Let_def act_bind_def redis_call_def
  mem_string_ops_def ticket_at_def second_def millisecond_def milliseconds_def
  go_quot_def fits_int64_def

theorem ticket_once_witness:
  "admitted ''AQ'' (fst (ticket_run demo_tickets demo_steps ticket_world)) = [7]
   \<and> (admitted ''AQ'' (fst (ticket_run demo_tickets demo_steps ticket_world)) = [] \<or>
      (\<exists>u entropy. Ask u entropy \<in> set demo_steps \<and> draws ''AQ'' (Ask u entropy)
        \<and> admitted ''AQ'' (fst (ticket_run demo_tickets demo_steps ticket_world)) = [u]))"
proof (intro conjI)
  show "admitted ''AQ'' (fst (ticket_run demo_tickets demo_steps ticket_world)) = [7]"
    by (simp add: demo_steps_def demo_tokens demo_ticket_defs ticketKey_def aged_def)
  have "string_server (tk_client demo_tickets)"
    using mem_strings.string_server_axioms by (simp add: demo_tickets_def NewTickets_def)
  then show "admitted ''AQ'' (fst (ticket_run demo_tickets demo_steps ticket_world)) = [] \<or>
      (\<exists>u entropy. Ask u entropy \<in> set demo_steps \<and> draws ''AQ'' (Ask u entropy)
        \<and> admitted ''AQ'' (fst (ticket_run demo_tickets demo_steps ticket_world)) = [u])"
    by (rule ticket_once) (auto simp: demo_steps_def demo_tokens demo_ticket_defs)
qed

theorem ticket_lifetime_witness:
  "\<exists>w1 evs w2. ticket_Issue demo_tickets (Some [1]) 7 ticket_world = (Inr ''AQ'', w1)
     \<and> ticket_run demo_tickets [Wait 29999, Ask 8 (Some [2])] w1 = (evs, w2)
     \<and> fst (Redeem demo_tickets ''AQ'' w2) = Inr 7"
proof -
  obtain w1 where w1: "ticket_Issue demo_tickets (Some [1]) 7 ticket_world = (Inr ''AQ'', w1)" "w_faults w1 = []"
    by (simp add: demo_tokens demo_ticket_defs)
  obtain evs w2 where w2: "ticket_run demo_tickets [Wait 29999, Ask 8 (Some [2])] w1 = (evs, w2)" by fastforce
  have calm: "w_faults w2 = []" using w2 w1(2) by (auto simp: demo_tokens demo_ticket_defs)
  have S: "string_server (tk_client demo_tickets)"
    using mem_strings.string_server_axioms by (simp add: demo_tickets_def NewTickets_def)
  have "fst (Redeem demo_tickets ''AQ'' w2) =
      (if waited [Wait 29999, Ask 8 (Some [2])] < lifetime demo_tickets then Inr 7 else Inl ErrTicketInvalid)"
    by (rule ticket_lifetime [OF S _ _ _ w1(1) w2 _ calm]) (simp_all add: demo_tokens demo_ticket_defs)
  moreover have "waited [Wait 29999, Ask 8 (Some [2])] < lifetime demo_tickets"
    by (simp add: lifetime_def demo_ticket_defs)
  ultimately show ?thesis using w1(1) w2 by auto
qed

end
