(* ===== verification/Channels.thy ===== *)
theory Channels
  imports Leaderboard
begin

text \<open>
  \<open>internal/realtime/channel.go\<close>: the names of the boards a client can subscribe to. The sentences of the
  errors are left out; their kinds are \<open>channel_error\<close>.
\<close>

definition UpdateChannel :: string where "UpdateChannel = ''rt:leaderboard''"
definition GlobalScopeName :: string where "GlobalScopeName = ''global''"

record channel =
  ch_Scope :: scope
  ch_Period :: period

definition Channel_String :: "channel \<Rightarrow> string" where
  "Channel_String c = scope_Name (ch_Scope c) @ '':'' @ period_str (ch_Period c)"

datatype channel_error = NotScopePeriod string | UnknownPeriod string | UnknownGame string

definition ParseChannel :: "string \<Rightarrow> registry \<Rightarrow> channel_error + channel" where
  "ParseChannel raw reg =
     (case cut_at (CHR '':'') raw of
        None \<Rightarrow> Inl (NotScopePeriod raw)
      | Some (scopeName, periodName) \<Rightarrow>
          if scopeName = '''' \<or> periodName = '''' then Inl (NotScopePeriod raw)
          else (case ParsePeriod periodName of
            Inl _ \<Rightarrow> Inl (UnknownPeriod raw)
          | Inr p \<Rightarrow>
              if scopeName = GlobalScopeName then Inr \<lparr>ch_Scope = Global, ch_Period = p\<rparr>
              else (case registry_Get reg scopeName of
                Inl _ \<Rightarrow> Inl (UnknownGame raw)
              | Inr _ \<Rightarrow> Inr \<lparr>ch_Scope = Game scopeName, ch_Period = p\<rparr>)))"

lemma ParsePeriod_Inr: "raw \<noteq> '''' \<Longrightarrow> ParsePeriod raw = Inr p \<longleftrightarrow> raw = period_str p"
  by (cases p) (auto simp: ParsePeriod_def Periods_def of_option_def split: if_splits)

lemma period_str_nonempty: "period_str p \<noteq> ''''"
  by (cases p) simp_all

lemma global_not_game: "GlobalScopeName \<notin> set (registry_Slugs NewRegistry)"
  by (simp add: registry_Slugs_new slug_defs GlobalScopeName_def)

text \<open>The two ways a name is read: the word for all games, and a registered game.\<close>

lemma ParseChannel_Inr:
  "ParseChannel raw NewRegistry = Inr c \<longleftrightarrow>
    (\<exists>s. raw = s @ '':'' @ period_str (ch_Period c) \<and> CHR '':'' \<notin> set s \<and>
      (if s = GlobalScopeName then ch_Scope c = Global
       else s \<in> set (registry_Slugs NewRegistry) \<and> ch_Scope c = Game s))"
proof (cases "cut_at (CHR '':'') raw")
  case None
  have "CHR '':'' \<notin> set raw" using None by (simp add: cut_at_None)
  then have "raw \<noteq> s @ '':'' @ q" for s q by (metis append_Cons in_set_conv_decomp)
  then show ?thesis using None by (simp add: ParseChannel_def)
next
  case (Some a)
  obtain s p where a: "a = (s, p)" by (cases a)
  have raw: "raw = s @ '':'' @ p" and free: "CHR '':'' \<notin> set s" using Some a by (auto simp: cut_at_Some)
  have only: "raw = s' @ '':'' @ q \<and> CHR '':'' \<notin> set s' \<longleftrightarrow> s' = s \<and> q = p" for s' q
  proof -
    have "cut_at (CHR '':'') raw = Some (s', q) \<longleftrightarrow> raw = s' @ '':'' @ q \<and> CHR '':'' \<notin> set s'"
      using cut_at_Some [of "CHR '':''" raw s' q] by simp
    then show ?thesis using Some a by auto
  qed
  have "ParseChannel raw NewRegistry = Inr c \<longleftrightarrow> s \<noteq> [] \<and> p = period_str (ch_Period c) \<and>
      (if s = GlobalScopeName then ch_Scope c = Global
       else s \<in> set (registry_Slugs NewRegistry) \<and> ch_Scope c = Game s)"
  proof (cases "s = [] \<or> p = []")
    case True
    then show ?thesis
      using Some a period_str_nonempty [of "ch_Period c"] period_str_nonempty [of "ch_Period c", symmetric]
      by (auto simp: ParseChannel_def)
  next
    case False
    show ?thesis
    proof (cases "ParsePeriod p")
      case (Inl e)
      then have "p \<noteq> period_str q" for q by auto
      then show ?thesis using Some a False Inl by (simp add: ParseChannel_def)
    next
      case (Inr q)
      then have q: "p = period_str q" using ParsePeriod_Inr False by blast
      have same: "period_str q = period_str q' \<longleftrightarrow> q = q'" for q' by (cases q; cases q') simp_all
      show ?thesis
        using Some a False Inr q same registry_Get_iff [of s]
        by (cases c) (auto simp: ParseChannel_def Global_def split: sum.splits)
    qed
  qed
  moreover have "s \<noteq> []" if "s = GlobalScopeName \<or> s \<in> set (registry_Slugs NewRegistry)"
    using that registry_slug_nonempty by (auto simp: GlobalScopeName_def)
  moreover have "(\<exists>s'. raw = s' @ '':'' @ period_str (ch_Period c) \<and> CHR '':'' \<notin> set s' \<and> X s')
      \<longleftrightarrow> p = period_str (ch_Period c) \<and> X s" for X
    using only by metis
  ultimately show ?thesis by (auto split: if_splits)
qed

lemma ParseChannel_iff:
  "ParseChannel raw NewRegistry = Inr c \<longleftrightarrow> raw = Channel_String c \<and> scope_ok (ch_Scope c)"
proof
  assume "ParseChannel raw NewRegistry = Inr c"
  then obtain s where s: "raw = s @ '':'' @ period_str (ch_Period c)"
    and "if s = GlobalScopeName then ch_Scope c = Global else s \<in> set (registry_Slugs NewRegistry) \<and> ch_Scope c = Game s"
    unfolding ParseChannel_Inr by blast
  then show "raw = Channel_String c \<and> scope_ok (ch_Scope c)"
    using registry_slug_nonempty
    by (auto simp: Channel_String_def scope_Name_def IsGlobal_def scope_ok_def Global_def Game_def GlobalScopeName_def split: if_splits)
next
  assume c: "raw = Channel_String c \<and> scope_ok (ch_Scope c)"
  show "ParseChannel raw NewRegistry = Inr c"
    unfolding ParseChannel_Inr
  proof (intro exI conjI)
    show "raw = scope_Name (ch_Scope c) @ '':'' @ period_str (ch_Period c)" using c by (simp add: Channel_String_def)
    show "CHR '':'' \<notin> set (scope_Name (ch_Scope c))"
      using c registry_slug_nonempty by (auto simp: scope_Name_def scope_ok_def)
    show "if scope_Name (ch_Scope c) = GlobalScopeName then ch_Scope c = Global
      else scope_Name (ch_Scope c) \<in> set (registry_Slugs NewRegistry) \<and> ch_Scope c = Game (scope_Name (ch_Scope c))"
      using c global_not_game
      by (cases "ch_Scope c") (auto simp: scope_Name_def scope_ok_def IsGlobal_def Global_def Game_def GlobalScopeName_def)
  qed
qed

lemma Channel_String_inj:
  assumes "scope_ok (ch_Scope c)" and "scope_ok (ch_Scope c')" and "Channel_String c = Channel_String c'"
  shows "c = c'"
  using assms ParseChannel_iff [of "Channel_String c" c] ParseChannel_iff [of "Channel_String c" c'] by simp

text \<open>
  C35. A channel name is read if and only if it is how some channel of the service is written, and then as
  that channel: names round-trip through \<open>String\<close> and \<open>ParseChannel\<close>, and every other text is refused, so a
  client cannot have the hub read a board that does not exist.
\<close>

theorem channel_roundtrip:
  "ParseChannel raw NewRegistry = Inr c \<longleftrightarrow> raw = Channel_String c \<and> scope_ok (ch_Scope c)"
  by (rule ParseChannel_iff)

end
