(* ===== verification/Hub.thy ===== *)
theory Hub
  imports Channels Config "HOL-Library.AList"
begin

text \<open>
  \<open>internal/realtime\<close>: \<open>hub.go\<close>, \<open>ws.go\<close> and \<open>bridge.go\<close>. A connection is a number. The hub has the connections of
  each channel and the channels that changed; a subscriber is the queue of frames that its connection's
  write pump drains, and whether it was dropped. Frames are values; their JSON is left out.

  The boards are the interface \<open>Boards\<close>: what a read answers is a function of the world outside the hub
  at that moment (\<open>he_Page\<close>), and so is the clock. Go ranges over a map in any order: the order in which a flush visits the
  changed channels is an argument, and the subscribers of a channel are independent of each other.
\<close>

section \<open>Frames\<close>

record snapshot =
  sn_Channel :: string
  sn_Total :: int
  sn_Entries :: "entry list"
  sn_At :: time

datatype ws_error = NotJSON | TooManyChannels | BadChannel channel_error | BadOp

datatype frame = Snapshot_frame snapshot | Subscribed_frame "string list" int | Error_frame ws_error | Pong_frame

section \<open>The hub\<close>

type_synonym conn = nat

record subscriber =
  su_send :: "frame list"
  su_cap :: nat
  su_dropped :: bool

record hub =
  hb_channels :: "string \<Rightarrow> conn list option"
  hb_dirty :: "(string \<times> channel) list"

record 'w hub_env =
  he_Page :: "'w \<Rightarrow> scope \<Rightarrow> period \<Rightarrow> int \<Rightarrow> int \<Rightarrow> err + page"
  he_now :: "'w \<Rightarrow> time"
  he_cfg :: realtime_config
  he_registry :: registry

record 'w realtime =
  rt_world :: 'w
  rt_hub :: hub
  rt_subs :: "conn \<Rightarrow> subscriber"

definition NewHub :: hub where
  "NewHub = \<lparr>hb_channels = \<lambda>_. None, hb_dirty = []\<rparr>"

definition deliver :: "conn \<Rightarrow> frame \<Rightarrow> 'w realtime \<Rightarrow> bool \<times> 'w realtime" where
  "deliver i f st =
     (let s = rt_subs st i
      in if length (su_send s) < su_cap s
         then (True, st\<lparr>rt_subs := (rt_subs st)(i := s\<lparr>su_send := su_send s @ [f]\<rparr>)\<rparr>)
         else (False, st\<lparr>rt_subs := (rt_subs st)(i := s\<lparr>su_dropped := True\<rparr>)\<rparr>))"

definition subscribers_of :: "hub \<Rightarrow> string \<Rightarrow> conn list" where
  "subscribers_of h name = (case hb_channels h name of None \<Rightarrow> [] | Some is \<Rightarrow> is)"

definition without :: "conn \<Rightarrow> conn list option \<Rightarrow> conn list option" where
  "without i subs =
     (case subs of None \<Rightarrow> None | Some is \<Rightarrow> if removeAll i is = [] then None else Some (removeAll i is))"

definition hub_Subscribe :: "conn \<Rightarrow> channel \<Rightarrow> hub \<Rightarrow> hub" where
  "hub_Subscribe i c h =
     (let name = Channel_String c
      in h\<lparr>hb_channels := (hb_channels h)(name \<mapsto> List.insert i (subscribers_of h name))\<rparr>)"

definition hub_Unsubscribe :: "conn \<Rightarrow> channel \<Rightarrow> hub \<Rightarrow> hub" where
  "hub_Unsubscribe i c h =
     (let name = Channel_String c
      in h\<lparr>hb_channels := (hb_channels h)(name := without i (hb_channels h name))\<rparr>)"

definition hub_Remove :: "conn \<Rightarrow> hub \<Rightarrow> hub" where
  "hub_Remove i h = h\<lparr>hb_channels := \<lambda>name. without i (hb_channels h name)\<rparr>"

definition Subscribers :: "hub \<Rightarrow> channel \<Rightarrow> nat" where
  "Subscribers h c = length (subscribers_of h (Channel_String c))"

definition MarkDirty :: "channel \<Rightarrow> hub \<Rightarrow> hub" where
  "MarkDirty c h = h\<lparr>hb_dirty := AList.update (Channel_String c) c (hb_dirty h)\<rparr>"

definition takeDirty :: "hub \<Rightarrow> channel list \<times> hub" where
  "takeDirty h = (map snd (hb_dirty h), h\<lparr>hb_dirty := []\<rparr>)"

definition hub_snapshot :: "'w hub_env \<Rightarrow> 'w \<Rightarrow> channel \<Rightarrow> err + frame" where
  "hub_snapshot E w c =
     and_then (he_Page E w (ch_Scope c) (ch_Period c) 0 (TopN (he_cfg E))) (\<lambda>page.
     case marshal_time (he_now E w) of
       None \<Rightarrow> Inl ErrBadSnapshot
     | Some _ \<Rightarrow> Inr (Snapshot_frame \<lparr>sn_Channel = Channel_String c, sn_Total = pg_Total page,
         sn_Entries = pg_Entries page, sn_At = he_now E w\<rparr>))"

text \<open>The subscribers of a broadcast that could not keep up are counted.\<close>

fun deliver_all :: "conn list \<Rightarrow> frame \<Rightarrow> 'w realtime \<Rightarrow> nat \<times> 'w realtime" where
  "deliver_all [] f st = (0, st)"
| "deliver_all (i # is) f st =
     (let (kept, st1) = deliver i f st; (dropped, st2) = deliver_all is f st1
      in (if kept then dropped else Suc dropped, st2))"

definition broadcast :: "channel \<Rightarrow> frame \<Rightarrow> 'w realtime \<Rightarrow> 'w realtime" where
  "broadcast c f st = snd (deliver_all (subscribers_of (rt_hub st) (Channel_String c)) f st)"

fun flush_channels :: "'w hub_env \<Rightarrow> channel list \<Rightarrow> 'w realtime \<Rightarrow> 'w realtime" where
  "flush_channels E [] st = st"
| "flush_channels E (c # cs) st =
     (if Subscribers (rt_hub st) c = 0 then flush_channels E cs st
      else (case hub_snapshot E (rt_world st) c of
          Inl _ \<Rightarrow> flush_channels E cs st
        | Inr f \<Rightarrow> flush_channels E cs (broadcast c f st)))"

definition Flush :: "'w hub_env \<Rightarrow> (channel list \<Rightarrow> channel list) \<Rightarrow> 'w realtime \<Rightarrow> 'w realtime" where
  "Flush E ranging st =
     (let (cs, h) = takeDirty (rt_hub st) in flush_channels E (ranging cs) (st\<lparr>rt_hub := h\<rparr>))"

definition hub_Publish :: "'w hub_env \<Rightarrow> conn \<Rightarrow> channel \<Rightarrow> ('w realtime, unit) act" where
  "hub_Publish E i c st =
     (case hub_snapshot E (rt_world st) c of
        Inl e \<Rightarrow> (Inl e, st)
      | Inr f \<Rightarrow> (Inr (), snd (deliver i f st)))"

section \<open>Notices\<close>

record notice =
  no_Scope :: string
  no_Period :: string

definition notice_fields :: "notice field list" where
  "notice_fields = [(''scope'', str_field (\<lambda>x n. n\<lparr>no_Scope := x\<rparr>)), (''period'', str_field (\<lambda>x n. n\<lparr>no_Period := x\<rparr>))]"

definition marshal_notice :: "string \<Rightarrow> period \<Rightarrow> json" where
  "marshal_notice s p = JObj [(''scope'', JStr s), (''period'', JStr (period_str p))]"

definition unmarshal_notice :: "raw_message \<Rightarrow> notice option" where
  "unmarshal_notice payload =
     (case payload of Text j \<Rightarrow> decode_struct False notice_fields j \<lparr>no_Scope = '''', no_Period = ''''\<rparr> | _ \<Rightarrow> None)"

text \<open>\<open>publish\<close> is Redis' command of that name.\<close>

definition Publisher_Publish :: "(string \<Rightarrow> json \<Rightarrow> 'r \<Rightarrow> 'r) \<Rightarrow> string \<Rightarrow> period \<Rightarrow> ('r service_world, unit) act" where
  "Publisher_Publish publish s p = redis_call (\<lambda>r. ((), publish UpdateChannel (marshal_notice s p) r))"

definition bridge_handle :: "registry \<Rightarrow> raw_message \<Rightarrow> hub \<Rightarrow> hub" where
  "bridge_handle reg payload h =
     (case unmarshal_notice payload of
        None \<Rightarrow> h
      | Some received \<Rightarrow>
          (case ParseChannel (no_Scope received @ '':'' @ no_Period received) reg of
             Inl _ \<Rightarrow> h
           | Inr c \<Rightarrow> MarkDirty c h))"

section \<open>Connections\<close>

record client_message =
  cm_Op :: string
  cm_Channels :: "string list"

fun json_strs :: "json list \<Rightarrow> string list option" where
  "json_strs [] = Some []"
| "json_strs (j # js) =
     (case j of
        JStr s \<Rightarrow> map_option (\<lambda>ss. s # ss) (json_strs js)
      | JNull \<Rightarrow> map_option (\<lambda>ss. '''' # ss) (json_strs js)
      | _ \<Rightarrow> None)"

definition strs_field :: "(string list \<Rightarrow> 's \<Rightarrow> 's) \<Rightarrow> json \<Rightarrow> 's \<Rightarrow> 's option" where
  "strs_field upd j s =
     (case j of JNull \<Rightarrow> Some (upd [] s) | JArr js \<Rightarrow> map_option (\<lambda>xs. upd xs s) (json_strs js) | _ \<Rightarrow> None)"

definition client_fields :: "client_message field list" where
  "client_fields = [(''op'', str_field (\<lambda>x m. m\<lparr>cm_Op := x\<rparr>)), (''channels'', strs_field (\<lambda>x m. m\<lparr>cm_Channels := x\<rparr>))]"

definition unmarshal_client :: "raw_message \<Rightarrow> client_message option" where
  "unmarshal_client data =
     (case data of Text j \<Rightarrow> decode_struct False client_fields j \<lparr>cm_Op = '''', cm_Channels = []\<rparr> | _ \<Rightarrow> None)"

type_synonym subscribed = "(string \<times> channel) list"

definition reject :: "conn \<Rightarrow> ws_error \<Rightarrow> 'w realtime \<Rightarrow> 'w realtime" where
  "reject i e st = snd (deliver i (Error_frame e) st)"

definition confirm :: "'w hub_env \<Rightarrow> conn \<Rightarrow> subscribed \<Rightarrow> 'w realtime \<Rightarrow> 'w realtime" where
  "confirm E i subscribed st =
     snd (deliver i (Subscribed_frame (map fst subscribed) (milliseconds (FlushInterval (he_cfg E)))) st)"

fun handleSubscribe :: "'w hub_env \<Rightarrow> conn \<Rightarrow> string list \<Rightarrow> subscribed \<Rightarrow> 'w realtime \<Rightarrow> subscribed \<times> 'w realtime" where
  "handleSubscribe E i [] subscribed st = (subscribed, confirm E i subscribed st)"
| "handleSubscribe E i (name # names) subscribed st =
     (if MaxChannels (he_cfg E) \<le> int (length subscribed) then (subscribed, reject i TooManyChannels st)
      else (case ParseChannel name (he_registry E) of
          Inl e \<Rightarrow> handleSubscribe E i names subscribed (reject i (BadChannel e) st)
        | Inr c \<Rightarrow>
            if map_of subscribed (Channel_String c) \<noteq> None then handleSubscribe E i names subscribed st
            else handleSubscribe E i names (AList.update (Channel_String c) c subscribed)
              (snd (hub_Publish E i c (st\<lparr>rt_hub := hub_Subscribe i c (rt_hub st)\<rparr>)))))"

fun handleUnsubscribe :: "'w hub_env \<Rightarrow> conn \<Rightarrow> string list \<Rightarrow> subscribed \<Rightarrow> 'w realtime \<Rightarrow> subscribed \<times> 'w realtime" where
  "handleUnsubscribe E i [] subscribed st = (subscribed, confirm E i subscribed st)"
| "handleUnsubscribe E i (name # names) subscribed st =
     (case map_of subscribed name of
        None \<Rightarrow> handleUnsubscribe E i names subscribed st
      | Some c \<Rightarrow> handleUnsubscribe E i names (AList.delete name subscribed)
          (st\<lparr>rt_hub := hub_Unsubscribe i c (rt_hub st)\<rparr>))"

text \<open>One turn of the read pump's loop.\<close>

definition read_message ::
    "'w hub_env \<Rightarrow> conn \<Rightarrow> raw_message \<Rightarrow> subscribed \<Rightarrow> 'w realtime \<Rightarrow> subscribed \<times> 'w realtime" where
  "read_message E i data subscribed st =
     (case unmarshal_client data of
        None \<Rightarrow> (subscribed, reject i NotJSON st)
      | Some message \<Rightarrow>
          if cm_Op message = ''subscribe'' then handleSubscribe E i (cm_Channels message) subscribed st
          else if cm_Op message = ''unsubscribe'' then handleUnsubscribe E i (cm_Channels message) subscribed st
          else if cm_Op message = ''ping'' then (subscribed, snd (deliver i Pong_frame st))
          else (subscribed, reject i BadOp st))"

text \<open>A connection opens with an empty queue, and leaves every channel when its read pump returns.\<close>

definition open_conn :: "'w hub_env \<Rightarrow> conn \<Rightarrow> 'w realtime \<Rightarrow> 'w realtime" where
  "open_conn E i st =
     st\<lparr>rt_subs := (rt_subs st)(i := \<lparr>su_send = [], su_cap = nat (SendBuffer (he_cfg E)), su_dropped = False\<rparr>)\<rparr>"

definition close_conn :: "conn \<Rightarrow> 'w realtime \<Rightarrow> 'w realtime" where
  "close_conn i st = st\<lparr>rt_hub := hub_Remove i (rt_hub st)\<rparr>"

text \<open>The write pump takes the frame at the head of the queue.\<close>

definition drain :: "conn \<Rightarrow> 'w realtime \<Rightarrow> frame option \<times> 'w realtime" where
  "drain i st =
     (case su_send (rt_subs st i) of
        [] \<Rightarrow> (None, st)
      | f # fs \<Rightarrow> (Some f, st\<lparr>rt_subs := (rt_subs st)(i := (rt_subs st i)\<lparr>su_send := fs\<rparr>)\<rparr>))"

end
