(* ===== verification/Hub_Steps.thy ===== *)
theory Hub_Steps
  imports Hub "HOL-Library.Multiset"
begin

text \<open>
  The goroutines around the hub, interleaved. What a goroutine does under the hub's lock, or on one queue, is one
  step, and so is one reading of a board; between two steps anything else may run. A read pump's message
  and a flush become lists of tasks. Run without interruption the tasks do what the functions of theory \<open>Hub\<close> do.
\<close>

section \<open>What a frame does to a queue\<close>

definition push :: "subscriber \<Rightarrow> frame \<Rightarrow> subscriber" where
  "push s f = (if length (su_send s) < su_cap s then s\<lparr>su_send := su_send s @ [f]\<rparr> else s\<lparr>su_dropped := True\<rparr>)"

lemma deliver_state [simp]:
  "snd (deliver i f st) = st\<lparr>rt_subs := (rt_subs st)(i := push (rt_subs st i) f)\<rparr>"
  by (simp add: deliver_def push_def Let_def)

lemma push_fields [simp]:
  "su_cap (push s f) = su_cap s" "su_dropped s \<Longrightarrow> su_dropped (push s f)"
  "length (su_send s) \<le> su_cap s \<Longrightarrow> length (su_send (push s f)) \<le> su_cap s"
  by (simp_all add: push_def)

lemma deliver_all_subs:
  "distinct is \<Longrightarrow> rt_subs (snd (deliver_all is f st)) j = (if j \<in> set is then push (rt_subs st j) f else rt_subs st j)"
  by (induction "is" arbitrary: st) (auto simp: split_beta)

lemma deliver_all_rest [simp]:
  "rt_hub (snd (deliver_all is f st)) = rt_hub st" "rt_world (snd (deliver_all is f st)) = rt_world st"
  by (induction "is" arbitrary: st) (simp_all add: split_beta)

section \<open>Tasks\<close>

datatype task = Try_name string | Read_board channel | Give frame | Confirm | Drop_name string

record reader =
  rd_subscribed :: subscribed
  rd_tasks :: "task list"

definition tasks_of :: "raw_message \<Rightarrow> task list" where
  "tasks_of data =
     (case unmarshal_client data of
        None \<Rightarrow> [Give (Error_frame NotJSON)]
      | Some message \<Rightarrow>
          if cm_Op message = ''subscribe'' then map Try_name (cm_Channels message) @ [Confirm]
          else if cm_Op message = ''unsubscribe'' then map Drop_name (cm_Channels message) @ [Confirm]
          else if cm_Op message = ''ping'' then [Give Pong_frame]
          else [Give (Error_frame BadOp)])"

fun do_task :: "'w hub_env \<Rightarrow> conn \<Rightarrow> reader \<times> 'w realtime \<Rightarrow> reader \<times> 'w realtime" where
  "do_task E i (rd, st) =
     (case rd_tasks rd of
        [] \<Rightarrow> (rd, st)
      | Try_name name # ts \<Rightarrow>
          if MaxChannels (he_cfg E) \<le> int (length (rd_subscribed rd)) then (rd\<lparr>rd_tasks := []\<rparr>, reject i TooManyChannels st)
          else (case ParseChannel name (he_registry E) of
              Inl e \<Rightarrow> (rd\<lparr>rd_tasks := ts\<rparr>, reject i (BadChannel e) st)
            | Inr c \<Rightarrow>
                if map_of (rd_subscribed rd) (Channel_String c) \<noteq> None then (rd\<lparr>rd_tasks := ts\<rparr>, st)
                else (\<lparr>rd_subscribed = AList.update (Channel_String c) c (rd_subscribed rd), rd_tasks = Read_board c # ts\<rparr>,
                      st\<lparr>rt_hub := hub_Subscribe i c (rt_hub st)\<rparr>))
      | Read_board c # ts \<Rightarrow>
          (rd\<lparr>rd_tasks := (case hub_snapshot E (rt_world st) c of Inl _ \<Rightarrow> ts | Inr f \<Rightarrow> Give f # ts)\<rparr>, st)
      | Give f # ts \<Rightarrow> (rd\<lparr>rd_tasks := ts\<rparr>, snd (deliver i f st))
      | Confirm # ts \<Rightarrow> (rd\<lparr>rd_tasks := ts\<rparr>, confirm E i (rd_subscribed rd) st)
      | Drop_name name # ts \<Rightarrow>
          (case map_of (rd_subscribed rd) name of
             None \<Rightarrow> (rd\<lparr>rd_tasks := ts\<rparr>, st)
           | Some c \<Rightarrow> (\<lparr>rd_subscribed = AList.delete name (rd_subscribed rd), rd_tasks = ts\<rparr>,
               st\<lparr>rt_hub := hub_Unsubscribe i c (rt_hub st)\<rparr>)))"

datatype ftask = Visit channel | Fetch channel | Copy channel frame | Send conn frame

fun do_flush :: "'w hub_env \<Rightarrow> ftask list \<times> 'w realtime \<Rightarrow> ftask list \<times> 'w realtime" where
  "do_flush E ([], st) = ([], st)"
| "do_flush E (Visit c # ts, st) = (if Subscribers (rt_hub st) c = 0 then ts else Fetch c # ts, st)"
| "do_flush E (Fetch c # ts, st) = (case hub_snapshot E (rt_world st) c of Inl _ \<Rightarrow> ts | Inr f \<Rightarrow> Copy c f # ts, st)"
| "do_flush E (Copy c f # ts, st) = (map (\<lambda>i. Send i f) (subscribers_of (rt_hub st) (Channel_String c)) @ ts, st)"
| "do_flush E (Send i f # ts, st) = (ts, snd (deliver i f st))"

section \<open>Tasks in a row\<close>

definition leads :: "('a \<Rightarrow> 'a) \<Rightarrow> 'a \<Rightarrow> 'a \<Rightarrow> bool" where
  "leads f x y \<longleftrightarrow> (\<exists>n. (f ^^ n) x = y)"

lemma leads_refl [simp]: "leads f x x"
  unfolding leads_def by (rule exI [of _ 0]) simp

lemma leads_step: "leads f (f x) y \<Longrightarrow> leads f x y"
  unfolding leads_def by (metis funpow_Suc_right comp_apply)

lemma leads_via: "f x = z \<Longrightarrow> leads f z y \<Longrightarrow> leads f x y"
  using leads_step by metis

lemma sends_lead: "leads (do_flush E) (map (\<lambda>i. Send i f) is @ ts, st) (ts, snd (deliver_all is f st))"
proof (induction "is" arbitrary: st)
  case (Cons i "is")
  show ?case by (rule leads_step) (use Cons.IH [of "snd (deliver i f st)"] in \<open>simp add: split_beta\<close>)
qed simp

lemma flush_leads: "leads (do_flush E) (map Visit cs, st) ([], flush_channels E cs st)"
proof (induction cs arbitrary: st)
  case (Cons c cs)
  let ?fin = "([], flush_channels E (c # cs) st)"
  show ?case
  proof (cases "Subscribers (rt_hub st) c = 0")
    case True
    show ?thesis by (rule leads_step) (use True Cons.IH in simp)
  next
    case some: False
    have "leads (do_flush E) (Fetch c # map Visit cs, st) ?fin"
    proof (cases "hub_snapshot E (rt_world st) c")
      case (Inl e)
      show ?thesis by (rule leads_step) (use some Inl Cons.IH in simp)
    next
      case (Inr f)
      let ?is = "subscribers_of (rt_hub st) (Channel_String c)"
      have "leads (do_flush E) (map (\<lambda>i. Send i f) ?is @ map Visit cs, st) ([], flush_channels E cs (broadcast c f st))"
        using sends_lead [of E f ?is "map Visit cs" st] Cons.IH [of "broadcast c f st"]
        unfolding leads_def broadcast_def by (metis funpow_add comp_apply)
      then have copy: "leads (do_flush E) (Copy c f # map Visit cs, st) ([], flush_channels E cs (broadcast c f st))"
        by (intro leads_via [of "do_flush E" "(Copy c f # map Visit cs, st)"]) simp_all
      show ?thesis by (rule leads_step) (use some Inr copy in simp)
    qed
    then show ?thesis by (intro leads_via [of "do_flush E" "(map Visit (c # cs), st)"]) (use some in simp_all)
  qed
qed simp

text \<open>The state of a read pump, by its channels and its tasks.\<close>

abbreviation pump :: "subscribed \<Rightarrow> task list \<Rightarrow> reader" where
  "pump sub ts \<equiv> \<lparr>rd_subscribed = sub, rd_tasks = ts\<rparr>"

lemma subscribe_leads:
  "leads (do_task E i) (pump sub (map Try_name names @ [Confirm]), st)
     (case handleSubscribe E i names sub st of (sub', st') \<Rightarrow> (pump sub' [], st'))"
proof (induction names arbitrary: sub st)
  case Nil
  show ?case by (rule leads_step) simp
next
  case (Cons name names)
  show ?case
  proof (cases "MaxChannels (he_cfg E) \<le> int (length sub)")
    case True
    show ?thesis by (rule leads_step) (use True in simp)
  next
    case room: False
    show ?thesis
    proof (cases "ParseChannel name (he_registry E)")
      case (Inl e)
      show ?thesis by (rule leads_step) (use room Inl Cons in simp)
    next
      case (Inr c)
      show ?thesis
      proof (cases "map_of sub (Channel_String c)")
        case (Some c')
        show ?thesis by (rule leads_step) (use room Inr Some Cons in simp)
      next
        case None
        let ?st = "st\<lparr>rt_hub := hub_Subscribe i c (rt_hub st)\<rparr>" and ?sub = "AList.update (Channel_String c) c sub"
        let ?fin = "case handleSubscribe E i names ?sub (snd (hub_Publish E i c ?st)) of (sub', st') \<Rightarrow> (pump sub' [], st')"
        have rest: "leads (do_task E i) (pump ?sub (map Try_name names @ [Confirm]), snd (hub_Publish E i c ?st)) ?fin"
          by (rule Cons.IH)
        have "leads (do_task E i) (pump ?sub (Read_board c # map Try_name names @ [Confirm]), ?st) ?fin"
        proof (cases "hub_snapshot E (rt_world st) c")
          case (Inl e)
          show ?thesis by (rule leads_step) (use Inl rest in \<open>simp add: hub_Publish_def\<close>)
        next
          case (Inr f)
          have give: "leads (do_task E i) (pump ?sub (Give f # map Try_name names @ [Confirm]), ?st) ?fin"
            by (rule leads_step) (use Inr rest in \<open>simp add: hub_Publish_def\<close>)
          show ?thesis by (rule leads_step) (use Inr give in simp)
        qed
        then show ?thesis
          by (intro leads_via [of "do_task E i" "(pump sub (map Try_name (name # names) @ [Confirm]), st)"])
            (use room Inr None in simp_all)
      qed
    qed
  qed
qed

lemma unsubscribe_leads:
  "leads (do_task E i) (pump sub (map Drop_name names @ [Confirm]), st)
     (case handleUnsubscribe E i names sub st of (sub', st') \<Rightarrow> (pump sub' [], st'))"
proof (induction names arbitrary: sub st)
  case Nil
  show ?case by (rule leads_step) simp
next
  case (Cons name names)
  show ?case by (rule leads_step) (use Cons in \<open>simp split: option.split\<close>)
qed

lemma message_leads:
  "leads (do_task E i) (pump sub (tasks_of data), st)
     (case read_message E i data sub st of (sub', st') \<Rightarrow> (pump sub' [], st'))"
proof -
  have one: "leads (do_task E i) (pump sub [Give f], st) (pump sub [], snd (deliver i f st))" for f
    by (rule leads_step) simp
  show ?thesis
    using subscribe_leads unsubscribe_leads one
    by (auto simp: read_message_def tasks_of_def reject_def split: option.split)
qed

section \<open>The system\<close>

text \<open>
  Besides the hub there are the read pumps of the open connections, the goroutine that flushes, and what each write
  pump has taken from its queue. The world outside may change to any other whose clock is not earlier.
\<close>

record 'w hub_system =
  sy_rt :: "'w realtime"
  sy_readers :: "conn \<Rightarrow> reader option"
  sy_flusher :: "ftask list"
  sy_seen :: "conn \<Rightarrow> frame list"

datatype 'w event =
    Outside 'w
  | Notice_in raw_message
  | Open_conn conn
  | Message_in conn raw_message
  | Read_step conn
  | Close_conn conn
  | Drain conn
  | Start_flush "channel list"
  | Flush_step

definition start_system :: "'w \<Rightarrow> 'w hub_system" where
  "start_system w =
     \<lparr>sy_rt = \<lparr>rt_world = w, rt_hub = NewHub, rt_subs = \<lambda>_. \<lparr>su_send = [], su_cap = 0, su_dropped = False\<rparr>\<rparr>,
      sy_readers = \<lambda>_. None, sy_flusher = [], sy_seen = \<lambda>_. []\<rparr>"

text \<open>
  \<open>None\<close> is an event that cannot happen. A read pump takes a message when it is done with the last
  one, and returns between messages when the connection is lost or was dropped. A flush may visit
  the changed channels in any order.
\<close>

fun system_step :: "'w hub_env \<Rightarrow> 'w event \<Rightarrow> 'w hub_system \<Rightarrow> 'w hub_system option" where
  "system_step E (Outside w) s =
     (if he_now E (rt_world (sy_rt s)) \<le> he_now E w then Some (s\<lparr>sy_rt := (sy_rt s)\<lparr>rt_world := w\<rparr>\<rparr>) else None)"
| "system_step E (Notice_in payload) s =
     Some (s\<lparr>sy_rt := (sy_rt s)\<lparr>rt_hub := bridge_handle (he_registry E) payload (rt_hub (sy_rt s))\<rparr>\<rparr>)"
| "system_step E (Open_conn i) s =
     (if sy_readers s i = None
      then Some (s\<lparr>sy_rt := open_conn E i (sy_rt s), sy_readers := (sy_readers s)(i \<mapsto> pump [] []), sy_seen := (sy_seen s)(i := [])\<rparr>)
      else None)"
| "system_step E (Message_in i data) s =
     (case sy_readers s i of
        None \<Rightarrow> None
      | Some rd \<Rightarrow> if rd_tasks rd = [] then Some (s\<lparr>sy_readers := (sy_readers s)(i \<mapsto> rd\<lparr>rd_tasks := tasks_of data\<rparr>)\<rparr>) else None)"
| "system_step E (Read_step i) s =
     (case sy_readers s i of
        None \<Rightarrow> None
      | Some rd \<Rightarrow> let (rd', st) = do_task E i (rd, sy_rt s) in Some (s\<lparr>sy_rt := st, sy_readers := (sy_readers s)(i \<mapsto> rd')\<rparr>))"
| "system_step E (Close_conn i) s =
     (case sy_readers s i of
        None \<Rightarrow> None
      | Some rd \<Rightarrow>
          if rd_tasks rd = [] then Some (s\<lparr>sy_rt := close_conn i (sy_rt s), sy_readers := (sy_readers s)(i := None)\<rparr>) else None)"
| "system_step E (Drain i) s =
     (case drain i (sy_rt s) of
        (None, _) \<Rightarrow> None
      | (Some f, st) \<Rightarrow> Some (s\<lparr>sy_rt := st, sy_seen := (sy_seen s)(i := sy_seen s i @ [f])\<rparr>))"
| "system_step E (Start_flush visits) s =
     (let (cs, h) = takeDirty (rt_hub (sy_rt s))
      in if sy_flusher s = [] \<and> mset visits = mset cs
         then Some (s\<lparr>sy_rt := (sy_rt s)\<lparr>rt_hub := h\<rparr>, sy_flusher := map Visit visits\<rparr>) else None)"
| "system_step E Flush_step s =
     (let (ts, st) = do_flush E (sy_flusher s, sy_rt s) in Some (s\<lparr>sy_rt := st, sy_flusher := ts\<rparr>))"

fun system_run :: "'w hub_env \<Rightarrow> 'w event list \<Rightarrow> 'w hub_system \<Rightarrow> 'w hub_system option" where
  "system_run E [] s = Some s"
| "system_run E (e # es) s = (case system_step E e s of None \<Rightarrow> None | Some s' \<Rightarrow> system_run E es s')"

inductive hub_reachable :: "'w hub_env \<Rightarrow> 'w hub_system \<Rightarrow> bool" for E where
  start: "hub_reachable E (start_system w)"
| step: "hub_reachable E s \<Longrightarrow> system_step E e s = Some s' \<Longrightarrow> hub_reachable E s'"

lemma hub_reachable_run: "hub_reachable E s \<Longrightarrow> system_run E es s = Some s' \<Longrightarrow> hub_reachable E s'"
  by (induction es arbitrary: s) (auto split: option.splits intro: hub_reachable.step)

end
