(* ===== verification/Hub_Spec.thy ===== *)
theory Hub_Spec
  imports Hub_Steps
begin

text \<open>
  What holds of the hub in every reachable state, what a flush delivers, and how fresh the frames are that a
  client ends up with.
\<close>

section \<open>The lists of the hub\<close>

lemma subscribers_of_simps [simp]:
  "subscribers_of NewHub name = []"
  "subscribers_of (hub_Subscribe i c h) name =
    (if name = Channel_String c then List.insert i (subscribers_of h name) else subscribers_of h name)"
  "subscribers_of (hub_Unsubscribe i c h) name =
    (if name = Channel_String c then removeAll i (subscribers_of h name) else subscribers_of h name)"
  "subscribers_of (hub_Remove i h) name = removeAll i (subscribers_of h name)"
  "subscribers_of (MarkDirty c h) name = subscribers_of h name"
  "subscribers_of (h\<lparr>hb_dirty := d\<rparr>) name = subscribers_of h name"
  by (auto simp: subscribers_of_def NewHub_def hub_Subscribe_def hub_Unsubscribe_def hub_Remove_def MarkDirty_def Let_def
      without_def split: option.split)

lemma hb_dirty_simps [simp]:
  "hb_dirty NewHub = []"
  "hb_dirty (hub_Subscribe i c h) = hb_dirty h" "hb_dirty (hub_Unsubscribe i c h) = hb_dirty h"
  "hb_dirty (hub_Remove i h) = hb_dirty h"
  "hb_dirty (MarkDirty c h) = AList.update (Channel_String c) c (hb_dirty h)"
  by (simp_all add: NewHub_def hub_Subscribe_def hub_Unsubscribe_def hub_Remove_def MarkDirty_def Let_def)

definition channels_ok :: "hub \<Rightarrow> bool" where
  "channels_ok h \<longleftrightarrow> (\<forall>name is. hb_channels h name = Some is \<longrightarrow> is \<noteq> [] \<and> distinct is)"

lemma channels_ok_simps [simp]:
  "channels_ok NewHub" "channels_ok h \<Longrightarrow> channels_ok (hub_Subscribe i c h)" "channels_ok h \<Longrightarrow> channels_ok (hub_Unsubscribe i c h)"
  "channels_ok h \<Longrightarrow> channels_ok (hub_Remove i h)" "channels_ok (MarkDirty c h) = channels_ok h"
  "channels_ok (h\<lparr>hb_dirty := d\<rparr>) = channels_ok h"
  by (auto simp: channels_ok_def subscribers_of_def NewHub_def hub_Subscribe_def hub_Unsubscribe_def hub_Remove_def MarkDirty_def
      Let_def without_def distinct_removeAll List.insert_def split: option.splits if_splits)

lemma channels_ok_distinct: "channels_ok h \<Longrightarrow> distinct (subscribers_of h name)"
  by (auto simp: channels_ok_def subscribers_of_def split: option.split)

text \<open>Channels under their names.\<close>

definition names_ok :: "(string \<times> channel) list \<Rightarrow> bool" where
  "names_ok cs \<longleftrightarrow> distinct (map fst cs) \<and> (\<forall>(n, c) \<in> set cs. n = Channel_String c \<and> scope_ok (ch_Scope c))"

lemma set_update_le: "set (AList.update k v al) \<subseteq> insert (k, v) (set al)"
  by (induction al) auto

lemma names_ok_update: "names_ok cs \<Longrightarrow> scope_ok (ch_Scope c) \<Longrightarrow> names_ok (AList.update (Channel_String c) c cs)"
  using set_update_le [of "Channel_String c" c cs] by (auto simp: names_ok_def distinct_update)

lemma names_ok_delete: "names_ok cs \<Longrightarrow> names_ok (AList.delete name cs)"
  using distinct_delete [of cs name] by (auto simp: names_ok_def AList.delete_eq)

lemma names_ok_Nil [simp]: "names_ok []"
  by (simp add: names_ok_def)

lemma names_ok_map_of: "names_ok cs \<Longrightarrow> map_of cs n = Some c \<Longrightarrow> n = Channel_String c \<and> scope_ok (ch_Scope c)"
  by (auto simp: names_ok_def dest: map_of_SomeD)

lemma length_update_new: "map_of al k = None \<Longrightarrow> length (AList.update k v al) = Suc (length al)"
  by (induction al) (auto split: if_splits)

section \<open>The invariant\<close>

definition listens :: "'w hub_system \<Rightarrow> conn \<Rightarrow> string \<Rightarrow> bool" where
  "listens s i name \<longleftrightarrow> (case sy_readers s i of None \<Rightarrow> False | Some rd \<Rightarrow> map_of (rd_subscribed rd) name \<noteq> None)"

definition agrees :: "'w hub_system \<Rightarrow> bool" where
  "agrees s \<longleftrightarrow> (\<forall>i name. i \<in> set (subscribers_of (rt_hub (sy_rt s)) name) \<longleftrightarrow> listens s i name)"

definition reader_ok :: "'w hub_env \<Rightarrow> reader \<Rightarrow> bool" where
  "reader_ok E rd \<longleftrightarrow> names_ok (rd_subscribed rd) \<and> int (length (rd_subscribed rd)) \<le> MaxChannels (he_cfg E)
     \<and> (\<forall>c. Read_board c \<in> set (rd_tasks rd) \<longrightarrow> scope_ok (ch_Scope c))"

fun ftask_ok :: "ftask \<Rightarrow> bool" where
  "ftask_ok (Visit c) \<longleftrightarrow> scope_ok (ch_Scope c)"
| "ftask_ok (Fetch c) \<longleftrightarrow> scope_ok (ch_Scope c)"
| "ftask_ok (Copy c f) \<longleftrightarrow> scope_ok (ch_Scope c)"
| "ftask_ok (Send i f) \<longleftrightarrow> True"

definition queue_ok :: "'w hub_env \<Rightarrow> subscriber \<Rightarrow> bool" where
  "queue_ok E s \<longleftrightarrow> length (su_send s) \<le> su_cap s \<and> su_cap s \<le> nat (SendBuffer (he_cfg E))"

definition system_ok :: "'w hub_env \<Rightarrow> 'w hub_system \<Rightarrow> bool" where
  "system_ok E s \<longleftrightarrow> channels_ok (rt_hub (sy_rt s)) \<and> agrees s \<and> names_ok (hb_dirty (rt_hub (sy_rt s)))
     \<and> (\<forall>i rd. sy_readers s i = Some rd \<longrightarrow> reader_ok E rd) \<and> (\<forall>t \<in> set (sy_flusher s). ftask_ok t)
     \<and> (\<forall>i. queue_ok E (rt_subs (sy_rt s) i))"

lemma queue_ok_push [simp]: "queue_ok E s \<Longrightarrow> queue_ok E (push s f)"
  by (simp add: queue_ok_def)

text \<open>What a task of a read pump keeps.\<close>

lemma tasks_of_reads: "Read_board c \<notin> set (tasks_of data)"
  by (auto simp: tasks_of_def split: option.splits if_splits)

definition pump_keeps :: "'w hub_env \<Rightarrow> conn \<Rightarrow> 'w realtime \<Rightarrow> reader \<times> 'w realtime \<Rightarrow> bool" where
  "pump_keeps E i st p \<longleftrightarrow>
     (case p of (rd, st') \<Rightarrow> reader_ok E rd
       \<and> (\<forall>name. i \<in> set (subscribers_of (rt_hub st') name) \<longleftrightarrow> map_of (rd_subscribed rd) name \<noteq> None)
       \<and> (\<forall>j name. j \<noteq> i \<longrightarrow> (j \<in> set (subscribers_of (rt_hub st') name) \<longleftrightarrow> j \<in> set (subscribers_of (rt_hub st) name)))
       \<and> (channels_ok (rt_hub st) \<longrightarrow> channels_ok (rt_hub st')) \<and> hb_dirty (rt_hub st') = hb_dirty (rt_hub st)
       \<and> ((\<forall>j. queue_ok E (rt_subs st j)) \<longrightarrow> (\<forall>j. queue_ok E (rt_subs st' j))))"

lemma do_task_keeps:
  assumes reg: "he_registry E = NewRegistry" and ok: "reader_ok E rd"
    and own: "\<forall>name. i \<in> set (subscribers_of (rt_hub st) name) \<longleftrightarrow> map_of (rd_subscribed rd) name \<noteq> None"
  shows "pump_keeps E i st (do_task E i (rd, st))"
proof (cases "rd_tasks rd")
  case Nil
  then show ?thesis using ok own by (simp add: pump_keeps_def)
next
  case (Cons t ts)
  have rest: "reader_ok E (rd\<lparr>rd_tasks := ts\<rparr>)" using ok Cons by (auto simp: reader_ok_def)
  show ?thesis
  proof (cases t)
    case (Try_name name)
    show ?thesis
    proof (cases "MaxChannels (he_cfg E) \<le> int (length (rd_subscribed rd))")
      case True
      then show ?thesis using Cons Try_name ok own by (simp add: pump_keeps_def reject_def reader_ok_def)
    next
      case room: False
      show ?thesis
      proof (cases "ParseChannel name (he_registry E)")
        case (Inl e)
        then show ?thesis using Cons Try_name room rest own by (simp add: pump_keeps_def reject_def)
      next
        case (Inr c)
        then have c: "scope_ok (ch_Scope c)" using reg ParseChannel_iff by simp
        show ?thesis
        proof (cases "map_of (rd_subscribed rd) (Channel_String c)")
          case (Some c')
          then show ?thesis using Cons Try_name room Inr rest own by (simp add: pump_keeps_def)
        next
          case None
          then show ?thesis
            using Cons Try_name room Inr ok own c names_ok_update [OF _ c] length_update_new [OF None, of c]
            by (auto simp: pump_keeps_def reader_ok_def update_conv')
        qed
      qed
    qed
  next
    case (Read_board c)
    then show ?thesis using Cons ok own by (auto simp: pump_keeps_def reader_ok_def split: sum.split)
  next
    case (Give f)
    then show ?thesis using Cons rest own by (simp add: pump_keeps_def)
  next
    case Confirm
    then show ?thesis using Cons rest own by (simp add: pump_keeps_def confirm_def)
  next
    case (Drop_name name)
    show ?thesis
    proof (cases "map_of (rd_subscribed rd) name")
      case None
      then show ?thesis using Cons Drop_name rest own by (simp add: pump_keeps_def)
    next
      case (Some c)
      have "name = Channel_String c" using ok Some names_ok_map_of by (auto simp: reader_ok_def)
      then show ?thesis
        using Cons Drop_name Some ok own names_ok_delete length_delete_le [of name "rd_subscribed rd"]
        by (auto simp: pump_keeps_def reader_ok_def delete_conv')
    qed
  qed
qed

lemma deliver_task_ok:
  assumes "do_flush E (ts, st) = (ts', st')" and "\<forall>t \<in> set ts. ftask_ok t"
  shows "(\<forall>t \<in> set ts'. ftask_ok t) \<and> rt_hub st' = rt_hub st \<and> rt_world st' = rt_world st
    \<and> ((\<forall>j. queue_ok E (rt_subs st j)) \<longrightarrow> (\<forall>j. queue_ok E (rt_subs st' j)))"
  using assms by (cases "(E, ts, st)" rule: do_flush.cases) (auto split: if_splits sum.splits)

lemma system_okD:
  assumes "system_ok E s"
  shows "channels_ok (rt_hub (sy_rt s))" "agrees s" "names_ok (hb_dirty (rt_hub (sy_rt s)))"
    "sy_readers s i = Some rd \<Longrightarrow> reader_ok E rd" "t \<in> set (sy_flusher s) \<Longrightarrow> ftask_ok t" "queue_ok E (rt_subs (sy_rt s) j)"
  using assms by (auto simp: system_ok_def)

lemma listens_readers: "i \<noteq> j \<Longrightarrow> listens (s\<lparr>sy_rt := st, sy_readers := (sy_readers s)(j := r)\<rparr>) i name = listens s i name"
  by (simp add: listens_def)

lemma system_ok_step:
  assumes reg: "he_registry E = NewRegistry" and room: "0 \<le> MaxChannels (he_cfg E)"
    and ok: "system_ok E s" and step: "system_step E e s = Some s'"
  shows "system_ok E s'"
proof (cases e)
  case (Outside w)
  then show ?thesis using ok step by (auto simp: system_ok_def agrees_def listens_def split: if_splits)
next
  case (Notice_in payload)
  define h where "h = bridge_handle (he_registry E) payload (rt_hub (sy_rt s))"
  have "scope_ok (ch_Scope c)" if "ParseChannel raw (he_registry E) = Inr c" for raw c
    using that reg ParseChannel_iff by simp
  then have h: "subscribers_of h name = subscribers_of (rt_hub (sy_rt s)) name" "channels_ok h" "names_ok (hb_dirty h)" for name
    using system_okD(1,3) [OF ok] names_ok_update unfolding h_def bridge_handle_def
    by (auto split: option.split sum.split)
  have "s' = s\<lparr>sy_rt := (sy_rt s)\<lparr>rt_hub := h\<rparr>\<rparr>" using Notice_in step by (simp add: h_def)
  then show ?thesis using ok h by (simp add: system_ok_def agrees_def listens_def)
next
  case (Open_conn i)
  then show ?thesis
    using ok step room
    by (auto simp: system_ok_def agrees_def listens_def open_conn_def queue_ok_def reader_ok_def split: if_splits)
next
  case (Message_in i data)
  then obtain rd where rd: "sy_readers s i = Some rd" "s' = s\<lparr>sy_readers := (sy_readers s)(i \<mapsto> rd\<lparr>rd_tasks := tasks_of data\<rparr>)\<rparr>"
    using step by (auto split: option.splits if_splits)
  have "listens s' j name = listens s j name" for j name by (simp add: listens_def rd)
  moreover have "reader_ok E (rd\<lparr>rd_tasks := tasks_of data\<rparr>)"
    using system_okD(4) [OF ok rd(1)] tasks_of_reads by (simp add: reader_ok_def)
  ultimately show ?thesis using ok by (auto simp: system_ok_def agrees_def rd(2))
next
  case (Read_step i)
  then obtain rd rd' st where r: "sy_readers s i = Some rd" and t: "do_task E i (rd, sy_rt s) = (rd', st)"
    and s': "s' = s\<lparr>sy_rt := st, sy_readers := (sy_readers s)(i \<mapsto> rd')\<rparr>"
    using step by (auto split: option.splits prod.splits)
  have own: "\<forall>name. i \<in> set (subscribers_of (rt_hub (sy_rt s)) name) \<longleftrightarrow> map_of (rd_subscribed rd) name \<noteq> None"
    using system_okD(2) [OF ok] r by (simp add: agrees_def listens_def)
  have keeps: "pump_keeps E i (sy_rt s) (rd', st)"
    using do_task_keeps [OF reg system_okD(4) [OF ok r] own] t by simp
  have "agrees s'"
    unfolding agrees_def
  proof (intro allI)
    fix j name
    show "j \<in> set (subscribers_of (rt_hub (sy_rt s')) name) \<longleftrightarrow> listens s' j name"
      using keeps system_okD(2) [OF ok] s' by (cases "j = i") (auto simp: pump_keeps_def agrees_def listens_def)
  qed
  then show ?thesis using keeps ok s' by (auto simp: system_ok_def pump_keeps_def)
next
  case (Close_conn i)
  then have s': "s' = s\<lparr>sy_rt := close_conn i (sy_rt s), sy_readers := (sy_readers s)(i := None)\<rparr>"
    using step by (auto split: option.splits if_splits)
  have "listens s' j name \<longleftrightarrow> j \<noteq> i \<and> listens s j name" for j name by (simp add: listens_def s')
  then show ?thesis using ok by (auto simp: system_ok_def agrees_def close_conn_def s')
next
  case (Drain i)
  then obtain f fs where q: "su_send (rt_subs (sy_rt s) i) = f # fs"
    and s': "s' = s\<lparr>sy_rt := (sy_rt s)\<lparr>rt_subs := (rt_subs (sy_rt s))(i := (rt_subs (sy_rt s) i)\<lparr>su_send := fs\<rparr>)\<rparr>,
      sy_seen := (sy_seen s)(i := sy_seen s i @ [f])\<rparr>"
    using step by (auto simp: drain_def split: list.splits)
  have "queue_ok E ((rt_subs (sy_rt s) i)\<lparr>su_send := fs\<rparr>)" using system_okD(6) [OF ok, of i] q by (simp add: queue_ok_def)
  then show ?thesis using ok by (simp add: system_ok_def agrees_def listens_def s')
next
  case (Start_flush visits)
  have "mset visits = mset (map snd (hb_dirty (rt_hub (sy_rt s))))"
    using step Start_flush by (simp add: takeDirty_def Let_def split: if_splits)
  then have "set visits = snd ` set (hb_dirty (rt_hub (sy_rt s)))" by (metis list.set_map mset_eq_setD)
  then have "scope_ok (ch_Scope c)" if "c \<in> set visits" for c
    using that system_okD(3) [OF ok] by (auto simp: names_ok_def)
  then show ?thesis
    using Start_flush ok step by (auto simp: system_ok_def agrees_def listens_def takeDirty_def Let_def split: if_splits)
next
  case Flush_step
  then obtain ts st where t: "do_flush E (sy_flusher s, sy_rt s) = (ts, st)" and s': "s' = s\<lparr>sy_rt := st, sy_flusher := ts\<rparr>"
    using step by (auto split: prod.splits)
  show ?thesis
    using deliver_task_ok [OF t] ok by (auto simp: system_ok_def agrees_def listens_def s')
qed

lemma system_ok_start: "system_ok E (start_system w)"
  by (simp add: system_ok_def start_system_def agrees_def listens_def queue_ok_def)

lemma system_reachable_ok:
  assumes "he_registry E = NewRegistry" and "0 \<le> MaxChannels (he_cfg E)" and "hub_reachable E s"
  shows "system_ok E s"
  using assms(3) by induction (auto intro: system_ok_start system_ok_step [OF assms(1,2)])

end
