(* ===== verification/Hub_Fresh.thy ===== *)
theory Hub_Fresh
  imports Hub_Spec
begin

text \<open>
  How fresh the frames are that a client ends up with, by the time each snapshot is stamped with. A notice is
  followed by frames at least as fresh for everyone who listens already (\<open>served\<close> is the invariant); a client
  that is just subscribing can be left with an older frame.
\<close>

section \<open>Stamps\<close>

text \<open>The stamp of a frame that is a snapshot of a channel, and all of them in what a client gets.\<close>

fun stamp :: "string \<Rightarrow> frame \<Rightarrow> time option" where
  "stamp name (Snapshot_frame sn) = (if sn_Channel sn = name then Some (sn_At sn) else None)"
| "stamp name _ = None"

definition stamps :: "string \<Rightarrow> frame list \<Rightarrow> time list" where
  "stamps name fs = List.map_filter (stamp name) fs"

definition stream :: "'w hub_system \<Rightarrow> conn \<Rightarrow> frame list" where
  "stream s i = sy_seen s i @ su_send (rt_subs (sy_rt s) i)"

definition fresh :: "string \<Rightarrow> time \<Rightarrow> frame list \<Rightarrow> bool" where
  "fresh name t fs \<longleftrightarrow> stamps name fs \<noteq> [] \<and> t \<le> last (stamps name fs)"

lemma stamps_append [simp]: "stamps name (fs @ [f]) = stamps name fs @ (case stamp name f of None \<Rightarrow> [] | Some t \<Rightarrow> [t])"
  by (simp add: stamps_def map_filter_def split: option.split)

lemma fresh_append: "fresh name t (fs @ [f]) = (case stamp name f of None \<Rightarrow> fresh name t fs | Some t' \<Rightarrow> t \<le> t')"
  by (auto simp: fresh_def split: option.split)

section \<open>Who is served\<close>

fun not_older :: "channel \<Rightarrow> time \<Rightarrow> ftask \<Rightarrow> bool" where
  "not_older c t (Copy c' f) \<longleftrightarrow>
     (case stamp (Channel_String c) f of None \<Rightarrow> c' \<noteq> c | Some t' \<Rightarrow> t \<le> t')"
| "not_older c t (Send j f) \<longleftrightarrow> (case stamp (Channel_String c) f of None \<Rightarrow> True | Some t' \<Rightarrow> t \<le> t')"
| "not_older c t _ \<longleftrightarrow> True"

fun serving :: "conn \<Rightarrow> channel \<Rightarrow> ftask \<Rightarrow> bool" where
  "serving i c (Visit c') \<longleftrightarrow> c' = c"
| "serving i c (Fetch c') \<longleftrightarrow> c' = c"
| "serving i c (Copy c' f) \<longleftrightarrow> c' = c"
| "serving i c (Send j f) \<longleftrightarrow> j = i \<and> stamp (Channel_String c) f \<noteq> None"

definition marked :: "'w hub_system \<Rightarrow> channel \<Rightarrow> bool" where
  "marked s c \<longleftrightarrow> Channel_String c \<in> fst ` set (hb_dirty (rt_hub (sy_rt s)))"

definition content :: "'w hub_system \<Rightarrow> conn \<Rightarrow> channel \<Rightarrow> time \<Rightarrow> bool" where
  "content s i c t \<longleftrightarrow> fresh (Channel_String c) t (stream s i) \<or> su_dropped (rt_subs (sy_rt s) i)
     \<or> i \<notin> set (subscribers_of (rt_hub (sy_rt s)) (Channel_String c))"

definition served :: "'w hub_env \<Rightarrow> 'w hub_system \<Rightarrow> conn \<Rightarrow> channel \<Rightarrow> time \<Rightarrow> bool" where
  "served E s i c t \<longleftrightarrow> t \<le> he_now E (rt_world (sy_rt s)) \<and>
     (marked s c \<or> (\<forall>x \<in> set (sy_flusher s). not_older c t x) \<and> ((\<exists>x \<in> set (sy_flusher s). serving i c x) \<or> content s i c t))"

text \<open>A client that has no opening snapshot of the channel under way, and events that start none and read the board when due.\<close>

fun settled_task :: "channel \<Rightarrow> task \<Rightarrow> bool" where
  "settled_task c (Try_name name) \<longleftrightarrow> name \<noteq> Channel_String c"
| "settled_task c (Read_board c') \<longleftrightarrow> c' \<noteq> c"
| "settled_task c (Give f) \<longleftrightarrow> stamp (Channel_String c) f = None"
| "settled_task c _ \<longleftrightarrow> True"

definition settled :: "'w hub_system \<Rightarrow> conn \<Rightarrow> channel \<Rightarrow> bool" where
  "settled s i c \<longleftrightarrow> (case sy_readers s i of None \<Rightarrow> True | Some rd \<Rightarrow> \<forall>t \<in> set (rd_tasks rd). settled_task c t)"

definition quiet_event :: "'w hub_env \<Rightarrow> conn \<Rightarrow> channel \<Rightarrow> 'w event \<Rightarrow> 'w hub_system \<Rightarrow> bool" where
  "quiet_event E i c e s \<longleftrightarrow>
     (case e of
        Message_in j data \<Rightarrow> j \<noteq> i \<or> Try_name (Channel_String c) \<notin> set (tasks_of data)
      | Flush_step \<Rightarrow>
          (case sy_flusher s of
             Fetch c' # _ \<Rightarrow> c' \<noteq> c \<or> (case hub_snapshot E (rt_world (sy_rt s)) c of Inl _ \<Rightarrow> False | Inr _ \<Rightarrow> True)
           | _ \<Rightarrow> True)
      | _ \<Rightarrow> True)"

fun quiet_run :: "'w hub_env \<Rightarrow> conn \<Rightarrow> channel \<Rightarrow> 'w event list \<Rightarrow> 'w hub_system \<Rightarrow> bool" where
  "quiet_run E i c [] s \<longleftrightarrow> True"
| "quiet_run E i c (e # es) s \<longleftrightarrow>
     quiet_event E i c e s \<and> (case system_step E e s of None \<Rightarrow> True | Some s' \<Rightarrow> quiet_run E i c es s')"

section \<open>Steps\<close>

lemma push_stream:
  "su_send (push s f) = su_send s @ [f] \<and> su_dropped (push s f) = su_dropped s \<or> su_send (push s f) = su_send s \<and> su_dropped (push s f)"
  by (simp add: push_def)

lemma push_fresh:
  assumes "stamp name f = None" and "fresh name t (seen @ su_send s) \<or> su_dropped s"
  shows "fresh name t (seen @ su_send (push s f)) \<or> su_dropped (push s f)"
  using assms fresh_append [of name t "seen @ su_send s" f] by (auto simp: push_def)

definition own_ok :: "conn \<Rightarrow> channel \<Rightarrow> 'w realtime \<Rightarrow> reader \<times> 'w realtime \<Rightarrow> bool" where
  "own_ok i c st p \<longleftrightarrow>
     (case p of (rd, st') \<Rightarrow> (\<forall>t \<in> set (rd_tasks rd). settled_task c t)
       \<and> (rt_subs st' i = rt_subs st i \<or> (\<exists>f. stamp (Channel_String c) f = None \<and> rt_subs st' i = push (rt_subs st i) f))
       \<and> (subscribers_of (rt_hub st') (Channel_String c) = subscribers_of (rt_hub st) (Channel_String c)
          \<or> i \<notin> set (subscribers_of (rt_hub st') (Channel_String c))))"

lemma own_push: "stamp (Channel_String c) f = None \<Longrightarrow>
    \<exists>g. stamp (Channel_String c) g = None \<and> push (rt_subs st i) f = push (rt_subs st i) g"
  by blast

text \<open>What one task of the client's own read pump does to it.\<close>

lemma own_task:
  assumes reg: "he_registry E = NewRegistry" and ok: "reader_ok E rd"
    and own: "\<forall>t \<in> set (rd_tasks rd). settled_task c t" and c: "scope_ok (ch_Scope c)"
  shows "own_ok i c st (do_task E i (rd, st))"
proof (cases "rd_tasks rd")
  case Nil
  then show ?thesis using own by (simp add: own_ok_def)
next
  case (Cons t ts)
  have rest: "\<forall>t \<in> set ts. settled_task c t" and t: "settled_task c t" using own Cons by simp_all
  have err: "stamp (Channel_String c) (Error_frame e) = None" for e by simp
  show ?thesis
  proof (cases t)
    case (Try_name name)
    have name: "name \<noteq> Channel_String c" using t Try_name by simp
    show ?thesis
    proof (cases "MaxChannels (he_cfg E) \<le> int (length (rd_subscribed rd))")
      case True
      then show ?thesis using Cons Try_name own_push [OF err] by (auto simp: own_ok_def reject_def)
    next
      case room: False
      show ?thesis
      proof (cases "ParseChannel name (he_registry E)")
        case (Inl e)
        then show ?thesis using Cons Try_name room rest own_push [OF err] by (auto simp: own_ok_def reject_def)
      next
        case (Inr c')
        then have c': "name = Channel_String c'" using reg ParseChannel_iff by simp
        then have "c' \<noteq> c" using name by auto
        then show ?thesis using Cons Try_name room Inr rest name c' by (auto simp: own_ok_def)
      qed
    qed
  next
    case (Read_board c')
    then have "c' \<noteq> c" using t by simp
    then have "Channel_String c' \<noteq> Channel_String c"
      using Channel_String_inj [of c' c] ok c Cons Read_board by (auto simp: reader_ok_def)
    then have "hub_snapshot E (rt_world st) c' = Inr f \<Longrightarrow> stamp (Channel_String c) f = None" for f
      by (auto simp: hub_snapshot_def and_then_def split: sum.splits option.splits)
    then show ?thesis using Cons Read_board rest by (auto simp: own_ok_def split: sum.split)
  next
    case (Give f)
    then show ?thesis using Cons rest t own_push by (auto simp: own_ok_def)
  next
    case Confirm
    then show ?thesis
      using Cons rest own_push [of c "Subscribed_frame (map fst (rd_subscribed rd)) (milliseconds (FlushInterval (he_cfg E)))"]
      by (auto simp: own_ok_def confirm_def)
  next
    case (Drop_name name)
    then show ?thesis using Cons rest by (auto simp: own_ok_def split: option.split)
  qed
qed

text \<open>The tasks of the other read pumps leave the client alone.\<close>

lemma other_task: "j \<noteq> i \<Longrightarrow> rt_subs (snd (do_task E j (rd, st))) i = rt_subs st i"
  by (auto simp: reject_def confirm_def split: list.split task.split sum.split option.split)

lemma do_task_world: "rt_world (snd (do_task E j (rd, st))) = rt_world st"
  by (auto simp: reject_def confirm_def split: list.split task.split sum.split option.split)

lemma served_flush:
  assumes served: "served E s i c t" and ok: "system_ok E s" and c: "scope_ok (ch_Scope c)"
    and quiet: "quiet_event E i c Flush_step s" and run: "do_flush E (sy_flusher s, sy_rt s) = (ts, st)"
  shows "served E (s\<lparr>sy_rt := st, sy_flusher := ts\<rparr>) i c t"
proof (cases "sy_flusher s")
  case Nil
  then show ?thesis using served run by (simp add: served_def marked_def content_def stream_def)
next
  case (Cons x xs)
  let ?n = "Channel_String c"
  have now: "t \<le> he_now E (rt_world (sy_rt s))" using served by (simp add: served_def)
  have same: "rt_hub st = rt_hub (sy_rt s)" "rt_world st = rt_world (sy_rt s)"
    using deliver_task_ok [OF run] ok by (auto simp: system_ok_def)
  show ?thesis
  proof (cases "marked s c")
    case True
    then show ?thesis using now same by (simp add: served_def marked_def)
  next
    case False
    then have old: "not_older c t x" "\<forall>y \<in> set xs. not_older c t y"
      and serve: "serving i c x \<or> (\<exists>y \<in> set xs. serving i c y) \<or> content s i c t"
      using served Cons by (auto simp: served_def)
    show ?thesis
    proof (cases x)
      case (Visit c')
      then have "ts = (if Subscribers (rt_hub (sy_rt s)) c' = 0 then xs else Fetch c' # xs)" "st = sy_rt s"
        using run Cons by auto
      then show ?thesis
        using now old serve Visit by (auto simp: served_def content_def stream_def Subscribers_def)
    next
      case (Fetch c')
      show ?thesis
      proof (cases "hub_snapshot E (rt_world (sy_rt s)) c'")
        case (Inl e)
        then have "c' \<noteq> c" using quiet Cons Fetch by (auto simp: quiet_event_def)
        then show ?thesis using run Cons Fetch Inl now old serve by (auto simp: served_def content_def stream_def)
      next
        case (Inr f)
        have "not_older c t (Copy c' f)"
          using Inr now by (auto simp: hub_snapshot_def and_then_def split: sum.splits option.splits if_splits)
        then show ?thesis using run Cons Fetch Inr now old serve by (auto simp: served_def content_def stream_def)
      qed
    next
      case (Copy c' f)
      have "not_older c t (Send j f)" for j using old(1) Copy by (auto split: option.splits)
      moreover have "stamp ?n f \<noteq> None" if "c' = c" using old(1) Copy that by (auto split: option.splits)
      moreover have ts: "ts = map (\<lambda>i. Send i f) (subscribers_of (rt_hub (sy_rt s)) (Channel_String c')) @ xs" "st = sy_rt s"
        using run Cons Copy by auto
      ultimately have "(\<exists>y \<in> set ts. serving i c y) \<or> content (s\<lparr>sy_rt := st, sy_flusher := ts\<rparr>) i c t"
      proof (cases "c' = c \<and> i \<in> set (subscribers_of (rt_hub (sy_rt s)) ?n)")
        case True
        then have "Send i f \<in> set ts" "serving i c (Send i f)" using ts(1) \<open>c' = c \<Longrightarrow> stamp ?n f \<noteq> None\<close> by auto
        then show ?thesis by blast
      next
        case False
        then show ?thesis using serve Copy ts by (auto simp: content_def stream_def)
      qed
      then show ?thesis using now old(2) ts \<open>\<And>j. not_older c t (Send j f)\<close> by (auto simp: served_def)
    next
      case (Send j f)
      then have st: "ts = xs" "st = snd (deliver j f (sy_rt s))" using run Cons by simp_all
      show ?thesis
      proof (cases "j = i")
        case False
        then show ?thesis using Send st now old serve by (auto simp: served_def content_def stream_def)
      next
        case True
        let ?s = "s\<lparr>sy_rt := st, sy_flusher := ts\<rparr>"
        have "content ?s i c t \<or> (\<exists>y \<in> set xs. serving i c y)"
          using old(1) serve Send True st push_stream [of "rt_subs (sy_rt s) i" f]
          by (auto simp: content_def stream_def fresh_append append_assoc [symmetric] simp del: append_assoc split: option.splits)
        then show ?thesis using now old(2) same st(1) by (auto simp: served_def)
      qed
    qed
  qed
qed

text \<open>A step that neither flushes nor touches the marks keeps whoever is content.\<close>

lemma served_keep:
  assumes "served E s i c t" and "he_now E (rt_world (sy_rt s)) \<le> he_now E (rt_world (sy_rt s'))"
    and "sy_flusher s' = sy_flusher s" and "marked s c \<Longrightarrow> marked s' c"
    and "content s i c t \<Longrightarrow> content s' i c t"
  shows "served E s' i c t"
  using assms unfolding served_def by auto

lemma settled_some: "sy_readers s i = Some rd \<Longrightarrow> settled s i c = (\<forall>x \<in> set (rd_tasks rd). settled_task c x)"
  by (simp add: settled_def)

lemma settled_tasks_of: "Try_name (Channel_String c) \<notin> set (tasks_of data) \<Longrightarrow> x \<in> set (tasks_of data) \<Longrightarrow> settled_task c x"
  by (auto simp: tasks_of_def split: option.splits if_splits)

lemma served_step:
  assumes reg: "he_registry E = NewRegistry" and ok: "system_ok E s" and c: "scope_ok (ch_Scope c)"
    and step: "system_step E e s = Some s'" and quiet: "quiet_event E i c e s"
    and settled: "settled s i c" and served: "served E s i c t"
  shows "settled s' i c \<and> served E s' i c t"
proof (cases e)
  case (Outside w)
  then have s': "s' = s\<lparr>sy_rt := (sy_rt s)\<lparr>rt_world := w\<rparr>\<rparr>" and w: "he_now E (rt_world (sy_rt s)) \<le> he_now E w"
    using step by (auto split: if_splits)
  have "served E s' i c t"
    by (rule served_keep [OF served]) (simp_all add: s' w marked_def content_def stream_def)
  then show ?thesis using settled s' by (simp add: settled_def)
next
  case (Notice_in payload)
  then have s': "s' = s\<lparr>sy_rt := (sy_rt s)\<lparr>rt_hub := bridge_handle (he_registry E) payload (rt_hub (sy_rt s))\<rparr>\<rparr>"
    using step by simp
  have "served E s' i c t"
    by (rule served_keep [OF served])
      (auto simp: s' marked_def content_def stream_def bridge_handle_def dom_update split: option.split sum.split)
  then show ?thesis using settled s' by (simp add: settled_def)
next
  case (Open_conn j)
  then have none: "sy_readers s j = None"
    and s': "s' = s\<lparr>sy_rt := open_conn E j (sy_rt s), sy_readers := (sy_readers s)(j \<mapsto> pump [] []), sy_seen := (sy_seen s)(j := [])\<rparr>"
    using step by (auto split: if_splits)
  have "j = i \<Longrightarrow> i \<notin> set (subscribers_of (rt_hub (sy_rt s)) (Channel_String c))"
    using system_okD(2) [OF ok] none by (simp add: agrees_def listens_def)
  then have "served E s' i c t"
    by (intro served_keep [OF served]) (auto simp: s' marked_def content_def stream_def open_conn_def)
  then show ?thesis using settled s' by (auto simp: settled_def)
next
  case (Message_in j data)
  then obtain rd where s': "s' = s\<lparr>sy_readers := (sy_readers s)(j \<mapsto> rd\<lparr>rd_tasks := tasks_of data\<rparr>)\<rparr>"
    using step by (auto split: option.splits if_splits)
  have "served E s' i c t"
    by (rule served_keep [OF served]) (simp_all add: s' marked_def content_def stream_def)
  moreover have "settled s' i c"
    using settled quiet Message_in settled_tasks_of [of c data] by (auto simp: settled_def s' quiet_event_def)
  ultimately show ?thesis by blast
next
  case (Read_step j)
  then obtain rd rd' st where r: "sy_readers s j = Some rd" and d: "do_task E j (rd, sy_rt s) = (rd', st)"
    and s': "s' = s\<lparr>sy_rt := st, sy_readers := (sy_readers s)(j \<mapsto> rd')\<rparr>"
    using step by (auto split: option.splits prod.splits)
  have own: "\<forall>name. j \<in> set (subscribers_of (rt_hub (sy_rt s)) name) \<longleftrightarrow> map_of (rd_subscribed rd) name \<noteq> None"
    using system_okD(2) [OF ok] r by (simp add: agrees_def listens_def)
  have keeps: "pump_keeps E j (sy_rt s) (rd', st)"
    using do_task_keeps [OF reg system_okD(4) [OF ok r] own] d by simp
  have world: "rt_world st = rt_world (sy_rt s)" using do_task_world [of E j rd "sy_rt s"] d by simp
  show ?thesis
  proof (cases "j = i")
    case True
    have o: "own_ok i c (sy_rt s) (rd', st)"
      using own_task [OF reg system_okD(4) [OF ok r] _ c, of i "sy_rt s"] settled r d True by (simp add: settled_some)
    have "content s' i c t" if "content s i c t"
    proof -
      have "rt_subs st i = rt_subs (sy_rt s) i \<or> (\<exists>f. stamp (Channel_String c) f = None \<and> rt_subs st i = push (rt_subs (sy_rt s) i) f)"
        and subs: "subscribers_of (rt_hub st) (Channel_String c) = subscribers_of (rt_hub (sy_rt s)) (Channel_String c)
          \<or> i \<notin> set (subscribers_of (rt_hub st) (Channel_String c))"
        using o by (simp_all add: own_ok_def)
      then have "fresh (Channel_String c) t (sy_seen s i @ su_send (rt_subs (sy_rt s) i)) \<or> su_dropped (rt_subs (sy_rt s) i) \<Longrightarrow>
          fresh (Channel_String c) t (sy_seen s i @ su_send (rt_subs st i)) \<or> su_dropped (rt_subs st i)"
        using push_fresh [of "Channel_String c" _ t "sy_seen s i" "rt_subs (sy_rt s) i"] by metis
      then show ?thesis using that subs unfolding s' by (auto simp: content_def stream_def)
    qed
    then have "served E s' i c t"
      using keeps world by (intro served_keep [OF served]) (auto simp: s' marked_def pump_keeps_def)
    then show ?thesis using o True by (simp add: settled_def s' own_ok_def)
  next
    case False
    have "rt_subs st i = rt_subs (sy_rt s) i" using other_task [OF False, of E rd "sy_rt s"] d by simp
    then have "served E s' i c t"
      using keeps world False by (intro served_keep [OF served]) (auto simp: s' marked_def pump_keeps_def content_def stream_def)
    then show ?thesis using settled False by (simp add: settled_def s')
  qed
next
  case (Close_conn j)
  then have s': "s' = s\<lparr>sy_rt := close_conn j (sy_rt s), sy_readers := (sy_readers s)(j := None)\<rparr>"
    using step by (auto split: option.splits if_splits)
  have "served E s' i c t"
    by (rule served_keep [OF served]) (auto simp: s' marked_def content_def stream_def close_conn_def)
  then show ?thesis using settled by (auto simp: settled_def s')
next
  case (Drain j)
  then obtain f fs where q: "su_send (rt_subs (sy_rt s) j) = f # fs"
    and s': "s' = s\<lparr>sy_rt := (sy_rt s)\<lparr>rt_subs := (rt_subs (sy_rt s))(j := (rt_subs (sy_rt s) j)\<lparr>su_send := fs\<rparr>)\<rparr>,
      sy_seen := (sy_seen s)(j := sy_seen s j @ [f])\<rparr>"
    using step by (auto simp: drain_def split: list.splits)
  have "stream s' i = stream s i" using q by (simp add: stream_def s')
  then have "served E s' i c t"
    by (intro served_keep [OF served]) (auto simp: s' marked_def content_def)
  then show ?thesis using settled s' by (simp add: settled_def)
next
  case (Start_flush visits)
  then have idle: "sy_flusher s = []" and m: "mset visits = mset (map snd (hb_dirty (rt_hub (sy_rt s))))"
    and s': "s' = s\<lparr>sy_rt := (sy_rt s)\<lparr>rt_hub := (rt_hub (sy_rt s))\<lparr>hb_dirty := []\<rparr>\<rparr>, sy_flusher := map Visit visits\<rparr>"
    using step by (auto simp: takeDirty_def Let_def split: if_splits)
  have v: "set visits = snd ` set (hb_dirty (rt_hub (sy_rt s)))" using m by (metis list.set_map mset_eq_setD)
  have "c \<in> set visits" if m: "marked s c"
  proof -
    obtain c' where "(Channel_String c, c') \<in> set (hb_dirty (rt_hub (sy_rt s)))" using m by (auto simp: marked_def)
    moreover from this have "c' = c"
      using system_okD(3) [OF ok] Channel_String_inj [OF c, of c'] by (auto simp: names_ok_def)
    ultimately show ?thesis unfolding v by force
  qed
  then have "served E s' i c t"
    using served idle by (auto simp: served_def s' content_def stream_def)
  then show ?thesis using settled s' by (simp add: settled_def)
next
  case Flush_step
  then obtain ts st where d: "do_flush E (sy_flusher s, sy_rt s) = (ts, st)" and s': "s' = s\<lparr>sy_rt := st, sy_flusher := ts\<rparr>"
    using step by (auto split: prod.splits)
  show ?thesis
    using served_flush [OF served ok c quiet [unfolded Flush_step] d] settled by (simp add: s' settled_def)
qed

lemma served_run:
  assumes "he_registry E = NewRegistry" and "0 \<le> MaxChannels (he_cfg E)" and c: "scope_ok (ch_Scope c)"
    and "system_run E es s = Some s'" and "quiet_run E i c es s"
    and "system_ok E s" and "settled s i c" and "served E s i c t"
  shows "served E s' i c t"
  using assms(4-)
proof (induction es arbitrary: s)
  case (Cons e es)
  obtain s1 where s1: "system_step E e s = Some s1" "system_run E es s1 = Some s'"
    using Cons.prems(1) by (auto split: option.splits)
  have "settled s1 i c \<and> served E s1 i c t"
    using served_step [OF assms(1) Cons.prems(3) c s1(1)] Cons.prems by simp
  moreover have "system_ok E s1" by (rule system_ok_step [OF assms(1,2) Cons.prems(3) s1(1)])
  ultimately show ?case using Cons.IH [OF s1(2)] Cons.prems(2) s1(1) by simp
qed simp

end
