(* ===== verification/Realtime_Spec.thy ===== *)
theory Realtime_Spec
  imports Hub_Fresh
begin

text \<open>
  The properties of the live updates: what every reachable state satisfies, what a flush delivers, how an
  announced change reaches the hub, and how fresh a client's frames are. \<open>demo_env\<close> is an instance whose
  world is a clock and the size of every board.
\<close>

section \<open>A flush\<close>

text \<open>The frames a flush of the channels \<open>cs\<close> has for a connection, and what a queue makes of frames.\<close>

definition frames_for :: "'w hub_env \<Rightarrow> 'w realtime \<Rightarrow> conn \<Rightarrow> channel list \<Rightarrow> frame list" where
  "frames_for E st i cs =
     concat (map (\<lambda>c. if i \<in> set (subscribers_of (rt_hub st) (Channel_String c))
       then (case hub_snapshot E (rt_world st) c of Inl _ \<Rightarrow> [] | Inr f \<Rightarrow> [f]) else []) cs)"

definition enqueue :: "subscriber \<Rightarrow> frame list \<Rightarrow> subscriber" where
  "enqueue s fs = s\<lparr>su_send := su_send s @ take (su_cap s - length (su_send s)) fs,
     su_dropped := su_dropped s \<or> su_cap s < length (su_send s) + length fs\<rparr>"

lemma push_all:
  "length (su_send s) \<le> su_cap s \<Longrightarrow> foldl push s fs = enqueue s fs"
proof (induction fs arbitrary: s)
  case Nil
  then show ?case by (cases s) (simp add: enqueue_def)
next
  case (Cons f fs)
  then have "foldl push s (f # fs) = enqueue (push s f) fs" by simp
  also have "\<dots> = enqueue s (f # fs)"
  proof (cases "length (su_send s) < su_cap s")
    case True
    then have "su_cap s - length (su_send s) = Suc (su_cap s - Suc (length (su_send s)))" by simp
    then show ?thesis using True by (simp add: enqueue_def push_def)
  next
    case False
    then show ?thesis using Cons.prems by (simp add: enqueue_def push_def)
  qed
  finally show ?case .
qed

lemma broadcast_fields [simp]:
  "rt_hub (broadcast c f st) = rt_hub st" "rt_world (broadcast c f st) = rt_world st"
  by (simp_all add: broadcast_def)

lemma broadcast_subs:
  "channels_ok (rt_hub st) \<Longrightarrow> rt_subs (broadcast c f st) i =
    (if i \<in> set (subscribers_of (rt_hub st) (Channel_String c)) then push (rt_subs st i) f else rt_subs st i)"
  by (simp add: broadcast_def deliver_all_subs channels_ok_distinct)

lemma flush_channels_subs:
  assumes "channels_ok (rt_hub st)"
  shows "rt_subs (flush_channels E cs st) i = foldl push (rt_subs st i) (frames_for E st i cs)
    \<and> rt_hub (flush_channels E cs st) = rt_hub st \<and> rt_world (flush_channels E cs st) = rt_world st"
  using assms
proof (induction cs arbitrary: st)
  case Nil
  then show ?case by (simp add: frames_for_def)
next
  case (Cons c cs)
  have none: "Subscribers (rt_hub st) c = 0 \<Longrightarrow> i \<notin> set (subscribers_of (rt_hub st) (Channel_String c))"
    by (simp add: Subscribers_def)
  have "frames_for E (broadcast c f st) i cs = frames_for E st i cs" for f
    by (simp add: frames_for_def cong: if_cong)
  then show ?case
    using Cons.IH [of st] Cons.IH [of "broadcast c f st" for f] Cons.prems none broadcast_subs [OF Cons.prems, of c _ i]
    by (auto simp: frames_for_def split: sum.split)
qed

text \<open>
  C20. A flush delivers exactly what is due. In whatever order it visits the changed channels, every queue gets one
  snapshot of each changed channel its connection listens to and that could be read, in that order, as far
  as the queue has room; a connection is dropped if and only if its frames did not fit, nobody else is
  affected by that, and afterwards no channel is marked.
\<close>

theorem flush_exact:
  assumes "channels_ok (rt_hub st)" and "length (su_send (rt_subs st i)) \<le> su_cap (rt_subs st i)"
  shows "rt_subs (Flush E ranging st) i =
      enqueue (rt_subs st i) (frames_for E st i (ranging (map snd (hb_dirty (rt_hub st)))))
    \<and> hb_dirty (rt_hub (Flush E ranging st)) = [] \<and> hb_channels (rt_hub (Flush E ranging st)) = hb_channels (rt_hub st)"
proof -
  let ?st = "st\<lparr>rt_hub := (rt_hub st)\<lparr>hb_dirty := []\<rparr>\<rparr>" and ?cs = "ranging (map snd (hb_dirty (rt_hub st)))"
  have "Flush E ranging st = flush_channels E ?cs ?st" by (simp add: Flush_def takeDirty_def)
  moreover have "frames_for E ?st i ?cs = frames_for E st i ?cs" by (simp add: frames_for_def cong: if_cong)
  ultimately show ?thesis
    using flush_channels_subs [of ?st E ?cs i] assms push_all [OF assms(2)] by simp
qed

section \<open>Notices\<close>

lemma unmarshal_marshal_notice: "unmarshal_notice (Text (marshal_notice s p)) = Some \<lparr>no_Scope = s, no_Period = period_str p\<rparr>"
  by (simp add: unmarshal_notice_def marshal_notice_def notice_fields_def json_simps)

lemma bridge_marks:
  assumes "scope_ok (ch_Scope c)"
  shows "bridge_handle NewRegistry (Text (marshal_notice (scope_Name (ch_Scope c)) (ch_Period c))) h = MarkDirty c h"
proof -
  have "ParseChannel (scope_Name (ch_Scope c) @ '':'' @ period_str (ch_Period c)) NewRegistry = Inr c"
    using assms ParseChannel_iff by (simp add: Channel_String_def)
  then show ?thesis by (simp add: bridge_handle_def unmarshal_marshal_notice)
qed

text \<open>The channels a score announces, in the order of the announcements, and the hub after messages of Pub/Sub.\<close>

fun announced :: "slug \<Rightarrow> (period \<Rightarrow> bool) \<Rightarrow> period list \<Rightarrow> channel list" where
  "announced game improved [] = []"
| "announced game improved (p # ps) =
     (if improved p then [\<lparr>ch_Scope = Game game, ch_Period = p\<rparr>, \<lparr>ch_Scope = Global, ch_Period = p\<rparr>] else [])
       @ announced game improved ps"

fun hear :: "(string \<times> json) list \<Rightarrow> hub \<Rightarrow> hub" where
  "hear [] h = h"
| "hear ((topic, j) # ms) h = hear ms (if topic = UpdateChannel then bridge_handle NewRegistry (Text j) h else h)"

definition notices_of :: "channel list \<Rightarrow> (string \<times> json) list" where
  "notices_of cs = map (\<lambda>c. (UpdateChannel, marshal_notice (scope_Name (ch_Scope c)) (ch_Period c))) cs"

lemma announced_ok: "game \<in> set (registry_Slugs NewRegistry) \<Longrightarrow> c \<in> set (announced game improved ps) \<Longrightarrow> scope_ok (ch_Scope c)"
  by (induction ps) (auto simp: scope_ok_def Global_def Game_def IsGlobal_def split: if_splits)

lemma hear_notices: "\<forall>c \<in> set cs. scope_ok (ch_Scope c) \<Longrightarrow> hear (notices_of cs) h = foldl (\<lambda>h c. MarkDirty c h) h cs"
  by (induction cs arbitrary: h) (simp_all add: notices_of_def bridge_marks)

lemma marked_by: "fst ` set (hb_dirty (foldl (\<lambda>h c. MarkDirty c h) h cs)) = fst ` set (hb_dirty h) \<union> Channel_String ` set cs"
  by (induction cs arbitrary: h) (auto simp: dom_update)

lemma announce_periods_notices:
  assumes law: "\<And>topic j r. msgs (publish topic j r) = msgs r @ [(topic, j)]" and "game \<in> set (registry_Slugs NewRegistry)"
    and "w_faults w = []"
  shows "\<exists>w'. announce_periods (Publisher_Publish publish) game improved ps w = (Inr (), w') \<and> w_faults w' = []
    \<and> w_db w' = w_db w \<and> msgs (w_redis w') = msgs (w_redis w) @ notices_of (announced game improved ps)"
  using assms(3)
proof (induction ps arbitrary: w)
  case Nil
  then show ?case by (simp add: notices_of_def)
next
  case (Cons p ps)
  have names: "scope_Name (Game game) = game"
    using assms(2) registry_slug_nonempty by (auto simp: scope_Name_def IsGlobal_def Game_def)
  show ?case
  proof (cases "improved p")
    case True
    let ?w = "w\<lparr>w_redis := publish UpdateChannel (marshal_notice (scope_Name Global) p)
      (publish UpdateChannel (marshal_notice game p) (w_redis w))\<rparr>"
    have "announce_periods (Publisher_Publish publish) game improved (p # ps) w
        = announce_periods (Publisher_Publish publish) game improved ps ?w"
      using True Cons.prems by (simp add: act_bind_def announce_scope_def act_catch_def Publisher_Publish_def redis_call_def)
    then show ?thesis using Cons.IH [of ?w] Cons.prems True by (simp add: law notices_of_def names)
  next
    case False
    then show ?thesis using Cons by simp
  qed
qed

text \<open>
  C21. What a score changes reaches the hub. When the boards announce through Pub/Sub and no call fails, a
  placement publishes one notice per changed board, its game's and the cross-game one of every period it
  improved, and a hub that hears the new messages marks exactly those channels besides the ones it had.
\<close>

theorem announcements_mark:
  assumes "\<And>topic j r. msgs (publish topic j r) = msgs r @ [(topic, j)]" and "game \<in> set (registry_Slugs NewRegistry)"
    and "w_faults w = []" and "b_announcer b = Some (Publisher_Publish publish)"
  shows "\<exists>w' ms. announce b game pl w = (Inr (), w') \<and> w_db w' = w_db w \<and> msgs (w_redis w') = msgs (w_redis w) @ ms
    \<and> (\<forall>h. fst ` set (hb_dirty (hear ms h)) = fst ` set (hb_dirty h) \<union>
        (\<Union>p \<in> {p. Improved pl p}. {game @ '':'' @ period_str p, ''global:'' @ period_str p}))"
proof -
  let ?cs = "announced game (Improved pl) Periods"
  obtain w' where w': "announce b game pl w = (Inr (), w')" "w_db w' = w_db w"
      "msgs (w_redis w') = msgs (w_redis w) @ notices_of ?cs"
    using announce_periods_notices [OF assms(1-3), of "Improved pl" Periods] assms(4) by (auto simp: announce_def)
  have game: "game \<noteq> ''''" using assms(2) registry_slug_nonempty by blast
  have strs: "Channel_String \<lparr>ch_Scope = Game game, ch_Period = p\<rparr> = game @ '':'' @ period_str p"
    "Channel_String \<lparr>ch_Scope = Global, ch_Period = p\<rparr> = ''global:'' @ period_str p" for p
    using game by (simp_all add: Channel_String_def scope_Name_def IsGlobal_def Game_def Global_def)
  have all: "p \<in> set Periods" for p by (cases p) (simp_all add: Periods_def)
  have "Channel_String ` set (announced game improved ps) =
      (\<Union>p \<in> {p \<in> set ps. improved p}. {game @ '':'' @ period_str p, ''global:'' @ period_str p})" for improved ps
  proof (induction ps)
    case (Cons a ps)
    have "{p \<in> set (a # ps). improved p} = (if improved a then insert a {p \<in> set ps. improved p} else {p \<in> set ps. improved p})"
      by auto
    moreover have "f ` {x. x = v \<or> x = w} = {f v, f w}" for f :: "channel \<Rightarrow> string" and v w by auto
    ultimately show ?case by (simp add: strs Cons image_Un)
  qed simp
  then have names: "Channel_String ` set ?cs = (\<Union>p \<in> {p. Improved pl p}. {game @ '':'' @ period_str p, ''global:'' @ period_str p})"
    using all by simp
  have "\<forall>c \<in> set ?cs. scope_ok (ch_Scope c)" using announced_ok [OF assms(2)] by blast
  then show ?thesis using w' hear_notices [of ?cs] marked_by [of _ ?cs] names by (intro exI [of _ w'] exI [of _ "notices_of ?cs"]) simp
qed

section \<open>The system\<close>

text \<open>
  C18. In every state that any interleaving reaches: a connection is listed under a channel exactly when its read
  pump has subscribed to it, no channel is kept without subscribers and none lists a connection twice, a
  connection has at most the allowed number of channels, a queue never holds more than its buffer, and
  whatever board a goroutine is about to read is a real one.
\<close>

theorem hub_invariant:
  assumes "he_registry E = NewRegistry" and "0 \<le> MaxChannels (he_cfg E)" and "hub_reachable E s"
  shows "(\<forall>i name. i \<in> set (subscribers_of (rt_hub (sy_rt s)) name) \<longleftrightarrow>
      (\<exists>rd. sy_readers s i = Some rd \<and> map_of (rd_subscribed rd) name \<noteq> None))
    \<and> (\<forall>name is. hb_channels (rt_hub (sy_rt s)) name = Some is \<longrightarrow> is \<noteq> [] \<and> distinct is)
    \<and> (\<forall>i rd. sy_readers s i = Some rd \<longrightarrow> int (length (rd_subscribed rd)) \<le> MaxChannels (he_cfg E))
    \<and> (\<forall>i. length (su_send (rt_subs (sy_rt s) i)) \<le> nat (SendBuffer (he_cfg E)))
    \<and> (\<forall>i rd c. sy_readers s i = Some rd \<and> Read_board c \<in> set (rd_tasks rd) \<longrightarrow> scope_ok (ch_Scope c))
    \<and> (\<forall>c. Fetch c \<in> set (sy_flusher s) \<longrightarrow> scope_ok (ch_Scope c))"
proof -
  note ok = system_reachable_ok [OF assms]
  have "\<forall>i name. listens s i name \<longleftrightarrow> (\<exists>rd. sy_readers s i = Some rd \<and> map_of (rd_subscribed rd) name \<noteq> None)"
    by (simp add: listens_def split: option.split)
  then have "\<forall>i name. i \<in> set (subscribers_of (rt_hub (sy_rt s)) name) \<longleftrightarrow>
      (\<exists>rd. sy_readers s i = Some rd \<and> map_of (rd_subscribed rd) name \<noteq> None)"
    using system_okD(2) [OF ok] by (simp add: agrees_def)
  moreover have "\<forall>i. length (su_send (rt_subs (sy_rt s) i)) \<le> nat (SendBuffer (he_cfg E))"
    using system_okD(6) [OF ok] by (meson queue_ok_def le_trans)
  moreover have "\<forall>c. Fetch c \<in> set (sy_flusher s) \<longrightarrow> scope_ok (ch_Scope c)" using system_okD(5) [OF ok] by fastforce
  moreover have "\<forall>i rd. sy_readers s i = Some rd \<longrightarrow> reader_ok E rd" using system_okD(4) [OF ok] by blast
  ultimately show ?thesis using system_okD(1) [OF ok] by (auto simp: channels_ok_def reader_ok_def)
qed

text \<open>
  C19. Who listens gets what was announced. A notice of a board arrives while a client listens to it, with no
  opening snapshot of it under way. Then run anything, as long as the client does not ask for the channel again
  and reads of that board succeed when a flush makes them. Once the flush has ended and the channel is not marked, the client
  has left the channel, or was dropped, or the last snapshot of the channel it has got or has queued was
  taken after the notice arrived.
\<close>

theorem notice_served:
  assumes "he_registry E = NewRegistry" and "0 \<le> MaxChannels (he_cfg E)" and "hub_reachable E s" and c: "scope_ok (ch_Scope c)"
    and heard: "system_step E (Notice_in (Text (marshal_notice (scope_Name (ch_Scope c)) (ch_Period c)))) s = Some s1"
    and "settled s i c" and "system_run E es s1 = Some s2" and "quiet_run E i c es s1"
    and ended: "sy_flusher s2 = []" "Channel_String c \<notin> fst ` set (hb_dirty (rt_hub (sy_rt s2)))"
  shows "i \<notin> set (subscribers_of (rt_hub (sy_rt s2)) (Channel_String c)) \<or> su_dropped (rt_subs (sy_rt s2) i)
    \<or> stamps (Channel_String c) (stream s2 i) \<noteq> []
      \<and> he_now E (rt_world (sy_rt s)) \<le> last (stamps (Channel_String c) (stream s2 i))"
proof -
  have s1: "s1 = s\<lparr>sy_rt := (sy_rt s)\<lparr>rt_hub := MarkDirty c (rt_hub (sy_rt s))\<rparr>\<rparr>"
    using heard bridge_marks [OF c] assms(1) by simp
  have "served E s1 i c (he_now E (rt_world (sy_rt s)))" by (simp add: served_def s1 marked_def dom_update)
  moreover have "settled s1 i c" using assms(6) by (simp add: settled_def s1)
  moreover have "system_ok E s1" by (rule system_ok_step [OF assms(1,2) system_reachable_ok [OF assms(1-3)] heard])
  ultimately have "served E s2 i c (he_now E (rt_world (sy_rt s)))"
    using served_run [OF assms(1,2) c assms(7,8)] by blast
  then show ?thesis using ended by (auto simp: served_def marked_def content_def fresh_def)
qed

section \<open>An instance\<close>

text \<open>A world is the time and the size of every board.\<close>

definition demo_env :: "(time \<times> int) hub_env" where
  "demo_env =
     \<lparr>he_Page = \<lambda>(t, n) s p offset limit. Inr \<lparr>pg_Scope = scope_Name s, pg_Period = p, pg_Total = n, pg_Offset = offset, pg_Entries = []\<rparr>,
      he_now = fst,
      he_cfg = \<lparr>FlushInterval = 250 * millisecond, TopN = 10, SendBuffer = 16, TicketTTL = 30 * second, MaxChannels = 16,
        rt_WriteTimeout = 5 * second, PingInterval = 30 * second, MaxConnsPerUser = 5\<rparr>,
      he_registry = NewRegistry\<rparr>"

definition demo_channel :: channel where
  "demo_channel = \<lparr>ch_Scope = Global, ch_Period = Daily\<rparr>"

definition demo_subscribe :: raw_message where
  "demo_subscribe = Text (JObj [(''op'', JStr ''subscribe''), (''channels'', JArr [JStr ''global:daily''])])"

definition demo_notice :: raw_message where
  "demo_notice = Text (marshal_notice (scope_Name (ch_Scope demo_channel)) (ch_Period demo_channel))"

text \<open>A connection subscribes and reads the board; then the board changes, a flush runs, and only then is the first reading delivered.\<close>

definition demo_race :: "(time \<times> int) event list" where
  "demo_race = [Open_conn 1, Message_in 1 demo_subscribe, Read_step 1, Read_step 1, Outside (2, 20), Notice_in demo_notice,
     Start_flush [demo_channel], Flush_step, Flush_step, Flush_step, Flush_step, Read_step 1, Read_step 1]"

lemma demo_names:
  "Channel_String demo_channel = ''global:daily''" "scope_ok (ch_Scope demo_channel)"
  "ParseChannel ''global:daily'' NewRegistry = Inr demo_channel"
proof -
  show n: "Channel_String demo_channel = ''global:daily''"
    by (simp add: Channel_String_def demo_channel_def scope_Name_def IsGlobal_def Global_def)
  show o: "scope_ok (ch_Scope demo_channel)"
    by (simp add: demo_channel_def scope_ok_def IsGlobal_def Global_def)
  show "ParseChannel ''global:daily'' NewRegistry = Inr demo_channel"
    using ParseChannel_iff n o by simp
qed

lemma demo_tasks: "tasks_of demo_subscribe = [Try_name ''global:daily'', Confirm]"
  by (simp add: tasks_of_def demo_subscribe_def unmarshal_client_def client_fields_def strs_field_def json_simps)

lemma demo_fields:
  "he_registry demo_env = NewRegistry" "he_now demo_env = fst" "MaxChannels (he_cfg demo_env) = 16" "SendBuffer (he_cfg demo_env) = 16"
  by (simp_all add: demo_env_def)

lemma demo_mark: "bridge_handle NewRegistry demo_notice h = MarkDirty demo_channel h"
  unfolding demo_notice_def by (rule bridge_marks [OF demo_names(2)])

lemma demo_snapshot: "0 \<le> t \<Longrightarrow> t < 1000 \<Longrightarrow> hub_snapshot demo_env (t, n) demo_channel =
    Inr (Snapshot_frame \<lparr>sn_Channel = ''global:daily'', sn_Total = n, sn_Entries = [], sn_At = t\<rparr>)"
proof -
  assume t: "0 \<le> t" "t < 1000"
  have "date_time 0 1 1 \<le> (0::int)" "(1000::int) < date_time 10000 1 1" by code_simp+
  then have "date_time 0 1 1 \<le> t" "t < date_time 10000 1 1" using t by linarith+
  then show ?thesis by (simp add: hub_snapshot_def demo_env_def and_then_def demo_names marshal_time_def)
qed

lemmas demo_run_simps =
  demo_names demo_tasks demo_fields demo_mark demo_snapshot start_system_def open_conn_def takeDirty_def Let_def
  Subscribers_def push_def confirm_def reject_def


section \<open>Witnesses\<close>

definition demo_full :: "(time \<times> int) realtime" where
  "demo_full =
     \<lparr>rt_world = (1, 10), rt_hub = \<lparr>hb_channels = [''global:daily'' \<mapsto> [1, 2]], hb_dirty = [(''global:daily'', demo_channel)]\<rparr>,
      rt_subs = \<lambda>i. if i = 1 then \<lparr>su_send = [Pong_frame], su_cap = 1, su_dropped = False\<rparr>
        else \<lparr>su_send = [], su_cap = 1, su_dropped = False\<rparr>\<rparr>"

theorem flush_exact_witness:
  "su_dropped (rt_subs (Flush demo_env (\<lambda>cs. cs) demo_full) 1)
   \<and> rt_subs (Flush demo_env (\<lambda>cs. cs) demo_full) 2 =
      \<lparr>su_send = [Snapshot_frame \<lparr>sn_Channel = ''global:daily'', sn_Total = 10, sn_Entries = [], sn_At = 1\<rparr>], su_cap = 1, su_dropped = False\<rparr>"
proof -
  have ok: "channels_ok (rt_hub demo_full)" by (simp add: channels_ok_def demo_full_def)
  have room: "length (su_send (rt_subs demo_full i)) \<le> su_cap (rt_subs demo_full i)" for i by (simp add: demo_full_def)
  have frames: "frames_for demo_env demo_full i [demo_channel] =
      (if i \<in> {1, 2} then [Snapshot_frame \<lparr>sn_Channel = ''global:daily'', sn_Total = 10, sn_Entries = [], sn_At = 1\<rparr>] else [])" for i
    by (auto simp: frames_for_def demo_full_def subscribers_of_def demo_names demo_snapshot)
  have "hb_dirty (rt_hub demo_full) = [(''global:daily'', demo_channel)]"
    and "rt_subs demo_full 1 = \<lparr>su_send = [Pong_frame], su_cap = 1, su_dropped = False\<rparr>"
    and "rt_subs demo_full 2 = \<lparr>su_send = [], su_cap = 1, su_dropped = False\<rparr>"
    by (simp_all add: demo_full_def)
  then show ?thesis
    using flush_exact [OF ok room [of 1], of demo_env "\<lambda>cs. cs"] flush_exact [OF ok room [of 2], of demo_env "\<lambda>cs. cs"]
    by (simp add: frames enqueue_def)
qed

theorem announcements_mark_witness:
  "\<forall>R. \<exists>w' ms. announce \<lparr>b_redis = R, b_now = 0, b_announcer = Some (Publisher_Publish (\<lambda>topic j r. r @ [(topic, j)]))\<rparr> Memory
       \<lparr>Improved = (\<lambda>p. p = Daily), pl_Game = \<lambda>_. \<lparr>st_Points = 5, st_Rank = 1\<rparr>, pl_Global = \<lambda>_. \<lparr>st_Points = 5, st_Rank = 1\<rparr>\<rparr>
       \<lparr>w_db = empty_db, w_redis = [], w_faults = []\<rparr> = (Inr (), w')
     \<and> w_redis w' = ms \<and> fst ` set (hb_dirty (hear ms NewHub)) = {Memory @ '':daily'', ''global:daily''}"
proof
  fix R :: "(string \<times> json) list redis_ops"
  let ?publish = "\<lambda>topic j r. r @ [(topic, j)] :: (string \<times> json) list"
  let ?b = "\<lparr>b_redis = R, b_now = 0, b_announcer = Some (Publisher_Publish ?publish)\<rparr>"
  let ?pl = "\<lparr>Improved = (\<lambda>p. p = Daily), pl_Game = \<lambda>_. \<lparr>st_Points = 5, st_Rank = 1\<rparr>, pl_Global = \<lambda>_. \<lparr>st_Points = 5, st_Rank = 1\<rparr>\<rparr>"
  let ?w = "\<lparr>w_db = empty_db, w_redis = [], w_faults = []\<rparr> :: (string \<times> json) list service_world"
  have "\<exists>w' ms. announce ?b Memory ?pl ?w = (Inr (), w') \<and> w_db w' = w_db ?w \<and> id (w_redis w') = id (w_redis ?w) @ ms
    \<and> (\<forall>h. fst ` set (hb_dirty (hear ms h)) = fst ` set (hb_dirty h) \<union>
        (\<Union>p \<in> {p. Improved ?pl p}. {Memory @ '':'' @ period_str p, ''global:'' @ period_str p}))"
    by (rule announcements_mark [where publish = ?publish]) (simp_all add: registry_Slugs_new)
  then obtain w' ms where run: "announce ?b Memory ?pl ?w = (Inr (), w')" "id (w_redis w') = id (w_redis ?w) @ ms"
    and marks: "\<forall>h. fst ` set (hb_dirty (hear ms h)) = fst ` set (hb_dirty h) \<union>
        (\<Union>p \<in> {p. Improved ?pl p}. {Memory @ '':'' @ period_str p, ''global:'' @ period_str p})"
    by blast
  have ms: "w_redis w' = ms" using run(2) by simp
  have both: "fst ` set (hb_dirty (hear ms NewHub)) = {Memory @ '':daily'', ''global:daily''}"
    unfolding spec [OF marks, of NewHub] by simp
  then show "\<exists>w' ms. announce ?b Memory ?pl ?w = (Inr (), w') \<and> w_redis w' = ms
      \<and> fst ` set (hb_dirty (hear ms NewHub)) = {Memory @ '':daily'', ''global:daily''}"
    by (intro exI conjI) (rule run(1), rule ms, rule both)
qed

theorem hub_invariant_witness:
  "\<exists>s. system_run demo_env demo_race (start_system (1, 10)) = Some s
     \<and> (\<exists>rd. sy_readers s 1 = Some rd \<and> map_of (rd_subscribed rd) ''global:daily'' \<noteq> None)
     \<and> (\<forall>i. length (su_send (rt_subs (sy_rt s) i)) \<le> 16)"
proof -
  obtain s where s: "system_run demo_env demo_race (start_system (1, 10)) = Some s"
      "1 \<in> set (subscribers_of (rt_hub (sy_rt s)) ''global:daily'')"
    by (simp add: demo_race_def demo_run_simps)
  have "hub_reachable demo_env s" by (rule hub_reachable_run [OF hub_reachable.start s(1)])
  then have "(\<forall>i name. i \<in> set (subscribers_of (rt_hub (sy_rt s)) name) \<longleftrightarrow>
      (\<exists>rd. sy_readers s i = Some rd \<and> map_of (rd_subscribed rd) name \<noteq> None))"
    "\<forall>i. length (su_send (rt_subs (sy_rt s) i)) \<le> nat (SendBuffer (he_cfg demo_env))"
    using hub_invariant [of demo_env s] by (simp_all add: demo_fields)
  then show ?thesis using s by (simp add: demo_fields)
qed

definition demo_opening :: "(time \<times> int) event list" where
  "demo_opening = [Open_conn 1, Message_in 1 demo_subscribe, Read_step 1, Read_step 1, Read_step 1, Read_step 1, Outside (2, 20)]"

definition demo_flush :: "(time \<times> int) event list" where
  "demo_flush = [Start_flush [demo_channel], Flush_step, Flush_step, Outside (3, 30), Flush_step, Flush_step]"

theorem notice_served_witness:
  "\<exists>s s1 s2. system_run demo_env demo_opening (start_system (1, 10)) = Some s
     \<and> system_step demo_env (Notice_in demo_notice) s = Some s1 \<and> system_run demo_env demo_flush s1 = Some s2
     \<and> stamps ''global:daily'' (stream s2 1) \<noteq> [] \<and> 2 \<le> last (stamps ''global:daily'' (stream s2 1))"
proof -
  obtain s s1 s2 where s: "system_run demo_env demo_opening (start_system (1, 10)) = Some s" "settled s 1 demo_channel"
      "fst (rt_world (sy_rt s)) = 2"
    and s1: "system_step demo_env (Notice_in demo_notice) s = Some s1"
    and s2: "system_run demo_env demo_flush s1 = Some s2" "quiet_run demo_env 1 demo_channel demo_flush s1" "sy_flusher s2 = []"
      "hb_dirty (rt_hub (sy_rt s2)) = []" "1 \<in> set (subscribers_of (rt_hub (sy_rt s2)) ''global:daily'')"
      "\<not> su_dropped (rt_subs (sy_rt s2) 1)"
    by (simp add: demo_opening_def demo_flush_def demo_run_simps settled_def quiet_event_def)
  have "hub_reachable demo_env s" by (rule hub_reachable_run [OF hub_reachable.start s(1)])
  note there = this
  have "1 \<notin> set (subscribers_of (rt_hub (sy_rt s2)) (Channel_String demo_channel)) \<or> su_dropped (rt_subs (sy_rt s2) 1)
    \<or> stamps (Channel_String demo_channel) (stream s2 1) \<noteq> []
      \<and> he_now demo_env (rt_world (sy_rt s)) \<le> last (stamps (Channel_String demo_channel) (stream s2 1))"
    by (rule notice_served [OF demo_fields(1) _ there demo_names(2) s1 [unfolded demo_notice_def] s(2) s2(1,2,3)])
      (simp_all add: demo_fields s2(4))
  then show ?thesis using s s1 s2 by (auto simp: demo_names demo_fields)
qed

end
