(* ===== verification/Passwords.thy ===== *)
theory Passwords
  imports Base64 Config_Spec
begin

text \<open>
  \<open>internal/auth/password.go\<close>: password hashes that carry their salt and cost. The package \<open>argon2\<close> is a
  parameter: its version and its key function. \<open>fmt.Sscanf\<close> is modelled for the two formats the code
  uses. The salt of a hash is what the random source delivers, or nothing when it fails.
\<close>

section \<open>Scanning numbers\<close>

text \<open>
  A number may follow white space, but not a line break; a sign is read for a signed number only. What
  does not fit the width of the target is an error, and so is a missing digit; text behind the last
  number is not looked at.
\<close>

definition skip_space :: "string \<Rightarrow> string option" where
  "skip_space s =
     (let s' = strip (filter (\<lambda>p. p \<noteq> [newline]) utf8_spaces) s
      in if s' \<noteq> [] \<and> hd s' = newline then None else Some s')"

definition is_digit :: "char \<Rightarrow> bool" where
  "is_digit c \<longleftrightarrow> digit_val c \<noteq> None"

definition scan_uint :: "nat \<Rightarrow> string \<Rightarrow> (int \<times> string) option" where
  "scan_uint bits s =
     Option.bind (skip_space s) (\<lambda>s.
     Option.bind (parse_nat (takeWhile is_digit s)) (\<lambda>n.
     if n < 2 ^ bits then Some (int n, dropWhile is_digit s) else None))"

definition scan_int :: "string \<Rightarrow> (int \<times> string) option" where
  "scan_int s =
     Option.bind (skip_space s) (\<lambda>s.
     let signed = (s \<noteq> [] \<and> (hd s = CHR ''+'' \<or> hd s = CHR ''-''));
         s1 = (if signed then tl s else s)
     in Option.bind (parse_nat (takeWhile is_digit s1)) (\<lambda>n.
        let v = (if signed \<and> hd s = CHR ''-'' then - int n else int n)
        in if fits_int64 v then Some (v, dropWhile is_digit s1) else None))"

definition scan_lit :: "string \<Rightarrow> string \<Rightarrow> string option" where
  "scan_lit p s = (if take (length p) s = p then Some (drop (length p) s) else None)"

definition scan_version :: "string \<Rightarrow> int option" where
  "scan_version s = map_option fst (Option.bind (scan_lit ''v='' s) scan_int)"

definition scan_params :: "string \<Rightarrow> argon2_config option" where
  "scan_params s =
     Option.bind (scan_lit ''m='' s) (\<lambda>s. Option.bind (scan_uint 32 s) (\<lambda>(m, s).
     Option.bind (scan_lit '',t='' s) (\<lambda>s. Option.bind (scan_uint 32 s) (\<lambda>(t, s).
     Option.bind (scan_lit '',p='' s) (\<lambda>s. Option.bind (scan_uint 8 s) (\<lambda>(p, s).
     Some \<lparr>MemoryKiB = m, Iterations = t, Parallelism = p\<rparr>))))))"

section \<open>Hashing\<close>

text \<open>\<open>IDKey\<close> takes password, salt, iterations, memory, parallelism and the length of the key.\<close>

record argon2_ops =
  argon2_Version :: int
  IDKey :: "byte list \<Rightarrow> byte list \<Rightarrow> int \<Rightarrow> int \<Rightarrow> int \<Rightarrow> int \<Rightarrow> byte list"

definition saltLength :: nat where "saltLength = 16"
definition keyLength :: int where "keyLength = 32"

record hasher =
  hs_params :: argon2_config
  hs_decoy :: string

definition key_of :: "argon2_ops \<Rightarrow> argon2_config \<Rightarrow> byte list \<Rightarrow> string \<Rightarrow> int \<Rightarrow> byte list" where
  "key_of A params salt password n =
     IDKey A (str_bytes password) salt (Iterations params) (MemoryKiB params) (Parallelism params) n"

definition encode_hash :: "argon2_ops \<Rightarrow> argon2_config \<Rightarrow> byte list \<Rightarrow> byte list \<Rightarrow> string" where
  "encode_hash A params salt key =
     ''$argon2id$v='' @ itoa (argon2_Version A) @ ''$m='' @ itoa (MemoryKiB params) @ '',t='' @ itoa (Iterations params)
       @ '',p='' @ itoa (Parallelism params) @ ''$'' @ b64_encode std_alphabet salt @ ''$'' @ b64_encode std_alphabet key"

definition Hash :: "argon2_ops \<Rightarrow> argon2_config \<Rightarrow> byte list option \<Rightarrow> string \<Rightarrow> err + string" where
  "Hash A params entropy password =
     (case entropy of
        None \<Rightarrow> Inl ErrDB
      | Some salt \<Rightarrow> Inr (encode_hash A params salt (key_of A params salt password keyLength)))"

definition NewHasher :: "argon2_ops \<Rightarrow> argon2_config \<Rightarrow> byte list option \<Rightarrow> err + hasher" where
  "NewHasher A params entropy =
     and_then (Hash A params entropy ''podium-timing-equaliser'') (\<lambda>decoy. Inr \<lparr>hs_params = params, hs_decoy = decoy\<rparr>)"

section \<open>Verifying\<close>

definition decode_parts ::
    "argon2_ops \<Rightarrow> string \<Rightarrow> string \<Rightarrow> string \<Rightarrow> string \<Rightarrow> err + argon2_config \<times> byte list \<times> byte list" where
  "decode_parts A version params salt key =
     (case scan_version version of
        None \<Rightarrow> Inl ErrInvalidHash
      | Some v \<Rightarrow>
          if v \<noteq> argon2_Version A then Inl ErrInvalidHash
          else (case scan_params params of
            None \<Rightarrow> Inl ErrInvalidHash
          | Some ps \<Rightarrow>
              if Iterations ps = 0 \<or> MemoryKiB ps = 0 \<or> Parallelism ps = 0 then Inl ErrInvalidHash
              else (case b64_decode std_alphabet salt of
                None \<Rightarrow> Inl ErrInvalidHash
              | Some s \<Rightarrow>
                  if s = [] then Inl ErrInvalidHash
                  else (case b64_decode std_alphabet key of
                    None \<Rightarrow> Inl ErrInvalidHash
                  | Some k \<Rightarrow> if k = [] then Inl ErrInvalidHash else Inr (ps, s, k)))))"

definition decodeHash :: "argon2_ops \<Rightarrow> string \<Rightarrow> err + argon2_config \<times> byte list \<times> byte list" where
  "decodeHash A encoded =
     (case split_at (CHR ''$'') encoded of
        [p0, p1, p2, p3, p4, p5] \<Rightarrow>
          if p0 \<noteq> '''' \<or> p1 \<noteq> ''argon2id'' then Inl ErrInvalidHash else decode_parts A p2 p3 p4 p5
      | _ \<Rightarrow> Inl ErrInvalidHash)"

definition Verify :: "argon2_ops \<Rightarrow> string \<Rightarrow> string \<Rightarrow> err + bool" where
  "Verify A encoded password =
     and_then (decodeHash A encoded) (\<lambda>(params, salt, want).
     Inr (key_of A params salt password (to_uint32 (int (length want))) = want))"

definition NeedsRehash :: "argon2_ops \<Rightarrow> hasher \<Rightarrow> string \<Rightarrow> bool" where
  "NeedsRehash A h encoded =
     (case decodeHash A encoded of Inl _ \<Rightarrow> True | Inr (params, _, _) \<Rightarrow> params \<noteq> hs_params h)"

definition VerifyDecoy :: "argon2_ops \<Rightarrow> hasher \<Rightarrow> string \<Rightarrow> unit" where
  "VerifyDecoy A h password = (let _ = Verify A (hs_decoy h) password in ())"

section \<open>Round trips\<close>

lemma strip_other: "\<forall>p \<in> set ps. p \<noteq> [] \<and> hd p \<noteq> c \<Longrightarrow> strip ps (c # cs) = c # cs"
proof -
  assume a: "\<forall>p \<in> set ps. p \<noteq> [] \<and> hd p \<noteq> c"
  have "take (length p) (c # cs) \<noteq> p" if "p \<in> set ps" for p
    using bspec [OF a that] by (cases p) simp_all
  then have "find (\<lambda>p. take (length p) (c # cs) = p) ps = None" by (auto simp: find_None_iff)
  then have "strip_one ps (c # cs) = c # cs" by (simp add: strip_one_def)
  then show ?thesis by (subst strip.simps) (simp add: Let_def)
qed

lemma is_digit_digit_char [simp]: "n < 10 \<Longrightarrow> is_digit (digit_char n)"
  by (simp add: is_digit_def)

lemma spaces_not_digit:
  assumes "p \<in> set utf8_spaces"
  shows "p \<noteq> [] \<and> \<not> is_digit (hd p)"
  using assms by (auto simp: utf8_spaces_def is_digit_def digit_val_def Let_def)

lemma skip_space_digit:
  assumes "is_digit c"
  shows "skip_space (c # cs) = Some (c # cs)"
proof -
  have "\<forall>p \<in> set (filter (\<lambda>p. p \<noteq> [newline]) utf8_spaces). p \<noteq> [] \<and> hd p \<noteq> c"
    using spaces_not_digit assms by auto
  then have "strip (filter (\<lambda>p. p \<noteq> [newline]) utf8_spaces) (c # cs) = c # cs" by (rule strip_other)
  moreover have "c \<noteq> newline" using assms by (auto simp: is_digit_def newline_def digit_val_def Let_def)
  ultimately show ?thesis by (simp add: skip_space_def)
qed

definition ends_number :: "string \<Rightarrow> bool" where
  "ends_number rest \<longleftrightarrow> rest = [] \<or> \<not> is_digit (hd rest)"

lemma digits_split:
  assumes "ends_number rest"
  shows "takeWhile is_digit (nat_digits n @ rest) = nat_digits n" and "dropWhile is_digit (nat_digits n @ rest) = rest"
proof -
  have d: "\<forall>c \<in> set (nat_digits n). is_digit c" using nat_digits_digits by fastforce
  have r: "takeWhile is_digit rest = []" "dropWhile is_digit rest = rest"
    using assms by (cases rest; simp add: ends_number_def)+
  show "takeWhile is_digit (nat_digits n @ rest) = nat_digits n"
    using d r by (subst takeWhile_append2) simp_all
  show "dropWhile is_digit (nat_digits n @ rest) = rest"
    using d r by (subst dropWhile_append2) simp_all
qed

lemma nat_digits_head:
  obtains c cs where "nat_digits n = c # cs" and "is_digit c"
proof -
  obtain c cs where c: "nat_digits n = c # cs" by (meson nat_digits_nonempty neq_Nil_conv)
  obtain d where "d < 10" "c = digit_char d" using nat_digits_digits [of c n] c by auto
  then show thesis using that c by simp
qed

lemma skip_space_digits: "skip_space (nat_digits n @ rest) = Some (nat_digits n @ rest)"
proof -
  obtain c cs where "nat_digits n = c # cs" "is_digit c" by (rule nat_digits_head)
  then show ?thesis using skip_space_digit by simp
qed

lemma scan_uint_itoa:
  assumes "0 \<le> n" and "n < 2 ^ bits" and "ends_number rest"
  shows "scan_uint bits (itoa n @ rest) = Some (n, rest)"
proof -
  have "nat n < 2 ^ bits" using assms(1,2) by (simp add: nat_less_iff)
  then show ?thesis using assms by (simp add: scan_uint_def itoa_def skip_space_digits digits_split)
qed

lemma scan_int_itoa:
  assumes "0 \<le> n" and "fits_int64 n" and "ends_number rest"
  shows "scan_int (itoa n @ rest) = Some (n, rest)"
proof -
  obtain c cs where c: "nat_digits (nat n) = c # cs" "is_digit c" by (rule nat_digits_head)
  have "\<not> is_digit (CHR ''+'')" "\<not> is_digit (CHR ''-'')" by (simp_all add: is_digit_def digit_val_def Let_def)
  then have "c \<noteq> CHR ''+''" "c \<noteq> CHR ''-''" using c(2) by auto
  then have h: "\<not> (hd (nat_digits (nat n) @ rest) = CHR ''+'' \<or> hd (nat_digits (nat n) @ rest) = CHR ''-'')" using c by simp
  have n: "itoa n = nat_digits (nat n)" using assms(1) by (simp add: itoa_def)
  show ?thesis
    using assms(1,2) h unfolding scan_int_def n skip_space_digits
    by (simp add: digits_split [OF assms(3)])
qed

lemma itoa_nonneg_digits: "0 \<le> n \<Longrightarrow> c \<in> set (itoa n) \<Longrightarrow> is_digit c"
  using nat_digits_digits [of c "nat n"] by (auto simp: itoa_def)

lemma not_digit [simp]: "\<not> is_digit (CHR '','')" "\<not> is_digit (CHR ''$'')"
  by (simp_all add: is_digit_def digit_val_def Let_def)

lemma scan_version_itoa: "0 \<le> v \<Longrightarrow> fits_int64 v \<Longrightarrow> scan_version (''v='' @ itoa v) = Some v"
  using scan_int_itoa [of v "[]"] by (simp add: scan_version_def scan_lit_def ends_number_def)

definition fits_hash :: "argon2_config \<Rightarrow> bool" where
  "fits_hash ps \<longleftrightarrow> 0 < MemoryKiB ps \<and> MemoryKiB ps < 2 ^ 32 \<and> 0 < Iterations ps \<and> Iterations ps < 2 ^ 32
    \<and> 0 < Parallelism ps \<and> Parallelism ps < 2 ^ 8"

lemma scan_params_itoa:
  assumes "fits_hash ps"
  shows "scan_params (''m='' @ itoa (MemoryKiB ps) @ '',t='' @ itoa (Iterations ps) @ '',p='' @ itoa (Parallelism ps)) = Some ps"
proof -
  have "scan_uint 32 (itoa (MemoryKiB ps) @ '',t='' @ itoa (Iterations ps) @ '',p='' @ itoa (Parallelism ps)) =
      Some (MemoryKiB ps, '',t='' @ itoa (Iterations ps) @ '',p='' @ itoa (Parallelism ps))"
    by (rule scan_uint_itoa) (use assms in \<open>simp_all add: fits_hash_def ends_number_def\<close>)
  moreover have "scan_uint 32 (itoa (Iterations ps) @ '',p='' @ itoa (Parallelism ps)) =
      Some (Iterations ps, '',p='' @ itoa (Parallelism ps))"
    by (rule scan_uint_itoa) (use assms in \<open>simp_all add: fits_hash_def ends_number_def\<close>)
  moreover have "scan_uint 8 (itoa (Parallelism ps)) = Some (Parallelism ps, [])"
    using scan_uint_itoa [of "Parallelism ps" 8 "[]"] assms by (simp add: fits_hash_def ends_number_def)
  ultimately show ?thesis by (simp add: scan_params_def scan_lit_def)
qed

lemma no_dollar: "CHR ''$'' \<notin> set (b64_encode std_alphabet bs)"
  using b64_encode_chars [OF alphabets_ok(1), of bs] by (auto simp: std_alphabet_def)

lemma no_dollar_itoa: "0 \<le> n \<Longrightarrow> CHR ''$'' \<notin> set (itoa n)"
  using itoa_nonneg_digits not_digit(2) by blast

lemma decode_encode:
  assumes "fits_hash ps" and "0 \<le> argon2_Version A" and "fits_int64 (argon2_Version A)" and "salt \<noteq> []" and "key \<noteq> []"
  shows "decodeHash A (encode_hash A ps salt key) = Inr (ps, salt, key)"
proof -
  define v where "v = ''v='' @ itoa (argon2_Version A)"
  define p where "p = ''m='' @ itoa (MemoryKiB ps) @ '',t='' @ itoa (Iterations ps) @ '',p='' @ itoa (Parallelism ps)"
  define s where "s = b64_encode std_alphabet salt"
  define k where "k = b64_encode std_alphabet key"
  have e: "encode_hash A ps salt key = '''' @ CHR ''$'' # (''argon2id'' @ CHR ''$'' # (v @ CHR ''$'' # (p @ CHR ''$'' # (s @ CHR ''$'' # k))))"
    by (simp add: encode_hash_def v_def p_def s_def k_def)
  have free: "CHR ''$'' \<notin> set ''''" "CHR ''$'' \<notin> set ''argon2id''" "CHR ''$'' \<notin> set v" "CHR ''$'' \<notin> set p"
    "CHR ''$'' \<notin> set s" "CHR ''$'' \<notin> set k"
    using assms(1,2) by (simp_all add: no_dollar_itoa no_dollar fits_hash_def v_def p_def s_def k_def)
  have "split_at (CHR ''$'') (encode_hash A ps salt key) = ['''', ''argon2id'', v, p, s, k]"
    unfolding e split_at_append [OF free(1)] split_at_append [OF free(2)] split_at_append [OF free(3)] split_at_append [OF free(4)]
      split_at_append [OF free(5)] split_at_no_sep [OF free(6)] ..
  moreover have "decode_parts A v p s k = Inr (ps, salt, key)"
  proof -
    have "scan_version v = Some (argon2_Version A)" unfolding v_def using assms(2,3) by (rule scan_version_itoa)
    moreover have "scan_params p = Some ps" unfolding p_def using assms(1) by (rule scan_params_itoa)
    moreover have "b64_decode std_alphabet s = Some salt" "b64_decode std_alphabet k = Some key"
      unfolding s_def k_def by (rule b64_roundtrip [OF alphabets_ok(1)])+
    ultimately show ?thesis using assms by (simp add: decode_parts_def fits_hash_def)
  qed
  ultimately show ?thesis by (simp add: decodeHash_def)
qed

text \<open>
  What the package \<open>argon2\<close> documents: its version is 0x13, and the key has the length that was asked for.
\<close>

definition argon2_laws :: "argon2_ops \<Rightarrow> bool" where
  "argon2_laws A \<longleftrightarrow> argon2_Version A = 19 \<and>
     (\<forall>password salt t m p n. 0 \<le> n \<longrightarrow> length (IDKey A password salt t m p n) = nat n)"

lemma argon2_ok_fits: "argon2_ok ps \<Longrightarrow> fits_hash ps"
  by (simp add: argon2_ok_def fits_hash_def)

lemma decode_Hash:
  assumes "argon2_laws A" and "fits_hash ps" and "salt \<noteq> []" and "Hash A ps (Some salt) password = Inr h"
  shows "decodeHash A h = Inr (ps, salt, key_of A ps salt password 32) \<and> length (key_of A ps salt password 32) = 32"
proof -
  have l: "length (key_of A ps salt password 32) = 32"
    using assms(1) by (simp add: argon2_laws_def key_of_def)
  then have "key_of A ps salt password 32 \<noteq> []" by auto
  moreover have "h = encode_hash A ps salt (key_of A ps salt password 32)" using assms(4) by (simp add: Hash_def keyLength_def)
  ultimately show ?thesis using l assms(1,2,3) decode_encode [of ps A salt] by (simp add: argon2_laws_def fits_int64_def)
qed

lemma hash_verifies:
  assumes "argon2_laws A" and "argon2_ok ps" and "length salt = saltLength" and "Hash A ps (Some salt) password = Inr h"
  shows "Verify A h other = Inr (key_of A ps salt other keyLength = key_of A ps salt password keyLength)
    \<and> Verify A h password = Inr True
    \<and> (NeedsRehash A hasher h \<longleftrightarrow> hs_params hasher \<noteq> ps)"
proof -
  have "salt \<noteq> []" using assms(3) by (auto simp: saltLength_def)
  then show ?thesis
    using decode_Hash [OF assms(1) argon2_ok_fits [OF assms(2)] _ assms(4)]
    by (auto simp: Verify_def NeedsRehash_def keyLength_def to_uint32_def)
qed

text \<open>
  A password is checked against the key that was derived when it was hashed. Under every cost that a
  configuration allows, the hash of a password verifies a second password exactly when both give the
  same key with the salt and cost in the hash, so the password itself always passes, whatever the cost
  is configured to be by then; and a rehash is wanted exactly when the configured cost is another one.
\<close>

theorem password_roundtrip:
  assumes "argon2_laws A" and "argon2_ok ps" and "length salt = saltLength" and "Hash A ps (Some salt) password = Inr h"
  shows "Verify A h other = Inr (key_of A ps salt other keyLength = key_of A ps salt password keyLength)
    \<and> Verify A h password = Inr True
    \<and> (NeedsRehash A hasher h \<longleftrightarrow> hs_params hasher \<noteq> ps)"
  by (rule hash_verifies [OF assms])

text \<open>A package that satisfies the laws: the key is as many copies of the last byte of the salt and the password.\<close>

definition demo_argon2 :: argon2_ops where
  "demo_argon2 = \<lparr>argon2_Version = 19, IDKey = (\<lambda>password salt t m p n. replicate (nat n) (last (salt @ password)))\<rparr>"

definition demo_cost :: argon2_config where
  "demo_cost = \<lparr>MemoryKiB = 65536, Iterations = 2, Parallelism = 2\<rparr>"

lemma demo_argon2_laws: "argon2_laws demo_argon2"
  by (simp add: argon2_laws_def demo_argon2_def)

lemma password_roundtrip_witness:
  "\<exists>h. Hash demo_argon2 demo_cost (Some (replicate 16 7)) ''secret'' = Inr h
     \<and> Verify demo_argon2 h ''secret'' = Inr True \<and> Verify demo_argon2 h ''guess!'' = Inr False
     \<and> \<not> NeedsRehash demo_argon2 \<lparr>hs_params = demo_cost, hs_decoy = ''''\<rparr> h
     \<and> NeedsRehash demo_argon2 \<lparr>hs_params = demo_cost\<lparr>Iterations := 3\<rparr>, hs_decoy = ''''\<rparr> h"
proof -
  obtain h where h: "Hash demo_argon2 demo_cost (Some (replicate 16 7)) ''secret'' = Inr h" by (simp add: Hash_def)
  have ok: "argon2_ok demo_cost" "length (replicate 16 (7 :: byte)) = saltLength"
    by (simp_all add: argon2_ok_def demo_cost_def saltLength_def)
  have "key_of demo_argon2 demo_cost (replicate 16 7) ''guess!'' keyLength \<noteq> key_of demo_argon2 demo_cost (replicate 16 7) ''secret'' keyLength"
    by (simp add: key_of_def demo_argon2_def str_bytes_def keyLength_def)
  moreover have "demo_cost\<lparr>Iterations := 3\<rparr> \<noteq> demo_cost" by (simp add: demo_cost_def)
  ultimately show ?thesis
    using h password_roundtrip [OF demo_argon2_laws ok h, of "''guess!''" "\<lparr>hs_params = demo_cost, hs_decoy = ''''\<rparr>"]
      password_roundtrip [OF demo_argon2_laws ok h, of "''guess!''" "\<lparr>hs_params = demo_cost\<lparr>Iterations := 3\<rparr>, hs_decoy = ''''\<rparr>"]
    by auto
qed

lemma scan_uint_bounds: "scan_uint bits s = Some (n, r) \<Longrightarrow> 0 \<le> n \<and> n < 2 ^ bits"
  by (auto simp: scan_uint_def bind_eq_Some_conv split: if_splits)

lemma scan_params_bounds:
  assumes "scan_params s = Some ps"
  shows "0 \<le> MemoryKiB ps \<and> MemoryKiB ps < 2 ^ 32 \<and> 0 \<le> Iterations ps \<and> Iterations ps < 2 ^ 32
    \<and> 0 \<le> Parallelism ps \<and> Parallelism ps < 2 ^ 8"
  using assms unfolding scan_params_def
  by (auto simp: bind_eq_Some_conv dest!: scan_uint_bounds)

text \<open>
  Whatever text the database holds, what is taken for a hash is safe to derive a key with: a cost
  within the widths of \<open>argon2\<close>'s arguments and above zero (the package panics at zero), and a salt and
  a key that are not empty. Anything else is \<open>ErrInvalidHash\<close>, for \<open>Verify\<close> and as a reason to rehash.
\<close>

theorem malformed_hash:
  "case decodeHash A encoded of
     Inr (ps, salt, key) \<Rightarrow> fits_hash ps \<and> salt \<noteq> [] \<and> key \<noteq> []
   | Inl e \<Rightarrow> e = ErrInvalidHash \<and> Verify A encoded password = Inl ErrInvalidHash \<and> NeedsRehash A h encoded"
proof (cases "decodeHash A encoded")
  case (Inl e)
  then have "e = ErrInvalidHash"
    by (auto simp: decodeHash_def decode_parts_def split: list.splits if_splits option.splits)
  then show ?thesis using Inl by (simp add: Verify_def NeedsRehash_def)
next
  case (Inr d)
  obtain ps salt key where d: "d = (ps, salt, key)" by (cases d)
  obtain v p s k where "decode_parts A v p s k = Inr d"
    using Inr by (auto simp: decodeHash_def split: list.splits if_splits)
  then have "scan_params p = Some ps" "Iterations ps \<noteq> 0" "MemoryKiB ps \<noteq> 0" "Parallelism ps \<noteq> 0" "salt \<noteq> []" "key \<noteq> []"
    unfolding d by (auto simp: decode_parts_def split: option.splits if_splits)
  then show ?thesis using scan_params_bounds [of p ps] unfolding Inr d by (simp add: fits_hash_def)
qed

end
