(* ===== verification/Auth.thy ===== *)
theory Auth
  imports Passwords Session_Rules
begin

text \<open>
  \<open>internal/auth\<close>: accounts, access tokens and the rotation of refresh tokens (\<open>service.go\<close>, \<open>token.go\<close>). The
  package \<open>jwt\<close> is a parameter: how it rounds a date, signs claims, and parses a token under the options
  of \<open>Verify\<close> (the algorithm pinned to HS256, the issuer, an expiry required, the clock). What an
  operation gets from outside is its \<open>auth_call\<close>: two readings of the clock of the process and of
  \<open>now()\<close> in Postgres, the bytes of the random source for a salt and for a token, and new UUIDs.
\<close>

section \<open>Access tokens\<close>

record jwt_claims =
  jc_Subject :: string
  jc_Issuer :: string
  jc_ID :: string
  jc_IssuedAt :: time
  jc_NotBefore :: time
  jc_ExpiresAt :: time

datatype jwt_error = JwtExpired | JwtInvalid

text \<open>\<open>jwt_parse\<close> takes the secret, the expected issuer, the time and the token.\<close>

record jwt_ops =
  jwt_date :: "time \<Rightarrow> time"
  jwt_sign :: "byte list \<Rightarrow> jwt_claims \<Rightarrow> string option"
  jwt_parse :: "byte list \<Rightarrow> string \<Rightarrow> time \<Rightarrow> string \<Rightarrow> jwt_error + jwt_claims"

record token_issuer =
  ti_secret :: "byte list"
  ti_issuer :: string
  ti_ttl :: duration

definition NewTokenIssuer :: "auth_config \<Rightarrow> token_issuer" where
  "NewTokenIssuer cfg = \<lparr>ti_secret = str_bytes (JWTSecret cfg), ti_issuer = Issuer cfg, ti_ttl = AccessTokenTTL cfg\<rparr>"

record access_claims =
  ak_UserID :: int
  ak_TokenID :: string
  ak_ExpiresAt :: time

definition Issue :: "jwt_ops \<Rightarrow> token_issuer \<Rightarrow> time \<Rightarrow> string \<Rightarrow> int \<Rightarrow> err + string \<times> time" where
  "Issue J i now ident userID =
     (let expiresAt = time_add now (ti_ttl i);
          claims = \<lparr>jc_Subject = itoa userID, jc_Issuer = ti_issuer i, jc_ID = ident, jc_IssuedAt = jwt_date J now,
                    jc_NotBefore = jwt_date J now, jc_ExpiresAt = jwt_date J expiresAt\<rparr>
      in case jwt_sign J (ti_secret i) claims of None \<Rightarrow> Inl ErrDB | Some raw \<Rightarrow> Inr (raw, expiresAt))"

definition token_Verify :: "jwt_ops \<Rightarrow> token_issuer \<Rightarrow> time \<Rightarrow> string \<Rightarrow> err + access_claims" where
  "token_Verify J i now raw =
     (case jwt_parse J (ti_secret i) (ti_issuer i) now raw of
        Inl e \<Rightarrow> Inl (if e = JwtExpired then ErrTokenExpired else ErrInvalidToken)
      | Inr claims \<Rightarrow>
          (case parse_int64 (jc_Subject claims) of
             None \<Rightarrow> Inl ErrInvalidToken
           | Some userID \<Rightarrow>
               if userID \<le> 0 then Inl ErrInvalidToken
               else Inr \<lparr>ak_UserID = userID, ak_TokenID = jc_ID claims, ak_ExpiresAt = jc_ExpiresAt claims\<rparr>))"

section \<open>Refresh tokens\<close>

definition refreshTokenBytes :: nat where "refreshTokenBytes = 32"

definition hashRefreshToken :: "string \<Rightarrow> byte list" where
  "hashRefreshToken raw = sha256 (str_bytes raw)"

definition newRefreshToken :: "byte list option \<Rightarrow> err + string \<times> byte list" where
  "newRefreshToken entropy =
     (case entropy of
        None \<Rightarrow> Inl ErrDB
      | Some buf \<Rightarrow> let raw = b64_encode url_alphabet buf in Inr (raw, hashRefreshToken raw))"

record token_pair =
  tp_AccessToken :: string
  tp_AccessExpiresAt :: time
  tp_RefreshToken :: string
  tp_RefreshExpiresAt :: time

record registration =
  rg_Username :: string
  rg_Email :: string
  rg_Password :: string

record auth_service =
  as_argon2 :: argon2_ops
  as_jwt :: jwt_ops
  as_hasher :: hasher
  as_tokens :: token_issuer
  as_refreshTTL :: duration

record auth_call =
  at_now :: time
  at_later :: time
  at_pg_now :: time
  at_pg_later :: time
  at_salt :: "byte list option"
  at_token :: "byte list option"
  at_token_id :: string
  at_family :: uuid

definition NewService :: "argon2_ops \<Rightarrow> jwt_ops \<Rightarrow> byte list option \<Rightarrow> auth_config \<Rightarrow> err + auth_service" where
  "NewService A J entropy cfg =
     and_then (NewHasher A (ac_Argon2 cfg) entropy) (\<lambda>h.
     Inr \<lparr>as_argon2 = A, as_jwt = J, as_hasher = h, as_tokens = NewTokenIssuer cfg, as_refreshTTL = RefreshTokenTTL cfg\<rparr>)"

text \<open>\<open>now\<close> is the clock of Postgres at the insert.\<close>

definition issuePair ::
    "auth_service \<Rightarrow> auth_call \<Rightarrow> time \<Rightarrow> int \<Rightarrow> uuid \<Rightarrow> ('r service_world, token_pair) act" where
  "issuePair svc c now userID family =
     act_bind (lift_result (Issue (as_jwt svc) (as_tokens svc) (at_now c) (at_token_id c) userID)) (\<lambda>(access, accessExpiresAt).
     act_bind (lift_result (newRefreshToken (at_token c))) (\<lambda>(raw, hash).
     let expiresAt = time_add (at_later c) (as_refreshTTL svc)
     in act_bind (exec (CreateRefreshToken now userID family hash expiresAt)) (\<lambda>_.
        ret \<lparr>tp_AccessToken = access, tp_AccessExpiresAt = accessExpiresAt, tp_RefreshToken = raw,
             tp_RefreshExpiresAt = expiresAt\<rparr>)))"

section \<open>Operations\<close>

definition registrationError :: "err \<Rightarrow> err" where
  "registrationError e =
     (if e = ErrUniqueIn ''users_username_key'' then ErrUsernameTaken
      else if e = ErrUniqueIn ''users_email_key'' then ErrEmailTaken
      else e)"

definition Register ::
    "auth_service \<Rightarrow> auth_call \<Rightarrow> registration \<Rightarrow> ('r service_world, user_row \<times> token_pair) act" where
  "Register svc c r =
     act_bind (lift_result (Hash (as_argon2 svc) (hs_params (as_hasher svc)) (at_salt c) (rg_Password r))) (\<lambda>hash.
     act_bind (act_catch (exec (CreateUser (at_pg_now c) (rg_Username r) (rg_Email r) hash)) (\<lambda>e. fail (registrationError e))) (\<lambda>user.
     act_bind (issuePair svc c (at_pg_later c) (us_ID user) (at_family c)) (\<lambda>pair.
     ret (user, pair))))"

definition upgradeHashIfStale ::
    "auth_service \<Rightarrow> auth_call \<Rightarrow> user_row \<Rightarrow> string \<Rightarrow> ('r service_world, unit) act" where
  "upgradeHashIfStale svc c user password =
     (if \<not> NeedsRehash (as_argon2 svc) (as_hasher svc) (us_PasswordHash user) then ret ()
      else (case Hash (as_argon2 svc) (hs_params (as_hasher svc)) (at_salt c) password of
              Inl _ \<Rightarrow> ret ()
            | Inr hash \<Rightarrow> act_catch (exec (UpdateUserPasswordHash (at_pg_now c) (us_ID user) hash)) (\<lambda>_. ret ())))"

text \<open>An unknown account costs as much as a wrong password: the decoy is verified for its time only.\<close>

definition found_user :: "string \<Rightarrow> ('r service_world, user_row option) act" where
  "found_user login =
     act_catch (act_bind (exec (GetUserByLogin login)) (\<lambda>user. ret (Some user)))
       (\<lambda>e. if e = ErrNoRows then ret None else fail e)"

definition Login ::
    "auth_service \<Rightarrow> auth_call \<Rightarrow> string \<Rightarrow> string \<Rightarrow> ('r service_world, user_row \<times> token_pair) act" where
  "Login svc c login password =
     act_bind (found_user login) (\<lambda>found.
     case found of
       None \<Rightarrow> act_bind (ret (VerifyDecoy (as_argon2 svc) (as_hasher svc) password)) (\<lambda>_. fail ErrInvalidCredentials)
     | Some user \<Rightarrow>
         act_bind (lift_result (Verify (as_argon2 svc) (us_PasswordHash user) password)) (\<lambda>matches.
         if \<not> matches then fail ErrInvalidCredentials
         else act_bind (upgradeHashIfStale svc c user password) (\<lambda>_.
              act_bind (issuePair svc c (at_pg_later c) (us_ID user) (at_family c)) (\<lambda>pair.
              ret (user, pair)))))"

text \<open>
  The bodies of the transaction of \<open>Refresh\<close> say whether they commit and what \<open>Refresh\<close> answers then: a
  revocation is committed although the request fails.
\<close>

definition rejectClaim :: "auth_call \<Rightarrow> byte list \<Rightarrow> ('r service_world, bool \<times> (err + token_pair)) act" where
  "rejectClaim c hash =
     act_bind (no_rows_as ErrInvalidToken (exec (GetRefreshTokenByHash hash))) (\<lambda>existing.
     if rt_UsedAt existing \<noteq> None
     then act_bind (exec (RevokeRefreshTokenFamily (at_pg_now c) (rt_FamilyID existing))) (\<lambda>_. ret (True, Inl ErrTokenReused))
     else if rt_RevokedAt existing \<noteq> None then fail ErrInvalidToken
     else fail ErrTokenExpired)"

definition claimed_token :: "auth_call \<Rightarrow> byte list \<Rightarrow> ('r service_world, refresh_token option) act" where
  "claimed_token c hash =
     act_catch (act_bind (exec (ClaimRefreshToken (at_pg_now c) hash)) (\<lambda>t. ret (Some t)))
       (\<lambda>e. if e = ErrNoRows then ret None else fail e)"

definition refresh_tx ::
    "auth_service \<Rightarrow> auth_call \<Rightarrow> byte list \<Rightarrow> ('r service_world, bool \<times> (err + token_pair)) act" where
  "refresh_tx svc c hash =
     act_bind (claimed_token c hash) (\<lambda>found.
     case found of
       None \<Rightarrow> rejectClaim c hash
     | Some claimed \<Rightarrow>
         act_bind (issuePair svc c (at_pg_now c) (rt_UserID claimed) (rt_FamilyID claimed)) (\<lambda>pair.
         ret (True, Inr pair)))"

definition Refresh :: "auth_service \<Rightarrow> auth_call \<Rightarrow> string \<Rightarrow> ('r service_world, token_pair) act" where
  "Refresh svc c rawToken =
     act_bind (in_tx (refresh_tx svc c (hashRefreshToken rawToken))) lift_result"

definition Logout :: "auth_call \<Rightarrow> string \<Rightarrow> ('r service_world, unit) act" where
  "Logout c rawToken =
     act_bind
       (act_catch (act_bind (exec (GetRefreshTokenByHash (hashRefreshToken rawToken))) (\<lambda>t. ret (Some t)))
          (\<lambda>e. if e = ErrNoRows then ret None else fail e))
       (\<lambda>found. case found of
          None \<Rightarrow> ret ()
        | Some token \<Rightarrow>
            act_bind (exec (RevokeRefreshTokenFamily (at_pg_now c) (rt_FamilyID token))) (\<lambda>_. ret ()))"

definition auth_User :: "int \<Rightarrow> ('r service_world, user_row) act" where
  "auth_User userID = no_rows_as ErrUserNotFound (exec (GetUserByID userID))"

section \<open>Round trip of an access token\<close>

text \<open>
  What the package \<open>jwt\<close> documents: a date is truncated to the second, and a token parses to the claims
  that were signed when it is not expired, already valid, and of the expected issuer.
\<close>

definition jwt_laws :: "jwt_ops \<Rightarrow> bool" where
  "jwt_laws J \<longleftrightarrow>
     (\<forall>t. jwt_date J t = t div second * second) \<and>
     (\<forall>secret iss now raw c. jwt_sign J secret c = Some raw \<longrightarrow>
        jwt_parse J secret iss now raw =
          (if jc_ExpiresAt c \<le> now then Inl JwtExpired
           else if now < jc_NotBefore c \<or> jc_Issuer c \<noteq> iss then Inl JwtInvalid
           else Inr c))"

end
