(* ===== verification/Http.thy ===== *)
theory Http
  imports Auth RateLimit Tickets Reports "HOL-Library.AList"
begin

text \<open>
  What the handlers of \<open>internal/httpapi\<close> share: errors with a status, requests and responses, the decoding of
  bodies and parameters, validation, the address of a client, limits and access tokens. A handler is an action
  on the world and the headers of its response. \<open>net_ops\<close> has what the code uses of Go's \<open>net\<close> and \<open>net/mail\<close>
  and of \<open>google/uuid\<close>: the canonical text of an IP address, the host of an address with a port, the address of a
  mailbox, and the id a text denotes.
\<close>

section \<open>Errors\<close>

record http_error =
  ae_Status :: int
  ae_Code :: string
  ae_Message :: string
  ae_Fields :: "(string \<times> string) list"

definition newError :: "int \<Rightarrow> string \<Rightarrow> string \<Rightarrow> http_error" where
  "newError status code message = \<lparr>ae_Status = status, ae_Code = code, ae_Message = message, ae_Fields = []\<rparr>"

definition WithFields :: "http_error \<Rightarrow> (string \<times> string) list \<Rightarrow> http_error" where
  "WithFields e fs = e\<lparr>ae_Fields := fs\<rparr>"

definition BadRequest :: "string \<Rightarrow> http_error" where "BadRequest message = newError 400 ''bad_request'' message"
definition Unauthorized :: "string \<Rightarrow> http_error" where "Unauthorized message = newError 401 ''unauthorized'' message"
definition NotFound :: "string \<Rightarrow> http_error" where "NotFound message = newError 404 ''not_found'' message"
definition Conflict :: "string \<Rightarrow> http_error" where "Conflict message = newError 409 ''conflict'' message"
definition TooManyRequests :: "string \<Rightarrow> http_error" where "TooManyRequests message = newError 429 ''rate_limited'' message"
definition Internal :: http_error where "Internal = newError 500 ''internal'' ''an unexpected error occurred''"

text \<open>\<open>WriteError\<close> renders an error that carries no status as \<open>Internal\<close>; its cause is only logged.\<close>

definition unexpected :: "err \<Rightarrow> http_error" where
  "unexpected e = Internal"

section \<open>Requests and actions\<close>

text \<open>
  A header or parameter that is absent reads as the empty text. A body is what the decoder finds: no reader at all (which a
  server never hands on), more than the limit, no JSON (an empty text is none), a value, or a value after which \<open>More\<close> reports further input.
\<close>

datatype http_body = Absent | TooLarge | NotJson | One json | Several json

record http_request =
  hr_Authorization :: string
  hr_Forwarded :: string
  hr_RealIP :: string
  hr_RequestID :: string
  hr_RemoteAddr :: string
  hr_Query :: "string \<Rightarrow> string"
  hr_Body :: http_body

type_synonym headers = "(string \<times> string) list"

type_synonym ('w, 'a) web = "'w \<times> headers \<Rightarrow> (http_error + 'a) \<times> 'w \<times> headers"

definition web_return :: "'a \<Rightarrow> ('w, 'a) web" where
  "web_return x s = (Inr x, s)"

definition web_fail :: "http_error \<Rightarrow> ('w, 'a) web" where
  "web_fail e s = (Inl e, s)"

definition web_bind :: "('w, 'a) web \<Rightarrow> ('a \<Rightarrow> ('w, 'b) web) \<Rightarrow> ('w, 'b) web" where
  "web_bind m f s = (case m s of (Inl e, s') \<Rightarrow> (Inl e, s') | (Inr x, s') \<Rightarrow> f x s')"

definition web_check :: "http_error + 'a \<Rightarrow> ('w, 'a) web" where
  "web_check r s = (r, s)"

text \<open>A call of a service, with what the handler makes of its errors.\<close>

definition web_call :: "(err \<Rightarrow> http_error) \<Rightarrow> ('w, 'a) act \<Rightarrow> ('w, 'a) web" where
  "web_call h m s = (case s of (w, hs) \<Rightarrow> (case m w of (r, w') \<Rightarrow> (map_error h r, w', hs)))"

definition set_header :: "string \<Rightarrow> string \<Rightarrow> ('w, unit) web" where
  "set_header name value s = (case s of (w, hs) \<Rightarrow> (Inr (), w, AList.update name value hs))"

section \<open>Bodies and parameters\<close>

definition DecodeJSON :: "(json \<Rightarrow> 'a option) \<Rightarrow> http_body \<Rightarrow> http_error + 'a" where
  "DecodeJSON decode body =
     (case body of
        Absent \<Rightarrow> Inl (BadRequest ''a JSON request body is required'')
      | TooLarge \<Rightarrow> Inl (BadRequest ''request body is too large'')
      | NotJson \<Rightarrow> Inl (BadRequest ''request body is not valid JSON'')
      | One j \<Rightarrow> of_option (BadRequest ''request body is not valid JSON'') (decode j)
      | Several j \<Rightarrow>
          and_then (of_option (BadRequest ''request body is not valid JSON'') (decode j))
            (\<lambda>_. Inl (BadRequest ''request body must contain a single JSON object'')))"

definition intParam :: "http_request \<Rightarrow> string \<Rightarrow> int \<Rightarrow> int \<Rightarrow> int \<Rightarrow> http_error + int" where
  "intParam r name def minimum maximum =
     (let raw = hr_Query r name
      in if raw = '''' then Inr def
         else (case parse_int64 raw of
             None \<Rightarrow> Inl (WithFields (BadRequest (name @ '' must be a number'')) [(name, ''must be a number'')])
           | Some value \<Rightarrow>
               if value < minimum \<or> maximum < value
               then Inl (WithFields (BadRequest (name @ '' is out of range''))
                      [(name, ''must be between '' @ itoa minimum @ '' and '' @ itoa maximum)])
               else Inr value))"

section \<open>Validation\<close>

definition usernameMinLength :: nat where "usernameMinLength = 3"
definition usernameMaxLength :: nat where "usernameMaxLength = 32"
definition emailMaxLength :: nat where "emailMaxLength = 254"
definition passwordMinLength :: nat where "passwordMinLength = 12"
definition passwordMaxLength :: nat where "passwordMaxLength = 128"

text \<open>The problems by field: the first one of a field stays.\<close>

type_synonym problems = "(string \<times> string) list"

definition fields_add :: "problems \<Rightarrow> string \<Rightarrow> string \<Rightarrow> problems" where
  "fields_add f name problem = (if map_of f name \<noteq> None then f else f @ [(name, problem)])"

definition fields_err :: "problems \<Rightarrow> string \<Rightarrow> http_error + unit" where
  "fields_err f message = (if f = [] then Inr () else Inl (WithFields (BadRequest message) f))"

definition isASCIILetterOrDigit :: "char \<Rightarrow> bool" where
  "isASCIILetterOrDigit c \<longleftrightarrow>
     (let n = of_char c :: nat in (97 \<le> n \<and> n \<le> 122) \<or> (65 \<le> n \<and> n \<le> 90) \<or> (48 \<le> n \<and> n \<le> 57))"

definition username_char :: "char \<Rightarrow> bool" where
  "username_char c \<longleftrightarrow> isASCIILetterOrDigit c \<or> c = CHR ''_'' \<or> c = CHR ''-''"

definition validateUsername :: "problems \<Rightarrow> string \<Rightarrow> problems" where
  "validateUsername f username =
     (if username = '''' then fields_add f ''username'' ''is required''
      else if length username < usernameMinLength then fields_add f ''username'' ''must be at least 3 characters''
      else if usernameMaxLength < length username then fields_add f ''username'' ''must be at most 32 characters''
      else if \<not> list_all username_char username
        then fields_add f ''username'' ''may contain only letters, digits, underscores and hyphens''
      else if \<not> isASCIILetterOrDigit (hd username) then fields_add f ''username'' ''must start with a letter or digit''
      else f)"

record net_ops =
  ip_text :: "string \<Rightarrow> string option"
  host_of :: "string \<Rightarrow> string option"
  mailbox :: "string \<Rightarrow> string option"
  uuid_of :: "string \<Rightarrow> uuid option"

text \<open>The second part of the address at its first at-sign is indexed: without one the handler panics.\<close>

definition validateEmail :: "net_ops \<Rightarrow> problems \<Rightarrow> string \<Rightarrow> http_error + problems" where
  "validateEmail N f email =
     (if email = '''' then Inr (fields_add f ''email'' ''is required'')
      else if emailMaxLength < length email then Inr (fields_add f ''email'' ''is too long'')
      else if mailbox N email \<noteq> Some email then Inr (fields_add f ''email'' ''is not a valid email address'')
      else (case cut_at (CHR ''@'') email of
          None \<Rightarrow> Inl Internal
        | Some (_, domain) \<Rightarrow>
            if CHR ''.'' \<notin> set domain then Inr (fields_add f ''email'' ''is not a valid email address'') else Inr f))"

text \<open>
  \<open>strings.EqualFold\<close>, by the folding of ASCII letters and of the two other code points that fold to one; other letters
  of two cases only fold here to themselves.
\<close>

definition equal_fold :: "string \<Rightarrow> string \<Rightarrow> bool" where
  "equal_fold a b \<longleftrightarrow> fold_name a = fold_name b"

definition validatePassword :: "problems \<Rightarrow> string \<Rightarrow> string \<Rightarrow> problems" where
  "validatePassword f password username =
     (if password = '''' then fields_add f ''password'' ''is required''
      else if length password < passwordMinLength then fields_add f ''password'' ''must be at least 12 characters''
      else if passwordMaxLength < length password then fields_add f ''password'' ''must be at most 128 characters''
      else if username \<noteq> '''' \<and> equal_fold password username
        then fields_add f ''password'' ''must not be the same as the username''
      else f)"

section \<open>Who is calling\<close>

definition ClientIP :: "net_ops \<Rightarrow> http_request \<Rightarrow> bool \<Rightarrow> string" where
  "ClientIP N r trustProxy =
     (let forwarded = (if trustProxy \<and> hr_Forwarded r \<noteq> '''' then ip_text N (trim_space (hd (split_at (CHR '','') (hr_Forwarded r)))) else None);
          real = (if trustProxy \<and> hr_RealIP r \<noteq> '''' then ip_text N (trim_space (hr_RealIP r)) else None)
      in case forwarded of
           Some ip \<Rightarrow> ip
         | None \<Rightarrow>
             (case real of
                Some ip \<Rightarrow> ip
              | None \<Rightarrow> (case host_of N (hr_RemoteAddr r) of None \<Rightarrow> hr_RemoteAddr r | Some host \<Rightarrow> host)))"

definition bearerToken :: "http_request \<Rightarrow> string option" where
  "bearerToken r =
     (case cut_at (CHR '' '') (hr_Authorization r) of
        None \<Rightarrow> None
      | Some (scheme, token) \<Rightarrow>
          if \<not> equal_fold scheme ''Bearer'' then None
          else (let token = trim_space token in if token = '''' then None else Some token))"

definition writeUnauthorized :: "string \<Rightarrow> ('w, 'a) web" where
  "writeUnauthorized message =
     web_bind (set_header ''WWW-Authenticate'' (''Bearer realm='' @ [CHR 0x22] @ ''podium'' @ [CHR 0x22]))
       (\<lambda>_. web_fail (Unauthorized message))"

text \<open>The handler behind \<open>Authenticate\<close> gets the user of the token.\<close>

definition Authenticate ::
    "jwt_ops \<Rightarrow> token_issuer \<Rightarrow> time \<Rightarrow> http_request \<Rightarrow> (int \<Rightarrow> ('w, 'a) web) \<Rightarrow> ('w, 'a) web" where
  "Authenticate J iss now r next =
     (case bearerToken r of
        None \<Rightarrow> writeUnauthorized ''a bearer access token is required''
      | Some raw \<Rightarrow>
          (case token_Verify J iss now raw of
             Inl e \<Rightarrow> writeUnauthorized (if e = ErrTokenExpired then ''the access token has expired'' else ''the access token is not valid'')
           | Inr claims \<Rightarrow> next (ak_UserID claims)))"

text \<open>\<open>UserIDFrom\<close>: what a handler finds on the context.\<close>

definition UserIDFrom :: "int option \<Rightarrow> http_error + int" where
  "UserIDFrom u =
     (case u of Some userID \<Rightarrow> if 0 < userID then Inr userID else Inl (Unauthorized ''authentication is required'')
      | None \<Rightarrow> Inl (Unauthorized ''authentication is required''))"

section \<open>Limits\<close>

definition enforceLimit ::
    "'r string_ops option \<Rightarrow> string \<Rightarrow> int \<Rightarrow> duration \<Rightarrow> (('d, 'r) world, unit) web" where
  "enforceLimit limiter key limit window s =
     (case limiter of
        None \<Rightarrow> (Inr (), s)
      | Some S \<Rightarrow>
          (case s of (w, hs) \<Rightarrow>
            (case Allow S key limit window w of
               (Inl _, w') \<Rightarrow> (Inr (), w', hs)
             | (Inr result, w') \<Rightarrow>
                 web_bind (set_header ''RateLimit-Limit'' (itoa limit)) (\<lambda>_.
                 web_bind (set_header ''RateLimit-Remaining'' (itoa (Remaining result))) (\<lambda>_.
                 if Allowed result then web_return ()
                 else web_bind (set_header ''Retry-After'' (itoa (seconds_int (RetryAfter result) + 1))) (\<lambda>_.
                      web_fail (TooManyRequests ''too many attempts; try again later'')))) (w', hs))))"

fun reset_limits :: "'r string_ops option \<Rightarrow> string list \<Rightarrow> (('d, 'r) world, unit) web" where
  "reset_limits None keys s = (Inr (), s)"
| "reset_limits (Some S) [] s = (Inr (), s)"
| "reset_limits (Some S) (key # keys) (w, hs) = reset_limits (Some S) keys (snd (Reset S key w), hs)"

definition rate_key :: "net_ops \<Rightarrow> auth_config \<Rightarrow> string \<Rightarrow> int option \<Rightarrow> http_request \<Rightarrow> string" where
  "rate_key N cfg class user r =
     ''rl:'' @ class @ '':'' @
     (case UserIDFrom user of Inr userID \<Rightarrow> ''user:'' @ itoa userID | Inl _ \<Rightarrow> ''ip:'' @ ClientIP N r (TrustProxyIP cfg))"

definition RateLimit ::
    "net_ops \<Rightarrow> 'r string_ops option \<Rightarrow> auth_config \<Rightarrow> string \<Rightarrow> int \<Rightarrow> duration \<Rightarrow> int option \<Rightarrow> http_request
      \<Rightarrow> (('d, 'r) world, 'a) web \<Rightarrow> (('d, 'r) world, 'a) web" where
  "RateLimit N limiter cfg class limit window user r next =
     web_bind (enforceLimit limiter (rate_key N cfg class user r) limit window) (\<lambda>_. next)"

end
