(* ===== verification/Http_Handlers.thy ===== *)
theory Http_Handlers
  imports Http
begin

text \<open>
  The handlers of \<open>internal/httpapi\<close> and what \<open>NewRouter\<close> puts around them. Matching a path is left to \<open>chi\<close>: a
  request comes with its \<open>route\<close>. A handler gets from outside what the services get (\<open>auth_call\<close>, \<open>call\<close>), the
  random bytes of a ticket, the clock, a fresh request id and the outcome of the health probes. Bodies of responses
  are values; their JSON is left out, and so are the display texts of a game.
\<close>

section \<open>Responses\<close>

record user_response =
  ur_Username :: string
  ur_Email :: string
  ur_CreatedAt :: time

record token_response =
  tr_AccessToken :: string
  tr_TokenType :: string
  tr_ExpiresIn :: int
  tr_RefreshToken :: string
  tr_RefreshExpiresIn :: int

record game_response =
  gr_Slug :: slug
  gr_Name :: string
  gr_Metric :: string
  gr_LowerIsBetter :: bool
  gr_DurationSecs :: int
  gr_MaxPoints :: int

record placement_response =
  pr_Improved :: bool
  pr_Game :: "period \<Rightarrow> standing"
  pr_Global :: "period \<Rightarrow> standing"

record session_response =
  sr_ID :: uuid
  sr_Game :: slug
  sr_Status :: string
  sr_Moves :: int
  sr_StartedAt :: time
  sr_DeadlineAt :: "time option"
  sr_State :: json
  sr_Score :: "score option"
  sr_Placement :: "placement_response option"

record standing_response =
  sd_Scope :: string
  sd_Period :: period
  sd_Rank :: int
  sd_Points :: int
  sd_Total :: int
  sd_Neighbours :: "entry list"

datatype reply =
    Reply_empty
  | Reply_auth user_response token_response
  | Reply_tokens token_response
  | Reply_user user_response
  | Reply_games "game_response list"
  | Reply_game game_response
  | Reply_session session_response
  | Reply_page page
  | Reply_standing standing_response
  | Reply_report report
  | Reply_ticket string int string
  | Reply_upgrade int
  | Reply_refused string string
  | Reply_health string "(string \<times> string \<times> string) list"

definition newUserResponse :: "user_row \<Rightarrow> user_response" where
  "newUserResponse user = \<lparr>ur_Username = us_Username user, ur_Email = us_Email user, ur_CreatedAt = us_CreatedAt user\<rparr>"

definition newTokenResponse :: "token_pair \<Rightarrow> time \<Rightarrow> token_response" where
  "newTokenResponse pair now =
     \<lparr>tr_AccessToken = tp_AccessToken pair, tr_TokenType = ''Bearer'',
      tr_ExpiresIn = seconds_int (time_sub (tp_AccessExpiresAt pair) now), tr_RefreshToken = tp_RefreshToken pair,
      tr_RefreshExpiresIn = seconds_int (time_sub (tp_RefreshExpiresAt pair) now)\<rparr>"

definition newGameResponse :: "game_definition \<Rightarrow> game_response" where
  "newGameResponse d =
     \<lparr>gr_Slug = Slug d, gr_Name = Name d, gr_Metric = Metric d, gr_LowerIsBetter = LowerIsBetter d,
      gr_DurationSecs = seconds_int (Duration d), gr_MaxPoints = MaxPoints\<rparr>"

definition newSessionResponse :: "session \<Rightarrow> session_response" where
  "newSessionResponse s =
     \<lparr>sr_ID = se_ID s, sr_Game = se_Game s, sr_Status = se_Status s, sr_Moves = se_Moves s, sr_StartedAt = se_StartedAt s,
      sr_DeadlineAt = se_DeadlineAt s, sr_State = se_View s, sr_Score = se_Score s,
      sr_Placement = map_option (\<lambda>p. \<lparr>pr_Improved = Improved p AllTime, pr_Game = pl_Game p, pr_Global = pl_Global p\<rparr>)
        (se_Placement s)\<rparr>"

section \<open>Calls\<close>

record http_call =
  hc_auth :: auth_call
  hc_session :: call
  hc_ticket :: "byte list option"
  hc_now :: time
  hc_request_id :: string
  hc_probes :: "(string \<times> string option) list"

record 'r deps =
  dp_Config :: config
  dp_Auth :: "auth_service option"
  dp_Sessions :: "'r session_service option"
  dp_Leaderboard :: "'r board option"
  dp_Realtime :: bool
  dp_Tickets :: "'r tickets option"
  dp_Reports :: "'r report_service option"
  dp_Limiter :: "'r string_ops option"
  dp_net :: net_ops

type_synonym 'r handler = "('r service_world, int \<times> reply) web"

section \<open>Accounts\<close>

record register_request =
  qr_Username :: string
  qr_Email :: string
  qr_Password :: string

definition register_fields :: "register_request field list" where
  "register_fields =
     [(''username'', str_field (\<lambda>x q. q\<lparr>qr_Username := x\<rparr>)), (''email'', str_field (\<lambda>x q. q\<lparr>qr_Email := x\<rparr>)),
      (''password'', str_field (\<lambda>x q. q\<lparr>qr_Password := x\<rparr>))]"

definition validate_register :: "net_ops \<Rightarrow> register_request \<Rightarrow> http_error + unit" where
  "validate_register N q =
     and_then (validateEmail N (validateUsername [] (qr_Username q)) (qr_Email q)) (\<lambda>f.
     fields_err (validatePassword f (qr_Password q) (qr_Username q)) ''the registration details are invalid'')"

record login_request =
  ql_Login :: string
  ql_Password :: string

definition login_fields :: "login_request field list" where
  "login_fields = [(''login'', str_field (\<lambda>x q. q\<lparr>ql_Login := x\<rparr>)), (''password'', str_field (\<lambda>x q. q\<lparr>ql_Password := x\<rparr>))]"

definition validate_login :: "login_request \<Rightarrow> http_error + unit" where
  "validate_login q =
     (let f = (if ql_Login q = '''' then fields_add [] ''login'' ''is required'' else []);
          f = (if ql_Password q = '''' then fields_add f ''password'' ''is required'' else f)
      in fields_err f ''the login details are invalid'')"

definition refresh_fields :: "string field list" where
  "refresh_fields = [(''refresh_token'', str_field (\<lambda>x _. x))]"

definition validate_refresh :: "string \<Rightarrow> http_error + unit" where
  "validate_refresh token =
     fields_err (if token = '''' then fields_add [] ''refresh_token'' ''is required'' else []) ''the refresh request is invalid''"

definition auth_enforce :: "'r deps \<Rightarrow> string \<Rightarrow> int \<Rightarrow> ('r service_world, unit) web" where
  "auth_enforce d key limit = enforceLimit (dp_Limiter d) key limit (LoginWindow (cf_Auth (dp_Config d)))"

definition register_error :: "err \<Rightarrow> http_error" where
  "register_error e =
     (if e = ErrUsernameTaken then WithFields (Conflict ''that username is already registered'') [(''username'', ''already registered'')]
      else if e = ErrEmailTaken then WithFields (Conflict ''that email is already registered'') [(''email'', ''already registered'')]
      else unexpected e)"

definition handleRegister :: "'r deps \<Rightarrow> auth_service \<Rightarrow> http_call \<Rightarrow> http_request \<Rightarrow> 'r handler" where
  "handleRegister d svc c r =
     web_bind (web_check (DecodeJSON (\<lambda>j. decode_struct True register_fields j \<lparr>qr_Username = '''', qr_Email = '''', qr_Password = ''''\<rparr>) (hr_Body r))) (\<lambda>q.
     web_bind (web_check (validate_register (dp_net d) q)) (\<lambda>_.
     web_bind (auth_enforce d (''rl:register:ip:'' @ ClientIP (dp_net d) r (TrustProxyIP (cf_Auth (dp_Config d)))) (LoginMaxIP (cf_Auth (dp_Config d)))) (\<lambda>_.
     web_bind (web_call register_error
       (Register svc (hc_auth c) \<lparr>rg_Username = qr_Username q, rg_Email = qr_Email q, rg_Password = qr_Password q\<rparr>)) (\<lambda>(user, pair).
     web_return (201, Reply_auth (newUserResponse user) (newTokenResponse pair (hc_now c)))))))"

definition login_error :: "err \<Rightarrow> http_error" where
  "login_error e = (if e = ErrInvalidCredentials then Unauthorized ''invalid credentials'' else unexpected e)"

definition login_ip_key :: "'r deps \<Rightarrow> http_request \<Rightarrow> string" where
  "login_ip_key d r = ''rl:login:ip:'' @ ClientIP (dp_net d) r (TrustProxyIP (cf_Auth (dp_Config d)))"

definition login_account_key :: "string \<Rightarrow> string" where
  "login_account_key login = ''rl:login:account:'' @ to_lower login"

definition handleLogin :: "'r deps \<Rightarrow> auth_service \<Rightarrow> http_call \<Rightarrow> http_request \<Rightarrow> 'r handler" where
  "handleLogin d svc c r =
     web_bind (web_check (DecodeJSON (\<lambda>j. decode_struct True login_fields j \<lparr>ql_Login = '''', ql_Password = ''''\<rparr>) (hr_Body r))) (\<lambda>q.
     web_bind (web_check (validate_login q)) (\<lambda>_.
     web_bind (auth_enforce d (login_ip_key d r) (LoginMaxIP (cf_Auth (dp_Config d)))) (\<lambda>_.
     web_bind (auth_enforce d (login_account_key (ql_Login q)) (LoginMaxAccount (cf_Auth (dp_Config d)))) (\<lambda>_.
     web_bind (web_call login_error (Login svc (hc_auth c) (ql_Login q) (ql_Password q))) (\<lambda>(user, pair).
     web_bind (reset_limits (dp_Limiter d) [login_ip_key d r, login_account_key (ql_Login q)]) (\<lambda>_.
     web_return (200, Reply_auth (newUserResponse user) (newTokenResponse pair (hc_now c)))))))))"

definition refresh_error :: "err \<Rightarrow> http_error" where
  "refresh_error e =
     (if e = ErrTokenReused then Unauthorized ''that refresh token has already been used; the session has been revoked''
      else if e = ErrTokenExpired then Unauthorized ''that refresh token has expired''
      else if e = ErrInvalidToken then Unauthorized ''that refresh token is not valid''
      else unexpected e)"

definition refresh_token_of :: "http_request \<Rightarrow> http_error + string" where
  "refresh_token_of r =
     and_then (DecodeJSON (\<lambda>j. decode_struct True refresh_fields j '''') (hr_Body r)) (\<lambda>token.
     and_then (validate_refresh token) (\<lambda>_. Inr token))"

definition handleRefresh :: "auth_service \<Rightarrow> http_call \<Rightarrow> http_request \<Rightarrow> 'r handler" where
  "handleRefresh svc c r =
     web_bind (web_check (refresh_token_of r)) (\<lambda>token.
     web_bind (web_call refresh_error (Refresh svc (hc_auth c) token)) (\<lambda>pair.
     web_return (200, Reply_tokens (newTokenResponse pair (hc_now c)))))"

definition handleLogout :: "http_call \<Rightarrow> http_request \<Rightarrow> 'r handler" where
  "handleLogout c r =
     web_bind (web_check (refresh_token_of r)) (\<lambda>token.
     web_bind (web_call unexpected (Logout (hc_auth c) token)) (\<lambda>_.
     web_return (204, Reply_empty)))"

definition me_error :: "err \<Rightarrow> http_error" where
  "me_error e = (if e = ErrUserNotFound then Unauthorized ''this account no longer exists'' else unexpected e)"

definition handleMe :: "int \<Rightarrow> 'r handler" where
  "handleMe user =
     web_bind (web_check (UserIDFrom (Some user))) (\<lambda>userID.
     web_bind (web_call me_error (auth_User userID)) (\<lambda>row.
     web_return (200, Reply_user (newUserResponse row))))"

section \<open>Games and sessions\<close>

text \<open>\<open>sessionError\<close>. What an invalid move says of the move is not secret.\<close>

definition sessionError :: "err \<Rightarrow> http_error" where
  "sessionError e =
     (case e of
        ErrNotFound \<Rightarrow> NotFound ''no such session''
      | ErrFinished \<Rightarrow> Conflict ''this session has already ended''
      | ErrGame g \<Rightarrow>
          (case g of
             ErrAlreadyDone \<Rightarrow> Conflict ''this session has already ended''
           | ErrDeadlinePassed \<Rightarrow> Conflict ''the time limit for this session has passed''
           | ErrInvalidMove reason \<Rightarrow> BadRequest (''invalid move: '' @ reason)
           | ErrNoSuchGame _ \<Rightarrow> NotFound ''no such game''
           | _ \<Rightarrow> unexpected e)
      | _ \<Rightarrow> unexpected e)"

definition sessionRequest :: "net_ops \<Rightarrow> int \<Rightarrow> string \<Rightarrow> http_error + int \<times> uuid" where
  "sessionRequest N user ident =
     and_then (UserIDFrom (Some user)) (\<lambda>userID.
     case uuid_of N ident of None \<Rightarrow> Inl (NotFound ''no such session'') | Some i \<Rightarrow> Inr (userID, i))"

definition known_game :: "registry \<Rightarrow> slug \<Rightarrow> http_error + game_definition" where
  "known_game reg s = map_error (\<lambda>_. NotFound ''no such game'') (registry_Get reg s)"

definition handleListGames :: "'r session_service \<Rightarrow> 'r handler" where
  "handleListGames svc = web_return (200, Reply_games (map newGameResponse (registry_All (ss_registry svc))))"

definition handleGetGame :: "'r session_service \<Rightarrow> slug \<Rightarrow> 'r handler" where
  "handleGetGame svc s =
     web_bind (web_check (known_game (ss_registry svc) s)) (\<lambda>d. web_return (200, Reply_game (newGameResponse d)))"

definition sessionsPerWindow :: int where "sessionsPerWindow = 60"

definition limitSessions :: "'r deps \<Rightarrow> int \<Rightarrow> ('r service_world, unit) web" where
  "limitSessions d userID =
     enforceLimit (dp_Limiter d) (''rl:sessions:user:'' @ itoa userID) sessionsPerWindow (LoginWindow (cf_Auth (dp_Config d)))"

definition handleStartSession :: "'r deps \<Rightarrow> 'r session_service \<Rightarrow> http_call \<Rightarrow> slug \<Rightarrow> int \<Rightarrow> 'r handler" where
  "handleStartSession d svc c s user =
     web_bind (web_check (UserIDFrom (Some user))) (\<lambda>userID.
     web_bind (web_check (known_game (ss_registry svc) s)) (\<lambda>_.
     web_bind (limitSessions d userID) (\<lambda>_.
     web_bind (web_call sessionError (Start svc (hc_session c) userID s)) (\<lambda>created.
     web_return (201, Reply_session (newSessionResponse created))))))"

definition handleGetSession :: "'r deps \<Rightarrow> 'r session_service \<Rightarrow> string \<Rightarrow> int \<Rightarrow> 'r handler" where
  "handleGetSession d svc ident user =
     web_bind (web_check (sessionRequest (dp_net d) user ident)) (\<lambda>(userID, i).
     web_bind (web_call sessionError (session_Get svc userID i)) (\<lambda>found.
     web_return (200, Reply_session (newSessionResponse found))))"

definition handleMove :: "'r deps \<Rightarrow> 'r session_service \<Rightarrow> http_call \<Rightarrow> string \<Rightarrow> http_request \<Rightarrow> int \<Rightarrow> 'r handler" where
  "handleMove d svc c ident r user =
     web_bind (web_check (sessionRequest (dp_net d) user ident)) (\<lambda>(userID, i).
     web_bind (web_check (DecodeJSON Some (hr_Body r))) (\<lambda>move.
     web_bind (web_call sessionError (session_Move svc (hc_session c) userID i (Text move))) (\<lambda>updated.
     web_return (200, Reply_session (newSessionResponse updated)))))"

definition handleFinish :: "'r deps \<Rightarrow> 'r session_service \<Rightarrow> http_call \<Rightarrow> string \<Rightarrow> int \<Rightarrow> 'r handler" where
  "handleFinish d svc c ident user =
     web_bind (web_check (sessionRequest (dp_net d) user ident)) (\<lambda>(userID, i).
     web_bind (web_call sessionError (Finish svc (hc_session c) userID i)) (\<lambda>finished.
     web_return (200, Reply_session (newSessionResponse finished))))"

section \<open>Leaderboards and reports\<close>

definition period_help :: "(string \<times> string) list" where
  "period_help = [(''period'', ''must be all-time, daily, weekly or monthly'')]"

definition writePage :: "'r board \<Rightarrow> http_request \<Rightarrow> scope \<Rightarrow> 'r handler" where
  "writePage b r s =
     web_bind (web_check (map_error (\<lambda>e. WithFields (BadRequest e) period_help) (ParsePeriod (hr_Query r ''period'')))) (\<lambda>p.
     web_bind (web_check (intParam r ''limit'' 20 1 MaxPageSize)) (\<lambda>limit.
     web_bind (web_check (intParam r ''offset'' 0 0 1000000)) (\<lambda>offset.
     web_bind (web_call unexpected (Page b s p offset limit)) (\<lambda>page.
     web_return (200, Reply_page page)))))"

definition handleGamePage :: "'r session_service \<Rightarrow> 'r board \<Rightarrow> slug \<Rightarrow> http_request \<Rightarrow> 'r handler" where
  "handleGamePage svc b s r = web_bind (web_check (known_game (ss_registry svc) s)) (\<lambda>_. writePage b r (Game s))"

definition handleGlobalPage :: "'r board \<Rightarrow> http_request \<Rightarrow> 'r handler" where
  "handleGlobalPage b r = writePage b r Global"

text \<open>A player without a rank is an answer, not an error.\<close>

definition standing_or_none :: "'r board \<Rightarrow> scope \<Rightarrow> period \<Rightarrow> int \<Rightarrow> int
    \<Rightarrow> ('r service_world, (standing \<times> entry list option) option) act" where
  "standing_or_none b s p userID neighbours =
     act_catch (act_bind (Standing b s p userID neighbours) (\<lambda>x. ret (Some x))) (\<lambda>e. if e = ErrUnranked then ret None else fail e)"

definition writeStanding :: "'r board \<Rightarrow> http_request \<Rightarrow> scope \<Rightarrow> int \<Rightarrow> 'r handler" where
  "writeStanding b r s user =
     web_bind (web_check (UserIDFrom (Some user))) (\<lambda>userID.
     web_bind (web_check (map_error BadRequest (ParsePeriod (hr_Query r ''period'')))) (\<lambda>p.
     web_bind (web_check (intParam r ''neighbours'' 2 0 25)) (\<lambda>neighbours.
     web_bind (web_call unexpected (standing_or_none b s p userID neighbours)) (\<lambda>found.
     case found of
       None \<Rightarrow> web_return (200, Reply_standing \<lparr>sd_Scope = scope_Name s, sd_Period = p, sd_Rank = 0, sd_Points = 0,
           sd_Total = 0, sd_Neighbours = []\<rparr>)
     | Some (standing, around) \<Rightarrow>
         web_bind (web_call unexpected (Size b s p)) (\<lambda>total.
         web_return (200, Reply_standing \<lparr>sd_Scope = scope_Name s, sd_Period = p, sd_Rank = st_Rank standing,
           sd_Points = st_Points standing, sd_Total = total,
           sd_Neighbours = (case around of None \<Rightarrow> [] | Some es \<Rightarrow> es)\<rparr>))))))"

definition handleGameStanding :: "'r session_service \<Rightarrow> 'r board \<Rightarrow> slug \<Rightarrow> http_request \<Rightarrow> int \<Rightarrow> 'r handler" where
  "handleGameStanding svc b s r user =
     web_bind (web_check (known_game (ss_registry svc) s)) (\<lambda>_. writeStanding b r (Game s) user)"

definition handleGlobalStanding :: "'r board \<Rightarrow> http_request \<Rightarrow> int \<Rightarrow> 'r handler" where
  "handleGlobalStanding b r user = writeStanding b r Global user"

text \<open>\<open>time.Parse\<close> with the layout \<open>2006-01-02\<close>.\<close>

definition parse_date :: "string \<Rightarrow> time option" where
  "parse_date raw =
     (if length raw \<noteq> 10 \<or> raw ! 4 \<noteq> CHR ''-'' \<or> raw ! 7 \<noteq> CHR ''-'' then None
      else (case (parse_nat (take 4 raw), parse_nat (take 2 (drop 5 raw)), parse_nat (drop 8 raw)) of
          (Some y, Some m, Some d) \<Rightarrow>
            if m < 1 \<or> 12 < m \<or> d < 1 \<or> month_lengths (is_leap (int y)) ! (m - 1) < int d then None
            else Some (date_time (int y) (int m) (int d))
        | _ \<Rightarrow> None))"

definition reportDate :: "string \<Rightarrow> http_error + time" where
  "reportDate raw =
     (if raw = '''' then Inr zero_time
      else (case parse_date raw of
          None \<Rightarrow> Inl (WithFields (BadRequest ''date must look like 2026-09-07'') [(''date'', ''must be a date in YYYY-MM-DD form'')])
        | Some t \<Rightarrow> Inr (time_add t (12 * hour))))"

definition report_scope :: "registry \<Rightarrow> string \<Rightarrow> http_error + scope" where
  "report_scope reg game = (if game = '''' then Inr Global else and_then (known_game reg game) (\<lambda>_. Inr (Game game)))"

definition handleTopPlayers :: "'r report_service \<Rightarrow> http_request \<Rightarrow> 'r handler" where
  "handleTopPlayers svc r =
     web_bind (web_check (map_error (\<lambda>e. WithFields (BadRequest e) period_help) (ParsePeriod (hr_Query r ''period'')))) (\<lambda>p.
     web_bind (web_check (report_scope (rs_registry svc) (hr_Query r ''game''))) (\<lambda>s.
     web_bind (web_check (reportDate (hr_Query r ''date''))) (\<lambda>at_time.
     web_bind (web_check (intParam r ''limit'' 10 1 MaxLimit)) (\<lambda>limit.
     web_bind (web_call unexpected (TopPlayers svc \<lparr>rq_Scope = s, rq_Period = p, rq_At = at_time, rq_Limit = limit\<rparr>)) (\<lambda>report.
     web_return (200, Reply_report report))))))"

section \<open>Live updates and health\<close>

definition handleTicket :: "'r tickets \<Rightarrow> http_call \<Rightarrow> int \<Rightarrow> 'r handler" where
  "handleTicket t c user =
     web_bind (web_check (UserIDFrom (Some user))) (\<lambda>userID.
     web_bind (web_call unexpected (ticket_Issue t (hc_ticket c) userID)) (\<lambda>ticket.
     web_return (201, Reply_ticket ticket (seconds_int (tk_ttl t)) (''/v1/ws?ticket='' @ ticket))))"

text \<open>The handshake does not answer with the shared envelope: what it refuses is written by \<open>http.Error\<close>.\<close>

definition handshake_error :: "err \<Rightarrow> int \<times> reply" where
  "handshake_error e =
     (if e = ErrTicketInvalid then 401 else 503, Reply_refused ''unauthorized'' ''a valid realtime ticket is required'')"

definition handleWs :: "'r tickets \<Rightarrow> http_request \<Rightarrow> 'r handler" where
  "handleWs t r =
     web_bind (web_call unexpected
       (act_catch (act_bind (Redeem t (hr_Query r ''ticket'')) (\<lambda>userID. ret (101, Reply_upgrade userID))) (\<lambda>e. ret (handshake_error e))))
     web_return"

definition handleLive :: "'r handler" where
  "handleLive = web_return (200, Reply_health ''ok'' [])"

definition check_results :: "bool \<Rightarrow> (string \<times> string option) list \<Rightarrow> (string \<times> string \<times> string) list" where
  "check_results detail probes =
     map (\<lambda>(name, outcome). case outcome of
        None \<Rightarrow> (name, ''ok'', '''')
      | Some problem \<Rightarrow> (name, ''error'', if detail then problem else '''')) probes"

definition handleReady :: "http_call \<Rightarrow> bool \<Rightarrow> 'r handler" where
  "handleReady c detail =
     (let results = check_results detail (hc_probes c)
      in if list_all (\<lambda>(_, status, _). status = ''ok'') results then web_return (200, Reply_health ''ok'' results)
         else web_return (503, Reply_health ''unavailable'' results))"

section \<open>The router\<close>

datatype route =
    To_healthz | To_readyz
  | To_register | To_login | To_refresh | To_logout | To_me
  | To_games | To_game slug | To_start slug | To_session string | To_finish string | To_move string
  | To_global_page | To_game_page slug | To_global_standing | To_game_standing slug
  | To_ws | To_ticket | To_top_players
  | To_nothing | To_other_method

definition no_endpoint :: "'r handler" where
  "no_endpoint = web_fail (NotFound ''no such endpoint'')"

definition mounted :: "'s option \<Rightarrow> ('s \<Rightarrow> 'r handler) \<Rightarrow> 'r handler" where
  "mounted service h = (case service of None \<Rightarrow> no_endpoint | Some svc \<Rightarrow> h svc)"

definition authenticated :: "'r deps \<Rightarrow> http_call \<Rightarrow> http_request \<Rightarrow> (int \<Rightarrow> 'r handler) \<Rightarrow> 'r handler" where
  "authenticated d c r h = mounted (dp_Auth d) (\<lambda>svc. Authenticate (as_jwt svc) (as_tokens svc) (hc_now c) r h)"

text \<open>The reads stand outside \<open>Authenticate\<close>, so there is no user on their context.\<close>

definition limited_reads :: "'r deps \<Rightarrow> http_request \<Rightarrow> 'r handler \<Rightarrow> 'r handler" where
  "limited_reads d r h =
     RateLimit (dp_net d) (dp_Limiter d) (cf_Auth (dp_Config d)) ''reads'' (ReadsPerWindow (cf_Auth (dp_Config d)))
       (RateWindow (cf_Auth (dp_Config d))) None r h"

definition limited_moves :: "'r deps \<Rightarrow> http_request \<Rightarrow> int \<Rightarrow> 'r handler \<Rightarrow> 'r handler" where
  "limited_moves d r user h =
     RateLimit (dp_net d) (dp_Limiter d) (cf_Auth (dp_Config d)) ''moves'' (MovesPerWindow (cf_Auth (dp_Config d)))
       (RateWindow (cf_Auth (dp_Config d))) (Some user) r h"

text \<open>The routes of each group, for services that are there.\<close>

fun mountAuth :: "'r deps \<Rightarrow> auth_service \<Rightarrow> http_call \<Rightarrow> http_request \<Rightarrow> route \<Rightarrow> 'r handler" where
  "mountAuth d svc c r To_register = handleRegister d svc c r"
| "mountAuth d svc c r To_login = handleLogin d svc c r"
| "mountAuth d svc c r To_refresh = handleRefresh svc c r"
| "mountAuth d svc c r To_logout = handleLogout c r"
| "mountAuth d svc c r To_me = authenticated d c r (\<lambda>user. handleMe user)"
| "mountAuth d svc c r _ = no_endpoint"

fun mountGames :: "'r deps \<Rightarrow> 'r session_service \<Rightarrow> http_call \<Rightarrow> http_request \<Rightarrow> route \<Rightarrow> 'r handler" where
  "mountGames d svc c r To_games = handleListGames svc"
| "mountGames d svc c r (To_game s) = handleGetGame svc s"
| "mountGames d svc c r (To_start s) = authenticated d c r (\<lambda>user. handleStartSession d svc c s user)"
| "mountGames d svc c r (To_session i) = authenticated d c r (\<lambda>user. handleGetSession d svc i user)"
| "mountGames d svc c r (To_finish i) = authenticated d c r (\<lambda>user. handleFinish d svc c i user)"
| "mountGames d svc c r (To_move i) = authenticated d c r (\<lambda>user. limited_moves d r user (handleMove d svc c i r user))"
| "mountGames d svc c r _ = no_endpoint"

fun mountLeaderboards ::
    "'r deps \<Rightarrow> 'r session_service \<Rightarrow> 'r board \<Rightarrow> http_call \<Rightarrow> http_request \<Rightarrow> route \<Rightarrow> 'r handler" where
  "mountLeaderboards d svc b c r To_global_page = limited_reads d r (handleGlobalPage b r)"
| "mountLeaderboards d svc b c r (To_game_page s) = limited_reads d r (handleGamePage svc b s r)"
| "mountLeaderboards d svc b c r To_global_standing = authenticated d c r (\<lambda>user. handleGlobalStanding b r user)"
| "mountLeaderboards d svc b c r (To_game_standing s) = authenticated d c r (\<lambda>user. handleGameStanding svc b s r user)"
| "mountLeaderboards d svc b c r _ = no_endpoint"

fun mountRealtime :: "'r deps \<Rightarrow> 'r tickets \<Rightarrow> http_call \<Rightarrow> http_request \<Rightarrow> route \<Rightarrow> 'r handler" where
  "mountRealtime d t c r To_ws = handleWs t r"
| "mountRealtime d t c r To_ticket = authenticated d c r (\<lambda>user. handleTicket t c user)"
| "mountRealtime d t c r _ = no_endpoint"

fun mountReports :: "'r deps \<Rightarrow> 'r report_service \<Rightarrow> http_request \<Rightarrow> route \<Rightarrow> 'r handler" where
  "mountReports d svc r To_top_players = limited_reads d r (handleTopPlayers svc r)"
| "mountReports d svc r _ = no_endpoint"

text \<open>\<open>NewRouter\<close>: the group of a route, mounted when its services are there.\<close>

datatype route_group = G_health | G_auth | G_games | G_boards | G_realtime | G_reports | G_none

fun group_of :: "route \<Rightarrow> route_group" where
  "group_of To_healthz = G_health" | "group_of To_readyz = G_health"
| "group_of To_register = G_auth" | "group_of To_login = G_auth" | "group_of To_refresh = G_auth"
| "group_of To_logout = G_auth" | "group_of To_me = G_auth"
| "group_of To_games = G_games" | "group_of (To_game s) = G_games" | "group_of (To_start s) = G_games"
| "group_of (To_session i) = G_games" | "group_of (To_finish i) = G_games" | "group_of (To_move i) = G_games"
| "group_of To_global_page = G_boards" | "group_of (To_game_page s) = G_boards"
| "group_of To_global_standing = G_boards" | "group_of (To_game_standing s) = G_boards"
| "group_of To_ws = G_realtime" | "group_of To_ticket = G_realtime"
| "group_of To_top_players = G_reports"
| "group_of To_nothing = G_none" | "group_of To_other_method = G_none"

definition dispatch :: "'r deps \<Rightarrow> http_call \<Rightarrow> http_request \<Rightarrow> route \<Rightarrow> 'r handler" where
  "dispatch d c r to =
     (case group_of to of
        G_none \<Rightarrow> if to = To_other_method
          then web_fail (newError 405 ''method_not_allowed'' ''that method is not allowed on this endpoint'') else no_endpoint
      | G_health \<Rightarrow> if to = To_healthz then handleLive else handleReady c (\<not> IsProd (dp_Config d))
      | G_auth \<Rightarrow> mounted (dp_Auth d) (\<lambda>svc. mountAuth d svc c r to)
      | G_games \<Rightarrow> mounted (dp_Sessions d) (\<lambda>svc. mountGames d svc c r to)
      | G_boards \<Rightarrow> mounted (dp_Leaderboard d) (\<lambda>b. mounted (dp_Sessions d) (\<lambda>svc. mountLeaderboards d svc b c r to))
      | G_realtime \<Rightarrow> if dp_Realtime d then mounted (dp_Tickets d) (\<lambda>t. mountRealtime d t c r to) else no_endpoint
      | G_reports \<Rightarrow> mounted (dp_Reports d) (\<lambda>svc. mountReports d svc r to))"

section \<open>Serving a request\<close>

datatype response_body = Error_body string string "(string \<times> string) list" string | Ok_body reply

record response =
  rp_Status :: int
  rp_Body :: response_body
  rp_Headers :: headers

definition request_id :: "http_call \<Rightarrow> http_request \<Rightarrow> string" where
  "request_id c r = (if hr_RequestID r = '''' \<or> 64 < length (hr_RequestID r) then hc_request_id c else hr_RequestID r)"

definition write_body :: "int \<Rightarrow> response_body \<Rightarrow> headers \<Rightarrow> response" where
  "write_body status body hs =
     \<lparr>rp_Status = status, rp_Body = body, rp_Headers = AList.update ''Content-Type'' ''application/json; charset=utf-8'' hs\<rparr>"

definition WriteError :: "string \<Rightarrow> http_error \<Rightarrow> headers \<Rightarrow> response" where
  "WriteError ident e hs = write_body (ae_Status e) (Error_body (ae_Code e) (ae_Message e) (ae_Fields e) ident) hs"

definition plain_error :: "int \<Rightarrow> reply \<Rightarrow> headers \<Rightarrow> response" where
  "plain_error status reply hs =
     \<lparr>rp_Status = status, rp_Body = Ok_body reply,
      rp_Headers = AList.update ''X-Content-Type-Options'' ''nosniff'' (AList.update ''Content-Type'' ''text/plain; charset=utf-8'' hs)\<rparr>"

definition WriteJSON :: "int \<Rightarrow> reply \<Rightarrow> headers \<Rightarrow> response" where
  "WriteJSON status reply hs =
     (case reply of
        Reply_upgrade userID \<Rightarrow> \<lparr>rp_Status = status, rp_Body = Ok_body reply, rp_Headers = hs\<rparr>
      | Reply_refused code message \<Rightarrow> plain_error status reply hs
      | _ \<Rightarrow> write_body status (Ok_body reply) hs)"

definition serve ::
    "'r deps \<Rightarrow> http_call \<Rightarrow> http_request \<Rightarrow> route \<Rightarrow> 'r service_world \<Rightarrow> response \<times> 'r service_world" where
  "serve d c r to w =
     (case dispatch d c r to (w, [(''X-Request-Id'', request_id c r)]) of
        (Inl e, w', hs) \<Rightarrow> (WriteError (request_id c r) e hs, w')
      | (Inr (status, reply), w', hs) \<Rightarrow> (WriteJSON status reply hs, w'))"

end
