(* ===== verification/Auth_Demo.thy ===== *)
theory Auth_Demo
  imports Auth
begin

text \<open>
  A service with concrete packages and a state in which one user is signed in. The witnesses of the
  properties of \<open>internal/auth\<close> run on it.
\<close>

text \<open>A package that signs the claims of one user, and a service whose calls are made at one moment.\<close>

definition demo_claims :: jwt_claims where
  "demo_claims = \<lparr>jc_Subject = itoa 1, jc_Issuer = ''podium'', jc_ID = ''id'', jc_IssuedAt = second, jc_NotBefore = second,
     jc_ExpiresAt = 901 * second\<rparr>"

definition demo_jwt :: jwt_ops where
  "demo_jwt =
     \<lparr>jwt_date = (\<lambda>t. t div second * second),
      jwt_sign = (\<lambda>secret c. if secret = [1] \<and> c = demo_claims then Some ''access'' else None),
      jwt_parse = (\<lambda>secret iss now raw.
        if jc_ExpiresAt demo_claims \<le> now then Inl JwtExpired
        else if now < jc_NotBefore demo_claims \<or> jc_Issuer demo_claims \<noteq> iss then Inl JwtInvalid
        else Inr demo_claims)\<rparr>"

definition demo_issuer :: token_issuer where
  "demo_issuer = \<lparr>ti_secret = [1], ti_issuer = ''podium'', ti_ttl = 900 * second\<rparr>"

definition demo_auth :: auth_service where
  "demo_auth = \<lparr>as_argon2 = demo_argon2, as_jwt = demo_jwt, as_hasher = \<lparr>hs_params = demo_cost, hs_decoy = ''''\<rparr>,
     as_tokens = demo_issuer, as_refreshTTL = hour\<rparr>"

definition demo_auth_call :: "byte \<Rightarrow> auth_call" where
  "demo_auth_call b = \<lparr>at_now = second + 1, at_later = second + 1, at_pg_now = 2 * second, at_pg_later = 2 * second,
     at_salt = Some (replicate 16 7), at_token = Some [b], at_token_id = ''id'', at_family = 5\<rparr>"

lemma demo_jwt_laws: "jwt_laws demo_jwt"
  by (simp add: jwt_laws_def demo_jwt_def)

lemma demo_issue: "Issue demo_jwt demo_issuer (second + 1) ''id'' 1 = Inr (''access'', 901 * second + 1)"
  by (simp add: Issue_def demo_jwt_def demo_issuer_def demo_claims_def time_add_def second_def)

text \<open>The hashes of the tokens that two random sources give.\<close>

definition demo_raw :: "byte \<Rightarrow> string" where
  "demo_raw b = b64_encode url_alphabet [b]"

lemma demo_hashes: "hashRefreshToken (b64_encode url_alphabet [1]) \<noteq> hashRefreshToken (b64_encode url_alphabet [2])"
  by code_simp

definition demo_user :: user_row where
  "demo_user = \<lparr>us_ID = 1, us_Username = ''ada'', us_Email = ''ada@x'',
     us_PasswordHash = encode_hash demo_argon2 demo_cost (replicate 16 7) (key_of demo_argon2 demo_cost (replicate 16 7) ''secret'' keyLength),
     us_CreatedAt = 2 * second, us_UpdatedAt = 2 * second\<rparr>"

definition demo_token :: refresh_token where
  "demo_token = \<lparr>rt_ID = 1, rt_UserID = 1, rt_FamilyID = 5, rt_TokenHash = hashRefreshToken (demo_raw 1), rt_IssuedAt = 2 * second,
     rt_ExpiresAt = 3601 * second, rt_UsedAt = None, rt_RevokedAt = None\<rparr>"

definition demo_start :: "unit service_world" where
  "demo_start = \<lparr>w_db = empty_db, w_redis = (), w_faults = []\<rparr>"

definition demo_signed_in :: "unit service_world" where
  "demo_signed_in = demo_start\<lparr>w_db := empty_db\<lparr>users := [demo_user], tokens := [demo_token]\<rparr>\<rparr>"

end
