(* ===== verification/Http_Demo.thy ===== *)
theory Http_Demo
  imports Http_Handlers Auth_Demo
begin

text \<open>Services, a configuration and requests on which the witnesses of the HTTP properties run.\<close>

definition web_limits :: auth_config where
  "web_limits =
     \<lparr>JWTSecret = '''', Issuer = ''podium'', AccessTokenTTL = 900 * second, RefreshTokenTTL = hour, ac_Argon2 = demo_cost,
      LoginMaxIP = 20, LoginMaxAccount = 5, LoginWindow = 60 * second, TrustProxyIP = False, ReadsPerWindow = 600,
      MovesPerWindow = 600, RateWindow = 60 * second\<rparr>"

definition web_config :: config where
  "web_config =
     \<lparr>cf_Env = EnvDev,
      cf_HTTP = \<lparr>Addr = '':8080'', ht_ReadTimeout = 5 * second, ht_WriteTimeout = 10 * second, IdleTimeout = 60 * second,
        ShutdownTimeout = 10 * second\<rparr>,
      cf_Postgres = \<lparr>po_URL = '''', MaxConns = 10, MinConns = 1, MaxConnLifetime = hour, MaxConnIdleTime = hour\<rparr>,
      cf_Redis = \<lparr>re_URL = '''', PoolSize = 10, DialTimeout = second, re_ReadTimeout = second, re_WriteTimeout = second,
        MaxRetries = 1, OpTimeout = second\<rparr>,
      cf_Log = \<lparr>lg_Level = 0, lg_Format = FormatText\<rparr>,
      cf_Auth = web_limits,
      cf_Worker = \<lparr>ProjectorInterval = second, ProjectorBatch = 10, HousekeepingInterval = hour, SessionMaxAge = hour, MetricsAddr = ''''\<rparr>,
      cf_Realtime = \<lparr>FlushInterval = second, TopN = 10, SendBuffer = 16, TicketTTL = 30 * second, MaxChannels = 16,
        rt_WriteTimeout = 5 * second, PingInterval = 30 * second, MaxConnsPerUser = 5\<rparr>,
      cf_warnings = []\<rparr>"

definition web_net :: net_ops where
  "web_net = \<lparr>ip_text = (\<lambda>x. Some x), host_of = (\<lambda>x. map_option fst (cut_at (CHR '':'') x)), mailbox = (\<lambda>x. Some x), uuid_of = (\<lambda>_. None)\<rparr>"

definition web_deps :: "mem_strings deps" where
  "web_deps =
     \<lparr>dp_Config = web_config, dp_Auth = Some demo_auth, dp_Sessions = None, dp_Leaderboard = None, dp_Realtime = False,
      dp_Tickets = None, dp_Reports = None, dp_Limiter = Some mem_string_ops, dp_net = web_net\<rparr>"

definition web_call_at :: http_call where
  "web_call_at =
     \<lparr>hc_auth = demo_auth_call 2,
      hc_session = \<lparr>c_now = 0, c_pg_now = 0, c_uuid = 9, c_entropy = None, c_gone = False\<rparr>,
      hc_ticket = None, hc_now = second + 1, hc_request_id = ''r1'', hc_probes = []\<rparr>"

definition web_request :: "http_body \<Rightarrow> http_request" where
  "web_request body =
     \<lparr>hr_Authorization = '''', hr_Forwarded = '''', hr_RealIP = '''', hr_RequestID = '''', hr_RemoteAddr = ''10.0.0.1:5000'',
      hr_Query = (\<lambda>_. ''''), hr_Body = body\<rparr>"

definition web_login :: http_request where
  "web_login = web_request (One (JObj [(''login'', JStr ''ada''), (''password'', JStr ''secret'')]))"

text \<open>A state in which the account of the login has used up its attempts.\<close>

definition web_locked :: "mem_strings service_world" where
  "web_locked = \<lparr>w_db = empty_db\<lparr>users := [demo_user]\<rparr>,
     w_redis = (\<lambda>k. if k = login_account_key ''ada'' then Some (itoa 5, Some 1000) else None), w_faults = []\<rparr>"

end
