(* ===== verification/Rotation.thy ===== *)
theory Rotation
  imports Store
begin

text \<open>
  The rotation of refresh tokens as an abstract machine: the families and the hashes that were ever drawn,
  and the table of tokens. Its steps are what transactions may do to the table. The random source
  gives families and tokens that were not drawn before.
\<close>

section \<open>The machine\<close>

type_synonym token_table = "uuid set \<times> byte list set \<times> refresh_token list"

definition unspent :: "refresh_token \<Rightarrow> bool" where
  "unspent t \<longleftrightarrow> rt_UsedAt t = None \<and> rt_RevokedAt t = None"

definition claim_rows :: "time \<Rightarrow> byte list \<Rightarrow> refresh_token list \<Rightarrow> refresh_token list" where
  "claim_rows now hash ts = map (\<lambda>t. if claimable now hash t then t\<lparr>rt_UsedAt := Some now\<rparr> else t) ts"

definition revoke_rows :: "time \<Rightarrow> uuid \<Rightarrow> refresh_token list \<Rightarrow> refresh_token list" where
  "revoke_rows now f ts =
     map (\<lambda>t. if rt_FamilyID t = f \<and> rt_RevokedAt t = None then t\<lparr>rt_RevokedAt := Some now\<rparr> else t) ts"

inductive token_step :: "token_table \<Rightarrow> token_table \<Rightarrow> bool" where
  draw: "F \<subseteq> F' \<Longrightarrow> H \<subseteq> H' \<Longrightarrow> token_step (F, H, ts) (F', H', ts)"
| begin_family: "rt_FamilyID t \<notin> F \<Longrightarrow> rt_TokenHash t \<notin> H \<Longrightarrow> unspent t \<Longrightarrow>
    token_step (F, H, ts) (insert (rt_FamilyID t) F, insert (rt_TokenHash t) H, ts @ [t])"
| rotate: "old \<in> set ts \<Longrightarrow> claimable now (rt_TokenHash old) old \<Longrightarrow> rt_FamilyID t = rt_FamilyID old \<Longrightarrow>
    rt_TokenHash t \<notin> H \<Longrightarrow> unspent t \<Longrightarrow>
    token_step (F, H, ts) (F, insert (rt_TokenHash t) H, claim_rows now (rt_TokenHash old) ts @ [t])"
| revoke: "H \<subseteq> H' \<Longrightarrow> token_step (F, H, ts) (F, H', revoke_rows now f ts)"
| expire: "token_step (F, H, ts) (F, H, filter (\<lambda>t. \<not> rt_ExpiresAt t < now) ts)"

abbreviation token_steps :: "token_table \<Rightarrow> token_table \<Rightarrow> bool" where
  "token_steps \<equiv> token_step\<^sup>*\<^sup>*"

section \<open>Its invariants\<close>

definition known_tokens :: "token_table \<Rightarrow> bool" where
  "known_tokens S = (case S of (F, H, ts) \<Rightarrow> \<forall>t \<in> set ts. rt_FamilyID t \<in> F \<and> rt_TokenHash t \<in> H)"

definition one_live :: "refresh_token list \<Rightarrow> bool" where
  "one_live ts \<longleftrightarrow> (\<forall>t \<in> set ts. \<forall>u \<in> set ts. rt_FamilyID t = rt_FamilyID u \<longrightarrow>
     rt_UsedAt t = None \<longrightarrow> rt_UsedAt u = None \<longrightarrow> t = u)"

definition revoked_together :: "refresh_token list \<Rightarrow> bool" where
  "revoked_together ts \<longleftrightarrow> (\<forall>t \<in> set ts. \<forall>u \<in> set ts. rt_FamilyID t = rt_FamilyID u \<longrightarrow>
     (rt_RevokedAt t = None \<longleftrightarrow> rt_RevokedAt u = None))"

definition tokens_ok :: "token_table \<Rightarrow> bool" where
  "tokens_ok S = (known_tokens S \<and> (case S of (F, H, ts) \<Rightarrow>
     distinct (map rt_TokenHash ts) \<and> one_live ts \<and> revoked_together ts))"

definition spent :: "byte list \<Rightarrow> token_table \<Rightarrow> bool" where
  "spent h S = (case S of (F, H, ts) \<Rightarrow> h \<in> H \<and> (\<forall>t \<in> set ts. rt_TokenHash t = h \<longrightarrow> rt_UsedAt t \<noteq> None))"

definition dead :: "uuid \<Rightarrow> token_table \<Rightarrow> bool" where
  "dead f S = (case S of (F, H, ts) \<Rightarrow> f \<in> F \<and> (\<forall>t \<in> set ts. rt_FamilyID t = f \<longrightarrow> rt_RevokedAt t \<noteq> None))"

lemmas table_defs = known_tokens_def one_live_def revoked_together_def

lemma claimable_unspent: "claimable now h t \<Longrightarrow> rt_TokenHash t = h \<and> unspent t"
  by (simp add: claimable_def unspent_def)

lemma claim_rows_keys [simp]: "map rt_TokenHash (claim_rows now h ts) = map rt_TokenHash ts"
  by (simp add: claim_rows_def)

lemma revoke_rows_keys [simp]: "map rt_TokenHash (revoke_rows now f ts) = map rt_TokenHash ts"
  by (simp add: revoke_rows_def)

text \<open>A row after a claim comes from a row that differs at most in its use.\<close>

lemma in_claim_rows:
  assumes "u \<in> set (claim_rows now h ts)"
  obtains t where "t \<in> set ts" "rt_FamilyID u = rt_FamilyID t" "rt_TokenHash u = rt_TokenHash t"
    "rt_RevokedAt u = rt_RevokedAt t" "rt_UsedAt u = None \<Longrightarrow> u = t \<and> \<not> claimable now h t"
    "rt_UsedAt t \<noteq> None \<Longrightarrow> rt_UsedAt u \<noteq> None"
proof -
  obtain t where t: "t \<in> set ts" "u = (if claimable now h t then t\<lparr>rt_UsedAt := Some now\<rparr> else t)"
    using assms by (auto simp: claim_rows_def)
  then show thesis by (intro that [of t]) (auto split: if_splits)
qed

lemma in_revoke_rows:
  assumes "u \<in> set (revoke_rows now f ts)"
  obtains t where "t \<in> set ts" "rt_FamilyID u = rt_FamilyID t" "rt_TokenHash u = rt_TokenHash t"
    "rt_UsedAt u = rt_UsedAt t" "rt_RevokedAt u = None \<longleftrightarrow> rt_RevokedAt t = None \<and> rt_FamilyID t \<noteq> f"
    "u = (if rt_FamilyID t = f \<and> rt_RevokedAt t = None then t\<lparr>rt_RevokedAt := Some now\<rparr> else t)"
proof -
  obtain t where t: "t \<in> set ts" "u = (if rt_FamilyID t = f \<and> rt_RevokedAt t = None then t\<lparr>rt_RevokedAt := Some now\<rparr> else t)"
    using assms by (auto simp: revoke_rows_def)
  then show thesis by (intro that [of t]) (auto split: if_splits)
qed

lemma known_step:
  assumes "token_step S S'" and "known_tokens S"
  shows "known_tokens S'"
  using assms
proof cases
  case (rotate old ts now t H F)
  then show ?thesis using assms(2) by (auto simp: known_tokens_def elim!: in_claim_rows)
next
  case (revoke H H' F ts now f)
  then show ?thesis using assms(2) by (auto simp: known_tokens_def elim!: in_revoke_rows)
qed (use assms(2) in \<open>auto simp: known_tokens_def\<close>)

lemma one_live_append:
  assumes "one_live ts" and "\<And>u. u \<in> set ts \<Longrightarrow> rt_FamilyID u = rt_FamilyID t \<Longrightarrow> rt_UsedAt u \<noteq> None"
  shows "one_live (ts @ [t])"
  unfolding one_live_def
proof (intro ballI impI)
  fix u v assume uv: "u \<in> set (ts @ [t])" "v \<in> set (ts @ [t])" "rt_FamilyID u = rt_FamilyID v"
    "rt_UsedAt u = None" "rt_UsedAt v = None"
  consider "u \<in> set ts" "v \<in> set ts" | "u = t" "v \<in> set ts" | "u \<in> set ts" "v = t" | "u = t" "v = t" using uv(1,2) by auto
  then show "u = v" using assms uv(3-5) unfolding one_live_def by cases metis+
qed

lemma one_live_claim:
  assumes "one_live ts"
  shows "one_live (claim_rows now h ts)"
  unfolding one_live_def
proof (intro ballI impI)
  fix u v assume uv: "u \<in> set (claim_rows now h ts)" "v \<in> set (claim_rows now h ts)" "rt_FamilyID u = rt_FamilyID v"
    "rt_UsedAt u = None" "rt_UsedAt v = None"
  have "u \<in> set ts" using uv(1,4) by (elim in_claim_rows) simp
  moreover have "v \<in> set ts" using uv(2,5) by (elim in_claim_rows) simp
  ultimately show "u = v" using assms uv(3-5) unfolding one_live_def by blast
qed

lemma one_live_revoke:
  assumes "one_live ts"
  shows "one_live (revoke_rows now f ts)"
  unfolding one_live_def
proof (intro ballI impI)
  fix u v assume uv: "u \<in> set (revoke_rows now f ts)" "v \<in> set (revoke_rows now f ts)" "rt_FamilyID u = rt_FamilyID v"
    "rt_UsedAt u = None" "rt_UsedAt v = None"
  let ?r = "\<lambda>t. if rt_FamilyID t = f \<and> rt_RevokedAt t = None then t\<lparr>rt_RevokedAt := Some now\<rparr> else t"
  obtain s where s: "s \<in> set ts" "rt_FamilyID u = rt_FamilyID s" "rt_UsedAt u = rt_UsedAt s" "u = ?r s"
    using uv(1) by (rule in_revoke_rows)
  obtain t where t: "t \<in> set ts" "rt_FamilyID v = rt_FamilyID t" "rt_UsedAt v = rt_UsedAt t" "v = ?r t"
    using uv(2) by (rule in_revoke_rows)
  have "s = t" using assms uv(3-5) s(1-3) t(1-3) unfolding one_live_def by metis
  then show "u = v" using s(4) t(4) by simp
qed

lemma together_append:
  assumes "revoked_together ts"
    and "\<And>u. u \<in> set ts \<Longrightarrow> rt_FamilyID u = rt_FamilyID t \<Longrightarrow> rt_RevokedAt u = None \<longleftrightarrow> rt_RevokedAt t = None"
  shows "revoked_together (ts @ [t])"
  unfolding revoked_together_def
proof (intro ballI impI)
  fix u v assume uv: "u \<in> set (ts @ [t])" "v \<in> set (ts @ [t])" "rt_FamilyID u = rt_FamilyID v"
  consider "u \<in> set ts" "v \<in> set ts" | "u = t" "v \<in> set ts" | "u \<in> set ts" "v = t" | "u = t" "v = t" using uv(1,2) by auto
  then show "(rt_RevokedAt u = None) = (rt_RevokedAt v = None)" using assms uv(3) unfolding revoked_together_def by cases metis+
qed

lemma together_claim: "revoked_together ts \<Longrightarrow> revoked_together (claim_rows now h ts)"
  unfolding revoked_together_def
proof (intro ballI impI)
  fix u v assume ts: "\<forall>t \<in> set ts. \<forall>u \<in> set ts. rt_FamilyID t = rt_FamilyID u \<longrightarrow> (rt_RevokedAt t = None) = (rt_RevokedAt u = None)"
    and uv: "u \<in> set (claim_rows now h ts)" "v \<in> set (claim_rows now h ts)" "rt_FamilyID u = rt_FamilyID v"
  obtain s where s: "s \<in> set ts" "rt_FamilyID u = rt_FamilyID s" "rt_RevokedAt u = rt_RevokedAt s" using uv(1) by (rule in_claim_rows)
  obtain t where t: "t \<in> set ts" "rt_FamilyID v = rt_FamilyID t" "rt_RevokedAt v = rt_RevokedAt t" using uv(2) by (rule in_claim_rows)
  show "(rt_RevokedAt u = None) = (rt_RevokedAt v = None)" using ts s t uv(3) by metis
qed

lemma together_revoke: "revoked_together ts \<Longrightarrow> revoked_together (revoke_rows now f ts)"
  unfolding revoked_together_def
proof (intro ballI impI)
  fix u v assume ts: "\<forall>t \<in> set ts. \<forall>u \<in> set ts. rt_FamilyID t = rt_FamilyID u \<longrightarrow> (rt_RevokedAt t = None) = (rt_RevokedAt u = None)"
    and uv: "u \<in> set (revoke_rows now f ts)" "v \<in> set (revoke_rows now f ts)" "rt_FamilyID u = rt_FamilyID v"
  obtain s where s: "s \<in> set ts" "rt_FamilyID u = rt_FamilyID s"
      "rt_RevokedAt u = None \<longleftrightarrow> rt_RevokedAt s = None \<and> rt_FamilyID s \<noteq> f" using uv(1) by (rule in_revoke_rows)
  obtain t where t: "t \<in> set ts" "rt_FamilyID v = rt_FamilyID t"
      "rt_RevokedAt v = None \<longleftrightarrow> rt_RevokedAt t = None \<and> rt_FamilyID t \<noteq> f" using uv(2) by (rule in_revoke_rows)
  show "(rt_RevokedAt u = None) = (rt_RevokedAt v = None)" using ts s t uv(3) by metis
qed

lemma tokens_ok_step:
  assumes step: "token_step S S'" and ok: "tokens_ok S"
  shows "tokens_ok S'"
proof -
  have known: "known_tokens S'" using known_step [OF step] ok by (simp add: tokens_ok_def)
  from step show ?thesis
  proof cases
    case (draw F F' H H' ts)
    then show ?thesis using ok known by (simp add: tokens_ok_def)
  next
    case (begin_family t F H ts)
    have "one_live (ts @ [t])" "revoked_together (ts @ [t])"
      using begin_family ok by (auto simp: tokens_ok_def known_tokens_def intro!: one_live_append together_append)
    then show ?thesis using begin_family ok known by (auto simp: tokens_ok_def known_tokens_def)
  next
    case (rotate old ts now t H F)
    let ?ts = "claim_rows now (rt_TokenHash old) ts"
    have live: "one_live ts" "revoked_together ts" "distinct (map rt_TokenHash ts)" "\<forall>t \<in> set ts. rt_TokenHash t \<in> H"
      using ok rotate(1) by (auto simp: tokens_ok_def known_tokens_def)
    note old = claimable_unspent [OF rotate(4)]
    have "rt_UsedAt u \<noteq> None" if "u \<in> set ?ts" "rt_FamilyID u = rt_FamilyID t" for u
    proof
      assume n: "rt_UsedAt u = None"
      then have u: "u \<in> set ts" "\<not> claimable now (rt_TokenHash old) u" using that(1) by (auto elim: in_claim_rows)
      have "u = old" using live(1) u(1) rotate(3,5) n old that(2) unfolding one_live_def unspent_def by metis
      then show False using u(2) rotate(4) by simp
    qed
    then have "one_live (?ts @ [t])" using one_live_append [OF one_live_claim [OF live(1)]] by blast
    moreover have "rt_RevokedAt u = None \<longleftrightarrow> rt_RevokedAt t = None" if "u \<in> set ?ts" "rt_FamilyID u = rt_FamilyID t" for u
    proof -
      note u = that
      obtain s where s: "s \<in> set ts" "rt_FamilyID u = rt_FamilyID s" "rt_RevokedAt u = rt_RevokedAt s"
        by (rule in_claim_rows [OF u(1)])
      have "rt_RevokedAt s = None"
        using live(2) s(1,2) rotate(3,5) old u(2) unfolding revoked_together_def unspent_def by metis
      then show ?thesis using s(3) rotate(7) by (simp add: unspent_def)
    qed
    then have "revoked_together (?ts @ [t])" using together_append [OF together_claim [OF live(2)]] by blast
    moreover have "distinct (map rt_TokenHash (?ts @ [t]))" using live(3,4) rotate(6) by auto
    ultimately show ?thesis using known rotate(2) by (simp add: tokens_ok_def)
  next
    case (revoke H H' F ts now f)
    then show ?thesis using ok known by (simp add: tokens_ok_def one_live_revoke together_revoke)
  next
    case (expire F H ts now)
    then show ?thesis using ok known by (auto simp: tokens_ok_def one_live_def revoked_together_def distinct_map_filter)
  qed
qed

text \<open>Both facts are for good, since hashes and families are drawn once only.\<close>

lemma spent_step:
  assumes "token_step S S'" and "spent h S"
  shows "spent h S'"
  using assms
proof cases
  case (rotate old ts now t H F)
  then show ?thesis using assms(2) by (auto simp: spent_def elim!: in_claim_rows)
next
  case (revoke H H' F ts now f)
  then show ?thesis using assms(2) by (auto simp: spent_def elim!: in_revoke_rows)
qed (use assms(2) in \<open>auto simp: spent_def\<close>)

lemma dead_step:
  assumes "token_step S S'" and "dead f S"
  shows "dead f S'"
  using assms
proof cases
  case (rotate old ts now t H F)
  then have "rt_FamilyID t \<noteq> f" using assms(2) claimable_unspent [OF rotate(4)] by (auto simp: dead_def unspent_def)
  then show ?thesis using rotate assms(2) by (auto simp: dead_def elim!: in_claim_rows)
next
  case (revoke H H' F ts now g)
  then show ?thesis using assms(2) by (auto simp: dead_def elim!: in_revoke_rows)
qed (use assms(2) in \<open>auto simp: dead_def\<close>)

lemma steps_keep:
  assumes "token_steps S S'"
  shows "tokens_ok S \<Longrightarrow> tokens_ok S'" and "spent h S \<Longrightarrow> spent h S'" and "dead f S \<Longrightarrow> dead f S'"
  using assms by (induction rule: rtranclp_induct) (auto intro: tokens_ok_step spent_step dead_step)

end
