(* ===== verification/Auth_Spec.thy ===== *)
theory Auth_Spec
  imports Auth_Demo Rotation
begin

text \<open>
  What \<open>internal/auth\<close> promises. Access tokens verify to what was issued. The rotation of refresh tokens
  refines an abstract table, on which the safety of rotation is an invariant: a token is exchanged once
  at most, and a family that was revoked stays revoked, whichever operations run in between and
  whichever calls fail.
\<close>

section \<open>Access tokens\<close>

text \<open>
  C28. An access token verifies to the user it was issued for. It does so with every verifier of the same
  secret and issuer from the second of its issue up to the last whole second before its expiry; from
  then on it is expired, and anything else makes it invalid. The expiry that is reported with the token
  may lie up to a second after the moment it stops being accepted.
\<close>

theorem access_token:
  assumes "jwt_laws J" and "Issue J i now ident userID = Inr (raw, expires)" and "0 < userID" and "fits_int64 userID"
    and "ti_secret j = ti_secret i"
  defines "stops \<equiv> expires div second * second"
  shows "token_Verify J j t raw =
      (if stops \<le> t then Inl ErrTokenExpired
       else if t < now div second * second \<or> ti_issuer j \<noteq> ti_issuer i then Inl ErrInvalidToken
       else Inr \<lparr>ak_UserID = userID, ak_TokenID = ident, ak_ExpiresAt = stops\<rparr>)
    \<and> expires = now + ti_ttl i \<and> stops \<le> expires \<and> expires < stops + second"
proof -
  define c where "c = \<lparr>jc_Subject = itoa userID, jc_Issuer = ti_issuer i, jc_ID = ident, jc_IssuedAt = jwt_date J now,
      jc_NotBefore = jwt_date J now, jc_ExpiresAt = jwt_date J expires\<rparr>"
  have s: "jwt_sign J (ti_secret i) c = Some raw" and e: "expires = now + ti_ttl i"
    using assms(2) by (auto simp: Issue_def Let_def c_def time_add_def split: option.splits)
  have d: "jwt_date J expires = stops" "jwt_date J now = now div second * second"
    using assms(1) by (simp_all add: jwt_laws_def stops_def)
  have "jwt_parse J (ti_secret i) (ti_issuer j) t raw =
      (if stops \<le> t then Inl JwtExpired else if t < now div second * second \<or> ti_issuer i \<noteq> ti_issuer j then Inl JwtInvalid else Inr c)"
    using assms(1) s d unfolding jwt_laws_def by (simp add: c_def)
  moreover have "stops \<le> expires \<and> expires < stops + second"
    unfolding stops_def second_def
    using div_mult_mod_eq [of expires 1000000000] pos_mod_bound [of 1000000000 expires] pos_mod_sign [of 1000000000 expires]
    by linarith
  ultimately show ?thesis
    using assms(3-5) e d by (auto simp: token_Verify_def c_def)
qed

section \<open>What the operations do to the table of tokens\<close>

definition same_tokens :: "'r service_world \<Rightarrow> 'r service_world \<Rightarrow> bool" where
  "same_tokens w w' \<longleftrightarrow> tokens (w_db w') = tokens (w_db w)"

interpretation same_tokens: frame same_tokens
  by unfold_locales (simp_all add: same_tokens_def)

lemma exec_same_tokens: "(\<And>d. tokens (snd (q d)) = tokens d) \<Longrightarrow> keeps same_tokens (exec q)"
proof (rule keepsI, unfold same_tokens_def)
  fix w assume q: "\<And>d. tokens (snd (q d)) = tokens d"
  show "tokens (w_db (snd (exec q w))) = tokens (w_db w)" using exec_db [of q w] q by auto
qed

text \<open>The hashes that a call may store: of the token it draws.\<close>

definition drawn :: "auth_call \<Rightarrow> byte list set" where
  "drawn c = (case at_token c of None \<Rightarrow> {} | Some buf \<Rightarrow> {hashRefreshToken (b64_encode url_alphabet buf)})"

definition new_row :: "auth_call \<Rightarrow> uuid \<Rightarrow> refresh_token \<Rightarrow> bool" where
  "new_row c f t \<longleftrightarrow> rt_FamilyID t = f \<and> rt_TokenHash t \<in> drawn c \<and> unspent t"

text \<open>Actions that store one new token of a family, or nothing.\<close>

definition issues :: "auth_call \<Rightarrow> uuid \<Rightarrow> ('r service_world, 'a) act \<Rightarrow> bool" where
  "issues c f m \<longleftrightarrow> (\<forall>w. tokens (w_db (snd (m w))) = tokens (w_db w) \<or>
     (\<exists>t. new_row c f t \<and> tokens (w_db (snd (m w))) = tokens (w_db w) @ [t]))"

lemma issuesD:
  assumes "issues c f m" and "m w = (r, w')"
  shows "tokens (w_db w') = tokens (w_db w) \<or> (\<exists>t. new_row c f t \<and> tokens (w_db w') = tokens (w_db w) @ [t])"
  using assms unfolding issues_def by (metis snd_conv)

lemma issues_same: "keeps same_tokens m \<Longrightarrow> issues c f m"
  by (simp add: issues_def keeps_def same_tokens_def)

lemma issues_bind_left:
  assumes "keeps same_tokens m" and "\<And>x. issues c f (g x)"
  shows "issues c f (act_bind m g)"
  unfolding issues_def
proof
  fix w
  obtain r w' where run: "act_bind m g w = (r, w')" by fastforce
  then show "tokens (w_db (snd (act_bind m g w))) = tokens (w_db w) \<or>
      (\<exists>t. new_row c f t \<and> tokens (w_db (snd (act_bind m g w))) = tokens (w_db w) @ [t])"
  proof (cases rule: act_bind_cases)
    case (Stopped e)
    then show ?thesis using keepsD [OF assms(1)] run by (simp add: same_tokens_def)
  next
    case (Ran x w1)
    then show ?thesis using keepsD [OF assms(1) Ran(1)] issuesD [OF assms(2) Ran(2)] run by (simp add: same_tokens_def)
  qed
qed

lemma issues_bind_right:
  assumes "issues c f m" and "\<And>x. keeps same_tokens (g x)"
  shows "issues c f (act_bind m g)"
  unfolding issues_def
proof
  fix w
  obtain r w' where run: "act_bind m g w = (r, w')" by fastforce
  then show "tokens (w_db (snd (act_bind m g w))) = tokens (w_db w) \<or>
      (\<exists>t. new_row c f t \<and> tokens (w_db (snd (act_bind m g w))) = tokens (w_db w) @ [t])"
  proof (cases rule: act_bind_cases)
    case (Stopped e)
    then show ?thesis using issuesD [OF assms(1)] run by simp
  next
    case (Ran x w1)
    then show ?thesis using keepsD [OF assms(2) Ran(2)] issuesD [OF assms(1) Ran(1)] run by (simp add: same_tokens_def)
  qed
qed

lemmas same_tokens_rules = same_tokens.rules exec_same_tokens
lemmas issue_rules = issues_bind_left [OF same_tokens.keeps_pure(3)]

lemma newRefreshToken_drawn: "newRefreshToken (at_token c) = Inr (raw, hash) \<Longrightarrow> hash \<in> drawn c \<and> hash = hashRefreshToken raw"
  by (auto simp: newRefreshToken_def drawn_def Let_def split: option.splits)

lemma CreateRefreshToken_cases:
  "tokens (snd (CreateRefreshToken now u f h ex d)) = tokens d \<or>
    (\<exists>t. rt_FamilyID t = f \<and> rt_TokenHash t = h \<and> unspent t \<and> tokens (snd (CreateRefreshToken now u f h ex d)) = tokens d @ [t])"
  by (simp add: CreateRefreshToken_def Let_def unspent_def)

lemma CreateRefreshToken_Inr:
  "CreateRefreshToken now u f h ex d = (Inr row, d') \<Longrightarrow>
    rt_FamilyID row = f \<and> rt_TokenHash row = h \<and> unspent row \<and> rt_UserID row = u \<and> tokens d' = tokens d @ [row] \<and> users d' = users d"
  by (auto simp: CreateRefreshToken_def Let_def unspent_def split: if_splits)

lemma issues_lift: "(\<And>x. m = Inr x \<Longrightarrow> issues c f (g x)) \<Longrightarrow> issues c f (act_bind (lift_result m) g)"
  by (cases m) (auto simp: issues_def act_bind_def)

lemma issues_exec:
  assumes "h \<in> drawn c"
  shows "issues c f (exec (CreateRefreshToken now u f h ex))"
  unfolding issues_def
proof
  fix w
  show "tokens (w_db (snd (exec (CreateRefreshToken now u f h ex) w))) = tokens (w_db w) \<or>
      (\<exists>t. new_row c f t \<and> tokens (w_db (snd (exec (CreateRefreshToken now u f h ex) w))) = tokens (w_db w) @ [t])"
    using exec_db [of "CreateRefreshToken now u f h ex" w] CreateRefreshToken_cases [of now u f h ex "w_db w"] assms
    unfolding new_row_def by auto
qed

lemma issues_issuePair: "issues c f (issuePair svc c now u f)"
proof -
  have "issues c f (act_bind (exec (CreateRefreshToken now u f hash ex)) (\<lambda>_. ret x))"
    if "newRefreshToken (at_token c) = Inr (raw, hash)" for raw hash ex and x :: token_pair
    using conjunct1 [OF newRefreshToken_drawn [OF that]] by (intro issues_bind_right issues_exec same_tokens.rules)
  then show ?thesis
    unfolding issuePair_def Let_def by (intro issues_lift) (auto intro!: issues_lift)
qed

lemma issuePair_Inr:
  assumes "issuePair svc c now u f w = (Inr pair, w')"
  shows "\<exists>t. new_row c f t \<and> rt_TokenHash t = hashRefreshToken (tp_RefreshToken pair) \<and> rt_UserID t = u
    \<and> tokens (w_db w') = tokens (w_db w) @ [t] \<and> users (w_db w') = users (w_db w)"
proof -
  obtain access ex raw hash row w1 where i: "Issue (as_jwt svc) (as_tokens svc) (at_now c) (at_token_id c) u = Inr (access, ex)"
      and n: "newRefreshToken (at_token c) = Inr (raw, hash)"
      and r: "exec (CreateRefreshToken now u f hash (time_add (at_later c) (as_refreshTTL svc))) w = (Inr row, w1)"
      and p: "w' = w1" "tp_RefreshToken pair = raw"
    using assms by (auto simp: issuePair_def act_bind_Inr Let_def)
  note CreateRefreshToken_Inr [OF conjunct1 [OF exec_Inr [OF r]]]
  then show ?thesis using newRefreshToken_drawn [OF n] p by (auto simp: new_row_def)
qed

lemma Register_issues: "issues c (at_family c) (Register svc c r)"
  unfolding Register_def
  by (intro issues_bind_left same_tokens_rules issues_bind_right issues_issuePair)
    (auto simp: CreateUser_def Let_def)

lemma found_user_same_tokens: "keeps same_tokens (found_user login)"
  unfolding found_user_def by (intro same_tokens_rules) (simp add: GetUserByLogin_def)

lemma upgrade_same_tokens: "keeps same_tokens (upgradeHashIfStale svc c user password)"
  unfolding upgradeHashIfStale_def
  by (auto intro!: same_tokens_rules simp: UpdateUserPasswordHash_def split: sum.split)

lemma Login_issues: "issues c (at_family c) (Login svc c login password)"
  unfolding Login_def
proof (rule issues_bind_left [OF found_user_same_tokens])
  fix found
  show "issues c (at_family c) (case found of
       None \<Rightarrow> act_bind (ret (VerifyDecoy (as_argon2 svc) (as_hasher svc) password)) (\<lambda>_. fail ErrInvalidCredentials)
     | Some user \<Rightarrow> act_bind (lift_result (Verify (as_argon2 svc) (us_PasswordHash user) password)) (\<lambda>matches.
         if \<not> matches then fail ErrInvalidCredentials
         else act_bind (upgradeHashIfStale svc c user password) (\<lambda>_.
              act_bind (issuePair svc c (at_pg_later c) (us_ID user) (at_family c)) (\<lambda>pair. ret (user, pair)))))"
  proof (cases found)
    case None
    then show ?thesis by (simp add: issues_same same_tokens.rules)
  next
    case (Some user)
    show ?thesis
      unfolding Some option.case
      by (intro issues_lift) (auto intro!: issues_bind_left [OF upgrade_same_tokens] issues_bind_right [OF issues_issuePair]
        same_tokens.rules issues_same [OF same_tokens.keeps_pure(2)])
  qed
qed

text \<open>A claim succeeds on a claimable row, and finds none otherwise.\<close>

lemma ClaimRefreshToken_Inr:
  "ClaimRefreshToken now h d = (Inr t, d') \<Longrightarrow>
    \<exists>old \<in> set (tokens d). claimable now h old \<and> t = old\<lparr>rt_UsedAt := Some now\<rparr> \<and> tokens d' = claim_rows now h (tokens d)"
  by (auto simp: ClaimRefreshToken_def Let_def row_of_def claim_rows_def find_Some_iff)

lemma ClaimRefreshToken_none:
  assumes "fst (ClaimRefreshToken now h d) = Inl e"
  shows "e = ErrNoRows \<and> snd (ClaimRefreshToken now h d) = d"
proof -
  have n: "find (claimable now h) (tokens d) = None" and e: "e = ErrNoRows"
    using assms by (auto simp: ClaimRefreshToken_def Let_def row_of_def of_option_def split: option.splits)
  have "map (\<lambda>t. if claimable now h t then t\<lparr>rt_UsedAt := Some now\<rparr> else t) (tokens d) = tokens d"
    using n by (intro map_idI) (auto simp: find_None_iff)
  then show ?thesis using e by (simp add: ClaimRefreshToken_def Let_def)
qed

lemma claimed_token_Some:
  assumes "claimed_token c h w = (Inr (Some t), w')"
  shows "\<exists>old \<in> set (tokens (w_db w)). claimable (at_pg_now c) h old \<and> t = old\<lparr>rt_UsedAt := Some (at_pg_now c)\<rparr>
    \<and> tokens (w_db w') = claim_rows (at_pg_now c) h (tokens (w_db w))"
proof -
  have "exec (ClaimRefreshToken (at_pg_now c) h) w = (Inr t, w')"
    using assms by (auto simp: claimed_token_def act_catch_Inr act_bind_Inr act_bind_Inl split: if_splits)
  then show ?thesis using exec_Inr ClaimRefreshToken_Inr by metis
qed

lemma claimed_token_None:
  assumes "claimed_token c h w = (Inr None, w')"
  shows "w_db w' = w_db w \<and> \<not> (\<exists>t \<in> set (tokens (w_db w)). claimable (at_pg_now c) h t)"
proof -
  let ?q = "ClaimRefreshToken (at_pg_now c) h"
  have x: "exec ?q w = (Inl ErrNoRows, w')"
    using assms by (auto simp: claimed_token_def act_catch_Inr act_bind_Inr act_bind_Inl split: if_splits)
  have f: "fst (?q (w_db w)) = Inl ErrNoRows" using exec_Inl [OF x] by simp
  then have "w_db w' = w_db w" using ClaimRefreshToken_none [OF f] exec_db [of ?q w] x by auto
  moreover have "find (claimable (at_pg_now c) h) (tokens (w_db w)) = None"
    using f by (auto simp: ClaimRefreshToken_def Let_def row_of_def of_option_def split: option.splits)
  ultimately show ?thesis by (auto simp: find_None_iff)
qed

lemma revoke_rows_exec:
  "w_db w' = snd (RevokeRefreshTokenFamily now f (w_db w)) \<Longrightarrow> tokens (w_db w') = revoke_rows now f (tokens (w_db w))"
  by (simp add: RevokeRefreshTokenFamily_def Let_def revoke_rows_def)

lemma GetRefreshTokenByHash_Inr:
  "GetRefreshTokenByHash h d = (Inr t, d') \<Longrightarrow> t \<in> set (tokens d) \<and> rt_TokenHash t = h \<and> d' = d"
  by (auto simp: GetRefreshTokenByHash_def row_of_def find_Some_iff)

text \<open>A body that commits has rotated, or has revoked the family of a token that was used before.\<close>

lemma refresh_tx_Inr:
  assumes "refresh_tx svc c h w = (Inr (b, r), w')"
  shows "b \<and> (case r of
      Inr pair \<Rightarrow> \<exists>old t. old \<in> set (tokens (w_db w)) \<and> claimable (at_pg_now c) h old \<and> new_row c (rt_FamilyID old) t
        \<and> rt_TokenHash t = hashRefreshToken (tp_RefreshToken pair) \<and> rt_UserID t = rt_UserID old
        \<and> tokens (w_db w') = claim_rows (at_pg_now c) h (tokens (w_db w)) @ [t]
    | Inl e \<Rightarrow> e = ErrTokenReused \<and> (\<exists>old \<in> set (tokens (w_db w)). rt_TokenHash old = h \<and> rt_UsedAt old \<noteq> None
        \<and> tokens (w_db w') = revoke_rows (at_pg_now c) (rt_FamilyID old) (tokens (w_db w))))"
proof -
  obtain found w1 where f: "claimed_token c h w = (Inr found, w1)"
      and g: "(case found of None \<Rightarrow> rejectClaim c h
        | Some claimed \<Rightarrow> act_bind (issuePair svc c (at_pg_now c) (rt_UserID claimed) (rt_FamilyID claimed)) (\<lambda>pair. ret (True, Inr pair))) w1
        = (Inr (b, r), w')"
    using assms by (auto simp: refresh_tx_def act_bind_Inr)
  show ?thesis
  proof (cases found)
    case None
    then have db: "w_db w1 = w_db w" using f claimed_token_None by blast
    obtain old w2 n where o: "exec (GetRefreshTokenByHash h) w1 = (Inr old, w2)" "rt_UsedAt old \<noteq> None"
        and v: "exec (RevokeRefreshTokenFamily (at_pg_now c) (rt_FamilyID old)) w2 = (Inr n, w')" and r: "b" "r = Inl ErrTokenReused"
      using g None by (auto simp: rejectClaim_def act_bind_Inr no_rows_as_Inr split: if_splits)
    note look = GetRefreshTokenByHash_Inr [OF conjunct1 [OF exec_Inr [OF o(1)]]]
    have "snd (RevokeRefreshTokenFamily (at_pg_now c) (rt_FamilyID old) (w_db w2)) = w_db w'" using exec_Inr [OF v] by (metis snd_conv)
    then have "tokens (w_db w') = revoke_rows (at_pg_now c) (rt_FamilyID old) (tokens (w_db w2))" using revoke_rows_exec by metis
    then show ?thesis using look o(2) r db by auto
  next
    case (Some claimed)
    obtain old where old: "old \<in> set (tokens (w_db w))" "claimable (at_pg_now c) h old" "claimed = old\<lparr>rt_UsedAt := Some (at_pg_now c)\<rparr>"
        "tokens (w_db w1) = claim_rows (at_pg_now c) h (tokens (w_db w))"
      using claimed_token_Some f Some by blast
    obtain pair where p: "issuePair svc c (at_pg_now c) (rt_UserID claimed) (rt_FamilyID claimed) w1 = (Inr pair, w')" "b" "r = Inr pair"
      using g Some by (auto simp: act_bind_Inr)
    from issuePair_Inr [OF p(1)] show ?thesis using old p(2,3) by auto
  qed
qed

lemma exec_Inl_of: "exec q w = (Inl e, w') \<Longrightarrow> (\<And>d e. fst (q d) = Inl e \<Longrightarrow> e \<in> E) \<Longrightarrow> ErrDB \<in> E \<Longrightarrow> e \<in> E"
  using exec_Inl by metis

lemma issuePair_Inl: "issuePair svc c now u f w = (Inl e, w') \<Longrightarrow> e \<in> {ErrDB, ErrUniqueViolation}"
  by (auto simp: issuePair_def act_bind_Inl Let_def Issue_def newRefreshToken_def CreateRefreshToken_def
    split: option.splits if_splits dest!: exec_Inl)

lemma refresh_tx_Inl:
  assumes "refresh_tx svc c h w = (Inl e, w')"
  shows "e \<noteq> ErrTokenReused"
proof -
  have claim: "e \<noteq> ErrTokenReused" if "claimed_token c h w = (Inl e, w1)" for w1
    using that by (auto simp: claimed_token_def act_catch_Inl act_bind_Inl ClaimRefreshToken_def Let_def row_of_def of_option_def
      split: option.splits if_splits dest!: exec_Inl)
  have reject: "e \<noteq> ErrTokenReused" if "rejectClaim c h w1 = (Inl e, w')" for w1 :: "'a service_world"
    using that by (auto simp: rejectClaim_def act_bind_Inl no_rows_as_def act_catch_Inl GetRefreshTokenByHash_def Let_def
      RevokeRefreshTokenFamily_def row_of_def of_option_def split: option.splits if_splits dest!: exec_Inl)
  have issue: "e \<noteq> ErrTokenReused" if "issuePair svc c now u f w1 = (Inl e, w')" for now u f and w1 :: "'a service_world"
    using issuePair_Inl [OF that] by auto
  show ?thesis
    using assms claim reject issue by (auto simp: refresh_tx_def act_bind_Inl split: option.splits)
qed

lemma Refresh_Inr:
  fixes w w' :: "'r service_world"
  assumes "Refresh svc c raw w = (Inr pair, w')"
  shows "\<exists>old t. old \<in> set (tokens (w_db w)) \<and> claimable (at_pg_now c) (hashRefreshToken raw) old
    \<and> new_row c (rt_FamilyID old) t \<and> rt_TokenHash t = hashRefreshToken (tp_RefreshToken pair) \<and> rt_UserID t = rt_UserID old
    \<and> tokens (w_db w') = claim_rows (at_pg_now c) (hashRefreshToken raw) (tokens (w_db w)) @ [t]"
proof -
  have "in_tx (refresh_tx svc c (hashRefreshToken raw)) w = (Inr (Inr pair), w')"
    using assms by (auto simp: Refresh_def act_bind_Inr)
  from in_tx_Inr [OF this] obtain w1 w2 :: "'r service_world" and b where t: "w_db w1 = w_db w"
      "refresh_tx svc c (hashRefreshToken raw) w1 = (Inr (b, Inr pair), w2)" "w_db w' = (if b then w_db w2 else w_db w)" by blast
  from refresh_tx_Inr [OF t(2)] show ?thesis using t(1,3) by auto
qed

lemma Refresh_reused:
  fixes w w' :: "'r service_world"
  assumes "Refresh svc c raw w = (Inl ErrTokenReused, w')"
  shows "\<exists>old \<in> set (tokens (w_db w)). rt_TokenHash old = hashRefreshToken raw \<and> rt_UsedAt old \<noteq> None
    \<and> tokens (w_db w') = revoke_rows (at_pg_now c) (rt_FamilyID old) (tokens (w_db w))"
  using assms unfolding Refresh_def
proof (cases rule: act_bind_cases)
  case (Stopped e)
  then have "in_tx (refresh_tx svc c (hashRefreshToken raw)) w = (Inl ErrTokenReused, w')" by simp
  then show ?thesis by (cases rule: in_tx_cases) (auto dest: refresh_tx_Inl)
next
  case (Ran x w1)
  then have x: "in_tx (refresh_tx svc c (hashRefreshToken raw)) w = (Inr (Inl ErrTokenReused), w')" by simp
  from in_tx_Inr [OF x] obtain w1 w2 :: "'r service_world" and b where t: "w_db w1 = w_db w"
      "refresh_tx svc c (hashRefreshToken raw) w1 = (Inr (b, Inl ErrTokenReused), w2)" "w_db w' = (if b then w_db w2 else w_db w)" by blast
  from refresh_tx_Inr [OF t(2)] show ?thesis using t(1,3) by auto
qed

text \<open>Whatever \<open>Refresh\<close> answers, it has rotated, revoked, or done nothing.\<close>

lemma Refresh_tokens:
  fixes w w' :: "'r service_world"
  assumes "Refresh svc c raw w = (r, w')"
  obtains (Same) "tokens (w_db w') = tokens (w_db w)"
  | (Rotated) old t where "old \<in> set (tokens (w_db w))" "claimable (at_pg_now c) (rt_TokenHash old) old"
      "new_row c (rt_FamilyID old) t" "tokens (w_db w') = claim_rows (at_pg_now c) (rt_TokenHash old) (tokens (w_db w)) @ [t]"
  | (Revoked) f where "tokens (w_db w') = revoke_rows (at_pg_now c) f (tokens (w_db w))"
proof -
  obtain x where "in_tx (refresh_tx svc c (hashRefreshToken raw)) w = (x, w')"
    using assms unfolding Refresh_def by (cases rule: act_bind_cases) auto
  from in_tx_db [OF this] consider (none) "w_db w' = w_db w"
    | (some) w1 w2 :: "'r service_world" and y where "w_db w1 = w_db w" "refresh_tx svc c (hashRefreshToken raw) w1 = (Inr (True, y), w2)" "w_db w' = w_db w2" by blast
  then show thesis
  proof cases
    case none
    then show ?thesis by (intro Same) simp
  next
    case some
    note y = refresh_tx_Inr [OF some(2)]
    show ?thesis
    proof (cases y)
      case (Inl e)
      then show ?thesis using y some(1,3) Revoked by auto
    next
      case (Inr pair)
      then obtain old t where "old \<in> set (tokens (w_db w))" "claimable (at_pg_now c) (hashRefreshToken raw) old"
          "new_row c (rt_FamilyID old) t" "tokens (w_db w') = claim_rows (at_pg_now c) (hashRefreshToken raw) (tokens (w_db w)) @ [t]"
        using y some(1,3) by auto
      moreover from this have "hashRefreshToken raw = rt_TokenHash old" by (simp add: claimable_def)
      ultimately show ?thesis using Rotated by simp
    qed
  qed
qed

lemma Logout_tokens:
  assumes "Logout c raw w = (r, w')"
  shows "tokens (w_db w') = tokens (w_db w) \<or>
    (\<exists>old \<in> set (tokens (w_db w)). rt_TokenHash old = hashRefreshToken raw
      \<and> tokens (w_db w') = revoke_rows (at_pg_now c) (rt_FamilyID old) (tokens (w_db w)))"
proof -
  let ?look = "act_catch (act_bind (exec (GetRefreshTokenByHash (hashRefreshToken raw))) (\<lambda>t. ret (Some t)))
    (\<lambda>e. if e = ErrNoRows then ret None else fail e)"
  have look: "keeps same_tokens (?look :: ('a service_world, refresh_token option) act)"
    by (intro same_tokens_rules) (simp add: GetRefreshTokenByHash_def)
  have some: "t \<in> set (tokens (w_db w)) \<and> rt_TokenHash t = hashRefreshToken raw" if "?look w = (Inr (Some t), w1)" for t w1
    using that GetRefreshTokenByHash_Inr exec_Inr by (fastforce simp: act_catch_Inr act_bind_Inr act_bind_Inl split: if_splits)
  from assms show ?thesis
    unfolding Logout_def
  proof (cases rule: act_bind_cases)
    case (Stopped e)
    then show ?thesis using keepsD [OF look] by (auto simp: same_tokens_def)
  next
    case (Ran found w1)
    have same: "tokens (w_db w1) = tokens (w_db w)" using keepsD [OF look Ran(1)] by (simp add: same_tokens_def)
    show ?thesis
    proof (cases found)
      case None
      then show ?thesis using Ran(2) same by simp
    next
      case (Some t)
      let ?q = "RevokeRefreshTokenFamily (at_pg_now c) (rt_FamilyID t)"
      have "w_db w' = w_db (snd (exec ?q w1))" using Ran(2) Some by (auto simp: act_bind_def split: prod.splits sum.splits)
      then have "w_db w' = w_db w1 \<or> tokens (w_db w') = revoke_rows (at_pg_now c) (rt_FamilyID t) (tokens (w_db w1))"
        using exec_db [of ?q w1] by (auto simp: RevokeRefreshTokenFamily_def Let_def revoke_rows_def)
      then show ?thesis using some [of t w1] Ran(1) Some same by auto
    qed
  qed
qed

section \<open>All operations, interleaved\<close>

text \<open>
  The world with the families and the token hashes that were drawn so far. A new family and a new token
  are drawn once only. Everything else the program does leaves the table of tokens alone.
\<close>

type_synonym 'r auth_state = "'r service_world \<times> uuid set \<times> byte list set"

inductive auth_step :: "auth_service \<Rightarrow> 'r auth_state \<Rightarrow> 'r auth_state \<Rightarrow> bool" for svc :: auth_service where
  registering: "at_family c \<notin> F \<Longrightarrow> drawn c \<inter> H = {} \<Longrightarrow> Register svc c r w = (res, w') \<Longrightarrow>
    auth_step svc (w, F, H) (w', insert (at_family c) F, drawn c \<union> H)"
| logging_in: "at_family c \<notin> F \<Longrightarrow> drawn c \<inter> H = {} \<Longrightarrow> Login svc c login password w = (res, w') \<Longrightarrow>
    auth_step svc (w, F, H) (w', insert (at_family c) F, drawn c \<union> H)"
| refreshing: "drawn c \<inter> H = {} \<Longrightarrow> Refresh svc c raw w = (res', w') \<Longrightarrow>
    auth_step svc (w, F, H) (w', F, drawn c \<union> H)"
| logging_out: "Logout c raw w = (res'', w') \<Longrightarrow> auth_step svc (w, F, H) (w', F, H)"
| tidying: "exec (DeleteExpiredRefreshTokens now) w = (n, w') \<Longrightarrow> auth_step svc (w, F, H) (w', F, H)"
| elsewhere: "tokens (w_db w') = tokens (w_db w) \<Longrightarrow> auth_step svc (w, F, H) (w', F, H)"

abbreviation auth_steps :: "auth_service \<Rightarrow> 'r auth_state \<Rightarrow> 'r auth_state \<Rightarrow> bool" where
  "auth_steps svc \<equiv> (auth_step svc)\<^sup>*\<^sup>*"

fun abs_tokens :: "'r auth_state \<Rightarrow> token_table" where
  "abs_tokens (w, F, H) = (F, H, tokens (w_db w))"

definition auth_reachable :: "auth_service \<Rightarrow> 'r auth_state \<Rightarrow> bool" where
  "auth_reachable svc s \<longleftrightarrow> (\<exists>w0. tokens (w_db w0) = [] \<and> auth_steps svc (w0, {}, {}) s)"

lemma issues_token_step:
  assumes "issues c f m" and "m w = (r, w')" and "f \<notin> F" and "drawn c \<inter> H = {}"
  shows "token_step (F, H, tokens (w_db w)) (insert f F, drawn c \<union> H, tokens (w_db w'))"
  using issuesD [OF assms(1,2)]
proof
  assume "tokens (w_db w') = tokens (w_db w)"
  then show ?thesis using token_step.draw [of F "insert f F" H "drawn c \<union> H"] by auto
next
  assume "\<exists>t. new_row c f t \<and> tokens (w_db w') = tokens (w_db w) @ [t]"
  then obtain t where t: "new_row c f t" "tokens (w_db w') = tokens (w_db w) @ [t]" by blast
  have "drawn c = {rt_TokenHash t}" using t(1) by (auto simp: new_row_def drawn_def split: option.splits)
  then show ?thesis
    using token_step.begin_family [of t F H "tokens (w_db w)"] t assms(3,4) by (simp add: new_row_def)
qed

lemma step_refines: "auth_step svc s s' \<Longrightarrow> token_step (abs_tokens s) (abs_tokens s')"
proof (induction rule: auth_step.induct)
  case (registering c F H r w res w')
  then show ?case using issues_token_step [OF Register_issues] by simp
next
  case (logging_in c F H login password w res w')
  then show ?case using issues_token_step [OF Login_issues] by simp
next
  case (refreshing c H raw w res w' F)
  from refreshing(2) show ?case
  proof (cases rule: Refresh_tokens)
    case Same
    then show ?thesis using token_step.draw [of F F H "drawn c \<union> H"] by auto
  next
    case (Rotated old t)
    have "drawn c = {rt_TokenHash t}" using Rotated(3) by (auto simp: new_row_def drawn_def split: option.splits)
    then show ?thesis
      using token_step.rotate [OF Rotated(1,2), of t H F] Rotated(3,4) refreshing(1) by (simp add: new_row_def)
  next
    case (Revoked f)
    then show ?thesis using token_step.revoke [of H "drawn c \<union> H"] by simp
  qed
next
  case (logging_out c raw w res w' F H)
  from Logout_tokens [OF this] show ?case
    using token_step.draw [of F F H H] token_step.revoke [of H H F] by auto
next
  case (tidying now w n w' F H)
  have "w_db w' = w_db w \<or> tokens (w_db w') = filter (\<lambda>t. \<not> rt_ExpiresAt t < now) (tokens (w_db w))"
    using exec_db [of "DeleteExpiredRefreshTokens now" w] tidying by (auto simp: DeleteExpiredRefreshTokens_def)
  then show ?case using token_step.draw [of F F H H] token_step.expire by auto
next
  case (elsewhere w' w F H)
  then show ?case using token_step.draw [of F F H H] by simp
qed

lemma auth_steps_refine: "auth_steps svc s s' \<Longrightarrow> token_steps (abs_tokens s) (abs_tokens s')"
  by (induction rule: rtranclp_induct) (auto intro: step_refines rtranclp.rtrancl_into_rtrancl)

lemma auth_steps_keep:
  assumes "auth_steps svc (w, F, H) (w', F', H')"
  shows "tokens_ok (F, H, tokens (w_db w)) \<Longrightarrow> tokens_ok (F', H', tokens (w_db w'))"
    and "spent h (F, H, tokens (w_db w)) \<Longrightarrow> spent h (F', H', tokens (w_db w'))"
    and "dead f (F, H, tokens (w_db w)) \<Longrightarrow> dead f (F', H', tokens (w_db w'))"
  using steps_keep [OF auth_steps_refine [OF assms]] by simp_all

lemma reachable_ok:
  assumes "auth_reachable svc (w, F, H)"
  shows "tokens_ok (F, H, tokens (w_db w))"
proof -
  obtain w0 where w0: "tokens (w_db w0) = []" "auth_steps svc (w0, {}, {}) (w, F, H)" using assms unfolding auth_reachable_def by blast
  have "tokens_ok ({}, {}, tokens (w_db w0))" using w0(1) by (simp add: tokens_ok_def table_defs)
  then show ?thesis by (rule auth_steps_keep(1) [OF w0(2)])
qed

lemma tokens_ok_eq:
  assumes "tokens_ok (F, H, ts)" and "t \<in> set ts" and "u \<in> set ts" and "rt_TokenHash t = rt_TokenHash u"
  shows "t = u"
proof -
  have "distinct (map rt_TokenHash ts)" using assms(1) by (simp add: tokens_ok_def)
  then show ?thesis using assms(2-4) by (rule distinct_key_eq)
qed

lemma distinct_filter_le_1:
  assumes "distinct (map f ts)" and "\<And>t u. t \<in> set ts \<Longrightarrow> u \<in> set ts \<Longrightarrow> P t \<Longrightarrow> P u \<Longrightarrow> t = u"
  shows "length (filter P ts) \<le> 1"
proof -
  have "distinct (filter P ts)" using assms(1) by (simp add: distinct_map)
  then have "length (filter P ts) = card (set (filter P ts))" by (rule distinct_card [symmetric])
  also have "card (set (filter P ts)) \<le> 1" using assms(2) by (auto simp: card_le_Suc0_iff_eq)
  finally show ?thesis .
qed

text \<open>A spent or revoked token is refused.\<close>

lemma spent_refused:
  assumes "spent (hashRefreshToken raw) (F, H, tokens (w_db w))"
  shows "fst (Refresh svc c raw w) \<noteq> Inr pair"
proof
  assume "fst (Refresh svc c raw w) = Inr pair"
  then have "Refresh svc c raw w = (Inr pair, snd (Refresh svc c raw w))" by (metis prod.collapse)
  from Refresh_Inr [OF this] show False using assms by (auto simp: spent_def claimable_def)
qed

lemma dead_refused:
  assumes "tokens_ok (F, H, tokens (w_db w))" and "dead f (F, H, tokens (w_db w))"
    and "t \<in> set (tokens (w_db w))" and "rt_FamilyID t = f" and "rt_TokenHash t = hashRefreshToken raw"
  shows "fst (Refresh svc c raw w) \<noteq> Inr pair"
proof
  assume "fst (Refresh svc c raw w) = Inr pair"
  then have "Refresh svc c raw w = (Inr pair, snd (Refresh svc c raw w))" by (metis prod.collapse)
  from Refresh_Inr [OF this] obtain old where old: "old \<in> set (tokens (w_db w))" "claimable (at_pg_now c) (hashRefreshToken raw) old" by blast
  then have "rt_TokenHash old = rt_TokenHash t" using assms(5) by (simp add: claimable_def)
  then have "old = t" by (rule tokens_ok_eq [OF assms(1) old(1) assms(3)])
  then show False using assms(2-4) old(2) by (auto simp: dead_def claimable_def)
qed

lemma revoke_rows_dead:
  assumes "tokens_ok (F, H, ts)" and "t \<in> set ts"
  shows "dead (rt_FamilyID t) (F, H, revoke_rows now (rt_FamilyID t) ts)"
  using assms by (auto simp: dead_def tokens_ok_def known_tokens_def elim!: in_revoke_rows)

lemma Logout_Inr:
  fixes w w' :: "'r service_world"
  assumes "Logout c raw w = (Inr u, w')"
  shows "if \<exists>t \<in> set (tokens (w_db w)). rt_TokenHash t = hashRefreshToken raw
    then \<exists>old \<in> set (tokens (w_db w)). rt_TokenHash old = hashRefreshToken raw
      \<and> tokens (w_db w') = revoke_rows (at_pg_now c) (rt_FamilyID old) (tokens (w_db w))
    else tokens (w_db w') = tokens (w_db w)"
proof -
  let ?q = "GetRefreshTokenByHash (hashRefreshToken raw)"
  obtain found and w1 :: "'r service_world" where
      f: "act_catch (act_bind (exec ?q) (\<lambda>t. ret (Some t))) (\<lambda>e. if e = ErrNoRows then ret None else fail e) w = (Inr found, w1)"
      and g: "(case found of None \<Rightarrow> ret ()
        | Some token \<Rightarrow> act_bind (exec (RevokeRefreshTokenFamily (at_pg_now c) (rt_FamilyID token))) (\<lambda>_. ret ())) w1 = (Inr u, w')"
    using assms unfolding Logout_def act_bind_Inr by blast
  show ?thesis
  proof (cases found)
    case None
    then obtain w2 where x: "exec ?q w = (Inl ErrNoRows, w2)" and "w1 = w2"
      using f by (auto simp: act_catch_Inr act_bind_Inr act_bind_Inl split: if_splits)
    have "fst (?q (w_db w)) = Inl ErrNoRows" using exec_Inl [OF x] by simp
    then have "\<forall>t \<in> set (tokens (w_db w)). rt_TokenHash t \<noteq> hashRefreshToken raw"
      by (auto simp: GetRefreshTokenByHash_def row_of_def of_option_def find_None_iff split: option.splits)
    moreover have "w_db w2 = w_db w" using exec_db [of ?q w] x by (simp add: GetRefreshTokenByHash_def)
    ultimately show ?thesis using g None \<open>w1 = w2\<close> by auto
  next
    case (Some old)
    then have "exec ?q w = (Inr old, w1)" using f by (auto simp: act_catch_Inr act_bind_Inr act_bind_Inl split: if_splits)
    note look = GetRefreshTokenByHash_Inr [OF conjunct1 [OF exec_Inr [OF this]]]
    obtain n where x: "exec (RevokeRefreshTokenFamily (at_pg_now c) (rt_FamilyID old)) w1 = (Inr n, w')"
      using g Some by (auto simp: act_bind_Inr)
    have "w_db w' = snd (RevokeRefreshTokenFamily (at_pg_now c) (rt_FamilyID old) (w_db w1))" using exec_Inr [OF x] by (metis snd_conv)
    then have "tokens (w_db w') = revoke_rows (at_pg_now c) (rt_FamilyID old) (tokens (w_db w1))" by (rule revoke_rows_exec)
    then show ?thesis using look by auto
  qed
qed

lemma revoked_for_good:
  assumes "tokens_ok (F, H, tokens (w_db w))" and "old \<in> set (tokens (w_db w))"
    and "tokens (w_db w1) = revoke_rows now (rt_FamilyID old) (tokens (w_db w))"
    and "auth_steps svc (w1, F, H) (w2, F2, H2)" and "t \<in> set (tokens (w_db w2))"
    and "rt_FamilyID t = rt_FamilyID old" and "rt_TokenHash t = hashRefreshToken raw"
  shows "fst (Refresh svc c raw w2) \<noteq> Inr pair"
proof -
  have "tokens_ok (F, H, tokens (w_db w1))" unfolding assms(3) by (rule tokens_ok_step [OF token_step.revoke assms(1)]) simp
  moreover have "dead (rt_FamilyID old) (F, H, tokens (w_db w1))" unfolding assms(3) by (rule revoke_rows_dead [OF assms(1,2)])
  ultimately show ?thesis
    using dead_refused [OF auth_steps_keep(1) [OF assms(4)] auth_steps_keep(3) [OF assms(4)] assms(5,6,7)] by blast
qed

section \<open>Properties\<close>

text \<open>
  C4. The service refines the rotation machine. Whatever one operation does, with whichever of its calls
  failing, before or after taking effect, the table of tokens makes one step of the abstract machine:
  nothing but a draw, a first token of a new family, a rotation that spends a claimable token and adds
  its one successor, the revocation of a whole family, or the removal of expired rows. In particular a
  rotation is never half done.
\<close>

theorem auth_refines:
  assumes "auth_step svc s s'"
  shows "token_step (abs_tokens s) (abs_tokens s')"
  using assms by (rule step_refines)


text \<open>
  C6. A refresh token is exchanged once. From the exchange that succeeded on, whatever operations follow and
  whichever calls fail, no presentation of the same token succeeds again; and the token that was handed
  out is stored, unspent, in the same family and for the same user.
\<close>

theorem refresh_once:
  assumes "auth_reachable svc (w, F, H)" and "drawn c \<inter> H = {}" and "Refresh svc c raw w = (Inr pair, w1)"
    and "auth_steps svc (w1, F, drawn c \<union> H) (w2, F2, H2)"
  shows "fst (Refresh svc c' raw w2) \<noteq> Inr pair' \<and>
    (\<exists>old t. old \<in> set (tokens (w_db w)) \<and> rt_TokenHash old = hashRefreshToken raw \<and> t \<in> set (tokens (w_db w1))
      \<and> rt_TokenHash t = hashRefreshToken (tp_RefreshToken pair) \<and> unspent t
      \<and> rt_FamilyID t = rt_FamilyID old \<and> rt_UserID t = rt_UserID old)"
proof
  from Refresh_Inr [OF assms(3)] obtain old t where r: "old \<in> set (tokens (w_db w))"
      "claimable (at_pg_now c) (hashRefreshToken raw) old" "new_row c (rt_FamilyID old) t"
      "rt_TokenHash t = hashRefreshToken (tp_RefreshToken pair)" "rt_UserID t = rt_UserID old"
      "tokens (w_db w1) = claim_rows (at_pg_now c) (hashRefreshToken raw) (tokens (w_db w)) @ [t]" by blast
  then show "\<exists>old t. old \<in> set (tokens (w_db w)) \<and> rt_TokenHash old = hashRefreshToken raw \<and> t \<in> set (tokens (w_db w1))
      \<and> rt_TokenHash t = hashRefreshToken (tp_RefreshToken pair) \<and> unspent t
      \<and> rt_FamilyID t = rt_FamilyID old \<and> rt_UserID t = rt_UserID old"
    by (intro exI [of _ old] exI [of _ t]) (simp add: new_row_def claimable_def)
  have ok: "tokens_ok (F, H, tokens (w_db w))" using assms(1) by (rule reachable_ok)
  have h: "hashRefreshToken raw \<in> H" using ok r(1,2) by (auto simp: tokens_ok_def known_tokens_def claimable_def)
  have "rt_UsedAt u \<noteq> None" if "u \<in> set (tokens (w_db w1))" "rt_TokenHash u = hashRefreshToken raw" for u
  proof
    note u = that
    assume n: "rt_UsedAt u = None"
    have "u \<noteq> t" using u(2) r(3) h assms(2) by (auto simp: new_row_def)
    then have "u \<in> set (claim_rows (at_pg_now c) (hashRefreshToken raw) (tokens (w_db w)))" using u(1) r(6) by auto
    then have "u \<in> set (tokens (w_db w))" "\<not> claimable (at_pg_now c) (hashRefreshToken raw) u" using n by (auto elim: in_claim_rows)
    moreover from this(1) have "u = old" by (rule tokens_ok_eq [OF ok _ r(1)]) (use u(2) r(2) in \<open>simp add: claimable_def\<close>)
    ultimately show False using r(2) by simp
  qed
  then have "spent (hashRefreshToken raw) (F, drawn c \<union> H, tokens (w_db w1))" using h by (simp add: spent_def)
  then show "fst (Refresh svc c' raw w2) \<noteq> Inr pair'" using auth_steps_keep(2) [OF assms(4)] spent_refused by blast
qed


text \<open>
  A logout ends the login. Once \<open>Logout\<close> has returned, no token of the family is ever exchanged again; a
  token that is not known is no error, and changes nothing.
\<close>

theorem logout_ends:
  assumes "auth_reachable svc (w, F, H)" and "Logout c raw w = (Inr (), w1)"
  shows "if \<exists>t \<in> set (tokens (w_db w)). rt_TokenHash t = hashRefreshToken raw
    then \<exists>old \<in> set (tokens (w_db w)). rt_TokenHash old = hashRefreshToken raw
      \<and> (\<forall>w2 F2 H2 t raw' c' pair. auth_steps svc (w1, F, H) (w2, F2, H2) \<longrightarrow> t \<in> set (tokens (w_db w2)) \<longrightarrow>
        rt_FamilyID t = rt_FamilyID old \<longrightarrow> rt_TokenHash t = hashRefreshToken raw' \<longrightarrow> fst (Refresh svc c' raw' w2) \<noteq> Inr pair)
    else tokens (w_db w1) = tokens (w_db w)"
  using Logout_Inr [OF assms(2)] revoked_for_good [OF reachable_ok [OF assms(1)]] by (auto split: if_splits) blast+

section \<open>Signing in\<close>

definition login_match :: "string \<Rightarrow> user_row \<Rightarrow> bool" where
  "login_match login u \<longleftrightarrow> sql_lower (us_Username u) = sql_lower login \<or> sql_lower (us_Email u) = sql_lower login"

lemma found_user_calm:
  "w_faults w = [] \<Longrightarrow> found_user login w = (Inr (find (login_match login) (users (w_db w))), w)"
proof -
  assume f: "w_faults w = []"
  have "GetUserByLogin login d = (row_of (find (login_match login) (users d)), d)" for d
    by (simp add: GetUserByLogin_def login_match_def [abs_def])
  then show ?thesis
    using f by (cases "find (login_match login) (users (w_db w))")
      (simp_all add: found_user_def act_catch_def act_bind_def exec_NoFault row_of_def)
qed

text \<open>
  A login that fails does not say why. When no call fails, an account that does not exist and a password
  that does not match give the same error and change nothing, not even the calls that are left to fail.
\<close>

theorem login_uniform:
  assumes "w_faults w = []"
    and "case find (login_match login) (users (w_db w)) of
           None \<Rightarrow> True | Some user \<Rightarrow> Verify (as_argon2 svc) (us_PasswordHash user) password = Inr False"
  shows "Login svc c login password w = (Inl ErrInvalidCredentials, w)"
  using assms by (auto simp: Login_def act_bind_def found_user_calm split: option.splits)

text \<open>What a call needs to issue a pair of tokens.\<close>

definition can_issue :: "auth_service \<Rightarrow> auth_call \<Rightarrow> database \<Rightarrow> int \<Rightarrow> bool" where
  "can_issue svc c d u \<longleftrightarrow>
     (\<exists>p. Issue (as_jwt svc) (as_tokens svc) (at_now c) (at_token_id c) u = Inr p) \<and> at_token c \<noteq> None \<and>
     drawn c \<inter> rt_TokenHash ` set (tokens d) = {} \<and> u \<in> us_ID ` set (users d)"

text \<open>Calls that do not fail.\<close>

definition quiet :: "nat \<Rightarrow> ('d, 'r) world \<Rightarrow> bool" where
  "quiet n w \<longleftrightarrow> set (take n (w_faults w)) \<subseteq> {NoFault}"

lemma next_fault_quiet:
  "quiet (Suc n) w \<Longrightarrow> next_fault w = (NoFault, w\<lparr>w_faults := drop 1 (w_faults w)\<rparr>)"
  by (cases "w_faults w") (auto simp: quiet_def next_fault_def)

lemma quiet_drop [simp]: "quiet (Suc n) w \<Longrightarrow> quiet n (w\<lparr>w_db := d, w_faults := drop 1 (w_faults w)\<rparr>)"
  by (cases "w_faults w") (auto simp: quiet_def)

lemma exec_quiet:
  "quiet (Suc n) w \<Longrightarrow> exec q w = (fst (q (w_db w)), w\<lparr>w_db := snd (q (w_db w)), w_faults := drop 1 (w_faults w)\<rparr>)"
  by (simp add: exec_def next_fault_quiet split: prod.split)

lemma issuePair_quiet:
  assumes "quiet (Suc n) w" and "can_issue svc c (w_db w) u"
  shows "\<exists>pair t. issuePair svc c now u f w =
      (Inr pair, w\<lparr>w_db := (w_db w)\<lparr>tokens := tokens (w_db w) @ [t]\<rparr>, w_faults := drop 1 (w_faults w)\<rparr>)
    \<and> new_row c f t \<and> rt_TokenHash t = hashRefreshToken (tp_RefreshToken pair)"
proof -
  obtain access ex buf where a: "Issue (as_jwt svc) (as_tokens svc) (at_now c) (at_token_id c) u = Inr (access, ex)" "at_token c = Some buf"
    using assms(2) by (auto simp: can_issue_def)
  let ?h = "hashRefreshToken (b64_encode url_alphabet buf)"
  have "?h \<notin> rt_TokenHash ` set (tokens (w_db w))" "u \<in> us_ID ` set (users (w_db w))"
    using assms(2) a(2) by (auto simp: can_issue_def drawn_def)
  moreover define t where "t = \<lparr>rt_ID = next_id (map rt_ID (tokens (w_db w))), rt_UserID = u, rt_FamilyID = f, rt_TokenHash = ?h,
      rt_IssuedAt = now, rt_ExpiresAt = pg_time (time_add (at_later c) (as_refreshTTL svc)), rt_UsedAt = None, rt_RevokedAt = None\<rparr>"
  ultimately have "CreateRefreshToken now u f ?h (time_add (at_later c) (as_refreshTTL svc)) (w_db w) =
      (Inr t, (w_db w)\<lparr>tokens := tokens (w_db w) @ [t]\<rparr>)"
    by (simp add: CreateRefreshToken_def Let_def)
  moreover have "new_row c f t" "rt_TokenHash t = ?h" using a(2) by (simp_all add: new_row_def drawn_def unspent_def t_def)
  ultimately show ?thesis
    using a assms(1) by (simp add: issuePair_def act_bind_def newRefreshToken_def Let_def exec_quiet [where n = n]) blast
qed

lemma issuePair_calm:
  assumes "w_faults w = []" and "can_issue svc c (w_db w) u"
  shows "\<exists>pair t. issuePair svc c now u f w = (Inr pair, w\<lparr>w_db := (w_db w)\<lparr>tokens := tokens (w_db w) @ [t]\<rparr>\<rparr>)"
proof -
  have "quiet (Suc 0) w" using assms(1) by (simp add: quiet_def)
  from issuePair_quiet [OF this assms(2)] show ?thesis using assms(1) by (cases w) fastforce
qed

lemma upgrade_calm:
  assumes "w_faults w = []"
  shows "\<exists>us. upgradeHashIfStale svc c user password w = (Inr (), w\<lparr>w_db := (w_db w)\<lparr>users := us\<rparr>\<rparr>)
    \<and> us = (if NeedsRehash (as_argon2 svc) (as_hasher svc) (us_PasswordHash user)
        then (case Hash (as_argon2 svc) (hs_params (as_hasher svc)) (at_salt c) password of
            Inl _ \<Rightarrow> users (w_db w)
          | Inr h \<Rightarrow> map (\<lambda>u. if us_ID u = us_ID user then u\<lparr>us_PasswordHash := h, us_UpdatedAt := at_pg_now c\<rparr> else u) (users (w_db w)))
        else users (w_db w))"
  using assms by (auto simp: upgradeHashIfStale_def exec_NoFault UpdateUserPasswordHash_def act_catch_def split: sum.split)

text \<open>
  C27. A login decides by the password, and brings the hash up to date. An account whose hash was made at any
  allowed cost is signed in, when no call fails, exactly when the given password derives the same key;
  its hash is then one of the configured cost, and still verifies that password. So a change of the
  cost locks nobody out.
\<close>

theorem login_outcome:
  assumes "argon2_laws (as_argon2 svc)" and "argon2_ok (hs_params (as_hasher svc))" and "w_faults w = []"
    and user: "find (login_match login) (users (w_db w)) = Some user"
    and hash: "argon2_ok ps" "length salt = saltLength" "Hash (as_argon2 svc) ps (Some salt) first = Inr (us_PasswordHash user)"
    and call: "at_salt c = Some salt'" "length salt' = saltLength" "can_issue svc c (w_db w) (us_ID user)"
  shows "if key_of (as_argon2 svc) ps salt password keyLength = key_of (as_argon2 svc) ps salt first keyLength
    then \<exists>pair w' u. Login svc c login password w = (Inr (user, pair), w') \<and> u \<in> set (users (w_db w')) \<and> us_ID u = us_ID user
      \<and> \<not> NeedsRehash (as_argon2 svc) (as_hasher svc) (us_PasswordHash u)
      \<and> Verify (as_argon2 svc) (us_PasswordHash u) password = Inr True
    else Login svc c login password w = (Inl ErrInvalidCredentials, w)"
proof (cases "key_of (as_argon2 svc) ps salt password keyLength = key_of (as_argon2 svc) ps salt first keyLength")
  case True
  let ?A = "as_argon2 svc" and ?P = "hs_params (as_hasher svc)"
  note old = hash_verifies [OF assms(1) hash]
  obtain h where h: "Hash ?A ?P (Some salt') password = Inr h" by (simp add: Hash_def)
  note new = hash_verifies [OF assms(1,2) call(2) h]
  have in_users: "user \<in> set (users (w_db w))" using user by (auto simp: find_Some_iff)
  obtain us where us: "upgradeHashIfStale svc c user password w = (Inr (), w\<lparr>w_db := (w_db w)\<lparr>users := us\<rparr>\<rparr>)"
      "us = (if NeedsRehash ?A (as_hasher svc) (us_PasswordHash user)
        then map (\<lambda>u. if us_ID u = us_ID user then u\<lparr>us_PasswordHash := h, us_UpdatedAt := at_pg_now c\<rparr> else u) (users (w_db w))
        else users (w_db w))"
    using upgrade_calm [OF assms(3), of svc c user password] h call(1) by auto
  let ?w = "w\<lparr>w_db := (w_db w)\<lparr>users := us\<rparr>\<rparr>"
  have "map us_ID us = map us_ID (users (w_db w))" by (auto simp: us(2))
  then have "us_ID ` set us = us_ID ` set (users (w_db w))" by (metis list.set_map)
  then have "can_issue svc c (w_db ?w) (us_ID user)" using call(3) by (simp add: can_issue_def)
  then obtain pair t where p: "issuePair svc c (at_pg_later c) (us_ID user) (at_family c) ?w =
      (Inr pair, ?w\<lparr>w_db := (w_db ?w)\<lparr>tokens := tokens (w_db ?w) @ [t]\<rparr>\<rparr>)"
    using issuePair_calm [where w = ?w and svc = svc and c = c and u = "us_ID user" and now = "at_pg_later c" and f = "at_family c"] assms(3) by auto
  have "Verify ?A (us_PasswordHash user) password = Inr True" using old True by simp
  then have "Login svc c login password w = (Inr (user, pair), ?w\<lparr>w_db := (w_db ?w)\<lparr>tokens := tokens (w_db ?w) @ [t]\<rparr>\<rparr>)"
    using user us(1) p by (simp add: Login_def act_bind_def found_user_calm [OF assms(3)])
  moreover have "\<exists>u \<in> set us. us_ID u = us_ID user \<and> \<not> NeedsRehash ?A (as_hasher svc) (us_PasswordHash u)
      \<and> Verify ?A (us_PasswordHash u) password = Inr True"
  proof (cases "NeedsRehash ?A (as_hasher svc) (us_PasswordHash user)")
    case True
    then show ?thesis
      using us(2) in_users new by (intro bexI [of _ "user\<lparr>us_PasswordHash := h, us_UpdatedAt := at_pg_now c\<rparr>"]) auto
  next
    case False
    then show ?thesis using us(2) in_users \<open>Verify ?A (us_PasswordHash user) password = Inr True\<close> by auto
  qed
  ultimately show ?thesis using True by auto
next
  case False
  then show ?thesis
    using login_uniform [OF assms(3), where login = login and svc = svc and password = password and c = c] user hash_verifies [OF assms(1) hash] by simp
qed

section \<open>Answers that are lost\<close>

lemma refresh_tx_rotates:
  assumes "quiet (Suc (Suc n)) w" and "find (claimable (at_pg_now c) h) (tokens (w_db w)) = Some old"
    and "can_issue svc c (w_db w) (rt_UserID old)"
  shows "\<exists>pair t. refresh_tx svc c h w =
      (Inr (True, Inr pair), w\<lparr>w_db := (w_db w)\<lparr>tokens := claim_rows (at_pg_now c) h (tokens (w_db w)) @ [t]\<rparr>, w_faults := drop 2 (w_faults w)\<rparr>)
    \<and> new_row c (rt_FamilyID old) t"
proof -
  let ?d = "(w_db w)\<lparr>tokens := claim_rows (at_pg_now c) h (tokens (w_db w))\<rparr>"
  let ?w = "w\<lparr>w_db := ?d, w_faults := drop 1 (w_faults w)\<rparr>"
  have q: "ClaimRefreshToken (at_pg_now c) h (w_db w) = (Inr (old\<lparr>rt_UsedAt := Some (at_pg_now c)\<rparr>), ?d)"
    using assms(2) by (simp add: ClaimRefreshToken_def Let_def row_of_def claim_rows_def)
  then have x: "claimed_token c h w = (Inr (Some (old\<lparr>rt_UsedAt := Some (at_pg_now c)\<rparr>)), ?w)"
    by (simp add: claimed_token_def act_catch_def act_bind_def exec_quiet [OF assms(1)])
  have "rt_TokenHash ` set (tokens ?d) = rt_TokenHash ` set (tokens (w_db w))"
    using claim_rows_keys [of "at_pg_now c" h "tokens (w_db w)"] by (metis (no_types) database.select_convs(2) database.surjective database.update_convs(2) list.set_map)
  then have "can_issue svc c (w_db ?w) (rt_UserID old)" using assms(3) by (simp add: can_issue_def)
  then obtain pair t where "issuePair svc c (at_pg_now c) (rt_UserID old) (rt_FamilyID old) ?w =
      (Inr pair, ?w\<lparr>w_db := (w_db ?w)\<lparr>tokens := tokens (w_db ?w) @ [t]\<rparr>, w_faults := drop 1 (w_faults ?w)\<rparr>)" "new_row c (rt_FamilyID old) t"
    using issuePair_quiet [of n ?w] quiet_drop [OF assms(1)] by blast
  then show ?thesis
    using x by (intro exI [of _ pair] exI [of _ t]) (simp add: refresh_tx_def act_bind_def numeral_2_eq_2 drop_Suc)
qed

lemma refresh_tx_revokes:
  assumes "w_faults w = []" and "find (claimable (at_pg_now c) h) (tokens (w_db w)) = None"
    and "find (\<lambda>t. rt_TokenHash t = h) (tokens (w_db w)) = Some old" and "rt_UsedAt old \<noteq> None"
  shows "refresh_tx svc c h w =
    (Inr (True, Inl ErrTokenReused), w\<lparr>w_db := (w_db w)\<lparr>tokens := revoke_rows (at_pg_now c) (rt_FamilyID old) (tokens (w_db w))\<rparr>\<rparr>)"
proof -
  have "fst (ClaimRefreshToken (at_pg_now c) h (w_db w)) = Inl ErrNoRows"
    using assms(2) by (simp add: ClaimRefreshToken_def Let_def row_of_def)
  then have "ClaimRefreshToken (at_pg_now c) h (w_db w) = (Inl ErrNoRows, w_db w)" using ClaimRefreshToken_none by (metis prod.collapse)
  then have "claimed_token c h w = (Inr None, w)"
    using assms(1) by (simp add: claimed_token_def act_catch_def act_bind_def exec_NoFault)
  then show ?thesis
    using assms by (auto simp: refresh_tx_def rejectClaim_def act_bind_def no_rows_as_def act_catch_def exec_NoFault
      GetRefreshTokenByHash_def row_of_def RevokeRefreshTokenFamily_def Let_def revoke_rows_def)
qed

lemma in_tx_calm_commit:
  "w_faults w = [] \<Longrightarrow> body w = (Inr (True, x), w') \<Longrightarrow> w_faults w' = [] \<Longrightarrow> in_tx body w = (Inr x, w')"
  by (simp add: in_tx_def Let_def)

lemma Refresh_rotates:
  assumes "w_faults w = []" and "find (claimable (at_pg_now c) (hashRefreshToken raw)) (tokens (w_db w)) = Some old"
    and "can_issue svc c (w_db w) (rt_UserID old)"
  shows "\<exists>pair t w'. Refresh svc c raw w = (Inr pair, w') \<and> w_faults w' = [] \<and> new_row c (rt_FamilyID old) t
    \<and> tokens (w_db w') = claim_rows (at_pg_now c) (hashRefreshToken raw) (tokens (w_db w)) @ [t]"
proof -
  have "quiet (Suc (Suc 0)) w" using assms(1) by (simp add: quiet_def)
  from refresh_tx_rotates [OF this assms(2,3)] show ?thesis
    using assms(1) in_tx_calm_commit [where body = "refresh_tx svc c (hashRefreshToken raw)", OF assms(1)]
    by (auto simp: Refresh_def act_bind_def)
qed

lemma Refresh_revokes:
  assumes "w_faults w = []" and "find (claimable (at_pg_now c) (hashRefreshToken raw)) (tokens (w_db w)) = None"
    and "find (\<lambda>t. rt_TokenHash t = hashRefreshToken raw) (tokens (w_db w)) = Some old" and "rt_UsedAt old \<noteq> None"
  shows "\<exists>w'. Refresh svc c raw w = (Inl ErrTokenReused, w')
    \<and> tokens (w_db w') = revoke_rows (at_pg_now c) (rt_FamilyID old) (tokens (w_db w))"
  using in_tx_calm_commit [where body = "refresh_tx svc c (hashRefreshToken raw)", OF assms(1) refresh_tx_revokes [OF assms]] assms(1)
  by (simp add: Refresh_def act_bind_def)

text \<open>
  C34. A lost answer ends the login as well. When the commit of a refresh takes effect but its answer is lost,
  the client gets an error and still has only the old token; its retry is taken for a theft, although
  one party only holds the token, and the family is revoked, the token it was never told of included.
\<close>

theorem refresh_lost_answer:
  assumes "tokens_ok (F, H, tokens (w_db w))" and "drawn c \<inter> H = {}" and "w_faults w = [NoFault, NoFault, NoFault, FailAfter]"
    and "old \<in> set (tokens (w_db w))" and "claimable (at_pg_now c) (hashRefreshToken raw) old"
    and "can_issue svc c (w_db w) (rt_UserID old)"
  shows "\<exists>w1 w2. Refresh svc c raw w = (Inl ErrDB, w1) \<and> Refresh svc c' raw w1 = (Inl ErrTokenReused, w2)
    \<and> (\<exists>t \<in> set (tokens (w_db w2)). rt_TokenHash t \<in> drawn c)
    \<and> (\<forall>t \<in> set (tokens (w_db w2)). rt_FamilyID t = rt_FamilyID old \<longrightarrow> rt_RevokedAt t \<noteq> None)"
proof -
  let ?h = "hashRefreshToken raw" and ?ts = "tokens (w_db w)"
  let ?w = "w\<lparr>w_faults := [NoFault, NoFault, FailAfter]\<rparr>"
  have f: "find (claimable (at_pg_now c) ?h) ?ts = Some old"
  proof -
    have "find (claimable (at_pg_now c) ?h) ?ts \<noteq> None" using assms(4,5) by (auto simp: find_None_iff)
    then obtain u where u: "find (claimable (at_pg_now c) ?h) ?ts = Some u" by blast
    then have "u \<in> set ?ts" "claimable (at_pg_now c) ?h u" by (auto simp: find_Some_iff)
    then have "u = old" using tokens_ok_eq [OF assms(1) _ assms(4)] assms(5) by (simp add: claimable_def)
    then show ?thesis using u by simp
  qed
  have "quiet (Suc (Suc 0)) ?w" by (simp add: quiet_def)
  from refresh_tx_rotates [OF this, of c ?h old svc] obtain pair t where r: "refresh_tx svc c ?h ?w =
      (Inr (True, Inr pair), ?w\<lparr>w_db := (w_db w)\<lparr>tokens := claim_rows (at_pg_now c) ?h ?ts @ [t]\<rparr>, w_faults := [FailAfter]\<rparr>)"
      "new_row c (rt_FamilyID old) t" using f assms(6) by auto
  define w1 where "w1 = w\<lparr>w_db := (w_db w)\<lparr>tokens := claim_rows (at_pg_now c) ?h ?ts @ [t]\<rparr>, w_faults := []\<rparr>"
  have "in_tx (refresh_tx svc c ?h) w = (Inl ErrDB, w1)"
    using assms(3) r(1) by (simp add: in_tx_def next_fault_def Let_def w1_def)
  then have one: "Refresh svc c raw w = (Inl ErrDB, w1)" by (simp add: Refresh_def act_bind_def)
  have ts1: "tokens (w_db w1) = claim_rows (at_pg_now c) ?h ?ts @ [t]" "w_faults w1 = []" by (simp_all add: w1_def)
  have d: "rt_TokenHash t \<in> drawn c" using r(2) by (simp add: new_row_def)
  have "rt_TokenHash old \<in> H" using assms(1,4) by (simp add: tokens_ok_def known_tokens_def)
  moreover have "rt_TokenHash old = ?h" using assms(5) by (simp add: claimable_def)
  ultimately have t: "rt_TokenHash t \<noteq> ?h" using assms(2) d by (metis disjoint_iff)
  have used: "rt_UsedAt u \<noteq> None" if "u \<in> set (tokens (w_db w1))" "rt_TokenHash u = ?h" for u
  proof
    note u = that
    assume n: "rt_UsedAt u = None"
    have "u \<in> set (claim_rows (at_pg_now c) ?h ?ts)" using u t ts1(1) by auto
    then have "u \<in> set ?ts" "\<not> claimable (at_pg_now c) ?h u" using n by (auto elim: in_claim_rows)
    moreover from this(1) have "u = old" by (rule tokens_ok_eq [OF assms(1) _ assms(4)]) (use u(2) assms(5) in \<open>simp add: claimable_def\<close>)
    ultimately show False using assms(5) by simp
  qed
  then have none: "find (claimable (at_pg_now c') ?h) (tokens (w_db w1)) = None" by (auto simp: find_None_iff claimable_def)
  obtain u where u: "find (\<lambda>t. rt_TokenHash t = ?h) (tokens (w_db w1)) = Some u"
  proof (cases "find (\<lambda>t. rt_TokenHash t = ?h) (tokens (w_db w1))")
    case None
    have "rt_TokenHash old \<in> set (map rt_TokenHash (tokens (w_db w1)))" using assms(4) unfolding ts1(1) map_append claim_rows_keys by simp
    then have "?h \<in> set (map rt_TokenHash (tokens (w_db w1)))" using assms(5) by (simp add: claimable_def)
    then show ?thesis using None by (auto simp: find_None_iff)
  qed (rule that)
  then have uu: "u \<in> set (tokens (w_db w1))" "rt_TokenHash u = ?h" by (auto simp: find_Some_iff)
  obtain w2 where two: "Refresh svc c' raw w1 = (Inl ErrTokenReused, w2)"
      "tokens (w_db w2) = revoke_rows (at_pg_now c') (rt_FamilyID u) (tokens (w_db w1))"
    using Refresh_revokes [OF ts1(2) none u used [OF uu]] by blast
  have fam: "rt_FamilyID u = rt_FamilyID old"
  proof -
    have "u \<in> set (claim_rows (at_pg_now c) ?h ?ts)" using uu t ts1(1) by auto
    then obtain s where s: "s \<in> set ?ts" "rt_FamilyID u = rt_FamilyID s" "rt_TokenHash u = rt_TokenHash s" by (rule in_claim_rows)
    have "s = old" by (rule tokens_ok_eq [OF assms(1) s(1) assms(4)]) (use s(3) uu(2) assms(5) in \<open>simp add: claimable_def\<close>)
    then show ?thesis using s(2) by simp
  qed
  have "\<forall>t \<in> set (tokens (w_db w2)). rt_FamilyID t = rt_FamilyID old \<longrightarrow> rt_RevokedAt t \<noteq> None"
    unfolding two(2) fam by (auto elim!: in_revoke_rows)
  moreover have "rt_TokenHash t \<in> set (map rt_TokenHash (tokens (w_db w2)))" unfolding two(2) revoke_rows_keys by (simp add: ts1)
  ultimately show ?thesis using one two(1) d by auto
qed

section \<open>Witnesses\<close>

lemma access_token_witness:
  "token_Verify demo_jwt demo_issuer (900 * second) ''access'' = Inr \<lparr>ak_UserID = 1, ak_TokenID = ''id'', ak_ExpiresAt = 901 * second\<rparr>
    \<and> token_Verify demo_jwt demo_issuer (901 * second) ''access'' = Inl ErrTokenExpired
    \<and> token_Verify demo_jwt (demo_issuer\<lparr>ti_issuer := ''other''\<rparr>) (900 * second) ''access'' = Inl ErrInvalidToken"
  using access_token [OF demo_jwt_laws demo_issue, of demo_issuer "900 * second"]
    access_token [OF demo_jwt_laws demo_issue, of demo_issuer "901 * second"]
    access_token [OF demo_jwt_laws demo_issue, of "demo_issuer\<lparr>ti_issuer := ''other''\<rparr>" "900 * second"]
  by (simp add: fits_int64_def demo_issuer_def second_def)

lemma demo_drawn: "drawn (demo_auth_call b) = {hashRefreshToken (demo_raw b)}"
  by (simp add: drawn_def demo_auth_call_def demo_raw_def)

definition demo_registration :: registration where
  "demo_registration = \<lparr>rg_Username = ''ada'', rg_Email = ''ada@x'', rg_Password = ''secret''\<rparr>"

lemma demo_registered:
  "Register demo_auth (demo_auth_call 1) demo_registration demo_start =
    (Inr (demo_user, \<lparr>tp_AccessToken = ''access'', tp_AccessExpiresAt = 901 * second + 1, tp_RefreshToken = demo_raw 1,
       tp_RefreshExpiresAt = second + 1 + hour\<rparr>), demo_signed_in)"
proof -
  let ?h = "encode_hash demo_argon2 demo_cost (replicate 16 7) (key_of demo_argon2 demo_cost (replicate 16 7) ''secret'' keyLength)"
  let ?w = "demo_start\<lparr>w_db := empty_db\<lparr>users := [demo_user]\<rparr>\<rparr>"
  have "Hash demo_argon2 demo_cost (Some (replicate 16 7)) ''secret'' = Inr ?h" by (simp add: Hash_def)
  moreover have "exec (CreateUser (2 * second) ''ada'' ''ada@x'' ?h) demo_start = (Inr demo_user, ?w)"
    by (simp add: exec_NoFault demo_start_def CreateUser_def Let_def empty_db_def next_id_def demo_user_def)
  moreover have "exec (CreateRefreshToken (2 * second) 1 5 (hashRefreshToken (demo_raw 1)) (second + 1 + hour)) ?w = (Inr demo_token, demo_signed_in)"
    by (simp add: exec_NoFault demo_start_def CreateRefreshToken_def Let_def empty_db_def next_id_def demo_user_def demo_token_def
      demo_signed_in_def pg_time_def second_def hour_def minute_def)
  ultimately show ?thesis
    by (simp add: Register_def demo_auth_def demo_auth_call_def demo_registration_def issuePair_def act_bind_def act_catch_def
      demo_issue newRefreshToken_def Let_def time_add_def demo_raw_def demo_user_def)
qed

lemma demo_step: "auth_step demo_auth (demo_start, {}, {}) (demo_signed_in, {5}, {hashRefreshToken (demo_raw 1)})"
  using auth_step.registering [of "demo_auth_call 1" "{}" "{}", OF _ _ demo_registered]
  by (simp add: demo_drawn) (simp add: demo_auth_call_def)

lemma demo_reachable: "auth_reachable demo_auth (demo_signed_in, {5}, {hashRefreshToken (demo_raw 1)})"
proof -
  have "tokens (w_db demo_start) = []" by (simp add: demo_start_def empty_db_def)
  then show ?thesis unfolding auth_reachable_def using demo_step by blast
qed

lemma demo_fresh: "drawn (demo_auth_call 2) \<inter> {hashRefreshToken (demo_raw 1)} = {}"
  using demo_hashes unfolding demo_drawn demo_raw_def by auto

lemma demo_signed_in_simps:
  "tokens (w_db demo_signed_in) = [demo_token]" "users (w_db demo_signed_in) = [demo_user]" "w_faults demo_signed_in = []"
  by (simp_all add: demo_signed_in_def demo_start_def)

lemma demo_claimable: "claimable (at_pg_now (demo_auth_call b)) (hashRefreshToken (demo_raw 1)) demo_token"
  by (simp add: claimable_def demo_token_def demo_auth_call_def second_def)

lemma demo_can_issue: "can_issue demo_auth (demo_auth_call 2) (w_db demo_signed_in) 1"
proof -
  have "Issue (as_jwt demo_auth) (as_tokens demo_auth) (at_now (demo_auth_call 2)) (at_token_id (demo_auth_call 2)) 1 = Inr (''access'', 901 * second + 1)"
    using demo_issue by (simp add: demo_auth_def demo_auth_call_def)
  moreover have "at_token (demo_auth_call 2) \<noteq> None" by (simp add: demo_auth_call_def)
  moreover have "rt_TokenHash demo_token = hashRefreshToken (demo_raw 1)" "us_ID demo_user = 1" by (simp_all add: demo_token_def demo_user_def)
  ultimately show ?thesis using demo_fresh unfolding can_issue_def demo_signed_in_simps by auto
qed

lemma demo_refreshed:
  obtains pair w1 t where "Refresh demo_auth (demo_auth_call 2) (demo_raw 1) demo_signed_in = (Inr pair, w1)" "w_faults w1 = []"
    "tokens (w_db w1) = [demo_token\<lparr>rt_UsedAt := Some (2 * second)\<rparr>, t]" "rt_TokenHash t \<noteq> hashRefreshToken (demo_raw 1)"
proof -
  have "find (claimable (at_pg_now (demo_auth_call 2)) (hashRefreshToken (demo_raw 1))) (tokens (w_db demo_signed_in)) = Some demo_token"
    using demo_claimable by (simp add: demo_signed_in_simps)
  moreover have "can_issue demo_auth (demo_auth_call 2) (w_db demo_signed_in) (rt_UserID demo_token)"
    using demo_can_issue by (simp add: demo_token_def)
  ultimately obtain pair t w1 where r: "Refresh demo_auth (demo_auth_call 2) (demo_raw 1) demo_signed_in = (Inr pair, w1)" "w_faults w1 = []"
      "new_row (demo_auth_call 2) (rt_FamilyID demo_token) t"
      "tokens (w_db w1) = claim_rows (at_pg_now (demo_auth_call 2)) (hashRefreshToken (demo_raw 1)) [demo_token] @ [t]"
    using Refresh_rotates [OF demo_signed_in_simps(3)] unfolding demo_signed_in_simps by blast
  have "at_pg_now (demo_auth_call 2) = 2 * second" by (simp add: demo_auth_call_def)
  then have "tokens (w_db w1) = [demo_token\<lparr>rt_UsedAt := Some (2 * second)\<rparr>, t]"
    using r(4) demo_claimable [of 2] by (simp add: claim_rows_def)
  moreover have "rt_TokenHash t \<noteq> hashRefreshToken (demo_raw 1)" using r(3) demo_fresh by (auto simp: new_row_def)
  ultimately show thesis using that r(1,2) by blast
qed

lemma auth_refines_witness:
  "token_step ({}, {}, []) ({5}, {hashRefreshToken (demo_raw 1)}, [demo_token])"
  using auth_refines [OF demo_step] by (simp add: demo_signed_in_simps) (simp add: demo_start_def empty_db_def)


lemma refresh_once_witness:
  "\<exists>pair w1. Refresh demo_auth (demo_auth_call 2) (demo_raw 1) demo_signed_in = (Inr pair, w1)
    \<and> (\<forall>pair'. fst (Refresh demo_auth (demo_auth_call 3) (demo_raw 1) w1) \<noteq> Inr pair')"
proof -
  obtain pair w1 t where r: "Refresh demo_auth (demo_auth_call 2) (demo_raw 1) demo_signed_in = (Inr pair, w1)" by (rule demo_refreshed)
  then show ?thesis using refresh_once [OF demo_reachable demo_fresh r rtranclp.rtrancl_refl] by blast
qed


lemma logout_ends_witness:
  "\<exists>w1. Logout (demo_auth_call 3) (demo_raw 1) demo_signed_in = (Inr (), w1)
    \<and> (\<forall>pair. fst (Refresh demo_auth (demo_auth_call 2) (demo_raw 1) w1) \<noteq> Inr pair)"
proof -
  let ?t = "demo_token\<lparr>rt_RevokedAt := Some (2 * second)\<rparr>"
  have h: "rt_TokenHash demo_token = hashRefreshToken (demo_raw 1)" by (simp add: demo_token_def)
  obtain w1 where w1: "Logout (demo_auth_call 3) (demo_raw 1) demo_signed_in = (Inr (), w1)" "tokens (w_db w1) = [?t]"
    using h by (simp add: Logout_def act_bind_def act_catch_def exec_NoFault demo_signed_in_simps GetRefreshTokenByHash_def row_of_def
      RevokeRefreshTokenFamily_def Let_def) (simp add: demo_token_def demo_auth_call_def)
  have "\<exists>t \<in> set (tokens (w_db demo_signed_in)). rt_TokenHash t = hashRefreshToken (demo_raw 1)" using h by (simp add: demo_signed_in_simps)
  then obtain old where old: "old \<in> set (tokens (w_db demo_signed_in))"
      "\<forall>w2 F2 H2 t raw' c' pair. auth_steps demo_auth (w1, {5}, {hashRefreshToken (demo_raw 1)}) (w2, F2, H2) \<longrightarrow> t \<in> set (tokens (w_db w2)) \<longrightarrow>
        rt_FamilyID t = rt_FamilyID old \<longrightarrow> rt_TokenHash t = hashRefreshToken raw' \<longrightarrow> fst (Refresh demo_auth c' raw' w2) \<noteq> Inr pair"
    using logout_ends [OF demo_reachable w1(1)] by auto
  have "?t \<in> set (tokens (w_db w1))" "rt_FamilyID ?t = rt_FamilyID old" "rt_TokenHash ?t = hashRefreshToken (demo_raw 1)"
    using w1(2) old(1) h by (simp_all add: demo_signed_in_simps)
  then show ?thesis using w1(1) old(2) by (metis rtranclp.rtrancl_refl)
qed

lemma demo_password: "Hash demo_argon2 demo_cost (Some (replicate 16 7)) ''secret'' = Inr (us_PasswordHash demo_user)"
  by (simp add: Hash_def demo_user_def)

lemma demo_cost_ok: "argon2_ok demo_cost" "length (replicate 16 (7 :: byte)) = saltLength"
  by (simp_all add: argon2_ok_def demo_cost_def saltLength_def)

lemma demo_login: "find (login_match ''ADA'') (users (w_db demo_signed_in)) = Some demo_user"
  "find (login_match ''bob'') (users (w_db demo_signed_in)) = None"
proof -
  have "sql_lower ''ada'' = sql_lower ''ADA''" "sql_lower ''ada'' \<noteq> sql_lower ''bob''" "sql_lower ''ada@x'' \<noteq> sql_lower ''bob''"
    by code_simp+
  then show "find (login_match ''ADA'') (users (w_db demo_signed_in)) = Some demo_user"
    "find (login_match ''bob'') (users (w_db demo_signed_in)) = None"
    by (simp_all add: demo_signed_in_simps login_match_def demo_user_def)
qed

lemma login_uniform_witness:
  "Login demo_auth (demo_auth_call 2) ''bob'' ''secret'' demo_signed_in = (Inl ErrInvalidCredentials, demo_signed_in)"
  by (rule login_uniform) (simp_all add: demo_signed_in_simps(3) demo_login(2))

lemma login_outcome_witness:
  "\<exists>pair w'. Login demo_auth (demo_auth_call 2) ''ADA'' ''secret'' demo_signed_in = (Inr (demo_user, pair), w')"
proof -
  have svc: "as_argon2 demo_auth = demo_argon2" "hs_params (as_hasher demo_auth) = demo_cost" by (simp_all add: demo_auth_def)
  have call: "at_salt (demo_auth_call 2) = Some (replicate 16 7)" by (simp add: demo_auth_call_def)
  have "can_issue demo_auth (demo_auth_call 2) (w_db demo_signed_in) (us_ID demo_user)"
    using demo_can_issue by (simp add: demo_user_def)
  then show ?thesis
    using login_outcome [of demo_auth demo_signed_in "''ADA''" demo_user demo_cost "replicate 16 7" "''secret''" "demo_auth_call 2" "replicate 16 7" "''secret''"]
      demo_argon2_laws demo_cost_ok demo_signed_in_simps(3) demo_login(1) demo_password call unfolding svc by auto
qed

lemma refresh_lost_answer_witness:
  "\<exists>w1 w2. Refresh demo_auth (demo_auth_call 2) (demo_raw 1) (demo_signed_in\<lparr>w_faults := [NoFault, NoFault, NoFault, FailAfter]\<rparr>) = (Inl ErrDB, w1)
    \<and> Refresh demo_auth (demo_auth_call 3) (demo_raw 1) w1 = (Inl ErrTokenReused, w2)"
proof -
  let ?w = "demo_signed_in\<lparr>w_faults := [NoFault, NoFault, NoFault, FailAfter]\<rparr>"
  have "tokens_ok ({5}, {hashRefreshToken (demo_raw 1)}, tokens (w_db ?w))" using reachable_ok [OF demo_reachable] by simp
  moreover have "demo_token \<in> set (tokens (w_db ?w))" by (simp add: demo_signed_in_simps)
  moreover have "can_issue demo_auth (demo_auth_call 2) (w_db ?w) (rt_UserID demo_token)" using demo_can_issue by (simp add: demo_token_def)
  ultimately show ?thesis
    using refresh_lost_answer [of "{5}" "{hashRefreshToken (demo_raw 1)}" ?w "demo_auth_call 2" demo_token "demo_raw 1" demo_auth "demo_auth_call 3"]
      demo_fresh demo_claimable by auto
qed

end
