(* ===== verification/Http_Spec.thy ===== *)
theory Http_Spec
  imports Http_Demo Auth_Spec
begin

text \<open>
  What a client can rely on whatever the route: which errors it can get and what they tell, that nothing happens
  without a valid token behind \<open>Authenticate\<close>, what the limits do, and what a registration lets through.
\<close>

section \<open>Errors of composed handlers\<close>

definition errors_in :: "(http_error \<Rightarrow> bool) \<Rightarrow> ('w, 'a) web \<Rightarrow> bool" where
  "errors_in P m \<longleftrightarrow> (\<forall>s e s'. m s = (Inl e, s') \<longrightarrow> P e)"

lemma errors_in_return [simp]: "errors_in P (web_return x)"
  by (simp add: errors_in_def web_return_def)

lemma errors_in_fail [simp]: "errors_in P (web_fail e) \<longleftrightarrow> P e"
  by (auto simp: errors_in_def web_fail_def)

lemma errors_in_check [simp]: "errors_in P (web_check r) \<longleftrightarrow> (\<forall>e. r = Inl e \<longrightarrow> P e)"
  by (auto simp: errors_in_def web_check_def)

lemma errors_in_header [simp]: "errors_in P (set_header k v)"
  by (auto simp: errors_in_def set_header_def)

lemma errors_in_bind: "errors_in P m \<Longrightarrow> (\<And>x. errors_in P (f x)) \<Longrightarrow> errors_in P (web_bind m f)"
  unfolding errors_in_def web_bind_def by (auto split: prod.splits sum.splits) blast

lemma errors_in_call: "(\<And>e. P (h e)) \<Longrightarrow> errors_in P (web_call h m)"
  by (auto simp: errors_in_def web_call_def map_error_def split: prod.splits sum.splits)

lemma errors_in_limit: "P (TooManyRequests ''too many attempts; try again later'') \<Longrightarrow> errors_in P (enforceLimit l k n w)"
  by (auto simp: errors_in_def enforceLimit_def web_bind_def set_header_def web_return_def web_fail_def
      split: option.splits prod.splits sum.splits if_splits)

lemma errors_in_reset: "errors_in P (reset_limits l ks)"
proof -
  have "fst (reset_limits l ks s) = Inr ()" for s by (induction l ks s rule: reset_limits.induct) simp_all
  then show ?thesis unfolding errors_in_def by (metis fst_conv sum.distinct(1))
qed

lemma errors_in_unauthorized: "(\<And>m. P (Unauthorized m)) \<Longrightarrow> errors_in P (writeUnauthorized m)"
  by (simp add: writeUnauthorized_def errors_in_bind)

lemma errors_in_authenticate:
  "(\<And>m. P (Unauthorized m)) \<Longrightarrow> (\<And>u. errors_in P (next u)) \<Longrightarrow> errors_in P (Authenticate J i now r next)"
  by (auto simp: Authenticate_def errors_in_unauthorized split: option.split sum.split)

text \<open>What a client may see: an error of its own doing, or the one fixed internal error.\<close>

definition told :: "http_error \<Rightarrow> bool" where
  "told e \<longleftrightarrow> e = Internal \<or> ae_Status e \<in> {400, 401, 404, 405, 409, 429}"

lemma told_simps [simp]:
  "told Internal" "told (BadRequest m)" "told (Unauthorized m)" "told (NotFound m)" "told (Conflict m)"
  "told (TooManyRequests m)" "told (unexpected err)" "told (newError 405 code m)" "told (WithFields (BadRequest m) fs)" "told (WithFields (Conflict m) fs)"
  by (simp_all add: told_def BadRequest_def Unauthorized_def NotFound_def Conflict_def TooManyRequests_def newError_def
      unexpected_def WithFields_def)

lemma told_results:
  "DecodeJSON dec body = Inl e \<Longrightarrow> told e" "intParam r name def lo hi = Inl e \<Longrightarrow> told e"
  "fields_err f m = Inl e \<Longrightarrow> told e" "validate_register N q = Inl e \<Longrightarrow> told e" "validate_login ql = Inl e \<Longrightarrow> told e"
  "refresh_token_of r = Inl e \<Longrightarrow> told e" "UserIDFrom u = Inl e \<Longrightarrow> told e" "known_game reg s = Inl e \<Longrightarrow> told e"
  "sessionRequest N user ident = Inl e \<Longrightarrow> told e" "reportDate raw = Inl e \<Longrightarrow> told e" "report_scope reg game = Inl e \<Longrightarrow> told e"
proof -
  show dec: "DecodeJSON dec body = Inl e \<Longrightarrow> told e" for dec :: "json \<Rightarrow> 'x option" and body
    by (auto simp: DecodeJSON_def of_option_def and_then_Inl split: http_body.splits option.splits)
  show "intParam r name def lo hi = Inl e \<Longrightarrow> told e"
    by (auto simp: intParam_def Let_def split: if_splits option.splits)
  show err: "fields_err f m = Inl e \<Longrightarrow> told e" for f m by (auto simp: fields_err_def split: if_splits)
  have mail: "validateEmail N f email = Inl e \<Longrightarrow> told e" for f email
    by (auto simp: validateEmail_def split: if_splits option.splits)
  show "validate_register N q = Inl e \<Longrightarrow> told e" using mail err by (auto simp: validate_register_def and_then_Inl)
  show "validate_login ql = Inl e \<Longrightarrow> told e" using err by (auto simp: validate_login_def Let_def split: if_splits)
  show "refresh_token_of r = Inl e \<Longrightarrow> told e"
    using dec err by (auto simp: refresh_token_of_def and_then_Inl validate_refresh_def)
  show user: "UserIDFrom u = Inl e \<Longrightarrow> told e" for u by (auto simp: UserIDFrom_def split: option.splits if_splits)
  show game: "known_game reg s = Inl e \<Longrightarrow> told e" for s by (auto simp: known_game_def map_error_def split: sum.splits)
  show "sessionRequest N user ident = Inl e \<Longrightarrow> told e"
    using user by (auto simp: sessionRequest_def and_then_Inl split: option.splits)
  show "reportDate raw = Inl e \<Longrightarrow> told e" by (auto simp: reportDate_def split: if_splits option.splits)
  show "report_scope reg game = Inl e \<Longrightarrow> told e" using game by (auto simp: report_scope_def and_then_Inl split: if_splits)
qed

lemma told_of_service [simp]:
  "told (register_error e)" "told (login_error e)" "told (refresh_error e)" "told (me_error e)" "told (sessionError e)"
  by (auto simp: register_error_def login_error_def refresh_error_def me_error_def sessionError_def
      split: err.split game_error.split)

lemma told_period:
  "map_error BadRequest p = Inl e \<Longrightarrow> told e" "map_error (\<lambda>e. WithFields (BadRequest e) fs) p = Inl e \<Longrightarrow> told e"
  by (auto simp: map_error_def split: sum.splits)

lemma told_check:
  "(\<And>e. res = Inl e \<Longrightarrow> told e) \<Longrightarrow> errors_in told (web_check res)"
  by simp

lemma told_mounted: "(\<And>svc. errors_in told (h svc)) \<Longrightarrow> errors_in told (mounted x h)"
  by (simp add: mounted_def no_endpoint_def split: option.split)

lemma told_limited: "errors_in told h \<Longrightarrow> errors_in told (RateLimit N l cfg cl n w u r h)"
  by (auto simp: RateLimit_def intro!: errors_in_bind errors_in_limit)

lemma told_authenticated: "(\<And>u. errors_in told (h u)) \<Longrightarrow> errors_in told (authenticated d c r h)"
  by (auto simp: authenticated_def intro!: told_mounted errors_in_authenticate)

lemmas told_rules = errors_in_bind errors_in_call errors_in_limit errors_in_reset told_check

lemma told_handlers:
  "errors_in told (handleRegister d svc c r)" "errors_in told (handleLogin d svc c r)"
  "errors_in told (handleRefresh svc c r)" "errors_in told (handleLogout c r)" "errors_in told (handleMe user)"
  "errors_in told (handleListGames ssvc)" "errors_in told (handleGetGame ssvc s)"
  "errors_in told (handleStartSession d ssvc c s user)" "errors_in told (handleGetSession d ssvc i user)"
  "errors_in told (handleMove d ssvc c i r user)" "errors_in told (handleFinish d ssvc c i user)"
  by (auto simp: handleRegister_def handleLogin_def handleRefresh_def handleLogout_def handleMe_def handleListGames_def
      handleGetGame_def handleStartSession_def handleGetSession_def handleMove_def handleFinish_def auth_enforce_def
      limitSessions_def split: prod.split intro!: told_rules dest: told_results)

lemma told_boards:
  "errors_in told (writePage b r sc)" "errors_in told (writeStanding b r sc user)" "errors_in told (handleTopPlayers rsvc r)"
  "errors_in told (handleTicket t c user)" "errors_in told (handleWs t r)" "errors_in told (handleReady c detail)" "errors_in told handleLive"
  by (auto simp: writePage_def writeStanding_def handleTopPlayers_def handleTicket_def handleWs_def handleReady_def handleLive_def Let_def
      split: prod.split option.split intro!: told_rules dest: told_results told_period)

lemma dispatch_told: "errors_in told (dispatch d c r to)"
  by (cases to)
    (auto simp: dispatch_def limited_reads_def limited_moves_def handleGamePage_def handleGlobalPage_def
      handleGameStanding_def handleGlobalStanding_def no_endpoint_def told_handlers told_boards
      intro!: told_mounted told_authenticated told_limited errors_in_bind told_check dest: told_results)

section \<open>What handlers keep\<close>

text \<open>Rows do not change where a request is refused for its rate: limits stand before the services.\<close>

definition keeps_rows :: "('r service_world, 'a) web \<Rightarrow> bool" where
  "keeps_rows m \<longleftrightarrow> (\<forall>w hs. w_db (fst (snd (m (w, hs)))) = w_db w)"

definition refuses_clean :: "('r service_world, 'a) web \<Rightarrow> bool" where
  "refuses_clean m \<longleftrightarrow> (\<forall>w hs e w' hs'. m (w, hs) = (Inl e, w', hs') \<and> ae_Status e = 429 \<longrightarrow> w_db w' = w_db w)"

abbreviation never_429 :: "('r service_world, 'a) web \<Rightarrow> bool" where
  "never_429 m \<equiv> errors_in (\<lambda>e. ae_Status e \<noteq> 429) m"

lemma Allow_rows: "w_db (snd (Allow S key limit window w)) = w_db w"
  using same_dbD [of "Allow S key limit window" w] by (auto simp: Allow_def intro!: same_db_rules)

lemma keeps_rows_check [simp]: "keeps_rows (web_check r)"
  by (simp add: keeps_rows_def web_check_def)

lemma keeps_rows_limit [simp]: "keeps_rows (enforceLimit (l :: 'r string_ops option) key limit window)"
proof -
  have "w_db (fst (snd (enforceLimit l key limit window (w, hs)))) = w_db w" for w :: "'r service_world" and hs
    using Allow_rows [of _ key limit window w]
    by (auto simp: enforceLimit_def web_bind_def set_header_def web_return_def web_fail_def
        split: option.split prod.split sum.split)
      (metis snd_conv)+
  then show ?thesis by (simp add: keeps_rows_def)
qed

lemma clean_bind: "keeps_rows m \<Longrightarrow> (\<And>x. refuses_clean (f x)) \<Longrightarrow> refuses_clean (web_bind m f)"
  unfolding refuses_clean_def keeps_rows_def web_bind_def
  by (auto split: prod.splits sum.splits) (metis fst_conv snd_conv)+

lemmas clean_first = clean_bind [OF keeps_rows_check] clean_bind [OF keeps_rows_limit]

lemma clean_never: "never_429 m \<Longrightarrow> refuses_clean m"
  unfolding refuses_clean_def errors_in_def by blast

lemma clean_call: "(\<And>e. ae_Status (h e) \<noteq> 429) \<Longrightarrow> (\<And>x. never_429 (f x)) \<Longrightarrow> refuses_clean (web_bind (web_call h m) f)"
  by (intro clean_never errors_in_bind errors_in_call)

lemma never_429_reply [simp]: "never_429 (web_return x)" "refuses_clean (web_return x)"
  by (simp_all add: clean_never)

lemma status_of_service [simp]:
  "ae_Status (register_error e) \<noteq> 429" "ae_Status (login_error e) \<noteq> 429" "ae_Status (refresh_error e) \<noteq> 429"
  "ae_Status (me_error e) \<noteq> 429" "ae_Status (sessionError e) \<noteq> 429" "ae_Status (unexpected e) \<noteq> 429"
  by (auto simp: register_error_def login_error_def refresh_error_def me_error_def sessionError_def unexpected_def
      Internal_def Conflict_def Unauthorized_def NotFound_def BadRequest_def WithFields_def newError_def split: err.split game_error.split)

lemma clean_handlers:
  "refuses_clean (handleRegister d svc c r)" "refuses_clean (handleLogin d svc c r)"
  "refuses_clean (handleRefresh svc c r)" "refuses_clean (handleLogout c r)" "refuses_clean (handleMe user)"
  "refuses_clean (handleListGames ssvc)" "refuses_clean (handleGetGame ssvc s)"
  "refuses_clean (handleStartSession d ssvc c s user)" "refuses_clean (handleGetSession d ssvc i user)"
  "refuses_clean (handleMove d ssvc c i r user)" "refuses_clean (handleFinish d ssvc c i user)"
  by (auto simp: handleRegister_def handleLogin_def handleRefresh_def handleLogout_def handleMe_def handleListGames_def
      handleGetGame_def handleStartSession_def handleGetSession_def handleMove_def handleFinish_def auth_enforce_def
      limitSessions_def split: prod.split intro!: clean_call clean_first errors_in_reset errors_in_bind)

lemma clean_boards:
  "refuses_clean (writePage b r sc)" "refuses_clean (writeStanding b r sc user)" "refuses_clean (handleTopPlayers rsvc r)"
  "refuses_clean (handleTicket t c user)" "refuses_clean (handleWs t r)" "refuses_clean (handleReady c detail)" "refuses_clean handleLive"
  by (auto simp: writePage_def writeStanding_def handleTopPlayers_def handleTicket_def handleWs_def handleReady_def handleLive_def Let_def
      split: prod.split option.split intro!: clean_call clean_first errors_in_call errors_in_bind)

lemma clean_unauthorized: "refuses_clean (writeUnauthorized m)"
  by (rule clean_never) (simp add: errors_in_unauthorized Unauthorized_def newError_def)

lemma clean_authenticated: "(\<And>u. refuses_clean (h u)) \<Longrightarrow> refuses_clean (authenticated d c r h)"
  by (auto simp: authenticated_def mounted_def no_endpoint_def Authenticate_def clean_unauthorized NotFound_def newError_def
      split: option.split sum.split intro: clean_never)

lemma clean_mounted: "(\<And>svc. refuses_clean (h svc)) \<Longrightarrow> refuses_clean (mounted x h)"
  by (auto simp: mounted_def no_endpoint_def NotFound_def newError_def split: option.split intro: clean_never)

lemma clean_limited: "refuses_clean h \<Longrightarrow> refuses_clean (RateLimit N l cfg cl n win u r h)"
  by (auto simp: RateLimit_def intro!: clean_first)

lemma dispatch_clean: "refuses_clean (dispatch d c r to)"
  by (cases to)
    (auto simp: dispatch_def limited_reads_def limited_moves_def handleGamePage_def handleGlobalPage_def
      handleGameStanding_def handleGlobalStanding_def no_endpoint_def NotFound_def newError_def clean_handlers clean_boards
      intro!: clean_mounted clean_authenticated clean_limited clean_first intro: clean_never)

section \<open>Calls without faults\<close>

definition stays_calm :: "('d, 'r) world \<Rightarrow> ('d, 'r) world \<Rightarrow> bool" where
  "stays_calm w w' \<longleftrightarrow> (w_faults w = [] \<longrightarrow> w_faults w' = [])"

interpretation stays_calm: frame stays_calm
  by unfold_locales (auto simp: stays_calm_def)

lemma exec_stays_calm: "keeps stays_calm (exec q)"
  by (auto simp: keeps_def stays_calm_def exec_def split: prod.split)

lemma upgrade_stays_calm: "keeps stays_calm (upgradeHashIfStale svc c user password)"
  by (cases "Hash (as_argon2 svc) (hs_params (as_hasher svc)) (at_salt c) password")
    (auto simp: upgradeHashIfStale_def intro!: stays_calm.rules exec_stays_calm)

lemma issuePair_stays_calm: "keeps stays_calm (issuePair svc c now u family)"
  unfolding issuePair_def Let_def by (intro stays_calm.rules exec_stays_calm)

lemma found_user_stays_calm: "keeps stays_calm (found_user login)"
  unfolding found_user_def by (intro stays_calm.rules exec_stays_calm)

lemma Login_stays_calm: "keeps stays_calm (Login svc c login password)"
  unfolding Login_def
  by (intro stays_calm.rules found_user_stays_calm upgrade_stays_calm issuePair_stays_calm)

lemma Login_same_redis: "keeps same_redis (Login svc c login password)"
proof -
  have up: "keeps same_redis (upgradeHashIfStale svc c user password)" for user
    by (cases "Hash (as_argon2 svc) (hs_params (as_hasher svc)) (at_salt c) password")
      (auto simp: upgradeHashIfStale_def intro!: same_redis_rules)
  show ?thesis unfolding Login_def found_user_def issuePair_def Let_def by (intro same_redis_rules up)
qed

section \<open>Properties\<close>

lemmas response_defs = WriteJSON_def WriteError_def write_body_def plain_error_def

text \<open>
  C16. An error tells a client nothing but what it did. Whatever is asked of whatever route in whatever state, and
  whichever calls of the services fail, an error that is returned through the shared envelope has a status for a mistake
  of the client's, or it is the one internal error with its fixed code and message and no details; and it carries the
  request's id.
\<close>

theorem errors_told:
  "case rp_Body (fst (serve d c r to w)) of
     Ok_body _ \<Rightarrow> True
   | Error_body code message problems ident \<Rightarrow> ident = request_id c r \<and>
       (rp_Status (fst (serve d c r to w)) \<in> {400, 401, 404, 405, 409, 429}
        \<or> rp_Status (fst (serve d c r to w)) = 500 \<and> code = ''internal'' \<and> message = ''an unexpected error occurred'' \<and> problems = [])"
proof -
  obtain res w' hs where run: "dispatch d c r to (w, [(''X-Request-Id'', request_id c r)]) = (res, w', hs)"
    by (metis prod_cases3)
  show ?thesis
  proof (cases res)
    case (Inl e)
    have "told e" using dispatch_told [of d c r to] run Inl unfolding errors_in_def by blast
    then show ?thesis using run Inl by (auto simp: serve_def WriteError_def write_body_def told_def Internal_def newError_def)
  next
    case (Inr a)
    then show ?thesis using run by (cases a) (simp add: serve_def response_defs split: reply.splits)
  qed
qed

text \<open>The routes that act for a user, and the requests a token is accepted from.\<close>

fun acts_for_user :: "route \<Rightarrow> bool" where
  "acts_for_user To_me = True"
| "acts_for_user (To_start s) = True"
| "acts_for_user (To_session i) = True"
| "acts_for_user (To_finish i) = True"
| "acts_for_user (To_move i) = True"
| "acts_for_user To_global_standing = True"
| "acts_for_user (To_game_standing s) = True"
| "acts_for_user To_ticket = True"
| "acts_for_user _ = False"

definition token_accepted :: "'r deps \<Rightarrow> http_call \<Rightarrow> http_request \<Rightarrow> bool" where
  "token_accepted d c r \<longleftrightarrow>
     (case (dp_Auth d, bearerToken r) of
        (Some svc, Some raw) \<Rightarrow> (case token_Verify (as_jwt svc) (as_tokens svc) (hc_now c) raw of Inl _ \<Rightarrow> False | Inr _ \<Rightarrow> True)
      | _ \<Rightarrow> False)"

text \<open>The routes that \<open>NewRouter\<close> mounts for these services.\<close>

fun route_mounted :: "'r deps \<Rightarrow> route \<Rightarrow> bool" where
  "route_mounted d To_me = (dp_Auth d \<noteq> None)"
| "route_mounted d (To_start s) = (dp_Auth d \<noteq> None \<and> dp_Sessions d \<noteq> None)"
| "route_mounted d (To_session i) = (dp_Auth d \<noteq> None \<and> dp_Sessions d \<noteq> None)"
| "route_mounted d (To_finish i) = (dp_Auth d \<noteq> None \<and> dp_Sessions d \<noteq> None)"
| "route_mounted d (To_move i) = (dp_Auth d \<noteq> None \<and> dp_Sessions d \<noteq> None)"
| "route_mounted d To_global_standing = (dp_Auth d \<noteq> None \<and> dp_Sessions d \<noteq> None \<and> dp_Leaderboard d \<noteq> None)"
| "route_mounted d (To_game_standing s) = (dp_Auth d \<noteq> None \<and> dp_Sessions d \<noteq> None \<and> dp_Leaderboard d \<noteq> None)"
| "route_mounted d To_ticket = (dp_Auth d \<noteq> None \<and> dp_Realtime d \<and> dp_Tickets d \<noteq> None)"
| "route_mounted d _ = False"

definition bearer_challenge :: string where
  "bearer_challenge = ''Bearer realm='' @ [CHR 0x22] @ ''podium'' @ [CHR 0x22]"

lemma authenticated_refused:
  assumes "\<not> token_accepted d c r"
  shows "\<exists>e hs'. authenticated d c r h (w, hs) = (Inl e, w, hs') \<and>
    (dp_Auth d \<noteq> None \<longrightarrow> ae_Status e = 401 \<and> map_of hs' ''WWW-Authenticate'' = Some bearer_challenge)"
  using assms
  by (auto simp: token_accepted_def authenticated_def mounted_def Authenticate_def no_endpoint_def web_fail_def writeUnauthorized_def
      web_bind_def set_header_def Unauthorized_def newError_def bearer_challenge_def update_conv' split: option.splits sum.splits)

text \<open>
  C13. Nothing happens without a token. For every route that acts for a user, a request without a bearer token that
  verifies changes neither the rows nor Redis; and where the services are mounted the answer is a 401 that names
  the scheme.
\<close>

theorem token_required:
  assumes "acts_for_user to" and "\<not> token_accepted d c r"
  shows "snd (serve d c r to w) = w
    \<and> (route_mounted d to \<longrightarrow> rp_Status (fst (serve d c r to w)) = 401
        \<and> map_of (rp_Headers (fst (serve d c r to w))) ''WWW-Authenticate'' = Some bearer_challenge)"
proof -
  define hs where "hs = [(''X-Request-Id'', request_id c r)]"
  have "\<exists>e hs'. dispatch d c r to (w, hs) = (Inl e, w, hs') \<and>
      (route_mounted d to \<longrightarrow> ae_Status e = 401 \<and> map_of hs' ''WWW-Authenticate'' = Some bearer_challenge)"
    using assms(1) authenticated_refused [OF assms(2), where w = w and hs = hs]
    by (cases to) (fastforce simp: dispatch_def mounted_def no_endpoint_def web_fail_def split: option.split)+
  then show ?thesis by (auto simp: serve_def response_defs update_conv' hs_def [symmetric])
qed

lemma token_required_witness:
  "snd (serve web_deps web_call_at (web_request Absent) To_me web_locked) = web_locked
   \<and> rp_Status (fst (serve web_deps web_call_at (web_request Absent) To_me web_locked)) = 401"
proof -
  have "\<not> token_accepted web_deps web_call_at (web_request Absent)"
    by (simp add: token_accepted_def web_request_def bearerToken_def split: option.split)
  then show ?thesis using token_required [of To_me web_deps web_call_at "web_request Absent" web_locked] by (simp add: web_deps_def)
qed

end
