(* ===== verification/Http_Login.thy ===== *)
theory Http_Login
  imports Http_Spec
begin

text \<open>
  Registration and login over HTTP: what a registration lets through, when a login is refused for its rate, and what a
  successful login does to the counters. The last section has the services the witnesses run on.
\<close>

section \<open>What a registration lets through\<close>

definition word_chars :: "char set" where
  "word_chars = set ''abcdefghijklmnopqrstuvwxyzABCDEFGHIJKLMNOPQRSTUVWXYZ0123456789''"

definition well_formed_name :: "string \<Rightarrow> bool" where
  "well_formed_name name \<longleftrightarrow> length name \<in> {3..32} \<and> hd name \<in> word_chars \<and> set name \<subseteq> word_chars \<union> set ''_-''"

lemma letter_or_digit: "isASCIILetterOrDigit c \<longleftrightarrow> c \<in> word_chars"
  by (cases c) (simp add: isASCIILetterOrDigit_def word_chars_def; code_simp)

definition good_password :: "string \<Rightarrow> string \<Rightarrow> bool" where
  "good_password password name \<longleftrightarrow> length password \<in> {12..128} \<and> fold_name password \<noteq> fold_name name"

lemma fields_add_nonempty [simp]: "fields_add f name problem \<noteq> []"
  by (auto simp: fields_add_def)

lemma no_problems:
  "validateUsername f name = [] \<longleftrightarrow> f = [] \<and> well_formed_name name"
  "validatePassword f password name = [] \<and> name \<noteq> '''' \<longleftrightarrow> f = [] \<and> good_password password name \<and> name \<noteq> ''''"
  "validateEmail N f email = Inr [] \<Longrightarrow> f = [] \<and> mailbox N email = Some email \<and> email \<noteq> '''' \<and> length email \<le> 254"
proof -
  have "list_all username_char name \<longleftrightarrow> set name \<subseteq> word_chars \<union> set ''_-''"
    by (auto simp: username_char_def letter_or_digit list_all_iff)
  then show "validateUsername f name = [] \<longleftrightarrow> f = [] \<and> well_formed_name name"
    by (auto simp: validateUsername_def well_formed_name_def letter_or_digit usernameMinLength_def usernameMaxLength_def)
  show "validatePassword f password name = [] \<and> name \<noteq> '''' \<longleftrightarrow> f = [] \<and> good_password password name \<and> name \<noteq> ''''"
    by (auto simp: validatePassword_def good_password_def equal_fold_def passwordMinLength_def passwordMaxLength_def)
  show "validateEmail N f email = Inr [] \<Longrightarrow> f = [] \<and> mailbox N email = Some email \<and> email \<noteq> '''' \<and> length email \<le> 254"
    by (auto simp: validateEmail_def emailMaxLength_def split: if_splits option.splits)
qed

lemma validate_register_Inr:
  assumes "validate_register N q = Inr ()"
  shows "well_formed_name (qr_Username q) \<and> good_password (qr_Password q) (qr_Username q)
    \<and> mailbox N (qr_Email q) = Some (qr_Email q) \<and> qr_Email q \<noteq> '''' \<and> length (qr_Email q) \<le> 254"
proof -
  obtain f where f: "validateEmail N (validateUsername [] (qr_Username q)) (qr_Email q) = Inr f"
      "validatePassword f (qr_Password q) (qr_Username q) = []"
    using assms by (auto simp: validate_register_def and_then_Inr fields_err_def split: if_splits)
  have "f = []" using f(2) by (auto simp: validatePassword_def split: if_splits)
  then have "validateUsername [] (qr_Username q) = []" "mailbox N (qr_Email q) = Some (qr_Email q) \<and> qr_Email q \<noteq> '''' \<and> length (qr_Email q) \<le> 254"
    using no_problems(3) f(1) by blast+
  moreover from this have "well_formed_name (qr_Username q)" by (simp add: no_problems)
  moreover from this have "qr_Username q \<noteq> ''''" by (auto simp: well_formed_name_def)
  ultimately show ?thesis using no_problems(2) f(2) by blast
qed

definition same_users :: "'r service_world \<Rightarrow> 'r service_world \<Rightarrow> bool" where
  "same_users w w' \<longleftrightarrow> users (w_db w') = users (w_db w)"

interpretation same_users: frame same_users
  by unfold_locales (simp_all add: same_users_def)

lemma exec_same_users: "(\<And>d. users (snd (q d)) = users d) \<Longrightarrow> keeps same_users (exec q)"
proof (rule keepsI, unfold same_users_def)
  fix w assume q: "\<And>d. users (snd (q d)) = users d"
  show "users (w_db (snd (exec q w))) = users (w_db w)" using exec_db [of q w] q by auto
qed

lemma issuePair_same_users: "keeps same_users (issuePair svc c now u f)"
  unfolding issuePair_def Let_def by (intro same_users.rules exec_same_users) (simp add: CreateRefreshToken_def Let_def)

text \<open>What a row of a registration is, and when it can be stored.\<close>

definition row_for :: "auth_service \<Rightarrow> auth_call \<Rightarrow> registration \<Rightarrow> user_row \<Rightarrow> bool" where
  "row_for svc c g row \<longleftrightarrow> us_Username row = rg_Username g \<and> us_Email row = rg_Email g
     \<and> Hash (as_argon2 svc) (hs_params (as_hasher svc)) (at_salt c) (rg_Password g) = Inr (us_PasswordHash row)"

definition unused :: "registration \<Rightarrow> user_row list \<Rightarrow> bool" where
  "unused g us \<longleftrightarrow> (\<forall>u \<in> set us. sql_lower (us_Username u) \<noteq> sql_lower (rg_Username g) \<and> sql_lower (us_Email u) \<noteq> sql_lower (rg_Email g))"

lemma CreateUser_cases:
  "(\<exists>e. CreateUser now name email hash d = (Inl e, d)) \<or>
   (\<exists>row. CreateUser now name email hash d = (Inr row, d\<lparr>users := users d @ [row]\<rparr>) \<and> us_Username row = name \<and> us_Email row = email
     \<and> us_PasswordHash row = hash \<and> (\<forall>u \<in> set (users d). sql_lower (us_Username u) \<noteq> sql_lower name \<and> sql_lower (us_Email u) \<noteq> sql_lower email))"
  by (auto simp: CreateUser_def Let_def) (metis image_eqI)+

lemma Register_users:
  assumes "Register svc c g w = (res, w')"
  shows "(users (w_db w') = users (w_db w) \<and> (\<exists>e. res = Inl e)) \<or>
    (\<exists>row. users (w_db w') = users (w_db w) @ [row] \<and> row_for svc c g row \<and> unused g (users (w_db w)) \<and> (\<forall>x. res = Inr x \<longrightarrow> fst x = row))"
proof (cases "Hash (as_argon2 svc) (hs_params (as_hasher svc)) (at_salt c) (rg_Password g)")
  case (Inl e)
  then show ?thesis using assms by (auto simp: Register_def act_bind_def)
next
  case (Inr hash)
  let ?q = "CreateUser (at_pg_now c) (rg_Username g) (rg_Email g) hash"
  note hash = Inr and cases = CreateUser_cases [of "at_pg_now c" "rg_Username g" "rg_Email g" hash "w_db w"]
  obtain made w1 where made: "exec ?q w = (made, w1)" by fastforce
  note db = exec_db [of ?q w, unfolded made snd_conv]
  show ?thesis
  proof (cases made)
    case (Inl e)
    then have "res = Inl (registrationError e)" "w' = w1"
      using assms hash made by (simp_all add: Register_def act_bind_def act_catch_def)
    then show ?thesis using cases db hash by (auto simp: row_for_def unused_def)
  next
    case (Inr user)
    have pair: "act_bind (issuePair svc c (at_pg_later c) (us_ID user) (at_family c)) (\<lambda>pair. ret (user, pair)) w1 = (res, w')"
      using assms hash made Inr by (simp add: Register_def act_bind_def act_catch_def)
    have "keeps same_users (act_bind (issuePair svc c (at_pg_later c) (us_ID user) (at_family c)) (\<lambda>pair. ret (user, pair)))"
      by (intro same_users.rules issuePair_same_users)
    from keepsD [OF this pair] have "users (w_db w') = users (w_db w1)" by (simp add: same_users_def)
    moreover have "fst x = user" if "res = Inr x" for x using pair that by (auto simp: act_bind_Inr)
    ultimately show ?thesis
      using cases exec_Inr [OF made [unfolded Inr]] hash by (auto simp: row_for_def unused_def)
  qed
qed

lemma web_bind_cases [consumes 1, case_names Stopped Ran]:
  assumes "web_bind m f s = (r, s')"
  obtains (Stopped) e where "m s = (Inl e, s')" "r = Inl e"
    | (Ran) x s1 where "m s = (Inr x, s1)" "f x s1 = (r, s')"
  using assms by (auto simp: web_bind_def split: prod.splits sum.splits)

text \<open>An account as the rules want it, that nobody had.\<close>

definition accepted_account :: "'r deps \<Rightarrow> http_call \<Rightarrow> user_row list \<Rightarrow> user_row \<Rightarrow> bool" where
  "accepted_account d c us row \<longleftrightarrow>
     well_formed_name (us_Username row) \<and> mailbox (dp_net d) (us_Email row) = Some (us_Email row) \<and> length (us_Email row) \<in> {1..254}
     \<and> (\<forall>u \<in> set us. sql_lower (us_Username u) \<noteq> sql_lower (us_Username row) \<and> sql_lower (us_Email u) \<noteq> sql_lower (us_Email row))
     \<and> (\<exists>svc password. dp_Auth d = Some svc \<and> good_password password (us_Username row)
          \<and> Hash (as_argon2 svc) (hs_params (as_hasher svc)) (at_salt (hc_auth c)) password = Inr (us_PasswordHash row))"

lemma enforced_rows:
  assumes "auth_enforce d key limit (w, hs) = (res, w1, hs1)"
  shows "w_db w1 = w_db w"
  using keeps_rows_limit [of "dp_Limiter d" key limit "LoginWindow (cf_Auth (dp_Config d))"] assms
  unfolding keeps_rows_def auth_enforce_def by (metis fst_conv snd_conv)

lemma handleRegister_users:
  assumes "dp_Auth d = Some svc" and "handleRegister d svc c r (w, hs) = (res, w', hs')"
  shows "(users (w_db w') = users (w_db w) \<and> (\<exists>e. res = Inl e)) \<or>
    (\<exists>row. users (w_db w') = users (w_db w) @ [row] \<and> accepted_account d c (users (w_db w)) row
      \<and> (case res of Inl _ \<Rightarrow> True | Inr (status, reply) \<Rightarrow> status = 201 \<and> (\<exists>tokens. reply = Reply_auth (newUserResponse row) tokens)))"
  using assms(2) unfolding handleRegister_def
proof (cases rule: web_bind_cases)
  case (Stopped e)
  then show ?thesis by (simp add: web_check_def)
next
  case (Ran q s1)
  then have s1: "s1 = (w, hs)" by (simp add: web_check_def)
  from Ran(2) show ?thesis
  proof (cases rule: web_bind_cases)
    case (Stopped e)
    then show ?thesis using s1 by (simp add: web_check_def)
  next
    case (Ran u s2)
    then have q: "validate_register (dp_net d) q = Inr ()" and s2: "s2 = (w, hs)" using s1 by (simp_all add: web_check_def)
    from Ran(2) show ?thesis
    proof (cases rule: web_bind_cases)
      case (Stopped e)
      then show ?thesis using enforced_rows [OF Stopped(1) [unfolded s2]] Stopped(2) by simp
    next
      case (Ran u' s3)
      obtain w3 hs3 where s3: "s3 = (w3, hs3)" by fastforce
      have rows: "w_db w3 = w_db w" by (rule enforced_rows [OF Ran(1) [unfolded s2 s3]])
      let ?g = "\<lparr>rg_Username = qr_Username q, rg_Email = qr_Email q, rg_Password = qr_Password q\<rparr>"
      obtain made w4 where made: "Register svc (hc_auth c) ?g w3 = (made, w4)" by fastforce
      have end_state: "w' = w4" and answer: "res = (case made of Inl e \<Rightarrow> Inl (register_error e) | Inr (user, pair) \<Rightarrow>
          Inr (201, Reply_auth (newUserResponse user) (newTokenResponse pair (hc_now c))))"
        using Ran(2) s3 made by (auto simp: web_bind_def web_call_def map_error_def web_return_def split: sum.splits)
      have "accepted_account d c (users (w_db w)) row" if "row_for svc (hc_auth c) ?g row" "unused ?g (users (w_db w))" for row
      proof -
        have "qr_Username q = us_Username row" "qr_Email q = us_Email row" using that(1) by (simp_all add: row_for_def)
        moreover have "length (us_Email row) \<in> {1..254}"
          using validate_register_Inr [OF q] \<open>qr_Email q = us_Email row\<close> by (cases "us_Email row") auto
        moreover have "Hash (as_argon2 svc) (hs_params (as_hasher svc)) (at_salt (hc_auth c)) (qr_Password q) = Inr (us_PasswordHash row)"
          using that(1) by (simp add: row_for_def)
        ultimately show ?thesis
          using validate_register_Inr [OF q] that(2) assms(1) unfolding accepted_account_def unused_def
          by (metis registration.select_convs(1,2))
      qed
      then show ?thesis
        using Register_users [OF made] end_state answer rows by (auto split: sum.splits)
    qed
  qed
qed

text \<open>
  C15. An account is what the rules say. Whatever is sent to the registration, in whatever state and whichever calls fail:
  rows of users are never changed, and at most one is added. Its name has 3 to 32 letters, digits, underscores and hyphens
  and starts with a letter or digit, its address is one the mail parser takes as it is, its hash is of a password of
  12 to 128 bytes that is not the name, and nobody had the name or the address. A registration that is answered
  with success has stored the account it describes; one that is answered with an error has stored none, or one that is complete.
\<close>

theorem registered_shape:
  "case rp_Body (fst (serve d c r To_register w)) of
      Ok_body reply \<Rightarrow> rp_Status (fst (serve d c r To_register w)) = 201
        \<and> (\<exists>row tokens. reply = Reply_auth (newUserResponse row) tokens \<and> users (w_db (snd (serve d c r To_register w))) = users (w_db w) @ [row]
            \<and> accepted_account d c (users (w_db w)) row)
    | Error_body _ _ _ _ \<Rightarrow> users (w_db (snd (serve d c r To_register w))) = users (w_db w)
        \<or> (\<exists>row. users (w_db (snd (serve d c r To_register w))) = users (w_db w) @ [row] \<and> accepted_account d c (users (w_db w)) row)"
proof (cases "dp_Auth d")
  case None
  then show ?thesis by (simp add: serve_def dispatch_def mounted_def no_endpoint_def web_fail_def response_defs)
next
  case (Some svc)
  obtain res w' hs where run: "handleRegister d svc c r (w, [(''X-Request-Id'', request_id c r)]) = (res, w', hs)"
    by (metis prod_cases3)
  show ?thesis
    using handleRegister_users [OF Some run] run Some
    by (cases res) (auto simp: serve_def dispatch_def mounted_def response_defs)
qed

section \<open>Limits on login\<close>

definition too_many :: http_error where
  "too_many = TooManyRequests ''too many attempts; try again later''"

lemma too_many_status [simp]: "ae_Status too_many = 429"
  by (simp add: too_many_def TooManyRequests_def newError_def)

lemma counter_hit:
  assumes "is_counter e" and "0 < ms"
  shows "counter (hit ms e) = counter e + 1"
  using counter_bumped [OF assms(1)] assms(2)
  by (auto simp: hit_def Let_def bumped_def expiring_def counter_def split: if_splits)

context string_server
begin

lemma enforce_calm:
  assumes "w_faults w = []" and "is_counter (string_at S (w_redis w) key)" and "0 < milliseconds window"
  obtains hs' where "enforceLimit (Some S) key limit window (w, hs) =
      (if counter (string_at S (w_redis w) key) < limit then Inr () else Inl too_many,
       w\<lparr>w_redis := snd (fixed_window S key limit (milliseconds window) (w_redis w))\<rparr>, hs')"
    "counter (string_at S (w_redis w) key) < limit \<or> map_of hs' ''Retry-After'' \<noteq> None"
proof -
  obtain res where res: "Allow S key limit window w = (Inr res, w\<lparr>w_redis := snd (fixed_window S key limit (milliseconds window) (w_redis w))\<rparr>)"
      "Allowed res \<longleftrightarrow> counter (string_at S (w_redis w) key) + 1 \<le> limit"
    using Allow_calm [OF assms, of limit] by blast
  show thesis
    by (rule that [where hs' = "if Allowed res then AList.update ''RateLimit-Remaining'' (itoa (Remaining res)) (AList.update ''RateLimit-Limit'' (itoa limit) hs)
        else AList.update ''Retry-After'' (itoa (seconds_int (RetryAfter res) + 1))
          (AList.update ''RateLimit-Remaining'' (itoa (Remaining res)) (AList.update ''RateLimit-Limit'' (itoa limit) hs))"])
      (use res(2) in \<open>auto simp: enforceLimit_def res(1) web_bind_def set_header_def web_return_def web_fail_def too_many_def update_conv'\<close>)
qed

lemma enforce_at:
  assumes "is_counter (string_at S r key)" and "0 < ms"
  shows "counter (string_at S (snd (fixed_window S key limit ms r)) key) = counter (string_at S r key) + 1"
    and "k \<noteq> key \<Longrightarrow> string_at S (snd (fixed_window S key limit ms r)) k = string_at S r k"
  using fixed_window_at [OF assms(1)] counter_hit [OF assms] by simp_all

lemma reset_calm:
  assumes "w_faults w = []"
  shows "\<exists>w'. reset_limits (Some S) [a, b] (w, hs) = (Inr (), w', hs) \<and> w_db w' = w_db w
    \<and> string_at S (w_redis w') a = None \<and> string_at S (w_redis w') b = None"
  using assms by (simp add: Reset_def redis_call_def del_at)

end

text \<open>What a login asks for, if it asks for anything.\<close>

definition login_of :: "http_request \<Rightarrow> http_error + login_request" where
  "login_of r =
     and_then (DecodeJSON (\<lambda>j. decode_struct True login_fields j \<lparr>ql_Login = '''', ql_Password = ''''\<rparr>) (hr_Body r)) (\<lambda>q.
     and_then (validate_login q) (\<lambda>_. Inr q))"

lemma login_keys_differ [simp]: "login_account_key login \<noteq> login_ip_key d r" "login_ip_key d r \<noteq> login_account_key login"
  by (simp_all add: login_ip_key_def login_account_key_def)

text \<open>What is left of the handler behind the two limits.\<close>

definition signing_in :: "'r deps \<Rightarrow> auth_service \<Rightarrow> http_call \<Rightarrow> http_request \<Rightarrow> login_request \<Rightarrow> 'r handler" where
  "signing_in d svc c r q =
     web_bind (web_call login_error (Login svc (hc_auth c) (ql_Login q) (ql_Password q))) (\<lambda>(user, pair).
     web_bind (reset_limits (dp_Limiter d) [login_ip_key d r, login_account_key (ql_Login q)]) (\<lambda>_.
     web_return (200, Reply_auth (newUserResponse user) (newTokenResponse pair (hc_now c)))))"

lemma handleLogin_asked:
  assumes "login_of r = Inr q"
  shows "handleLogin d svc c r s =
     web_bind (auth_enforce d (login_ip_key d r) (LoginMaxIP (cf_Auth (dp_Config d)))) (\<lambda>_.
     web_bind (auth_enforce d (login_account_key (ql_Login q)) (LoginMaxAccount (cf_Auth (dp_Config d)))) (\<lambda>_. signing_in d svc c r q)) s"
  using assms by (auto simp: login_of_def and_then_Inr handleLogin_def signing_in_def web_bind_def web_check_def)

lemma login_error_status: "ae_Status (login_error e) \<in> {401, 500}"
  by (simp add: login_error_def unexpected_def Internal_def Unauthorized_def newError_def)

lemma signing_in_calm:
  assumes "string_server S" and "dp_Limiter d = Some S" and "w_faults w = []"
  obtains (Refused) e w' where "signing_in d svc c r q (w, hs) = (Inl e, w', hs)" "ae_Status e \<in> {401, 500}" "w_redis w' = w_redis w"
    | (Signed_in) body w' where "signing_in d svc c r q (w, hs) = (Inr (200, body), w', hs)" "case body of Reply_auth u t \<Rightarrow> True | _ \<Rightarrow> False"
      "string_at S (w_redis w') (login_ip_key d r) = None" "string_at S (w_redis w') (login_account_key (ql_Login q)) = None"
proof -
  obtain res w1 where run: "Login svc (hc_auth c) (ql_Login q) (ql_Password q) w = (res, w1)" by fastforce
  have redis: "w_redis w1 = w_redis w" using same_redisD [OF Login_same_redis] run by (metis snd_conv)
  have calm: "w_faults w1 = []" using keepsD [OF Login_stays_calm run] assms(3) by (simp add: stays_calm_def)
  show thesis
  proof (cases res)
    case (Inl e)
    then show thesis using Refused redis run login_error_status by (simp add: signing_in_def web_bind_def web_call_def map_error_def)
  next
    case (Inr x)
    obtain w2 where "reset_limits (Some S) [login_ip_key d r, login_account_key (ql_Login q)] (w1, hs) = (Inr (), w2, hs)"
        "string_at S (w_redis w2) (login_ip_key d r) = None" "string_at S (w_redis w2) (login_account_key (ql_Login q)) = None"
      using string_server.reset_calm [OF assms(1) calm] by blast
    then show thesis
      using Signed_in run Inr assms(2) by (cases x) (simp add: signing_in_def web_bind_def web_call_def map_error_def web_return_def)
  qed
qed

text \<open>The attempts counted under a key.\<close>

definition tries :: "'r string_ops \<Rightarrow> 'r service_world \<Rightarrow> string \<Rightarrow> int" where
  "tries S w key = counter (string_at S (w_redis w) key)"

definition locked :: "'r string_ops \<Rightarrow> 'r deps \<Rightarrow> http_request \<Rightarrow> string \<Rightarrow> 'r service_world \<Rightarrow> bool" where
  "locked S d r login w \<longleftrightarrow>
     LoginMaxIP (cf_Auth (dp_Config d)) \<le> tries S w (login_ip_key d r)
     \<or> LoginMaxAccount (cf_Auth (dp_Config d)) \<le> tries S w (login_account_key login)"

text \<open>A server that counts, and a login that asks for something.\<close>

definition counts_logins :: "'r string_ops \<Rightarrow> 'r deps \<Rightarrow> http_request \<Rightarrow> login_request \<Rightarrow> 'r service_world \<Rightarrow> bool" where
  "counts_logins S d r q w \<longleftrightarrow>
     string_server S \<and> dp_Limiter d = Some S \<and> w_faults w = [] \<and> 0 < milliseconds (LoginWindow (cf_Auth (dp_Config d)))
     \<and> is_counter (string_at S (w_redis w) (login_ip_key d r)) \<and> is_counter (string_at S (w_redis w) (login_account_key (ql_Login q)))
     \<and> login_of r = Inr q"

lemma login_run:
  assumes "counts_logins S d r q w"
  obtains (Locked) w' hs' where "locked S d r (ql_Login q) w" "handleLogin d svc c r (w, hs) = (Inl too_many, w', hs')"
      "w_db w' = w_db w" "map_of hs' ''Retry-After'' \<noteq> None"
    | (Tried) w1 hs1 where "\<not> locked S d r (ql_Login q) w" "handleLogin d svc c r (w, hs) = signing_in d svc c r q (w1, hs1)"
      "w_faults w1 = []" "w_db w1 = w_db w" "tries S w1 (login_ip_key d r) = tries S w (login_ip_key d r) + 1"
      "tries S w1 (login_account_key (ql_Login q)) = tries S w (login_account_key (ql_Login q)) + 1"
proof -
  let ?i = "login_ip_key d r" and ?a = "login_account_key (ql_Login q)" and ?cfg = "cf_Auth (dp_Config d)"
  let ?ms = "milliseconds (LoginWindow ?cfg)"
  have S: "string_server S" and lim: "dp_Limiter d = Some S" and calm: "w_faults w = []" and ms: "0 < ?ms"
    and ip: "is_counter (string_at S (w_redis w) ?i)" and acc: "is_counter (string_at S (w_redis w) ?a)" and q: "login_of r = Inr q"
    using assms unfolding counts_logins_def by blast+
  define w1 where "w1 = w\<lparr>w_redis := snd (fixed_window S ?i (LoginMaxIP ?cfg) ?ms (w_redis w))\<rparr>"
  define w2 where "w2 = w1\<lparr>w_redis := snd (fixed_window S ?a (LoginMaxAccount ?cfg) ?ms (w_redis w1))\<rparr>"
  obtain hs1 where first: "enforceLimit (Some S) ?i (LoginMaxIP ?cfg) (LoginWindow ?cfg) (w, hs) =
        (if tries S w ?i < LoginMaxIP ?cfg then Inr () else Inl too_many, w1, hs1)"
      "tries S w ?i < LoginMaxIP ?cfg \<or> map_of hs1 ''Retry-After'' \<noteq> None"
    unfolding tries_def w1_def by (rule string_server.enforce_calm [OF S calm ip ms])
  have other: "string_at S (w_redis w1) ?a = string_at S (w_redis w) ?a"
    using string_server.enforce_at(2) [OF S ip ms] by (simp add: w1_def)
  have calm1: "w_faults w1 = []" and acc1: "is_counter (string_at S (w_redis w1) ?a)" using calm acc other by (simp_all add: w1_def)
  have "tries S w1 ?a = tries S w ?a" using other by (simp add: tries_def)
  then obtain hs2 where second: "enforceLimit (Some S) ?a (LoginMaxAccount ?cfg) (LoginWindow ?cfg) (w1, hs1) =
        (if tries S w ?a < LoginMaxAccount ?cfg then Inr () else Inl too_many, w2, hs2)"
      "tries S w ?a < LoginMaxAccount ?cfg \<or> map_of hs2 ''Retry-After'' \<noteq> None"
    using string_server.enforce_calm [OF S calm1 acc1 ms] unfolding tries_def w2_def by metis
  have counted: "tries S w2 ?i = tries S w ?i + 1" "tries S w2 ?a = tries S w ?a + 1"
    using string_server.enforce_at [OF S ip ms] string_server.enforce_at [OF S acc1 ms] other by (simp_all add: tries_def w1_def w2_def)
  have rest: "w_faults w2 = []" "w_db w2 = w_db w" "w_db w1 = w_db w" using calm by (simp_all add: w1_def w2_def)
  note run = handleLogin_asked [OF q, of d svc c "(w, hs)", unfolded auth_enforce_def lim web_bind_def first second]
  show thesis
  proof (cases "tries S w ?i < LoginMaxIP ?cfg")
    case False
    then show thesis using Locked first(2) run rest by (auto simp: locked_def first(1))
  next
    case True
    then have run': "handleLogin d svc c r (w, hs) =
        (if tries S w ?a < LoginMaxAccount ?cfg then signing_in d svc c r q (w2, hs2) else (Inl too_many, w2, hs2))"
      using run by (simp add: first(1) second(1))
    show thesis
    proof (cases "tries S w ?a < LoginMaxAccount ?cfg")
      case False
      then show thesis using Locked [of w2 hs2] second(2) run' rest by (simp add: locked_def)
    next
      case tried: True
      then show thesis using Tried [of w2 hs2] True run' rest counted by (simp add: locked_def)
    qed
  qed
qed

text \<open>
  C14. Logins are limited by address and by account. Where the server of the counters answers, a login that says who it is
  is refused with 429, a time to wait and no change of a row exactly when the attempts counted for the address or for
  the account have reached their limit. Otherwise it is tried, and an attempt that does not succeed counts for both; one that
  succeeds clears both, and so also the attempts of that address on other accounts.
\<close>

theorem login_limited:
  assumes "counts_logins S d r q w" and "dp_Auth d = Some svc"
  shows "case serve d c r To_login w of (resp, w') \<Rightarrow>
    if locked S d r (ql_Login q) w
    then rp_Status resp = 429 \<and> map_of (rp_Headers resp) ''Retry-After'' \<noteq> None \<and> w_db w' = w_db w
    else if rp_Status resp = 200
    then string_at S (w_redis w') (login_ip_key d r) = None \<and> string_at S (w_redis w') (login_account_key (ql_Login q)) = None
    else rp_Status resp \<noteq> 429 \<and> tries S w' (login_ip_key d r) = tries S w (login_ip_key d r) + 1
      \<and> tries S w' (login_account_key (ql_Login q)) = tries S w (login_account_key (ql_Login q)) + 1"
  using assms(1)
proof (cases rule: login_run [where svc = svc and c = c and hs = "[(''X-Request-Id'', request_id c r)]"])
  case (Locked w' hs')
  then show ?thesis using assms(2) by (simp add: serve_def dispatch_def mounted_def response_defs update_conv')
next
  case (Tried w1 hs1)
  have limits: "string_server S" "dp_Limiter d = Some S" using assms(1) by (simp_all add: counts_logins_def)
  show ?thesis
    using limits Tried(3)
  proof (cases rule: signing_in_calm [where svc = svc and c = c and r = r and q = q and hs = hs1])
    case (Refused e w')
    then have "rp_Status (fst (serve d c r To_login w)) \<in> {401, 500}" "snd (serve d c r To_login w) = w'"
      using Tried(2) assms(2) by (simp_all add: serve_def dispatch_def mounted_def response_defs)
    then show ?thesis using Tried(1,5,6) Refused(3) by (auto simp: tries_def split_beta)
  next
    case (Signed_in body w')
    then show ?thesis using Tried(1,2) assms(2) by (cases body) (simp_all add: serve_def dispatch_def mounted_def response_defs)
  qed
qed

text \<open>
  Who is refused for calling too often has changed nothing: whatever the route, a 429 leaves the rows of the
  database as they were: no session was begun, no move played and no token stored.
\<close>

theorem refused_unchanged:
  assumes "rp_Body (fst (serve d c r to w)) = Error_body code message problems ident" and "rp_Status (fst (serve d c r to w)) = 429"
  shows "w_db (snd (serve d c r to w)) = w_db w"
proof -
  obtain res w' hs where run: "dispatch d c r to (w, [(''X-Request-Id'', request_id c r)]) = (res, w', hs)"
    by (metis prod_cases3)
  show ?thesis
  proof (cases res)
    case (Inl e)
    then have "ae_Status e = 429" using assms(2) run by (simp add: serve_def WriteError_def write_body_def)
    then have "w_db w' = w_db w" using dispatch_clean [of d c r to] run Inl unfolding refuses_clean_def by blast
    then show ?thesis using run Inl by (simp add: serve_def)
  next
    case (Inr a)
    then show ?thesis using assms(1) run by (cases a) (simp add: serve_def response_defs split: reply.splits)
  qed
qed


section \<open>Witnesses\<close>

lemma web_login_of: "login_of web_login = Inr \<lparr>ql_Login = ''ada'', ql_Password = ''secret''\<rparr>"
  by (simp add: login_of_def web_login_def web_request_def DecodeJSON_def decode_struct_def of_option_def login_fields_def json_simps
      validate_login_def fields_err_def)

lemma web_counts: "counts_logins mem_string_ops web_deps web_login \<lparr>ql_Login = ''ada'', ql_Password = ''secret''\<rparr> web_locked"
proof -
  have "0 < milliseconds (LoginWindow (cf_Auth (dp_Config web_deps)))"
    by (simp add: web_deps_def web_config_def web_limits_def milliseconds_nonneg second_def)
  then show ?thesis
    using mem_strings.string_server_axioms web_login_of is_counter_itoa [of 5 "Some 1000"]
    unfolding counts_logins_def by (simp add: web_locked_def mem_string_ops_def web_deps_def is_counter_def)
qed

lemma web_is_locked: "locked mem_string_ops web_deps web_login ''ada'' web_locked"
  using counter_itoa [of 5 "Some 1000"]
  by (simp add: locked_def tries_def web_locked_def mem_string_ops_def web_deps_def web_config_def web_limits_def)

lemma login_limited_witness:
  "rp_Status (fst (serve web_deps web_call_at web_login To_login web_locked)) = 429"
  using login_limited [OF web_counts, of demo_auth web_call_at] web_is_locked by (simp add: web_deps_def split_beta)

lemma refused_unchanged_witness:
  "rp_Status (fst (serve web_deps web_call_at web_login To_login web_locked)) = 429
   \<and> w_db (snd (serve web_deps web_call_at web_login To_login web_locked)) = w_db web_locked"
proof -
  have svc: "dp_Auth web_deps = Some demo_auth" by (simp add: web_deps_def)
  obtain w' hs' where "handleLogin web_deps demo_auth web_call_at web_login (web_locked, [(''X-Request-Id'', request_id web_call_at web_login)]) = (Inl too_many, w', hs')"
    using web_counts web_is_locked by (cases rule: login_run [where svc = demo_auth and c = web_call_at]) auto
  then have "rp_Status (fst (serve web_deps web_call_at web_login To_login web_locked)) = 429"
      "\<exists>m p i. rp_Body (fst (serve web_deps web_call_at web_login To_login web_locked)) = Error_body (ae_Code too_many) m p i"
    using svc by (simp_all add: serve_def dispatch_def mounted_def response_defs)
  then show ?thesis using refused_unchanged by blast
qed

end
