(* ===== verification/Api_Spec.thy ===== *)
theory Api_Spec
  imports Http_Login Session_Spec
begin

text \<open>
  The HTTP API and the worker together. Whatever a request does to the rows of sessions and scores is a sequence of
  the operations of \<open>Session_Spec\<close>, so what holds of these holds of every run of the whole system.
\<close>

section \<open>Handlers and what their calls keep\<close>

definition web_keeps :: "('w \<Rightarrow> 'w \<Rightarrow> bool) \<Rightarrow> ('w, 'a) web \<Rightarrow> bool" where
  "web_keeps R m \<longleftrightarrow> (\<forall>w hs. R w (fst (snd (m (w, hs)))))"

lemma web_keepsD: "web_keeps R m \<Longrightarrow> m (w, hs) = (res, w', hs') \<Longrightarrow> R w w'"
  by (metis fst_conv snd_conv web_keeps_def)

lemma keeps_snd: "keeps R m \<Longrightarrow> R s (snd (m s))"
  by (simp add: keeps_def)

lemma web_keeps_call: "keeps R m \<Longrightarrow> web_keeps R (web_call h m)"
  by (simp add: web_keeps_def web_call_def keeps_def split_beta)

lemma web_keeps_case:
  "(\<And>a b. p = (a, b) \<Longrightarrow> web_keeps R (f a b)) \<Longrightarrow> web_keeps R (case p of (a, b) \<Rightarrow> f a b)"
  "(x = None \<Longrightarrow> web_keeps R m) \<Longrightarrow> (\<And>y. x = Some y \<Longrightarrow> web_keeps R (g y)) \<Longrightarrow> web_keeps R (case x of None \<Rightarrow> m | Some y \<Rightarrow> g y)"
  "(b \<Longrightarrow> web_keeps R m) \<Longrightarrow> (\<not> b \<Longrightarrow> web_keeps R n) \<Longrightarrow> web_keeps R (if b then m else n)"
  by (auto split: prod.split option.split)

context frame
begin

lemma web_pure: "web_keeps R (web_return x)" "web_keeps R (web_fail e)" "web_keeps R (web_check r)" "web_keeps R (set_header k v)"
  by (simp_all add: web_keeps_def web_return_def web_fail_def web_check_def set_header_def refl)

lemma web_bind:
  assumes "web_keeps R m" and "\<And>x. web_keeps R (f x)"
  shows "web_keeps R (web_bind m f)"
  unfolding web_keeps_def
proof (intro allI)
  fix w hs
  obtain res w1 hs1 where m: "m (w, hs) = (res, w1, hs1)" by (metis prod_cases3)
  then have "R w w1" by (rule web_keepsD [OF assms(1)])
  then show "R w (fst (snd (web_bind m f (w, hs))))"
    using m assms(2) trans by (cases res) (auto simp: web_bind_def web_keeps_def)
qed

lemma web_unauthorized: "web_keeps R (writeUnauthorized message)"
  unfolding writeUnauthorized_def by (intro web_bind web_pure)

lemma web_authenticate: "(\<And>u. web_keeps R (h u)) \<Longrightarrow> web_keeps R (Authenticate J i now r h)"
  by (auto simp: Authenticate_def web_unauthorized split: option.split sum.split)

lemmas web_rules = web_pure web_bind web_keeps_call web_keeps_case

end

section \<open>Calls that leave sessions and scores alone\<close>

definition same_play :: "'r service_world \<Rightarrow> 'r service_world \<Rightarrow> bool" where
  "same_play w w' \<longleftrightarrow> sessions (w_db w') = sessions (w_db w) \<and> events (w_db w') = events (w_db w)"

interpretation same_play: frame same_play
  by unfold_locales (simp_all add: same_play_def)

lemma exec_same_play:
  assumes "\<And>d. sessions (snd (q d)) = sessions d \<and> events (snd (q d)) = events d"
  shows "keeps same_play (exec q)"
proof (rule keepsI, unfold same_play_def)
  fix w
  show "sessions (w_db (snd (exec q w))) = sessions (w_db w) \<and> events (w_db (snd (exec q w))) = events (w_db w)"
    using exec_db [of q w] assms by auto
qed

lemma same_db_play: "keeps same_db m \<Longrightarrow> keeps same_play m"
  by (simp add: keeps_def same_db_def same_play_def)

lemma in_tx_same_play:
  assumes "keeps same_play body"
  shows "keeps same_play (in_tx body)"
proof (rule keepsI)
  fix w
  obtain r w' where run: "in_tx body w = (r, w')" by fastforce
  from in_tx_db [OF run] show "same_play w (snd (in_tx body w))"
  proof
    assume "\<exists>w1 x w2. w_db w1 = w_db w \<and> w_redis w1 = w_redis w \<and> body w1 = (Inr (True, x), w2) \<and> w_db w' = w_db w2"
    then obtain w1 x w2 where w: "w_db w1 = w_db w" "body w1 = (Inr (True, x), w2)" "w_db w' = w_db w2" by blast
    from keepsD [OF assms w(2)] show ?thesis using w(1,3) run by (simp add: same_play_def)
  qed (use run in \<open>simp add: same_play_def\<close>)
qed

lemmas play_rules = same_play.rules exec_same_play same_db_play [OF redis_call_same_db]

lemma issuePair_play: "keeps same_play (issuePair svc c now u f)"
  unfolding issuePair_def Let_def by (intro play_rules) (simp add: CreateRefreshToken_def Let_def)

lemma found_user_play: "keeps same_play (found_user login)"
  unfolding found_user_def by (intro play_rules) (simp add: GetUserByLogin_def)

lemma upgrade_play: "keeps same_play (upgradeHashIfStale svc c user password)"
  unfolding upgradeHashIfStale_def
  by (auto intro!: play_rules simp: UpdateUserPasswordHash_def split: sum.split)

lemma Register_play: "keeps same_play (Register svc c g)"
  unfolding Register_def by (intro play_rules issuePair_play) (simp add: CreateUser_def Let_def)

lemma Login_play: "keeps same_play (Login svc c login password)"
  unfolding Login_def by (intro play_rules found_user_play upgrade_play issuePair_play)

lemma refresh_tx_play: "keeps same_play (refresh_tx svc c hash)"
  unfolding refresh_tx_def rejectClaim_def claimed_token_def no_rows_as_def
  by (intro play_rules issuePair_play)
    (simp_all add: ClaimRefreshToken_def GetRefreshTokenByHash_def RevokeRefreshTokenFamily_def Let_def)

lemma auth_play:
  "keeps same_play (Refresh svc c raw)" "keeps same_play (Logout c raw)" "keeps same_play (auth_User u)"
proof -
  show "keeps same_play (Refresh svc c raw)"
    unfolding Refresh_def by (intro play_rules in_tx_same_play refresh_tx_play)
  show "keeps same_play (Logout c raw)"
    unfolding Logout_def by (intro play_rules) (simp_all add: GetRefreshTokenByHash_def RevokeRefreshTokenFamily_def Let_def)
  show "keeps same_play (auth_User u)"
    unfolding auth_User_def no_rows_as_def by (intro play_rules) (simp add: GetUserByID_def)
qed

lemma PageAt_play: "keeps same_play (PageAt b s p t offset limit)"
  unfolding PageAt_def Let_def countAbove_def by (intro play_rules same_db_play [OF resolve_same_db])

lemma board_play:
  "keeps same_play (Page b s p offset limit)" "keeps same_play (Size b s p)" "keeps same_play (Standing b s p u n)"
  unfolding Page_def Size_def Standing_def Let_def countAbove_def
  by (intro play_rules PageAt_play | simp add: Page_def PageAt_play)+

lemma snapshot_play: "keeps same_play (fromSnapshot rq from)"
proof -
  have read: "snd (GetLeaderboardSnapshot scope period from d) = d" for scope period d by (simp add: GetLeaderboardSnapshot_def)
  show ?thesis
    unfolding fromSnapshot_def snapshot_row_def Let_def by (intro play_rules same_db_play [OF Usernames_same_db]) (simp_all add: read)
qed

lemma history_play: "keeps same_play (fromHistory rq from until)"
  unfolding fromHistory_def aggregate_def decorate_def Let_def
  by (intro play_rules same_db_play [OF Usernames_same_db])
    (simp_all add: TopPlayersForGameAllTime_def TopPlayersForGameInWindow_def TopPlayersGlobalAllTime_def TopPlayersGlobalInWindow_def)

lemma TopPlayers_play: "keeps same_play (TopPlayers svc rq)"
  unfolding TopPlayers_def Let_def Exists_def by (intro play_rules PageAt_play snapshot_play history_play)

lemma strings_play:
  "keeps same_play (Allow S key limit window)" "keeps same_play (Reset S key)"
  "keeps same_play (ticket_Issue t entropy u)" "keeps same_play (Redeem t token)"
  by (auto simp: Allow_def Reset_def ticket_Issue_def Redeem_def Let_def split: option.split intro!: play_rules)

section \<open>A request is a sequence of operations\<close>

text \<open>What any number of steps of the service and the worker may do.\<close>

abbreviation steps :: "'r session_service \<Rightarrow> 'r service_world \<Rightarrow> 'r service_world \<Rightarrow> bool" where
  "steps svc \<equiv> (serves svc)\<^sup>*\<^sup>*"

interpretation steps: frame "steps svc"
  for svc :: "'r session_service"
  by unfold_locales (auto intro: rtranclp_trans)

lemma steps_play: "keeps same_play m \<Longrightarrow> keeps (steps svc) m"
  unfolding keeps_def same_play_def by (blast intro: serves.elsewhere)

lemma steps_operations:
  "keeps (steps svc) (Start svc c u g)" "keeps (steps svc) (session_Get svc u i)"
  "keeps (steps svc) (session_Move svc c u i mv)" "keeps (steps svc) (Finish svc c u i)"
  unfolding keeps_def by (metis serves.started serves.read serves.moved serves.finished prod.collapse r_into_rtranclp)+

lemma steps_limit: "web_keeps (steps svc) (enforceLimit l key limit window)"
proof (cases l)
  case None
  then show ?thesis by (simp add: web_keeps_def enforceLimit_def)
next
  case (Some S)
  have "steps svc w (snd (Allow S key limit window w))" for w by (rule keeps_snd [OF steps_play [OF strings_play(1)]])
  then show ?thesis
    using Some by (auto simp: web_keeps_def enforceLimit_def web_bind_def set_header_def web_return_def web_fail_def split: prod.split sum.split)
      (metis snd_conv)+
qed

lemma steps_reset: "web_keeps (steps svc) (reset_limits l keys)"
proof -
  have "steps svc w (fst (snd (reset_limits l keys (w, hs))))" for w hs
  proof (induction l keys "(w, hs)" arbitrary: w hs rule: reset_limits.induct)
    case (3 S key keys w hs)
    have "steps svc w (snd (Reset S key w))" by (rule keeps_snd [OF steps_play [OF strings_play(2)]])
    with 3 show ?case by (auto intro: rtranclp_trans)
  qed simp_all
  then show ?thesis by (simp add: web_keeps_def)
qed

lemmas steps_rules = steps.web_rules steps_limit steps_reset steps_operations

lemma steps_accounts:
  "web_keeps (steps ssvc) (handleRegister d svc c r)" "web_keeps (steps ssvc) (handleLogin d svc c r)"
  "web_keeps (steps ssvc) (handleRefresh svc c r)" "web_keeps (steps ssvc) (handleLogout c r)" "web_keeps (steps ssvc) (handleMe u)"
  unfolding handleRegister_def handleLogin_def handleRefresh_def handleLogout_def handleMe_def auth_enforce_def
  by (intro steps_rules steps_play [OF Register_play] steps_play [OF Login_play] steps_play [OF auth_play(1)]
      steps_play [OF auth_play(2)] steps_play [OF auth_play(3)])+

lemma steps_games:
  "web_keeps (steps svc) (handleListGames svc)" "web_keeps (steps svc) (handleGetGame svc s)"
  "web_keeps (steps svc) (handleStartSession d svc c s u)" "web_keeps (steps svc) (handleGetSession d svc i u)"
  "web_keeps (steps svc) (handleMove d svc c i r u)" "web_keeps (steps svc) (handleFinish d svc c i u)"
  unfolding handleListGames_def handleGetGame_def handleStartSession_def handleGetSession_def handleMove_def handleFinish_def
    limitSessions_def
  by (intro steps_rules)+

lemma standing_or_none_play: "keeps same_play (standing_or_none b s p u n)"
  unfolding standing_or_none_def by (intro play_rules board_play)

lemma handshake_play: "keeps same_play (act_catch (act_bind (Redeem t token) f) g)"
  if "\<And>x. keeps same_play (f x)" "\<And>e. keeps same_play (g e)" for t token f g
  by (intro play_rules strings_play that)

lemma steps_boards:
  "web_keeps (steps svc) (writePage b r s)" "web_keeps (steps svc) (writeStanding b r s u)"
  "web_keeps (steps svc) (handleTopPlayers rsvc r)" "web_keeps (steps svc) (handleTicket t c u)" "web_keeps (steps svc) (handleWs t r)"
  "web_keeps (steps svc) (handleReady c detail)" "web_keeps (steps svc) handleLive"
  unfolding writePage_def writeStanding_def handleTopPlayers_def handleTicket_def handleWs_def handleReady_def handleLive_def Let_def
  by (intro steps_rules steps_play [OF board_play(1)] steps_play [OF board_play(2)] steps_play [OF standing_or_none_play]
      steps_play [OF TopPlayers_play] steps_play [OF strings_play(3)] steps_play [OF handshake_play] same_play.keeps_pure)+

lemma steps_authenticated: "(\<And>u. web_keeps (steps svc) (h u)) \<Longrightarrow> web_keeps (steps svc) (authenticated d c r h)"
  unfolding authenticated_def mounted_def no_endpoint_def by (intro steps_rules steps.web_authenticate)

lemma steps_limited: "web_keeps (steps svc) h \<Longrightarrow> web_keeps (steps svc) (RateLimit N l cfg cl n win u r h)"
  unfolding RateLimit_def by (intro steps_rules)

lemma steps_mounted: "(\<And>s. x = Some s \<Longrightarrow> web_keeps (steps svc) (h s)) \<Longrightarrow> web_keeps (steps svc) (mounted x h)"
  by (auto simp: mounted_def no_endpoint_def steps.web_pure split: option.split)

lemma steps_known: "web_keeps (steps svc) m \<Longrightarrow> web_keeps (steps svc) (web_bind (web_check res) (\<lambda>_. m))"
  by (intro steps_rules)

lemmas steps_groups = steps_accounts steps_games steps_boards steps_authenticated steps_limited steps_known

lemma dispatch_steps:
  assumes "dp_Sessions d = Some svc"
  shows "web_keeps (steps svc) (dispatch d c r to)"
  using assms
  by (cases to)
    (auto simp: dispatch_def limited_reads_def limited_moves_def handleGamePage_def handleGlobalPage_def handleGameStanding_def
      handleGlobalStanding_def no_endpoint_def steps.web_pure intro!: steps_mounted steps_groups)

lemma serve_steps:
  assumes "dp_Sessions d = Some svc"
  shows "steps svc w (snd (serve d c r to w))"
proof -
  obtain res w' hs where run: "dispatch d c r to (w, [(''X-Request-Id'', request_id c r)]) = (res, w', hs)"
    by (metis prod_cases3)
  have "steps svc w w'" by (rule web_keepsD [OF dispatch_steps [OF assms] run])
  then show ?thesis using run by (auto simp: serve_def split: sum.split)
qed

section \<open>The whole system\<close>

text \<open>
  Requests of any clients to any routes, steps of the worker (\<open>serves\<close>), and anything that only changes the state of
  Redis or the faults to come.
\<close>

inductive runs :: "'r deps \<Rightarrow> 'r session_service \<Rightarrow> 'r service_world \<Rightarrow> 'r service_world \<Rightarrow> bool"
  for d :: "'r deps" and svc :: "'r session_service" where
  requested: "serve d c r to w = (resp, w') \<Longrightarrow> runs d svc w w'"
| worked: "serves svc w w' \<Longrightarrow> runs d svc w w'"

lemma runs_steps:
  assumes "dp_Sessions d = Some svc" and "(runs d svc)\<^sup>*\<^sup>* w w'"
  shows "steps svc w w'"
  using assms(2)
proof (induction rule: rtranclp_induct)
  case (step u v)
  from step.hyps(2) have "steps svc u v"
    by (cases rule: runs.cases) (use serve_steps [OF assms(1), of u] in \<open>auto simp: r_into_rtranclp intro: r_into_rtranclp\<close>, metis snd_conv)
  with step.IH show ?case by (rule rtranclp_trans)
qed simp


text \<open>A player who starts a game over HTTP.\<close>

definition play_deps :: "mem_redis deps" where
  "play_deps =
     \<lparr>dp_Config = web_config, dp_Auth = Some demo_auth, dp_Sessions = Some demo_api, dp_Leaderboard = None, dp_Realtime = False,
      dp_Tickets = None, dp_Reports = None, dp_Limiter = None, dp_net = web_net\<rparr>"

definition play_request :: http_request where
  "play_request = (web_request Absent)\<lparr>hr_Authorization := ''Bearer token''\<rparr>"


end
