(* ===== verification/Commands.thy ===== *)
theory Commands
  imports Api_Spec Projector_Spec Reports Hub Config
begin

text \<open>
  The programs of \<open>cmd\<close>: what \<open>cmd/api\<close> and \<open>cmd/worker\<close> assemble, and the commands of \<open>cmd/admin\<close>. Connections that cannot
  be opened, signals and the listening sockets are left out.
\<close>

section \<open>Clients\<close>

text \<open>What the processes share: Redis by its commands on sorted sets, on strings and \<open>PUBLISH\<close>.\<close>

record 'r redis_client =
  rc_boards :: "'r redis_ops"
  rc_strings :: "'r string_ops"
  rc_publish :: "string \<Rightarrow> json \<Rightarrow> 'r \<Rightarrow> 'r"

text \<open>The board of the API announces what it changes; those of the worker and of the commands do not.\<close>

definition api_board :: "'r redis_client \<Rightarrow> time \<Rightarrow> 'r board" where
  "api_board C now = \<lparr>b_redis = rc_boards C, b_now = now, b_announcer = Some (Publisher_Publish (rc_publish C))\<rparr>"

definition silent_board :: "'r redis_client \<Rightarrow> time \<Rightarrow> 'r board" where
  "silent_board C now = \<lparr>b_redis = rc_boards C, b_now = now, b_announcer = None\<rparr>"

definition report_service_of :: "'r board \<Rightarrow> time \<Rightarrow> 'r report_service" where
  "report_service_of b now = \<lparr>rs_boards = b, rs_registry = NewRegistry, rs_now = now\<rparr>"

section \<open>The API\<close>

definition api_deps ::
    "'r redis_client \<Rightarrow> argon2_ops \<Rightarrow> jwt_ops \<Rightarrow> byte list option \<Rightarrow> net_ops \<Rightarrow> time \<Rightarrow> config \<Rightarrow> err + 'r deps" where
  "api_deps C A J entropy N now cfg =
     and_then (NewService A J entropy (cf_Auth cfg)) (\<lambda>authService.
     Inr \<lparr>dp_Config = cfg, dp_Auth = Some authService, dp_Sessions = Some (api_service (api_board C now)),
          dp_Leaderboard = Some (api_board C now), dp_Realtime = True,
          dp_Tickets = Some (NewTickets (rc_strings C) (cf_Realtime cfg) (OpTimeout (cf_Redis cfg))),
          dp_Reports = Some (report_service_of (api_board C now) now), dp_Limiter = Some (rc_strings C), dp_net = N\<rparr>)"

lemma deployed_service: "score_service (api_service (api_board C now))"
proof
  show "ss_registry (api_service (api_board C now)) = NewRegistry" by (simp add: api_service_def)
  fix submit u g p t
  assume "ss_projector (api_service (api_board C now)) = Some submit"
  then have "submit = Submit (api_board C now)" by (simp add: api_service_def)
  moreover have "keeps same_db (Publisher_Publish (rc_publish C) s q)" for s q
    unfolding Publisher_Publish_def by (rule redis_call_same_db)
  ultimately show "keeps same_db (submit u g p t)"
    using Submit_same_db [of "api_board C now" u g p t] by (auto simp: api_board_def)
qed

section \<open>The worker\<close>

text \<open>The two loops of the worker, at the instants their tickers give.\<close>

definition worker_projector :: "'r redis_client \<Rightarrow> config \<Rightarrow> time \<Rightarrow> time list \<Rightarrow> ('r service_world, unit) act" where
  "worker_projector C cfg now ticks = projector_Run (Submit (silent_board C now)) (cf_Worker cfg) ticks"

definition worker_housekeeper :: "'r redis_client \<Rightarrow> config \<Rightarrow> time \<Rightarrow> (time \<times> time) list \<Rightarrow> ('r service_world, unit) act" where
  "worker_housekeeper C cfg now ticks =
     housekeeper_Run (Some (MaterialiseClosedWindows (report_service_of (silent_board C now) now) now)) (cf_Worker cfg) ticks"

text \<open>What the worker does to a board is never published: a client that watches it is not told.\<close>

lemma worker_silent: "worker_projector (C\<lparr>rc_publish := publish\<rparr>) cfg now ticks = worker_projector C cfg now ticks"
  by (simp add: worker_projector_def silent_board_def)

section \<open>The commands\<close>

text \<open>\<open>pg_now\<close> is the clock of Postgres.\<close>

datatype admin_output =
    Rebuilt int int nat
  | Materialised int int
  | Status int "(period \<times> int) list"

datatype admin_error = No_command | Unknown_command string | Bad_config "(string \<times> problem) list" | Failed err

definition admin_rebuild :: "'r board \<Rightarrow> time \<Rightarrow> ('r service_world, admin_output) act" where
  "admin_rebuild b pg_now = act_bind (Rebuild b (score_history pg_now)) (\<lambda>report.
     ret (Rebuilt (rr_Keys report) (rr_Entries report) (length (rr_Periods report))))"

definition admin_materialise :: "'r report_service \<Rightarrow> time \<Rightarrow> ('r service_world, admin_output) act" where
  "admin_materialise svc now = act_bind (MaterialiseClosedWindows svc now now) (\<lambda>(written, skipped). ret (Materialised written skipped))"

fun board_sizes :: "'r board \<Rightarrow> period list \<Rightarrow> ('r service_world, (period \<times> int) list) act" where
  "board_sizes b [] = ret []"
| "board_sizes b (p # ps) =
     act_bind (Size b Global p) (\<lambda>size. act_bind (board_sizes b ps) (\<lambda>sizes. ret ((p, size) # sizes)))"

definition admin_status :: "'r board \<Rightarrow> ('r service_world, admin_output) act" where
  "admin_status b = act_bind PendingCount (\<lambda>pending. act_bind (board_sizes b Periods) (\<lambda>sizes. ret (Status pending sizes)))"

definition admin_run ::
    "(string \<Rightarrow> bool) \<Rightarrow> environment \<Rightarrow> 'r redis_client \<Rightarrow> time \<Rightarrow> time \<Rightarrow> string \<Rightarrow> 'r service_world
      \<Rightarrow> (admin_error + admin_output) \<times> 'r service_world" where
  "admin_run url_ok env C now pg_now command w =
     (if command = '''' then (Inl No_command, w)
      else case Load url_ok env of
          Inl problems \<Rightarrow> (Inl (Bad_config problems), w)
        | Inr cfg \<Rightarrow>
            let b = silent_board C now;
                done = (\<lambda>m :: ('r service_world, admin_output) act. map_prod (map_sum Failed id) id (m w))
            in if command = ''rebuild-leaderboards'' then done (admin_rebuild b pg_now)
               else if command = ''status'' then done (admin_status b)
               else if command = ''materialise-reports'' then done (admin_materialise (report_service_of b now) now)
               else (Inl (Unknown_command command), w))"

end
