(* ===== verification/Api_Private.thy ===== *)
theory Api_Private
  imports Api_Spec
begin

text \<open>
  What a player can find out about the sessions of others over HTTP: nothing. Two worlds that differ in rows only are
  answered alike where the caller has no session of the id that is asked for.
\<close>

section \<open>Worlds that differ in rows only\<close>

definition blind :: "('d, 'r) world \<Rightarrow> ('d, 'r) world \<Rightarrow> bool" where
  "blind w v \<longleftrightarrow> w_redis w = w_redis v \<and> w_faults w = w_faults v"

text \<open>Actions and handlers that treat such worlds alike and leave the rows alone, where the rows satisfy \<open>P\<close>.\<close>

definition alike :: "('d \<Rightarrow> bool) \<Rightarrow> (('d, 'r) world, 'a) act \<Rightarrow> bool" where
  "alike P m \<longleftrightarrow> (\<forall>w v. blind w v \<longrightarrow> P (w_db w) \<longrightarrow> P (w_db v) \<longrightarrow>
     fst (m w) = fst (m v) \<and> blind (snd (m w)) (snd (m v)) \<and> w_db (snd (m w)) = w_db w \<and> w_db (snd (m v)) = w_db v)"

definition web_alike :: "('d \<Rightarrow> bool) \<Rightarrow> (('d, 'r) world, 'a) web \<Rightarrow> bool" where
  "web_alike P m \<longleftrightarrow> (\<forall>w v hs res w' hs'. blind w v \<longrightarrow> P (w_db w) \<longrightarrow> P (w_db v) \<longrightarrow> m (w, hs) = (res, w', hs') \<longrightarrow>
     (\<exists>v'. m (v, hs) = (res, v', hs') \<and> blind w' v' \<and> w_db w' = w_db w \<and> w_db v' = w_db v))"

lemma web_alikeD:
  assumes "web_alike P m" and "blind w v" "P (w_db w)" "P (w_db v)" and "m (w, hs) = (res, w', hs')"
  obtains v' where "m (v, hs) = (res, v', hs')" "blind w' v'" "w_db w' = w_db w" "w_db v' = w_db v"
  using assms unfolding web_alike_def by blast

lemma web_alike_pure: "web_alike P (web_return x)" "web_alike P (web_fail e)" "web_alike P (web_check r)" "web_alike P (set_header k y)"
  by (simp_all add: web_alike_def web_return_def web_fail_def web_check_def set_header_def)

lemma web_alike_bind:
  fixes m :: "(('d, 'r) world, 'a) web"
  assumes "web_alike P m" and "\<And>x. web_alike P (f x)"
  shows "web_alike P (web_bind m f)"
  unfolding web_alike_def
proof (intro allI impI)
  fix w v :: "('d, 'r) world" and hs res w' hs'
  assume b: "blind w v" and P: "P (w_db w)" "P (w_db v)" and run: "web_bind m f (w, hs) = (res, w', hs')"
  from run show "\<exists>v'. web_bind m f (v, hs) = (res, v', hs') \<and> blind w' v' \<and> w_db w' = w_db w \<and> w_db v' = w_db v"
  proof (cases rule: web_bind_cases)
    case (Stopped e)
    from web_alikeD [OF assms(1) b P Stopped(1)] obtain v' where
      "m (v, hs) = (Inl e, v', hs')" "blind w' v'" "w_db w' = w_db w" "w_db v' = w_db v" .
    then show ?thesis using Stopped(2) by (simp add: web_bind_def)
  next
    case (Ran x s1)
    obtain w1 hs1 where s1: "s1 = (w1, hs1)" by fastforce
    from web_alikeD [OF assms(1) b P Ran(1) [unfolded s1]] obtain v1 where
      v1: "m (v, hs) = (Inr x, v1, hs1)" "blind w1 v1" "w_db w1 = w_db w" "w_db v1 = w_db v" .
    have P1: "P (w_db w1)" "P (w_db v1)" using P v1(3,4) by simp_all
    from web_alikeD [OF assms(2) v1(2) P1 Ran(2) [unfolded s1]] obtain v' where
      "f x (v1, hs1) = (res, v', hs')" "blind w' v'" "w_db w' = w_db w1" "w_db v' = w_db v1" .
    then show ?thesis using v1 by (simp add: web_bind_def)
  qed
qed

lemma web_alike_call:
  fixes m :: "(('d, 'r) world, 'a) act"
  assumes "alike P m"
  shows "web_alike P (web_call h m)"
  unfolding web_alike_def
proof (intro allI impI)
  fix w v :: "('d, 'r) world" and hs res w' hs'
  assume b: "blind w v" and P: "P (w_db w)" "P (w_db v)" and run: "web_call h m (w, hs) = (res, w', hs')"
  have "fst (m w) = fst (m v)" "blind (snd (m w)) (snd (m v))" "w_db (snd (m w)) = w_db w" "w_db (snd (m v)) = w_db v"
    using assms b P unfolding alike_def by blast+
  then show "\<exists>v'. web_call h m (v, hs) = (res, v', hs') \<and> blind w' v' \<and> w_db w' = w_db w \<and> w_db v' = w_db v"
    using run by (cases "m w"; cases "m v") (simp add: web_call_def)
qed

lemmas web_alike_rules = web_alike_pure web_alike_bind web_alike_call

section \<open>Limits\<close>

lemma next_fault_blind:
  assumes "blind w v"
  shows "fst (next_fault w) = fst (next_fault v)" "blind (snd (next_fault w)) (snd (next_fault v))"
  using assms by (simp_all add: blind_def next_fault_of)

lemma redis_call_alike:
  fixes c :: "'r \<Rightarrow> 'a \<times> 'r" and P :: "'d \<Rightarrow> bool"
  shows "alike P (redis_call c)"
  unfolding alike_def
proof (intro allI impI)
  fix w v :: "('d, 'r) world" assume b: "blind w v"
  obtain ft w1 where w: "next_fault w = (ft, w1)" by fastforce
  obtain ft' v1 where v: "next_fault v = (ft', v1)" by fastforce
  have eq: "ft' = ft" "w_redis w1 = w_redis v1" "w_faults w1 = w_faults v1" "w_db w1 = w_db w" "w_db v1 = w_db v"
    using next_fault_blind [OF b] next_fault_same [OF w] next_fault_same [OF v] w v by (simp_all add: blind_def)
  obtain x r where c: "c (w_redis v1) = (x, r)" by fastforce
  show "fst (redis_call c w) = fst (redis_call c v) \<and> blind (snd (redis_call c w)) (snd (redis_call c v))
      \<and> w_db (snd (redis_call c w)) = w_db w \<and> w_db (snd (redis_call c v)) = w_db v"
    using eq c w v by (cases ft) (simp_all add: redis_call_def blind_def)
qed

lemma alike_bind_ret:
  fixes m :: "(('d, 'r) world, 'a) act"
  assumes "alike P m"
  shows "alike P (act_bind m (\<lambda>x. ret (g x)))"
  unfolding alike_def
proof (intro allI impI)
  fix w v :: "('d, 'r) world" assume b: "blind w v" and P: "P (w_db w)" "P (w_db v)"
  have "fst (m w) = fst (m v)" "blind (snd (m w)) (snd (m v))" "w_db (snd (m w)) = w_db w" "w_db (snd (m v)) = w_db v"
    using assms b P unfolding alike_def by blast+
  then show "fst (act_bind m (\<lambda>x. ret (g x)) w) = fst (act_bind m (\<lambda>x. ret (g x)) v)
      \<and> blind (snd (act_bind m (\<lambda>x. ret (g x)) w)) (snd (act_bind m (\<lambda>x. ret (g x)) v))
      \<and> w_db (snd (act_bind m (\<lambda>x. ret (g x)) w)) = w_db w \<and> w_db (snd (act_bind m (\<lambda>x. ret (g x)) v)) = w_db v"
    by (cases "m w"; cases "m v"; cases "fst (m w)") (simp_all add: act_bind_def)
qed

lemma Allow_alike: "alike P (Allow S key limit window)"
  unfolding Allow_def case_prod_beta by (rule alike_bind_ret [OF redis_call_alike])

lemma limit_alike:
  fixes l :: "'r string_ops option" and P :: "'d \<Rightarrow> bool"
  shows "web_alike P (enforceLimit l key limit window)"
proof (cases l)
  case None
  then show ?thesis by (simp add: web_alike_def enforceLimit_def)
next
  case (Some S)
  show ?thesis
    unfolding web_alike_def
  proof (intro allI impI)
    fix w v :: "('d, 'r) world" and hs res w' hs'
    assume b: "blind w v" and P: "P (w_db w)" "P (w_db v)" and run: "enforceLimit l key limit window (w, hs) = (res, w', hs')"
    obtain a w1 where w: "Allow S key limit window w = (a, w1)" by fastforce
    obtain a' v1 where v: "Allow S key limit window v = (a', v1)" by fastforce
    have "a' = a" "blind w1 v1" "w_db w1 = w_db w" "w_db v1 = w_db v"
      using Allow_alike [of P S key limit window] b P w v unfolding alike_def by (metis fst_conv snd_conv)+
    then show "\<exists>v'. enforceLimit l key limit window (v, hs) = (res, v', hs') \<and> blind w' v' \<and> w_db w' = w_db w \<and> w_db v' = w_db v"
      using run Some w v
      by (cases a) (auto simp: enforceLimit_def web_bind_def set_header_def web_return_def web_fail_def split: if_splits)
  qed
qed

section \<open>Sessions of others\<close>

lemma stranger_alike:
  fixes m :: "('r service_world, 'a) act"
  assumes "\<And>w. not_mine u i (w_db w) \<Longrightarrow> m w =
    (Inl (if fst (next_fault w) = NoFault \<and> fst (next_fault (snd (next_fault w))) = NoFault then ErrNotFound else ErrDB),
     if fst (next_fault w) = NoFault then snd (next_fault (snd (next_fault w))) else snd (next_fault w))"
  shows "alike (not_mine u i) m"
  unfolding alike_def
proof (intro allI impI)
  fix w v :: "'r service_world" assume b: "blind w v" and P: "not_mine u i (w_db w)" "not_mine u i (w_db v)"
  note one = next_fault_blind [OF b] and two = next_fault_blind [OF next_fault_blind(2) [OF b]]
  show "fst (m w) = fst (m v) \<and> blind (snd (m w)) (snd (m v)) \<and> w_db (snd (m w)) = w_db w \<and> w_db (snd (m v)) = w_db v"
    using assms [OF P(1)] assms [OF P(2)] one two by simp
qed

lemma session_Get_alike: "alike (not_mine u i) (session_Get svc u i)"
  unfolding alike_def using next_fault_blind by (auto simp: stranger_Get)

lemma session_Move_alike: "alike (not_mine u i) (session_Move svc c u i mv)"
  by (rule stranger_alike [OF stranger_Move])

lemma Finish_alike: "alike (not_mine u i) (Finish svc c u i)"
  by (rule stranger_alike [OF stranger_Finish])

text \<open>The user of the token a request carries, and the routes that name a session.\<close>

definition caller :: "'r deps \<Rightarrow> http_call \<Rightarrow> http_request \<Rightarrow> int option" where
  "caller d c r =
     (case (dp_Auth d, bearerToken r) of
        (Some svc, Some raw) \<Rightarrow>
          (case token_Verify (as_jwt svc) (as_tokens svc) (hc_now c) raw of Inl _ \<Rightarrow> None | Inr claims \<Rightarrow> Some (ak_UserID claims))
      | _ \<Rightarrow> None)"

definition session_routes :: "string \<Rightarrow> route set" where
  "session_routes ident = {To_session ident, To_move ident, To_finish ident}"

lemma authenticated_caller: "caller d c r = Some u \<Longrightarrow> authenticated d c r h = h u"
  by (auto simp: caller_def authenticated_def mounted_def Authenticate_def split: option.splits sum.splits)

lemma request_alike:
  assumes "uuid_of N ident = Some i" and "web_alike P (K (u, i))"
  shows "web_alike P (web_bind (web_check (sessionRequest N u ident)) K)"
proof -
  have "sessionRequest N u ident = Inr (u, i) \<or> (\<exists>e. sessionRequest N u ident = Inl e)"
    using assms(1) by (simp add: sessionRequest_def UserIDFrom_def)
  then have "web_bind (web_check (sessionRequest N u ident)) K = K (u, i)
      \<or> (\<exists>e. web_bind (web_check (sessionRequest N u ident)) K = web_fail e)"
    by (auto simp: web_bind_def web_check_def web_fail_def fun_eq_iff)
  then show ?thesis using assms(2) web_alike_pure(2) by metis
qed

lemma handlers_alike:
  assumes "uuid_of (dp_net d) ident = Some i"
  shows "web_alike (not_mine u i) (handleGetSession d svc ident u)" "web_alike (not_mine u i) (handleFinish d svc c ident u)"
    "web_alike (not_mine u i) (limited_moves d r u (handleMove d svc c ident r u))"
  unfolding handleGetSession_def handleFinish_def handleMove_def limited_moves_def RateLimit_def
  by (intro request_alike [OF assms] limit_alike web_alike_rules session_Get_alike session_Move_alike Finish_alike
      | simp only: prod.case)+

text \<open>
  C23. Over HTTP, too, somebody else's session cannot be told from one that does not exist. Two requests with the same token
  to read, move in or finish the same id are answered alike, status, headers and body, in any two worlds with the same Redis and
  the same failing calls in which the user has no session of that id - it may belong to someone else in the one and not
  exist in the other - and they change no row.
\<close>

theorem strangers_learn_nothing:
  assumes "to \<in> session_routes ident" and "caller d c r = Some u" and "uuid_of (dp_net d) ident = Some i"
    and "not_mine u i (w_db w)" and "not_mine u i (w_db v)" and "blind w v"
  shows "fst (serve d c r to w) = fst (serve d c r to v) \<and> w_db (snd (serve d c r to w)) = w_db w"
proof -
  have same: "web_alike (not_mine u i) (dispatch d c r to)"
    using assms(1) authenticated_caller [OF assms(2)] handlers_alike [OF assms(3)]
    by (auto simp: session_routes_def dispatch_def mounted_def no_endpoint_def web_alike_pure split: option.split)
  obtain res w' hs where run: "dispatch d c r to (w, [(''X-Request-Id'', request_id c r)]) = (res, w', hs)"
    by (metis prod_cases3)
  from web_alikeD [OF same assms(6,4,5) run] obtain v' where
    "dispatch d c r to (v, [(''X-Request-Id'', request_id c r)]) = (res, v', hs)" "w_db w' = w_db w" .
  then show ?thesis using run by (cases res) (auto simp: serve_def)
qed

text \<open>A token of user 1, and a session of user 2.\<close>

definition others_game :: "mem_redis service_world" where
  "others_game = \<lparr>w_db = empty_db\<lparr>users := [demo_player], sessions := [demo_session\<lparr>gs_UserID := 2\<rparr>]\<rparr>, w_redis = mem_empty, w_faults = []\<rparr>"

definition named_deps :: "mem_redis deps" where
  "named_deps = play_deps\<lparr>dp_net := web_net\<lparr>uuid_of := (\<lambda>_. Some 9)\<rparr>\<rparr>"

lemma trimmed_token: "trim_space ''token'' = ''token''"
  by (rule trim_space_lower(1)) (simp_all add: is_lower_def)

lemma strangers_learn_nothing_witness:
  "gs_UserID (hd (sessions (w_db others_game))) = 2 \<and> sessions (w_db lobby) = []
   \<and> fst (serve named_deps web_call_at play_request (To_finish ''9'') others_game) = fst (serve named_deps web_call_at play_request (To_finish ''9'') lobby)"
proof -
  have "token_Verify demo_jwt demo_issuer (second + 1) ''token'' = Inr \<lparr>ak_UserID = 1, ak_TokenID = ''id'', ak_ExpiresAt = 901 * second\<rparr>"
    by (simp add: token_Verify_def demo_jwt_def demo_claims_def demo_issuer_def fits_int64_def second_def)
  moreover have "bearerToken play_request = Some ''token''"
    using trimmed_token by (simp add: bearerToken_def play_request_def web_request_def equal_fold_def)
  ultimately have "caller named_deps web_call_at play_request = Some 1"
    by (simp add: caller_def named_deps_def play_deps_def demo_auth_def web_call_at_def)
  moreover have "not_mine 1 9 (w_db others_game)" "not_mine 1 9 (w_db lobby)" "blind others_game lobby"
    by (simp_all add: not_mine_def find_session_def others_game_def lobby_def demo_session_def empty_db_def blind_def)
  ultimately have "fst (serve named_deps web_call_at play_request (To_finish ''9'') others_game)
      = fst (serve named_deps web_call_at play_request (To_finish ''9'') lobby)"
    using strangers_learn_nothing [of "To_finish ''9''" "''9''" named_deps web_call_at play_request 1 9 others_game lobby]
    by (simp add: session_routes_def named_deps_def)
  then show ?thesis by (simp add: others_game_def lobby_def empty_db_def)
qed

end
