(* ===== verification/Spec2Isabelle.thy ===== *)
theory Spec2Isabelle
  imports Projector_Spec Reports_Spec Config_Spec RateLimit Tickets Realtime_Spec Commands Api_Private
begin

text \<open>
  Podium is a game platform. Players start sessions of five games, the service decides every move,
  a finished session becomes a score in Postgres, and Redis holds the leaderboards that are projected
  from the scores. A worker publishes scores that never reached Redis and tidies up; a command rebuilds
  every board from the history. Accounts, rate limits, live updates and reports stand around that core.

  \<^bold>\<open>How the parts interact.\<close> \<open>internal/session\<close> loads a session's row, calls the engine of its
  game (\<open>internal/games\<close>), writes the next state back in the same transaction and, when the game is done,
  the score with it. After the commit it publishes the score with \<open>internal/leaderboard\<close>, which runs
  one Lua script over the eight boards of the score, and marks the score as projected. A failure to
  publish is swallowed: \<open>internal/projector\<close> sweeps the scores that carry no mark. \<open>rebuild.go\<close> makes the
  boards of the current windows anew from \<open>internal/scores\<close>. \<open>internal/reports\<close> reads the boards, the snapshots of
  closed windows and the history. \<open>internal/auth\<close> signs users in and rotates their refresh tokens in
  Postgres; \<open>internal/ratelimit\<close> counts calls in Redis. \<open>internal/realtime\<close> keeps its tickets there, hears of
  changed boards over Pub/Sub and sends them to whoever is subscribed.

  \<^bold>\<open>Theories.\<close>
  \<^item> \<open>Prelude\<close>: lemmas on lists, options and integers; \<open>Go_Time\<close>, \<open>Go_Strings\<close>, \<open>Json\<close>, \<open>Float64\<close>, \<open>Sha256\<close>:
    what the program uses of Go's \<open>time\<close>, \<open>strings\<close>, \<open>encoding/json\<close>, \<open>float64\<close> (round to nearest even, exact
    rationals) and \<open>crypto/sha256\<close> (32-bit words). Instants are integers of nanoseconds since the zero time.
  \<^item> \<open>Rng\<close> (\<open>rng.go\<close>), \<open>Game_Core\<close> and \<open>Scoring\<close> (\<open>games.go\<close>: engines, adapter, errors, points), then one theory per
    game (\<open>NumberGuess\<close>, \<open>ReactionGame\<close>, \<open>MathSprintGame\<close>, \<open>MemoryGame\<close>, \<open>WordScrambleGame\<close> over \<open>WordList\<close>), and
    \<open>Registry\<close>. Each game has its state as a record, its start, moves, view and raw value, the round trip of
    its stored state, an invariant of every state that a player can reach, and what its scores mean.
  \<^item> \<open>Effects\<close>: actions that call a database, Redis or the engine of a game. The state has the rows, Redis and
    a schedule of faults: each call in turn succeeds, fails, or takes effect while its answer is lost.
    A transaction of \<open>in_tx\<close> keeps its rows only when its commit took effect. Two locales give the
    rules of composed actions: \<open>frame\<close> (a relation every call keeps) and \<open>evolution\<close> (an invariant of the rows and
    a relation between earlier and later rows, which transactions respect).
  \<^item> \<open>Store\<close> (\<open>internal/store/db\<close>): the rows as records and every generated statement as a function of them, with
    the constraints of the migrations as error values.
  \<^item> \<open>Keys\<close> (\<open>keys.go\<close>): periods, windows, key names. \<open>Redis\<close>: the operations the boards use as a record, and the
    locale \<open>redis_server\<close> of the laws that Redis documents; a server in memory satisfies them. \<open>Names\<close>
    (\<open>names.go\<close>, \<open>internal/user\<close>): the cache of usernames. \<open>Leaderboard\<close> (\<open>leaderboard.go\<close>, \<open>submit.lua\<close>): submitting and reading.
  \<^item> \<open>Session\<close> (\<open>session.go\<close>) has the operations, \<open>Session_Rules\<close> the invariant of the rows and what each
    operation keeps, \<open>Session_Spec\<close> the step relation of all operations and its properties.
  \<^item> \<open>Rebuild\<close> (\<open>rebuild.go\<close>), \<open>Scores\<close> (\<open>internal/scores\<close>) and \<open>Rebuild_Spec\<close>; \<open>Projector\<close> (\<open>internal/projector\<close>) and
    \<open>Projector_Spec\<close>, where the API and the worker run interleaved.
  \<^item> \<open>Reports\<close> (\<open>internal/reports\<close>) and \<open>Reports_Spec\<close>: three sources of a ranking and the snapshots of closed windows.
  \<^item> \<open>Go_Parse\<close> (\<open>strconv\<close>, \<open>time.ParseDuration\<close>, log levels), \<open>Config\<close> (\<open>internal/config\<close>) and \<open>Config_Spec\<close>. Whether a text is a
    URL is the parameter \<open>url_ok\<close>.
  \<^item> \<open>Base64\<close> (\<open>encoding/base64\<close>), \<open>Passwords\<close> (\<open>password.go\<close>), \<open>Auth\<close> (\<open>service.go\<close>, \<open>token.go\<close>). The packages \<open>argon2\<close> and \<open>jwt\<close> are
    the parameters \<open>argon2_ops\<close> and \<open>jwt_ops\<close>; what the code relies on of \<open>jwt\<close> is \<open>jwt_laws\<close>. \<open>Rotation\<close> is the abstract
    machine of refresh tokens, \<open>Auth_Spec\<close> shows that the service implements it, \<open>Auth_Demo\<close> has an instance.
  \<^item> \<open>Redis_Strings\<close>: strings that expire, with the locale \<open>string_server\<close> of their laws and a server in memory;
    \<open>RateLimit\<close> (\<open>ratelimit.go\<close>, \<open>fixed_window.lua\<close>); \<open>Tickets\<close> and \<open>Channels\<close> (\<open>ticket.go\<close>, \<open>channel.go\<close>).
  \<^item> \<open>Hub\<close> (\<open>hub.go\<close>, \<open>ws.go\<close>, \<open>bridge.go\<close>) has the functions, \<open>Hub_Steps\<close> the goroutines around the hub as a step
    relation whose steps are what the lock or one channel operation makes atomic, \<open>Hub_Spec\<close> the invariant, \<open>Hub_Fresh\<close>
    the age of what a client is shown, and \<open>Realtime_Spec\<close> the properties.
  \<^item> \<open>Http\<close> (\<open>respond.go\<close>, \<open>validate.go\<close>, \<open>clientip.go\<close>, \<open>ratelimit.go\<close> and the middleware of \<open>internal/httpapi\<close>) has what the handlers
    share, \<open>Http_Handlers\<close> every handler and the groups of routes of \<open>router.go\<close>. A handler is an action on the world and the
    headers of its response; a request comes with its route, as \<open>chi\<close> matches paths, and with what the services get from
    outside. What the code uses of \<open>net\<close>, \<open>net/mail\<close> and \<open>google/uuid\<close> is the parameter \<open>net_ops\<close>. \<open>Http_Spec\<close> has the errors, tokens and
    refusals of every route, \<open>Http_Login\<close> registration and login, \<open>Http_Demo\<close> an instance.
  \<^item> \<open>Api_Spec\<close>: every request is a sequence of the steps of \<open>Session_Spec\<close>, so its invariants hold of every run of the API and the
    worker. \<open>Api_Private\<close>: requests about sessions of others are answered alike in worlds that differ in rows only. \<open>Commands\<close> (\<open>cmd/api\<close>, \<open>cmd/worker\<close>, \<open>cmd/admin\<close>): what the programs assemble and run.

  \<^bold>\<open>What the properties show.\<close> A session has one score exactly when it is finished, the score is what the
  game makes of the stored state, and it never changes, whatever operations run and whichever calls fail.
  The boards do not depend on the order of submissions: they are each user's best per game and window and
  the sum of the bests. A score that is marked as projected is on the boards in every reachable state, the
  projector marks every score, and a rebuild makes exactly the boards that the recorded scores specify,
  each board all at once. A refresh token is exchanged once, and its second use ends its family; a
  ticket opens one connection; a window lets in its limit; who listens to a board is shown it again after it changed. A report lists the players its window
  specifies, whichever store answers.
  No request does anything for a user without a token of that user, none learns more from a failure than its own mistake, and
  none breaks the consistency of sessions and scores.

  \<^bold>\<open>Bounds.\<close> No loop needs fuel but the search of a scramble, which the code bounds. Fault schedules are finite
  lists of any length, after which calls succeed. Where the code converts to \<open>int32\<close> or overflows \<open>int64\<close>, the
  definitions do; other integers are unbounded, and the invariants show that they stay small.

  \<^bold>\<open>Not modelled.\<close> Concurrency inside one transaction: transactions run one after another, as the row locks
  make them do for one session; the race of two starts is stated over their statements. Cancellation
  is a flag of the call. Metrics and logs have no effect on results. The JSON text of
  responses, the listening sockets, graceful shutdown, the static pages and the start-up code are listed in the manifest
  with reasons.
\<close>

end
